(* ===== verification/Prelude.thy ===== *)
theory Prelude
  imports Main "HOL-Library.Word"
begin

text \<open>
  Shared vocabulary of the development: bytes and byte strings, Go's fixed-width unsigned
  integers, the big-endian encodings of \<^verbatim>\<open>encoding/binary\<close>, hexadecimal
  (\<^verbatim>\<open>encoding/hex\<close>), and the generic list lemmas the components rely on.

  Go strings are byte sequences, so they are modelled as \<^typ>\<open>string\<close> (a \<^typ>\<open>char list\<close>, one
  \<^typ>\<open>char\<close> per byte).  Byte slices are \<^typ>\<open>8 word list\<close>.  \<open>bytes\<close> and \<open>str\<close> are Go's
  conversions between the two.
\<close>

unbundle bit_operations_syntax

type_synonym byte = "8 word"
type_synonym u16 = "16 word"
type_synonym u32 = "32 word"
type_synonym u64 = "64 word"

named_theorems codec_simps \<open>equations that evaluate decoders on encoded input\<close>

section \<open>Strings and bytes\<close>

definition byte_of :: "char \<Rightarrow> byte" where
  "byte_of c = of_nat (of_char c)"

definition char_of_byte :: "byte \<Rightarrow> char" where
  "char_of_byte b = char_of (unat b)"

definition bytes :: "string \<Rightarrow> byte list" where
  "bytes s = map byte_of s"

definition str :: "byte list \<Rightarrow> string" where
  "str bs = map char_of_byte bs"

lemma char_of_byte_of [simp]: "char_of_byte (byte_of c) = c"
proof -
  have "of_char c < (256::nat)" by (rule nat_of_char_less_256)
  then show ?thesis by (simp add: byte_of_def char_of_byte_def unat_of_nat)
qed

lemma byte_of_char_of [simp]: "byte_of (char_of_byte b) = b"
proof -
  have "unat b < 256" using unsigned_less [of b] by simp
  then show ?thesis by (simp add: byte_of_def char_of_byte_def of_char_of)
qed

lemma str_bytes [simp]: "str (bytes s) = s"
  by (simp add: str_def bytes_def comp_def)

lemma bytes_str [simp]: "bytes (str b) = b"
  by (simp add: str_def bytes_def comp_def)

lemma length_bytes [simp]: "length (bytes s) = length s"
  by (simp add: bytes_def)

lemma length_str [simp]: "length (str b) = length b"
  by (simp add: str_def)

lemma bytes_inject [simp]: "bytes s = bytes t \<longleftrightarrow> s = t"
  by (metis str_bytes)

lemma str_inject [simp]: "str s = str t \<longleftrightarrow> s = t"
  by (metis bytes_str)

section \<open>Big-endian integers\<close>

text \<open>\<^verbatim>\<open>binary.BigEndian.AppendUint16/32/64\<close> and \<^verbatim>\<open>Uint16/32/64\<close>.\<close>

definition be16 :: "u16 \<Rightarrow> byte list" where
  "be16 v = [ucast (drop_bit 8 v), ucast v]"

definition be32 :: "u32 \<Rightarrow> byte list" where
  "be32 v = [ucast (drop_bit 24 v), ucast (drop_bit 16 v), ucast (drop_bit 8 v), ucast v]"

definition be64 :: "u64 \<Rightarrow> byte list" where
  "be64 v = [ucast (drop_bit 56 v), ucast (drop_bit 48 v), ucast (drop_bit 40 v), ucast (drop_bit 32 v),
             ucast (drop_bit 24 v), ucast (drop_bit 16 v), ucast (drop_bit 8 v), ucast v]"

text \<open>The accumulating read \<^verbatim>\<open>d = d<<8 | c\<close>, at any width.\<close>

definition be_acc :: "byte list \<Rightarrow> 'a::len word" where
  "be_acc bs = foldl (\<lambda>d c. push_bit 8 d OR ucast c) 0 bs"

abbreviation uint16_be :: "byte list \<Rightarrow> u16" where "uint16_be \<equiv> be_acc"
abbreviation uint32_be :: "byte list \<Rightarrow> u32" where "uint32_be \<equiv> be_acc"
abbreviation uint64_be :: "byte list \<Rightarrow> u64" where "uint64_be \<equiv> be_acc"

lemma length_be [simp]:
  "length (be16 a) = 2" "length (be32 b) = 4" "length (be64 c) = 8"
  by (simp_all add: be16_def be32_def be64_def)

lemma be_step:
  "push_bit 8 (drop_bit (n + 8) v) OR ucast (ucast (drop_bit n v) :: byte) = drop_bit n (v :: 'a::len word)"
proof (rule bit_word_eqI)
  fix m
  show "bit (push_bit 8 (drop_bit (n + 8) v) OR ucast (ucast (drop_bit n v) :: byte)) m = bit (drop_bit n v) m"
    if "m < LENGTH('a)"
    using that by (cases "m < 8") (auto simp: bit_simps algebra_simps)
qed

lemmas be_steps = be_step [of 0] be_step [of 8] be_step [of 16] be_step [of 24] be_step [of 32]
  be_step [of 40] be_step [of 48] be_step [of 56]

lemma uint16_be16 [simp, codec_simps]: "uint16_be (be16 v) = v"
  using be_steps [of v] by (simp add: be_acc_def be16_def drop_bit_word_beyond)

lemma uint32_be32 [simp, codec_simps]: "uint32_be (be32 v) = v"
  using be_steps [of v] by (simp add: be_acc_def be32_def drop_bit_word_beyond)

lemma uint64_be64 [simp, codec_simps]: "uint64_be (be64 v) = v"
  using be_steps [of v] by (simp add: be_acc_def be64_def drop_bit_word_beyond)

text \<open>The other direction: every byte string of the right length is the encoding of what it reads as.\<close>

lemma be_acc_simps: "be_acc (xs @ [c]) = push_bit 8 (be_acc xs) OR ucast c" "be_acc [] = 0"
  by (simp_all add: be_acc_def)

lemma be16_be_acc: "length v = 2 \<Longrightarrow> be16 (be_acc v) = v"
proof -
  assume "length v = 2"
  then obtain a b where v: "v = [a, b]" by (auto simp: length_Suc_conv numeral_2_eq_2)
  show ?thesis unfolding v be16_def be_acc_def
    by (simp, intro conjI bit_word_eqI) (auto simp: bit_simps dest: bit_imp_le_length)
qed

lemma be32_be_acc: "length v = 4 \<Longrightarrow> be32 (be_acc v) = v"
proof -
  assume "length v = 4"
  then obtain a b c d where v: "v = [a, b, c, d]" by (auto simp: length_Suc_conv eval_nat_numeral)
  show ?thesis unfolding v be32_def be_acc_def
    by (simp, intro conjI bit_word_eqI) (auto simp: bit_simps dest: bit_imp_le_length)
qed

lemma be64_be_acc: "length v = 8 \<Longrightarrow> be64 (be_acc v) = v"
proof -
  assume "length v = 8"
  then obtain a b c d e f g h where v: "v = [a, b, c, d, e, f, g, h]" by (auto simp: length_Suc_conv eval_nat_numeral)
  show ?thesis unfolding v be64_def be_acc_def
    by (simp, intro conjI bit_word_eqI) (auto simp: bit_simps dest: bit_imp_le_length)
qed

lemma unat_of_nat_len: "n < 2 ^ LENGTH('a) \<Longrightarrow> unat (of_nat n :: 'a::len word) = n"
  by (simp add: unat_of_nat take_bit_nat_eq_self)

section \<open>Results\<close>

text \<open>
  A fallible Go function returns \<^typ>\<open>'e + 'a\<close>: \<open>Inl\<close> is the error.  \<open>and_then\<close> is the early return
  \<^verbatim>\<open>if err != nil { return err }\<close>.
\<close>

definition and_then :: "'e + 'a \<Rightarrow> ('a \<Rightarrow> 'e + 'b) \<Rightarrow> 'e + 'b" where
  "and_then r f = (case r of Inl e \<Rightarrow> Inl e | Inr x \<Rightarrow> f x)"

lemma and_then_simps [simp]: "and_then (Inl e) f = Inl e" "and_then (Inr x) f = f x"
  by (simp_all add: and_then_def)

lemma and_then_Inr: "and_then r f = Inr y \<longleftrightarrow> (\<exists>x. r = Inr x \<and> f x = Inr y)"
  by (cases r) auto

lemma and_then_Inl: "and_then r f = Inl e \<longleftrightarrow> r = Inl e \<or> (\<exists>x. r = Inr x \<and> f x = Inl e)"
  by (cases r) auto

text \<open>\<open>guard_that b e\<close> is \<^verbatim>\<open>if !b { return e }\<close>.\<close>

definition guard_that :: "bool \<Rightarrow> 'e \<Rightarrow> 'e + unit" where
  "guard_that b e = (if b then Inr () else Inl e)"

lemma guard_that_simps [simp]: "guard_that True e = Inr ()" "guard_that False e = Inl e"
  by (simp_all add: guard_that_def)

lemma guard_that_Inr [simp]: "guard_that b e = Inr u \<longleftrightarrow> b"
  by (simp add: guard_that_def)

text \<open>A loop that stops at the first error.\<close>

fun each_ok :: "('a \<Rightarrow> 'e + 'b) \<Rightarrow> 'a list \<Rightarrow> 'e + 'b list" where
  "each_ok f [] = Inr []"
| "each_ok f (x # xs) = and_then (f x) (\<lambda>y. and_then (each_ok f xs) (\<lambda>ys. Inr (y # ys)))"

lemma each_ok_Inr: "each_ok f xs = Inr ys \<longleftrightarrow> list_all2 (\<lambda>x y. f x = Inr y) xs ys"
  by (induction xs arbitrary: ys) (auto simp: and_then_Inr list_all2_Cons1)

lemma each_ok_map: "\<forall>x \<in> set xs. f x = Inr (g x) \<Longrightarrow> each_ok f xs = Inr (map g xs)"
  by (induction xs) auto

section \<open>Readers\<close>

text \<open>
  A reader consumes a prefix of its input and hands back the rest, or fails.  \<open>rd_take e n\<close> is
  \<^verbatim>\<open>io.ReadFull\<close> into an \<open>n\<close>-byte buffer (and the codec's \<^verbatim>\<open>reader.take\<close>), with error \<open>e\<close>.
\<close>

type_synonym ('e, 'a) reader = "byte list \<Rightarrow> 'e + ('a \<times> byte list)"

definition rd_take :: "'e \<Rightarrow> nat \<Rightarrow> ('e, byte list) reader" where
  "rd_take e n bs = (if length bs < n then Inl e else Inr (take n bs, drop n bs))"

definition rd_be :: "'e \<Rightarrow> nat \<Rightarrow> ('e, 'a::len word) reader" where
  "rd_be e n bs = and_then (rd_take e n bs) (\<lambda>(v, r). Inr (be_acc v, r))"

abbreviation rd_u16 :: "'e \<Rightarrow> ('e, u16) reader" where "rd_u16 e \<equiv> rd_be e 2"
abbreviation rd_u32 :: "'e \<Rightarrow> ('e, u32) reader" where "rd_u32 e \<equiv> rd_be e 4"
abbreviation rd_u64 :: "'e \<Rightarrow> ('e, u64) reader" where "rd_u64 e \<equiv> rd_be e 8"

lemma rd_take_append [simp, codec_simps]: "length x = n \<Longrightarrow> rd_take e n (x @ r) = Inr (x, r)"
  by (simp add: rd_take_def)

lemma rd_take_all [codec_simps]: "length x = n \<Longrightarrow> rd_take e n x = Inr (x, [])"
  by (simp add: rd_take_def)

lemma rd_take_Cons [simp, codec_simps]: "rd_take e (Suc 0) (x # r) = Inr ([x], r)" "rd_take e (Suc 0) [] = Inl e"
  by (simp_all add: rd_take_def)

lemma rd_take_Inr: "rd_take e n bs = Inr (v, r) \<longleftrightarrow> bs = v @ r \<and> length v = n"
  by (auto simp: rd_take_def split: if_splits)

lemma rd_take_Inl: "rd_take e n bs = Inl d \<longleftrightarrow> length bs < n \<and> d = e"
  by (auto simp: rd_take_def)

lemma rd_be_append [codec_simps]: "length x = n \<Longrightarrow> rd_be e n (x @ r) = Inr (be_acc x, r)"
  by (simp add: rd_be_def)

lemma rd_be_length: "rd_be e n bs = Inr (v, r) \<Longrightarrow> length bs = n + length r"
  by (auto simp: rd_be_def rd_take_Inr and_then_Inr)

lemma rd_u_encoded [simp, codec_simps]:
  "rd_u16 e (be16 a @ r) = Inr (a, r)" "rd_u32 e (be32 b @ r) = Inr (b, r)" "rd_u64 e (be64 c @ r) = Inr (c, r)"
  by (simp_all add: rd_be_append)

text \<open>
  The contract of a self-delimiting encoding: whatever follows an encoded value, the reader returns
  the value and leaves exactly what follows.  Everything the wire formats need of a field encoding
  follows from this one law.
\<close>

locale prefix_codec =
  fixes enc :: "'a \<Rightarrow> byte list"
    and dec :: "('e, 'a) reader"
    and ok :: "'a \<Rightarrow> bool"
  assumes dec_enc: "ok x \<Longrightarrow> dec (enc x @ r) = Inr (x, r)"
begin

lemma dec_enc_all: "ok x \<Longrightarrow> dec (enc x) = Inr (x, [])"
  using dec_enc [of x "[]"] by simp

lemma dec_enc_Cons: "ok x \<Longrightarrow> dec (enc x @ b # r) = Inr (x, b # r)"
  by (rule dec_enc)

lemma enc_append_inject:
  assumes "ok x" "ok y" "enc x @ r = enc y @ s"
  shows "x = y \<and> r = s"
proof -
  have "(Inr (x, r) :: 'e + _) = Inr (y, s)"
    by (simp only: dec_enc [OF assms(1), symmetric] dec_enc [OF assms(2), symmetric] assms(3))
  then show ?thesis by simp
qed

fun dec_many :: "nat \<Rightarrow> ('e, 'a list) reader" where
  "dec_many 0 bs = Inr ([], bs)"
| "dec_many (Suc n) bs =
     and_then (dec bs) (\<lambda>(x, r). and_then (dec_many n r) (\<lambda>(xs, r'). Inr (x # xs, r')))"

lemma dec_many_enc:
  "\<forall>x \<in> set xs. ok x \<Longrightarrow> dec_many (length xs) (concat (map enc xs) @ r) = Inr (xs, r)"
  by (induction xs) (auto simp: dec_enc)

lemma concat_enc_inject:
  assumes "\<forall>x \<in> set xs. ok x" "\<forall>y \<in> set ys. ok y" "length xs = length ys"
    and "concat (map enc xs) @ r = concat (map enc ys) @ s"
  shows "xs = ys \<and> r = s"
proof -
  have "Inr (xs, r) = dec_many (length xs) (concat (map enc xs) @ r)"
    by (rule dec_many_enc [OF assms(1), symmetric])
  also have "\<dots> = dec_many (length ys) (concat (map enc ys) @ s)"
    by (simp only: assms(3,4))
  also have "\<dots> = Inr (ys, s)" by (rule dec_many_enc [OF assms(2)])
  finally show ?thesis by simp
qed

end

interpretation c_u16: prefix_codec be16 "rd_u16 e" "\<lambda>_. True" for e
  by unfold_locales (simp add: rd_u_encoded)

interpretation c_u32: prefix_codec be32 "rd_u32 e" "\<lambda>_. True" for e
  by unfold_locales (simp add: rd_u_encoded)

interpretation c_u64: prefix_codec be64 "rd_u64 e" "\<lambda>_. True" for e
  by unfold_locales (simp add: rd_u_encoded)

lemma be16_inject [simp]: "be16 a = be16 b \<longleftrightarrow> a = b"
  by (auto dest: arg_cong [where f = uint16_be])

lemma be32_inject [simp]: "be32 a = be32 b \<longleftrightarrow> a = b"
  by (auto dest: arg_cong [where f = uint32_be])

lemma be64_inject [simp]: "be64 a = be64 b \<longleftrightarrow> a = b"
  by (auto dest: arg_cong [where f = uint64_be])

section \<open>Blocks\<close>

text \<open>Cutting a list into blocks of \<open>n\<close> and joining the first \<open>m\<close> of them.\<close>

lemma concat_blocks: "concat (map (\<lambda>j. take n (drop (j * n) xs)) [0..<m]) = take (m * n) xs"
proof (induction m)
  case (Suc m)
  have "take (Suc m * n) xs = take (m * n) xs @ take n (drop (m * n) xs)"
    by (metis add.commute mult_Suc take_add)
  then show ?case using Suc by simp
qed simp

lemma concat_blocks_all: "length xs \<le> m * n \<Longrightarrow> concat (map (\<lambda>j. take n (drop (j * n) xs)) [0..<m]) = xs"
  by (simp add: concat_blocks)

section \<open>Hexadecimal\<close>

definition hexdigits :: string where
  "hexdigits = ''0123456789abcdef''"

definition hex_char :: "nat \<Rightarrow> char" where
  "hex_char n = hexdigits ! n"

definition from_hex_char :: "char \<Rightarrow> nat option" where
  "from_hex_char c =
     (let n = of_char c :: nat in
      if 48 \<le> n \<and> n \<le> 57 then Some (n - 48)
      else if 97 \<le> n \<and> n \<le> 102 then Some (n - 87)
      else if 65 \<le> n \<and> n \<le> 70 then Some (n - 55)
      else None)"

text \<open>\<^verbatim>\<open>hex.EncodeToString\<close> and \<^verbatim>\<open>hex.DecodeString\<close>; \<open>None\<close> is the error return (odd length or a bad digit).\<close>

definition hex_encode :: "byte list \<Rightarrow> string" where
  "hex_encode bs = concat (map (\<lambda>b. [hex_char (unat b div 16), hex_char (unat b mod 16)]) bs)"

fun hex_decode :: "string \<Rightarrow> byte list option" where
  "hex_decode [] = Some []"
| "hex_decode [c] = None"
| "hex_decode (c # d # r) =
     (case (from_hex_char c, from_hex_char d, hex_decode r) of
        (Some h, Some l, Some bs) \<Rightarrow> Some (of_nat (16 * h + l) # bs)
      | _ \<Rightarrow> None)"

lemma from_hex_hex_char [simp]: "n < 16 \<Longrightarrow> from_hex_char (hex_char n) = Some n"
proof -
  have "\<forall>n \<in> set [0..<16]. from_hex_char (hex_char n) = Some n" by code_simp
  then show "n < 16 \<Longrightarrow> from_hex_char (hex_char n) = Some n" by simp
qed

lemma length_hex_encode [simp]: "length (hex_encode bs) = 2 * length bs"
  by (induction bs) (simp_all add: hex_encode_def)

lemma hex_decode_encode [simp]: "hex_decode (hex_encode bs) = Some bs"
proof (induction bs)
  case (Cons b bs)
  have "unat b < 256" using unsigned_less [of b] by simp
  then have "unat b div 16 < 16" by simp
  moreover have "of_nat (16 * (unat b div 16) + unat b mod 16) = b" by simp
  ultimately show ?case using Cons by (simp add: hex_encode_def del: of_nat_add of_nat_mult)
qed (simp add: hex_encode_def)

lemma hex_encode_inject [simp]: "hex_encode a = hex_encode b \<longleftrightarrow> a = b"
  by (metis hex_decode_encode option.inject)

lemma map_filter_cong: "(\<And>x. x \<in> set xs \<Longrightarrow> f x = g x) \<Longrightarrow> List.map_filter f xs = List.map_filter g xs"
  by (induction xs) (auto simp: map_filter_simps split: option.splits)

lemma set_map_filter: "set (List.map_filter f xs) = {y. \<exists>x \<in> set xs. f x = Some y}"
  by (induction xs) (auto simp: map_filter_simps split: option.splits)

end
