(* ===== verification/Crypto.thy ===== *)
theory Crypto
  imports Prelude
begin

text \<open>
  \<^verbatim>\<open>internal/crypto/keys.go\<close>, \<^verbatim>\<open>aead.go\<close> and \<^verbatim>\<open>keyfile.go\<close>: key derivation, sealing, the bundle stream and
  the key file.  The primitives of Go's library are parameters: \<open>hkdf\<close>, \<open>hmac\<close>, \<open>sha256\<close>, \<open>pbkdf2\<close>, and
  AES-256-GCM as a record of \<^verbatim>\<open>Seal\<close> and \<^verbatim>\<open>Open\<close>.  What is relied on of them is named: \<open>gcm_ok\<close> says that
  \<^verbatim>\<open>Open\<close> accepts exactly what \<^verbatim>\<open>Seal\<close> produces under the same key, nonce and additional data, and that the
  tag is 16 bytes.
\<close>

section \<open>Keys\<close>

definition KeyLen :: nat where "KeyLen = 32"

definition Salt :: "byte list" where "Salt = bytes ''xrplbak/v1''"

text \<open>\<^verbatim>\<open>copy\<close> into a fixed array of \<open>n\<close> zero bytes.\<close>

definition to_array :: "nat \<Rightarrow> byte list \<Rightarrow> byte list" where
  "to_array n b = take n (b @ replicate n 0)"

lemma to_array_id [simp]: "length b = n \<Longrightarrow> to_array n b = b"
  by (simp add: to_array_def)

lemma length_to_array [simp]: "length (to_array n b) = n"
  by (simp add: to_array_def)

type_synonym hkdf_fn = "byte list \<Rightarrow> byte list \<Rightarrow> byte list \<Rightarrow> nat \<Rightarrow> byte list"
type_synonym hmac_fn = "byte list \<Rightarrow> byte list \<Rightarrow> byte list"

definition derive :: "hkdf_fn \<Rightarrow> byte list \<Rightarrow> byte list \<Rightarrow> byte list" where
  "derive hkdf ikm info = to_array KeyLen (hkdf ikm Salt info KeyLen)"

definition epoch_info :: "u32 \<Rightarrow> byte list" where "epoch_info e = bytes ''epoch'' @ be32 e"
definition backup_info :: "byte list \<Rightarrow> byte list" where "backup_info i = bytes ''backup'' @ i"
definition bundle_info :: "byte list \<Rightarrow> byte list" where "bundle_info i = bytes ''bundle'' @ i"
definition anchor_info :: "byte list" where "anchor_info = bytes ''anchor''"

definition DeriveEpochKey :: "hkdf_fn \<Rightarrow> byte list \<Rightarrow> u32 \<Rightarrow> byte list" where
  "DeriveEpochKey hkdf r epoch = derive hkdf r (epoch_info epoch)"

definition BackupKey :: "hkdf_fn \<Rightarrow> byte list \<Rightarrow> byte list \<Rightarrow> byte list" where
  "BackupKey hkdf e backupID = derive hkdf e (backup_info backupID)"

definition BundleKey :: "hkdf_fn \<Rightarrow> byte list \<Rightarrow> byte list \<Rightarrow> byte list" where
  "BundleKey hkdf e backupID = derive hkdf e (bundle_info backupID)"

definition AnchorKey :: "hkdf_fn \<Rightarrow> byte list \<Rightarrow> byte list" where
  "AnchorKey hkdf e = derive hkdf e anchor_info"

definition AnchorMAC :: "hkdf_fn \<Rightarrow> hmac_fn \<Rightarrow> byte list \<Rightarrow> byte list \<Rightarrow> byte list" where
  "AnchorMAC hkdf hmac e data = take 16 (hmac (AnchorKey hkdf e) data)"

definition backup_id_input :: "byte list \<Rightarrow> u32 \<Rightarrow> u32 \<Rightarrow> byte list" where
  "backup_id_input container epoch seq = container @ be32 epoch @ be32 seq"

definition BackupID :: "hmac_fn \<Rightarrow> byte list \<Rightarrow> byte list \<Rightarrow> u32 \<Rightarrow> u32 \<Rightarrow> byte list" where
  "BackupID hmac e container epoch seq = take 16 (hmac e (backup_id_input container epoch seq))"

section \<open>Sealing\<close>

record gcm =
  Seal :: "byte list \<Rightarrow> byte list \<Rightarrow> byte list \<Rightarrow> byte list \<Rightarrow> byte list"
  Open :: "byte list \<Rightarrow> byte list \<Rightarrow> byte list \<Rightarrow> byte list \<Rightarrow> byte list option"

definition TagLen :: nat where "TagLen = 16"
definition nonceLen :: nat where "nonceLen = 12"
definition FrameLen :: nat where "FrameLen = 65536"
definition ManifestNonceLen :: nat where "ManifestNonceLen = 10"

definition domainChunk :: "byte list" where "domainChunk = bytes ''xrplbak/v1/chunk''"
definition domainManifest :: "byte list" where "domainManifest = bytes ''xrplbak/v1/manifest''"
definition domainBundle :: "byte list" where "domainBundle = bytes ''xrplbak/v1/bundle''"

definition gcm_ok :: "gcm \<Rightarrow> bool" where
  "gcm_ok g \<longleftrightarrow> (\<forall>k n c a p. Open g k n c a = Some p \<longleftrightarrow> c = Seal g k n p a)
     \<and> (\<forall>k n p a. length (Seal g k n p a) = length p + TagLen)"

datatype crypto_error =
    ErrAuth | BadBundleHeader | WrongBackup "byte list" "byte list" | NoFinalFrame | ShortFrameLength
  | FrameTooLong nat nat | TruncatedFrame nat
  | KeyFileTruncated | NeedPassphrase | PassphraseKeyFailed | WrongPassphraseOrDamaged | NotAKeyFile
  | KeyFileVersion1 | UnsupportedKeyFile byte | KeyFileDamaged

definition counterNonce :: "u32 \<Rightarrow> byte list" where
  "counterNonce v = be32 v @ replicate 8 0"

definition chunkAAD :: "byte list \<Rightarrow> byte list \<Rightarrow> u16 \<Rightarrow> u16 \<Rightarrow> byte list" where
  "chunkAAD domain backupID idx tot = domain @ backupID @ be16 idx @ be16 tot"

definition open_or_auth :: "byte list option \<Rightarrow> crypto_error + byte list" where
  "open_or_auth r = (case r of None \<Rightarrow> Inl ErrAuth | Some p \<Rightarrow> Inr p)"

definition SealChunk :: "gcm \<Rightarrow> byte list \<Rightarrow> byte list \<Rightarrow> u16 \<Rightarrow> u16 \<Rightarrow> byte list \<Rightarrow> byte list" where
  "SealChunk g key backupID idx tot plain =
     Seal g key (counterNonce (ucast idx)) plain (chunkAAD domainChunk backupID idx tot)"

definition OpenChunk :: "gcm \<Rightarrow> byte list \<Rightarrow> byte list \<Rightarrow> u16 \<Rightarrow> u16 \<Rightarrow> byte list \<Rightarrow> crypto_error + byte list" where
  "OpenChunk g key backupID idx tot ct =
     open_or_auth (Open g key (counterNonce (ucast idx)) ct (chunkAAD domainChunk backupID idx tot))"

definition manifestNonce :: "byte list \<Rightarrow> u16 \<Rightarrow> byte list" where
  "manifestNonce prefix idx = to_array ManifestNonceLen prefix @ be16 idx"

text \<open>\<^verbatim>\<open>SealManifest\<close>; \<open>None\<close> is the panic on a prefix of the wrong length.\<close>

definition SealManifest :: "gcm \<Rightarrow> byte list \<Rightarrow> byte list \<Rightarrow> byte list \<Rightarrow> u16 \<Rightarrow> u16 \<Rightarrow> byte list \<Rightarrow> byte list option" where
  "SealManifest g key backupID prefix idx tot plain =
     (if length prefix \<noteq> ManifestNonceLen then None
      else Some (Seal g key (manifestNonce prefix idx) plain (chunkAAD domainManifest backupID idx tot)))"

definition OpenManifest :: "gcm \<Rightarrow> byte list \<Rightarrow> byte list \<Rightarrow> byte list \<Rightarrow> u16 \<Rightarrow> u16 \<Rightarrow> byte list \<Rightarrow> crypto_error + byte list" where
  "OpenManifest g key backupID prefix idx tot ct =
     (if length prefix \<noteq> ManifestNonceLen then Inl ErrAuth
      else open_or_auth (Open g key (manifestNonce prefix idx) ct (chunkAAD domainManifest backupID idx tot)))"

section \<open>Bundle stream\<close>

definition bundleMagic :: "byte list" where "bundleMagic = bytes ''XBK1''"

definition frameNonce :: "u32 \<Rightarrow> bool \<Rightarrow> byte list" where
  "frameNonce i final = (counterNonce i)[nonceLen - 1 := (if final then 1 else 0)]"

definition frame_count :: "nat \<Rightarrow> nat" where
  "frame_count n = (let frames = (n + FrameLen - 1) div FrameLen in if frames = 0 then 1 else frames)"

text \<open>The loop of \<open>SealBundle\<close> from frame \<open>i\<close>, with \<open>k\<close> frames to go.\<close>

fun seal_frames :: "gcm \<Rightarrow> byte list \<Rightarrow> byte list \<Rightarrow> nat \<Rightarrow> nat \<Rightarrow> byte list \<Rightarrow> byte list" where
  "seal_frames g key aad i 0 plain = []"
| "seal_frames g key aad i (Suc k) plain =
     (let lo = i * FrameLen; hi = min (lo + FrameLen) (length plain);
          ct = Seal g key (frameNonce (of_nat i) (k = 0)) (take (hi - lo) (drop lo plain)) aad
      in be32 (of_nat (length ct)) @ ct @ seal_frames g key aad (Suc i) k plain)"

definition SealBundle :: "gcm \<Rightarrow> byte list \<Rightarrow> byte list \<Rightarrow> byte list \<Rightarrow> byte list" where
  "SealBundle g key backupID plain =
     bundleMagic @ backupID @ seal_frames g key (domainBundle @ backupID) 0 (frame_count (length plain)) plain"

definition BundleID :: "byte list \<Rightarrow> crypto_error + byte list" where
  "BundleID stream =
     (if length stream < 20 \<or> take 4 stream \<noteq> bundleMagic then Inl BadBundleHeader
      else Inr (take 16 (drop 4 stream)))"

text \<open>
  The loop of \<open>OpenBundle\<close>.  \<^verbatim>\<open>binary.Read\<close> reports \<^verbatim>\<open>io.EOF\<close> at the end of the stream and another error
  inside a length field.
\<close>

function open_frames :: "gcm \<Rightarrow> byte list \<Rightarrow> byte list \<Rightarrow> u32 \<Rightarrow> byte list \<Rightarrow> byte list \<Rightarrow> crypto_error + byte list" where
  "open_frames g key aad i out bs =
     (if bs = [] then Inl NoFinalFrame
      else case rd_u32 ShortFrameLength bs of
        Inl e \<Rightarrow> Inl e
      | Inr (l, r) \<Rightarrow>
          (if unat l > FrameLen + TagLen then Inl (FrameTooLong (unat i) (unat l))
           else case rd_take (TruncatedFrame (unat i)) (unat l) r of
             Inl e \<Rightarrow> Inl e
           | Inr (ct, r') \<Rightarrow>
               (case Open g key (frameNonce i (r' = [])) ct aad of
                  None \<Rightarrow> Inl ErrAuth
                | Some p \<Rightarrow> if r' = [] then Inr (out @ p) else open_frames g key aad (i + 1) (out @ p) r')))"
  by pat_completeness auto
termination
  by (relation "measure (\<lambda>(g, key, aad, i, out, bs). length bs)") (auto dest!: rd_be_length simp: rd_take_Inr)

declare open_frames.simps [simp del]

definition OpenBundle :: "gcm \<Rightarrow> byte list \<Rightarrow> byte list \<Rightarrow> byte list \<Rightarrow> crypto_error + byte list" where
  "OpenBundle g key backupID stream =
     and_then (BundleID stream) (\<lambda>id.
       if id \<noteq> backupID then Inl (WrongBackup id backupID)
       else open_frames g key (domainBundle @ backupID) 0 [] (drop 20 stream))"

section \<open>Key file\<close>

record keyfile =
  kf_Epoch :: u32
  kf_Key :: "byte list"
  kf_AccountID :: "byte list"
  kf_WriterSeed :: "byte list"

definition keyMagic :: "byte list" where "keyMagic = bytes ''XBKK''"
definition wrappedMagic :: "byte list" where "wrappedMagic = bytes ''XBKW''"
definition keyfileAAD :: "byte list" where "keyfileAAD = bytes ''xrplbak/v1/keyfile''"
definition pbkdf2Iterations :: nat where "pbkdf2Iterations = 600000"
definition keyFileVersion :: byte where "keyFileVersion = 2"
definition keyFileBodyLen :: nat where "keyFileBodyLen = 4 + 1 + 4 + KeyLen + 20 + 16"
definition keyFileV1Len :: nat where "keyFileV1Len = keyFileBodyLen"
definition keyFileLen :: nat where "keyFileLen = keyFileBodyLen + 32"

definition keyfile_body :: "keyfile \<Rightarrow> byte list" where
  "keyfile_body k = keyMagic @ [keyFileVersion] @ be32 (kf_Epoch k) @ kf_Key k @ kf_AccountID k @ kf_WriterSeed k"

definition EncodeKeyFile :: "(byte list \<Rightarrow> byte list) \<Rightarrow> keyfile \<Rightarrow> byte list" where
  "EncodeKeyFile sha256 k = keyfile_body k @ sha256 (keyfile_body k)"

type_synonym pbkdf2_fn = "byte list \<Rightarrow> byte list \<Rightarrow> nat \<Rightarrow> nat \<Rightarrow> byte list option"

text \<open>\<^verbatim>\<open>EncodeWrapped\<close>, with the 16 random salt bytes as an argument.\<close>

definition EncodeWrapped ::
    "gcm \<Rightarrow> pbkdf2_fn \<Rightarrow> (byte list \<Rightarrow> byte list) \<Rightarrow> byte list \<Rightarrow> keyfile \<Rightarrow> byte list \<Rightarrow> crypto_error + byte list" where
  "EncodeWrapped g pbkdf2 sha256 salt k passphrase =
     (case pbkdf2 passphrase salt pbkdf2Iterations KeyLen of
        None \<Rightarrow> Inl PassphraseKeyFailed
      | Some wk \<Rightarrow>
          Inr (wrappedMagic @ [1] @ salt
               @ Seal g (to_array KeyLen wk) (replicate nonceLen 0) (EncodeKeyFile sha256 k) keyfileAAD))"

definition IsWrapped :: "byte list \<Rightarrow> bool" where
  "IsWrapped b \<longleftrightarrow> length b > 4 \<and> take 4 b = wrappedMagic"

definition unwrap :: "gcm \<Rightarrow> pbkdf2_fn \<Rightarrow> byte list \<Rightarrow> byte list option \<Rightarrow> crypto_error + byte list" where
  "unwrap g pbkdf2 b passphrase =
     (if length b < 4 + 1 + 16 + TagLen then Inl KeyFileTruncated
      else case passphrase of
        None \<Rightarrow> Inl NeedPassphrase
      | Some pw \<Rightarrow>
          (case pbkdf2 pw (take 16 (drop 5 b)) pbkdf2Iterations KeyLen of
             None \<Rightarrow> Inl PassphraseKeyFailed
           | Some wk \<Rightarrow>
               (case Open g (to_array KeyLen wk) (replicate nonceLen 0) (drop 21 b) keyfileAAD of
                  None \<Rightarrow> Inl WrongPassphraseOrDamaged
                | Some plain \<Rightarrow> Inr plain)))"

definition decode_plain :: "(byte list \<Rightarrow> byte list) \<Rightarrow> byte list \<Rightarrow> crypto_error + keyfile" where
  "decode_plain sha256 b =
     (if length b < 5 \<or> take 4 b \<noteq> keyMagic then Inl NotAKeyFile
      else if b ! 4 = 1 then (if length b \<noteq> keyFileV1Len then Inl NotAKeyFile else Inl KeyFileVersion1)
      else if b ! 4 \<noteq> keyFileVersion then Inl (UnsupportedKeyFile (b ! 4))
      else if length b \<noteq> keyFileLen then Inl NotAKeyFile
      else if sha256 (take keyFileBodyLen b) \<noteq> drop keyFileBodyLen b then Inl KeyFileDamaged
      else Inr \<lparr>kf_Epoch = uint32_be (take 4 (drop 5 b)), kf_Key = take KeyLen (drop 9 b),
                kf_AccountID = take 20 (drop (9 + KeyLen) b), kf_WriterSeed = take 16 (drop (9 + KeyLen + 20) b)\<rparr>)"

definition DecodeKeyFile ::
    "gcm \<Rightarrow> pbkdf2_fn \<Rightarrow> (byte list \<Rightarrow> byte list) \<Rightarrow> byte list \<Rightarrow> byte list option \<Rightarrow> crypto_error + keyfile" where
  "DecodeKeyFile g pbkdf2 sha256 b passphrase =
     and_then (if IsWrapped b then unwrap g pbkdf2 b passphrase else Inr b) (decode_plain sha256)"

section \<open>Separation of keys, data and nonces\<close>

lemma bytes_append: "bytes (s @ t) = bytes s @ bytes t"
  by (simp add: bytes_def)

lemma byte_of_inject [simp]: "byte_of c = byte_of d \<longleftrightarrow> c = d"
  by (metis char_of_byte_of)

lemmas info_defs = epoch_info_def backup_info_def bundle_info_def anchor_info_def

lemma backup_id_input_inject: "backup_id_input c e s = backup_id_input d f t \<longleftrightarrow> c = d \<and> e = f \<and> s = t"
  by (auto simp: backup_id_input_def append_eq_append_conv)

text \<open>
  Every derivation has its own input: the four kinds of key are derived from different info
  strings, two epochs or two backups never share one, and the input of the backup id determines the
  container, the epoch and the sequence number.
\<close>

theorem key_inputs_separate:
  "epoch_info e \<noteq> backup_info i \<and> epoch_info e \<noteq> bundle_info i \<and> epoch_info e \<noteq> anchor_info
   \<and> backup_info i \<noteq> bundle_info j \<and> backup_info i \<noteq> anchor_info \<and> bundle_info i \<noteq> anchor_info
   \<and> (epoch_info e = epoch_info f \<longleftrightarrow> e = f) \<and> (backup_info i = backup_info j \<longleftrightarrow> i = j)
   \<and> (bundle_info i = bundle_info j \<longleftrightarrow> i = j)
   \<and> (backup_id_input c e s = backup_id_input d f t \<longleftrightarrow> c = d \<and> e = f \<and> s = t)"
  by (simp add: backup_id_input_inject) (simp add: info_defs bytes_def)

lemma frameNonce_eq: "frameNonce i f = be32 i @ replicate 7 0 @ [if f then 1 else 0]"
  by (simp add: frameNonce_def counterNonce_def nonceLen_def list_update_append eval_nat_numeral)

text \<open>
  Nonces do not repeat: a frame nonce determines the frame and whether it is the last, a chunk
  nonce determines the chunk, and a manifest nonce determines the random prefix and the part.
\<close>

theorem nonces_separate:
  assumes "length p = ManifestNonceLen" "length q = ManifestNonceLen"
  shows "(frameNonce i f = frameNonce j h \<longleftrightarrow> i = j \<and> f = h)
    \<and> (counterNonce i = counterNonce j \<longleftrightarrow> i = j)
    \<and> (manifestNonce p a = manifestNonce q b \<longleftrightarrow> p = q \<and> a = b)"
  using assms by (auto simp: frameNonce_eq counterNonce_def manifestNonce_def split: if_splits)

lemma nonces_separate_witness: "manifestNonce (replicate 10 1) 0 \<noteq> manifestNonce (replicate 10 1) 1"
  using nonces_separate [of "replicate 10 1" "replicate 10 1" _ _ _ _ 0 1] by (simp add: ManifestNonceLen_def)

section \<open>Opening what was sealed\<close>

lemma open_or_auth_Inr [simp]: "open_or_auth r = Inr p \<longleftrightarrow> r = Some p"
  by (auto simp: open_or_auth_def split: option.splits)

lemma gcm_open: "gcm_ok g \<Longrightarrow> Open g k n c a = Some p \<longleftrightarrow> c = Seal g k n p a"
  by (simp add: gcm_ok_def)

lemma gcm_open_seal: "gcm_ok g \<Longrightarrow> Open g k n (Seal g k n p a) a = Some p"
  by (simp add: gcm_open)

lemma gcm_length: "gcm_ok g \<Longrightarrow> length (Seal g k n p a) = length p + 16"
  by (simp add: gcm_ok_def TagLen_def)

text \<open>
  A chunk or a manifest part opens exactly under the key, backup, position and total it was
  sealed for, and then to what was sealed.
\<close>

theorem open_iff_sealed:
  assumes "gcm_ok g"
  shows "(OpenChunk g key i idx tot ct = Inr p \<longleftrightarrow> ct = SealChunk g key i idx tot p)
    \<and> (OpenManifest g key i prefix idx tot ct = Inr p \<longleftrightarrow> SealManifest g key i prefix idx tot p = Some ct)"
  using assms
  by (auto simp: OpenChunk_def SealChunk_def OpenManifest_def SealManifest_def gcm_open)

text \<open>A concrete instance of the primitive: the tag is a fixed pad, so opening checks the pad.\<close>

definition toy_gcm :: gcm where
  "toy_gcm = \<lparr>Seal = (\<lambda>k n p a. p @ replicate 16 0),
     Open = (\<lambda>k n c a. if 16 \<le> length c \<and> drop (length c - 16) c = replicate 16 0
                       then Some (take (length c - 16) c) else None)\<rparr>"

lemma toy_gcm_ok: "gcm_ok toy_gcm"
proof -
  have "c = take (length c - 16) c @ replicate 16 0" if "drop (length c - 16) c = replicate 16 0" for c :: "byte list"
    using that append_take_drop_id [of "length c - 16" c] by simp
  then show ?thesis by (auto simp: gcm_ok_def toy_gcm_def TagLen_def)
qed

lemma open_iff_sealed_witness:
  "OpenChunk toy_gcm [] (replicate 16 1) 0 1 (SealChunk toy_gcm [] (replicate 16 1) 0 1 [9]) = Inr [9]"
  using open_iff_sealed [OF toy_gcm_ok] by blast

section \<open>The bundle stream\<close>

definition piece :: "nat \<Rightarrow> byte list \<Rightarrow> byte list" where
  "piece i plain = take FrameLen (drop (i * FrameLen) plain)"

lemma take_frame: "take (min (lo + n) (length xs) - lo) (drop lo xs) = take n (drop lo xs)"
  by (cases "lo \<le> length xs") (auto simp: min_def take_all)

lemma seal_frames_Nil [simp]: "seal_frames g key aad i k plain = [] \<longleftrightarrow> k = 0"
  by (cases k) (auto simp: be32_def Let_def)

lemma length_piece: "length (piece i plain) \<le> FrameLen"
  by (simp add: piece_def)

lemma be32_ne [simp]: "be32 v \<noteq> []"
  by (simp add: be32_def)

lemma open_frames_read:
  assumes "length ct \<le> FrameLen + TagLen"
  shows "open_frames g key aad i out (be32 (of_nat (length ct)) @ ct @ r) =
    (case Open g key (frameNonce i (r = [])) ct aad of
       None \<Rightarrow> Inl ErrAuth
     | Some p \<Rightarrow> if r = [] then Inr (out @ p) else open_frames g key aad (i + 1) (out @ p) r)"
proof -
  have u: "unat (of_nat (length ct) :: u32) = length ct"
    using assms by (simp add: unat_of_nat take_bit_nat_eq_self FrameLen_def TagLen_def)
  have t: "rd_take (TruncatedFrame (unat i)) (length ct) (ct @ r) = Inr (ct, r)" by simp
  show ?thesis
    using assms by (subst open_frames.simps) (simp add: u t not_less del: rd_take_append)
qed

lemma open_frames_step:
  assumes "gcm_ok g" "length p \<le> FrameLen" "fin \<longleftrightarrow> r = []"
  shows "open_frames g key aad i out (be32 (of_nat (length (Seal g key (frameNonce i fin) p aad)))
      @ Seal g key (frameNonce i fin) p aad @ r)
    = (if r = [] then Inr (out @ p) else open_frames g key aad (i + 1) (out @ p) r)"
proof -
  have l: "length (Seal g key (frameNonce i fin) p aad) \<le> FrameLen + TagLen"
    using assms(1,2) by (simp add: gcm_length TagLen_def)
  have "Open g key (frameNonce i (r = [])) (Seal g key (frameNonce i fin) p aad) aad = Some p"
    using gcm_open [OF assms(1)] assms(3) by simp
  then show ?thesis unfolding open_frames_read [OF l] by simp
qed

lemma open_seal_frames:
  assumes "gcm_ok g" "0 < k"
  shows "open_frames g key aad (of_nat i) out (seal_frames g key aad i k plain)
    = Inr (out @ concat (map (\<lambda>j. piece j plain) [i..<i + k]))"
  using assms(2)
proof (induction k arbitrary: i out)
  case (Suc k)
  have "open_frames g key aad (of_nat i) out (seal_frames g key aad i (Suc k) plain) =
      (if k = 0 then Inr (out @ piece i plain)
       else open_frames g key aad (of_nat (Suc i)) (out @ piece i plain) (seal_frames g key aad (Suc i) k plain))"
    using open_frames_step [OF assms(1) length_piece [of i plain], of "k = 0" "seal_frames g key aad (Suc i) k plain" key aad "of_nat i" out]
    by (simp add: take_frame piece_def Let_def add.commute)
  then show ?case using Suc.IH [of "Suc i"] by (cases k) (simp_all add: upt_conv_Cons del: upt_Suc)
qed simp

lemma frame_count_enough: "0 < frame_count n" "n \<le> frame_count n * FrameLen"
proof -
  show "0 < frame_count n" by (simp add: frame_count_def Let_def)
  have "n \<le> (n + 65535) div 65536 * 65536" by linarith
  then show "n \<le> frame_count n * FrameLen" by (auto simp: frame_count_def FrameLen_def Let_def)
qed

lemma OpenBundle_header:
  "length backupID = 16 \<Longrightarrow> OpenBundle g key backupID (bundleMagic @ backupID @ r)
     = open_frames g key (domainBundle @ backupID) 0 [] r"
  by (simp add: OpenBundle_def BundleID_def bundleMagic_def bytes_def)

lemma open_sealed_bundle:
  assumes "gcm_ok g" "length backupID = 16"
  shows "OpenBundle g key backupID (SealBundle g key backupID plain) = Inr plain"
proof -
  let ?k = "frame_count (length plain)"
  have "concat (map (\<lambda>j. piece j plain) [0..<?k]) = plain"
    unfolding piece_def by (rule concat_blocks_all [OF frame_count_enough(2)])
  then show ?thesis
    using open_seal_frames [OF assms(1) frame_count_enough(1) [of "length plain"], of key "domainBundle @ backupID" 0 "[]" plain]
    by (simp add: SealBundle_def OpenBundle_header [OF assms(2)])
qed

text \<open>
  C11.  A bundle opens to what was sealed, whatever its length: empty, shorter than one frame, an exact
  number of frames or not.
\<close>

theorem open_seal_bundle:
  assumes "gcm_ok g" "length backupID = 16"
  shows "OpenBundle g key backupID (SealBundle g key backupID plain) = Inr plain"
  using assms by (rule open_sealed_bundle)

lemma open_seal_bundle_witness:
  "OpenBundle toy_gcm [] (replicate 16 1) (SealBundle toy_gcm [] (replicate 16 1) [4, 5]) = Inr [4, 5]"
  by (rule open_seal_bundle [OF toy_gcm_ok]) simp

text \<open>The frames of the pieces \<open>ps\<close>, the last of them and no other sealed as final.\<close>

fun frames_of :: "gcm \<Rightarrow> byte list \<Rightarrow> byte list \<Rightarrow> u32 \<Rightarrow> byte list list \<Rightarrow> byte list" where
  "frames_of g key aad i [] = []"
| "frames_of g key aad i (p # ps) =
     (let ct = Seal g key (frameNonce i (ps = [])) p aad
      in be32 (of_nat (length ct)) @ ct @ frames_of g key aad (i + 1) ps)"

lemma open_frames_cases:
  assumes "open_frames g key aad i out bs = Inr p"
  obtains l ct r q where "bs = be32 l @ ct @ r" "unat l = length ct" "Open g key (frameNonce i (r = [])) ct aad = Some q"
    "if r = [] then p = out @ q else open_frames g key aad (i + 1) (out @ q) r = Inr p"
proof -
  obtain l b1 where 1: "rd_u32 ShortFrameLength bs = Inr (l, b1)"
    using assms by (subst (asm) open_frames.simps) (auto split: if_splits sum.splits)
  obtain ct r where 2: "rd_take (TruncatedFrame (unat i)) (unat l) b1 = Inr (ct, r)"
    using assms 1 by (subst (asm) open_frames.simps) (auto split: if_splits sum.splits)
  have "\<exists>q. Open g key (frameNonce i (r = [])) ct aad = Some q \<and>
      (if r = [] then p = out @ q else open_frames g key aad (i + 1) (out @ q) r = Inr p)"
    using assms 1 2 by (subst (asm) open_frames.simps) (auto split: if_splits option.splits)
  moreover have "bs = be32 l @ b1" using 1 by (auto simp: rd_be_def and_then_Inr rd_take_Inr be32_be_acc)
  ultimately show ?thesis using 2 that by (auto simp: rd_take_Inr)
qed

lemma open_frames_sound:
  assumes "gcm_ok g" "open_frames g key aad i out bs = Inr p"
  shows "\<exists>ps. ps \<noteq> [] \<and> p = out @ concat ps \<and> bs = frames_of g key aad i ps"
  using assms(2)
proof (induction bs arbitrary: i out rule: length_induct)
  case (1 bs)
  from 1(2) show ?case
  proof (cases rule: open_frames_cases)
    case (1 l ct r q)
    have ct: "ct = Seal g key (frameNonce i (r = [])) q aad" using 1(3) gcm_open [OF assms(1)] by simp
    have "of_nat (unat l) = l" by simp
    then have l: "l = of_nat (length ct)" using 1(2) by simp
    show ?thesis
    proof (cases "r = []")
      case True
      then show ?thesis using 1 ct l by (intro exI [of _ "[q]"]) (simp add: Let_def)
    next
      case False
      have "length r < length bs" using 1(1) by simp
      then obtain ps where ps: "ps \<noteq> []" "p = (out @ q) @ concat ps" "r = frames_of g key aad (i + 1) ps"
        using "1.IH" False 1(4) by (metis (no_types, lifting))
      then show ?thesis using 1(1) ct l False by (intro exI [of _ "q # ps"]) (simp add: Let_def)
    qed
  qed
qed



section \<open>The key file\<close>

definition keyfile_ok :: "keyfile \<Rightarrow> bool" where
  "keyfile_ok k \<longleftrightarrow> length (kf_Key k) = 32 \<and> length (kf_AccountID k) = 20 \<and> length (kf_WriterSeed k) = 16"

lemmas keyfile_consts = keyFileBodyLen_def keyFileLen_def keyFileV1Len_def KeyLen_def

lemma length_keyfile_body: "keyfile_ok k \<Longrightarrow> length (keyfile_body k) = keyFileBodyLen"
  by (simp add: keyfile_body_def keyfile_ok_def keyMagic_def keyfile_consts)

lemma magics: "length keyMagic = 4" "length wrappedMagic = 4" "keyMagic \<noteq> wrappedMagic"
  by (simp_all add: keyMagic_def wrappedMagic_def bytes_def)

lemma body_fields:
  assumes "keyfile_ok k"
  shows "take 4 (keyfile_body k @ r) = keyMagic" "(keyfile_body k @ r) ! 4 = keyFileVersion"
    "take 4 (drop 5 (keyfile_body k @ r)) = be32 (kf_Epoch k)" "take 32 (drop 9 (keyfile_body k @ r)) = kf_Key k"
    "take 20 (drop 41 (keyfile_body k @ r)) = kf_AccountID k" "take 16 (drop 61 (keyfile_body k @ r)) = kf_WriterSeed k"
  using assms by (simp_all add: keyfile_body_def keyfile_ok_def magics(1) nth_append)

lemma decode_plain_body:
  assumes "keyfile_ok k" "length (sha256 (keyfile_body k)) = 32"
  shows "decode_plain sha256 (keyfile_body k @ sha256 (keyfile_body k)) = Inr k"
proof -
  have l: "length (keyfile_body k) = 77" using length_keyfile_body [OF assms(1)] by (simp add: keyfile_consts)
  show ?thesis
    using body_fields [OF assms(1), of "sha256 (keyfile_body k)"] assms l
    by (simp add: decode_plain_def keyfile_consts keyFileVersion_def keyfile_ok_def)
qed

lemma not_wrapped: "keyfile_ok k \<Longrightarrow> \<not> IsWrapped (EncodeKeyFile sha256 k)"
  using body_fields(1) [of k "sha256 (keyfile_body k)"] magics(3) by (simp add: IsWrapped_def EncodeKeyFile_def)

lemma wrapped_parts:
  assumes "length salt = 16" "b = wrappedMagic @ [1] @ salt @ ct"
  shows "length b > 4 \<and> take 4 b = wrappedMagic" "take 16 (drop 5 b) = salt" "drop 21 b = ct" "length b = 21 + length ct"
  using assms by (simp_all add: magics(2))

lemma key_file_decodes:
  assumes "\<forall>d. length (sha256 d) = 32" "keyfile_ok k"
  shows "DecodeKeyFile g pbkdf2 sha256 (EncodeKeyFile sha256 k) pw = Inr k"
proof -
  have "decode_plain sha256 (EncodeKeyFile sha256 k) = Inr k"
    unfolding EncodeKeyFile_def by (rule decode_plain_body [OF assms(2)]) (simp add: assms(1))
  then show ?thesis by (simp add: DecodeKeyFile_def not_wrapped [OF assms(2)])
qed

lemma wrapped_key_file_decodes:
  assumes "gcm_ok g" "\<forall>d. length (sha256 d) = 32" "keyfile_ok k" "length salt = 16" "EncodeWrapped g pbkdf2 sha256 salt k pass = Inr b"
  shows "IsWrapped b \<and> DecodeKeyFile g pbkdf2 sha256 b (Some pass) = Inr k"
proof -
  obtain wk where wk: "pbkdf2 pass salt pbkdf2Iterations KeyLen = Some wk"
    and b: "b = wrappedMagic @ [1] @ salt
      @ Seal g (to_array KeyLen wk) (replicate nonceLen 0) (EncodeKeyFile sha256 k) keyfileAAD"
    using assms(5) by (auto simp: EncodeWrapped_def split: option.splits)
  note p = wrapped_parts [OF assms(4) b]
  have "decode_plain sha256 (EncodeKeyFile sha256 k) = Inr k"
    unfolding EncodeKeyFile_def by (rule decode_plain_body [OF assms(3)]) (simp add: assms(2))
  moreover have "unwrap g pbkdf2 b (Some pass) = Inr (EncodeKeyFile sha256 k)"
    using p wk gcm_open_seal [OF assms(1)] gcm_length [OF assms(1)] by (simp add: unwrap_def TagLen_def)
  ultimately show ?thesis using p(1) by (simp add: DecodeKeyFile_def IsWrapped_def)
qed

text \<open>
  C36.  A key file reads back as it was written: the plain form with any passphrase or none, the wrapped
  form with the passphrase it was wrapped under.
\<close>

theorem decode_key_file:
  assumes "gcm_ok g" "\<forall>d. length (sha256 d) = 32" "keyfile_ok k" "length salt = 16"
  shows "DecodeKeyFile g pbkdf2 sha256 (EncodeKeyFile sha256 k) pw = Inr k
    \<and> (EncodeWrapped g pbkdf2 sha256 salt k pass = Inr b \<longrightarrow> DecodeKeyFile g pbkdf2 sha256 b (Some pass) = Inr k)"
  using key_file_decodes [OF assms(2,3)] wrapped_key_file_decodes [OF assms] by blast

definition sample_keyfile :: keyfile where
  "sample_keyfile = \<lparr>kf_Epoch = 3, kf_Key = replicate 32 5, kf_AccountID = replicate 20 6, kf_WriterSeed = replicate 16 7\<rparr>"

lemma sample_keyfile_ok: "keyfile_ok sample_keyfile"
  by (simp add: sample_keyfile_def keyfile_ok_def)

lemma decode_key_file_witness:
  "DecodeKeyFile toy_gcm (\<lambda>_ _ _ _. Some []) (\<lambda>_. replicate 32 1) (EncodeKeyFile (\<lambda>_. replicate 32 1) sample_keyfile) None
     = Inr sample_keyfile"
  using decode_key_file [OF toy_gcm_ok, of "\<lambda>_. replicate 32 1" sample_keyfile "replicate 16 0"] sample_keyfile_ok by simp

lemma split_body:
  assumes "length b = 109"
  shows "b = take 4 b @ [b ! 4] @ take 4 (drop 5 b) @ take 32 (drop 9 b) @ take 20 (drop 41 b) @ take 16 (drop 61 b) @ drop 77 b"
proof -
  have d: "drop m b = take n (drop m b) @ drop (n + m) b" for m n
    by (metis append_take_drop_id drop_drop)
  have "drop 4 b = [b ! 4] @ drop 5 b" using assms Cons_nth_drop_Suc [of 4 b] by simp
  then show ?thesis using d [of 0 4] d [of 5 4] d [of 9 32] d [of 41 20] d [of 61 16] by simp
qed

lemma decode_plain_exact:
  assumes "decode_plain sha256 b = Inr k"
  shows "keyfile_ok k \<and> b = EncodeKeyFile sha256 k"
proof -
  have c: "length b = 109" "take 4 b = keyMagic" "b ! 4 = keyFileVersion" "sha256 (take 77 b) = drop 77 b"
    and k: "k = \<lparr>kf_Epoch = uint32_be (take 4 (drop 5 b)), kf_Key = take 32 (drop 9 b),
      kf_AccountID = take 20 (drop 41 b), kf_WriterSeed = take 16 (drop 61 b)\<rparr>"
    using assms by (auto simp: decode_plain_def keyfile_consts keyFileVersion_def split: if_splits)
  have ok: "keyfile_ok k" using c(1) by (simp add: k keyfile_ok_def)
  have "b = keyfile_body k @ drop 77 b"
    using split_body [OF c(1)] c by (simp add: keyfile_body_def k be32_be_acc)
  moreover have "length (keyfile_body k) = 77" using length_keyfile_body [OF ok] by (simp add: keyfile_consts)
  ultimately have "b = keyfile_body k @ drop 77 b" "take 77 b = keyfile_body k" by (simp, metis append_eq_conv_conj)
  then show ?thesis using ok c(4) by (simp add: EncodeKeyFile_def)
qed

text \<open>
  A damaged plain key file is never read as another key: whatever decodes without a passphrase is,
  byte for byte, the file written for the key it decodes to.
\<close>

theorem key_file_exact:
  assumes "DecodeKeyFile g pbkdf2 sha256 b pw = Inr k" "\<not> IsWrapped b"
  shows "b = EncodeKeyFile sha256 k \<and> keyfile_ok k"
  using assms decode_plain_exact by (auto simp: DecodeKeyFile_def)

lemma key_file_exact_witness:
  "keyfile_ok sample_keyfile"
proof -
  have "DecodeKeyFile toy_gcm (\<lambda>_ _ _ _. None) (\<lambda>_. replicate 32 1) (EncodeKeyFile (\<lambda>_. replicate 32 1) sample_keyfile) None
     = Inr sample_keyfile"
    using decode_plain_body [OF sample_keyfile_ok, of "\<lambda>_. replicate 32 1"] not_wrapped [OF sample_keyfile_ok, of "\<lambda>_. replicate 32 1"]
    by (simp add: DecodeKeyFile_def EncodeKeyFile_def)
  from key_file_exact [OF this not_wrapped [OF sample_keyfile_ok]] show ?thesis by blast
qed

end
