(* ===== verification/Anchor.thy ===== *)
theory Anchor
  imports Crypto
begin

text \<open>
  \<^verbatim>\<open>internal/anchor/anchor.go\<close>: the DID Data record that points at the latest manifest.
\<close>

section \<open>Definitions\<close>

definition anchor_Len :: nat where "anchor_Len = 1 + 16 + 32 + 4 + 4 + 4 + 16"

record anchor =
  an_BackupID :: "byte list"
  an_ManifestTxHash :: "byte list"
  an_ManifestLedger :: u32
  an_Epoch :: u32
  an_Seq :: u32

datatype anchor_error = NotAnAnchor

definition anchor_body :: "anchor \<Rightarrow> byte list" where
  "anchor_body r =
     [1] @ an_BackupID r @ an_ManifestTxHash r @ be32 (an_ManifestLedger r) @ be32 (an_Epoch r) @ be32 (an_Seq r)"

definition anchor_Encode :: "hkdf_fn \<Rightarrow> hmac_fn \<Rightarrow> byte list \<Rightarrow> anchor \<Rightarrow> byte list" where
  "anchor_Encode hkdf hmac k r = anchor_body r @ AnchorMAC hkdf hmac k (anchor_body r)"

definition anchor_Parse :: "byte list \<Rightarrow> anchor_error + anchor" where
  "anchor_Parse b =
     (if length b \<noteq> anchor_Len \<or> b ! 0 \<noteq> 1 then Inl NotAnAnchor
      else Inr \<lparr>an_BackupID = take 16 (drop 1 b), an_ManifestTxHash = take 32 (drop 17 b),
                an_ManifestLedger = uint32_be (take 4 (drop 49 b)), an_Epoch = uint32_be (take 4 (drop 53 b)),
                an_Seq = uint32_be (take 4 (drop 57 b))\<rparr>)"

definition anchor_Verify :: "hkdf_fn \<Rightarrow> hmac_fn \<Rightarrow> byte list \<Rightarrow> byte list \<Rightarrow> bool" where
  "anchor_Verify hkdf hmac k b \<longleftrightarrow>
     length b = anchor_Len \<and> AnchorMAC hkdf hmac k (take (anchor_Len - 16) b) = drop (anchor_Len - 16) b"

section \<open>Properties\<close>

definition anchor_ok :: "anchor \<Rightarrow> bool" where
  "anchor_ok r \<longleftrightarrow> length (an_BackupID r) = 16 \<and> length (an_ManifestTxHash r) = 32"

lemma length_AnchorMAC: "\<forall>k d. length (hmac k d) = 32 \<Longrightarrow> length (AnchorMAC hkdf hmac k b) = 16"
  by (simp add: AnchorMAC_def)

lemma length_anchor_body: "anchor_ok r \<Longrightarrow> length (anchor_body r) = 61"
  by (simp add: anchor_body_def anchor_ok_def)

lemma anchor_fields:
  assumes "anchor_ok r"
  shows "(anchor_body r @ t) ! 0 = 1" "take 16 (drop 1 (anchor_body r @ t)) = an_BackupID r"
    "take 32 (drop 17 (anchor_body r @ t)) = an_ManifestTxHash r"
    "take 4 (drop 49 (anchor_body r @ t)) = be32 (an_ManifestLedger r)"
    "take 4 (drop 53 (anchor_body r @ t)) = be32 (an_Epoch r)" "take 4 (drop 57 (anchor_body r @ t)) = be32 (an_Seq r)"
  using assms by (simp_all add: anchor_body_def anchor_ok_def)

lemma parse_anchor_body:
  assumes "anchor_ok r" "length t = 16"
  shows "anchor_Parse (anchor_body r @ t) = Inr r"
proof -
  have "length (anchor_body r @ t) = 77" using length_anchor_body [OF assms(1)] assms(2) by simp
  then show ?thesis
    unfolding anchor_Parse_def anchor_fields [OF assms(1)] by (simp add: anchor_Len_def)
qed

lemma anchor_split:
  assumes "length b = 77" "b ! 0 = 1"
  shows "take 61 b = [1] @ take 16 (drop 1 b) @ take 32 (drop 17 b) @ take 4 (drop 49 b) @ take 4 (drop 53 b) @ take 4 (drop 57 b)"
proof -
  have d: "take (n + k) (drop m b) = take n (drop m b) @ take k (drop (n + m) b)" for m n k
    by (metis take_add drop_drop)
  have "take 1 b = [1]" using assms by (cases b) auto
  then show ?thesis using d [of 1 60 0] d [of 16 44 1] d [of 32 12 17] d [of 4 8 49] d [of 4 4 53] by simp
qed

text \<open>
  An anchor reads back and verifies, and nothing else does: a DID record that verifies and parses is
  byte for byte the record encoded, under that epoch key, from the fields it parses to.
\<close>

theorem anchor_exact:
  assumes "\<forall>k d. length (hmac k d) = 32"
  shows "(anchor_ok r \<longrightarrow> anchor_Parse (anchor_Encode hkdf hmac k r) = Inr r
            \<and> anchor_Verify hkdf hmac k (anchor_Encode hkdf hmac k r))
    \<and> (anchor_Verify hkdf hmac k b \<longrightarrow> anchor_Parse b = Inr q \<longrightarrow> b = anchor_Encode hkdf hmac k q \<and> anchor_ok q)"
proof (intro conjI impI)
  note m = length_AnchorMAC [OF assms]
  assume "anchor_ok r"
  then show "anchor_Parse (anchor_Encode hkdf hmac k r) = Inr r"
    unfolding anchor_Encode_def by (intro parse_anchor_body) (simp_all add: m)
  show "anchor_Verify hkdf hmac k (anchor_Encode hkdf hmac k r)"
    using length_anchor_body [OF \<open>anchor_ok r\<close>] m
    by (simp add: anchor_Verify_def anchor_Encode_def anchor_Len_def)
next
  assume v: "anchor_Verify hkdf hmac k b" and p: "anchor_Parse b = Inr q"
  have l: "length b = 77" "b ! 0 = 1" using p by (auto simp: anchor_Parse_def anchor_Len_def split: if_splits)
  have q: "q = \<lparr>an_BackupID = take 16 (drop 1 b), an_ManifestTxHash = take 32 (drop 17 b),
      an_ManifestLedger = uint32_be (take 4 (drop 49 b)), an_Epoch = uint32_be (take 4 (drop 53 b)),
      an_Seq = uint32_be (take 4 (drop 57 b))\<rparr>"
    using p by (simp add: anchor_Parse_def split: if_splits)
  show "anchor_ok q" using l by (simp add: q anchor_ok_def)
  have "anchor_body q = take 61 b" using anchor_split [OF l] l by (simp add: anchor_body_def q be32_be_acc)
  then show "b = anchor_Encode hkdf hmac k q"
    using v append_take_drop_id [of 61 b] by (simp add: anchor_Encode_def anchor_Verify_def anchor_Len_def)
qed

definition sample_anchor :: anchor where
  "sample_anchor = \<lparr>an_BackupID = replicate 16 1, an_ManifestTxHash = replicate 32 2, an_ManifestLedger = 3, an_Epoch = 4, an_Seq = 5\<rparr>"

lemma anchor_exact_witness:
  "anchor_Parse (anchor_Encode (\<lambda>_ _ _ _. []) (\<lambda>_ _. replicate 32 9) [] sample_anchor) = Inr sample_anchor"
  using anchor_exact [of "\<lambda>_ _. replicate 32 9" sample_anchor "\<lambda>_ _ _ _. []" "[]"]
  by (simp add: anchor_ok_def sample_anchor_def)

end
