(* ===== verification/Codec.thy ===== *)
theory Codec
  imports Prelude
begin

text \<open>
  \<^verbatim>\<open>internal/xrpl/codec\<close>: the canonical binary form of the four transaction types the tool submits
  (\<^verbatim>\<open>codec.go\<close>) and its reader (\<^verbatim>\<open>decode.go\<close>).  A transaction is a record of fields and the list of its
  inner transactions.  \<open>Serialize\<close> keeps the order of the source's checks, so that the error it returns
  is the source's.  The reader's mutual recursion between \<open>object\<close> and \<open>rawTransactions\<close> runs on fuel;
  \<open>Deserialize\<close> starts it with one unit more than the input has bytes, and \<open>deserialize_fuel\<close> shows that
  this is never too little.
\<close>

section \<open>Data\<close>

definition TxAccountSet :: u16 where "TxAccountSet = 3"
definition TxDIDSet :: u16 where "TxDIDSet = 49"
definition TxDIDDelete :: u16 where "TxDIDDelete = 50"
definition TxBatch :: u16 where "TxBatch = 71"
definition FlagAllOrNothing :: u32 where "FlagAllOrNothing = 0x00010000"
definition FlagInnerBatchTxn :: u32 where "FlagInnerBatchTxn = 0x40000000"
definition xrp_bit :: u64 where "xrp_bit = push_bit 62 1"
definition MaxBatchInner :: nat where "MaxBatchInner = 8"
definition MaxMemosSerialized :: nat where "MaxMemosSerialized = 1024"

record memo =
  memo_Type :: "byte list"
  memo_Data :: "byte list"
  memo_Format :: "byte list"

record txfields =
  tx_Type :: u16
  tx_Flags :: u32
  tx_Sequence :: u32
  tx_LastLedgerSequence :: u32
  tx_FeeDrops :: u64
  tx_SigningPubKey :: "byte list"
  tx_TxnSignature :: "byte list"
  tx_Account :: "byte list"
  tx_URI :: "byte list"
  tx_DIDDocument :: "byte list"
  tx_Data :: "byte list"
  tx_Memos :: "memo list"

datatype tx = Tx (tx_fields: txfields) (tx_Inner: "tx list")

datatype codec_error =
    FeeTooLarge | InnerFeeNotZero | InnerSigned | NestedBatch | PubKeyLength | NotSigned
  | DIDDataTooLong | AccountLength | MemosTooLong nat | InnerCount nat | InnerFlagMissing
  | InnerOutsideBatch
  | BlobTruncated | TrailingBytes | UnknownUInt32 nat | UnknownBlob nat | UnknownField nat nat
  | InnerNotTerminated | RawNotTerminated | UnexpectedInRaw nat nat | BadMemoHeader | BadMemoField
  | OutOfFuel

definition fields_IsInner :: "txfields \<Rightarrow> bool" where
  "fields_IsInner h \<longleftrightarrow> tx_Flags h AND FlagInnerBatchTxn \<noteq> 0"

definition IsInner :: "tx \<Rightarrow> bool" where
  "IsInner t = fields_IsInner (tx_fields t)"

section \<open>Writing\<close>

definition appendHeader :: "nat \<Rightarrow> nat \<Rightarrow> byte list" where
  "appendHeader typ field =
     (if typ < 16 \<and> field < 16 then [of_nat (push_bit 4 typ OR field)]
      else if typ < 16 then [of_nat (push_bit 4 typ), of_nat field]
      else if field < 16 then [of_nat field, of_nat typ]
      else [0, of_nat typ, of_nat field])"

definition vl_prefix :: "nat \<Rightarrow> byte list" where
  "vl_prefix n =
     (if n \<le> 192 then [of_nat n]
      else if n \<le> 12480 then [of_nat (193 + drop_bit 8 (n - 193)), of_nat (n - 193)]
      else [of_nat (241 + drop_bit 16 (n - 12481)), of_nat (drop_bit 8 (n - 12481)), of_nat (n - 12481)])"

definition appendVL :: "byte list \<Rightarrow> byte list" where
  "appendVL v = vl_prefix (length v) @ v"

text \<open>A field that is written only when its value is not empty.\<close>

definition opt_vl :: "nat \<Rightarrow> nat \<Rightarrow> byte list \<Rightarrow> byte list" where
  "opt_vl typ field v = (if v = [] then [] else appendHeader typ field @ appendVL v)"

definition opt_u32 :: "nat \<Rightarrow> nat \<Rightarrow> u32 \<Rightarrow> byte list" where
  "opt_u32 typ field v = (if v = 0 then [] else appendHeader typ field @ be32 v)"

definition memo_bytes :: "memo \<Rightarrow> byte list" where
  "memo_bytes m =
     appendHeader 14 10 @ opt_vl 7 12 (memo_Type m) @ opt_vl 7 13 (memo_Data m) @ opt_vl 7 14 (memo_Format m) @ [0xE1]"

definition SerializeMemos :: "memo list \<Rightarrow> codec_error + byte list" where
  "SerializeMemos ms =
     (let b = appendHeader 15 9 @ concat (map memo_bytes ms) @ [0xF1]
      in if length b > MaxMemosSerialized then Inl (MemosTooLong (length b)) else Inr b)"

text \<open>The checks on fee, key and nesting, in the source's order.\<close>

definition check_signer :: "txfields \<Rightarrow> codec_error + unit" where
  "check_signer h =
     (if tx_FeeDrops h \<ge> xrp_bit then Inl FeeTooLarge
      else if fields_IsInner h then
        (if tx_FeeDrops h \<noteq> 0 then Inl InnerFeeNotZero
         else if tx_SigningPubKey h \<noteq> [] \<or> tx_TxnSignature h \<noteq> [] then Inl InnerSigned
         else if tx_Type h = TxBatch then Inl NestedBatch
         else Inr ())
      else if length (tx_SigningPubKey h) \<noteq> 33 then Inl PubKeyLength
      else Inr ())"

definition ser_did :: "txfields \<Rightarrow> codec_error + byte list" where
  "ser_did h =
     (if tx_Type h = TxDIDSet then
        (if length (tx_Data h) > 256 then Inl DIDDataTooLong
         else Inr (opt_vl 7 5 (tx_URI h) @ opt_vl 7 26 (tx_DIDDocument h) @ opt_vl 7 27 (tx_Data h)))
      else Inr [])"

definition ser_signature :: "txfields \<Rightarrow> bool \<Rightarrow> codec_error + byte list" where
  "ser_signature h includeSignature =
     (if includeSignature \<and> \<not> fields_IsInner h then
        (if tx_TxnSignature h = [] then Inl NotSigned
         else Inr (appendHeader 7 4 @ appendVL (tx_TxnSignature h)))
      else Inr [])"

definition ser_memos :: "memo list \<Rightarrow> codec_error + byte list" where
  "ser_memos ms = (if ms = [] then Inr [] else SerializeMemos ms)"

definition ser_fields :: "txfields \<Rightarrow> bool \<Rightarrow> codec_error + byte list" where
  "ser_fields h includeSignature =
     and_then (check_signer h) (\<lambda>_.
     and_then (ser_signature h includeSignature) (\<lambda>sig.
     and_then (ser_did h) (\<lambda>did.
     and_then (guard_that (length (tx_Account h) = 20) AccountLength) (\<lambda>_.
     and_then (ser_memos (tx_Memos h)) (\<lambda>memos.
       Inr (appendHeader 1 2 @ be16 (tx_Type h)
            @ opt_u32 2 2 (tx_Flags h)
            @ appendHeader 2 4 @ be32 (tx_Sequence h)
            @ opt_u32 2 27 (tx_LastLedgerSequence h)
            @ appendHeader 6 8 @ be64 (xrp_bit OR tx_FeeDrops h)
            @ appendHeader 7 3 @ appendVL (tx_SigningPubKey h)
            @ sig @ did
            @ appendHeader 8 1 @ appendVL (tx_Account h)
            @ memos))))))"

fun Serialize :: "tx \<Rightarrow> bool \<Rightarrow> codec_error + byte list"
  and serialize_each :: "tx list \<Rightarrow> codec_error + byte list" where
  "Serialize (Tx h inner) includeSignature =
     and_then (ser_fields h includeSignature) (\<lambda>b.
       if tx_Type h = TxBatch then
         (if length inner < 2 \<or> length inner > MaxBatchInner then Inl (InnerCount (length inner))
          else and_then (serialize_each inner) (\<lambda>r. Inr (b @ appendHeader 15 30 @ r @ [0xF1])))
       else if inner \<noteq> [] then Inl InnerOutsideBatch
       else Inr b)"
| "serialize_each [] = Inr []"
| "serialize_each (t # ts) =
     (if \<not> IsInner t then Inl InnerFlagMissing
      else and_then (Serialize t False) (\<lambda>body.
           and_then (serialize_each ts) (\<lambda>r. Inr (appendHeader 14 34 @ body @ [0xE1] @ r))))"

definition SigningPayload :: "tx \<Rightarrow> codec_error + byte list" where
  "SigningPayload t = and_then (Serialize t False) (\<lambda>body. Inr ([0x53, 0x54, 0x58, 0x00] @ body))"

text \<open>\<^verbatim>\<open>Hash\<close> and \<^verbatim>\<open>InnerHash\<close>; SHA-512 is the parameter \<open>sha512\<close>, \<open>upper\<close> on hex is byte-wise.\<close>

definition hex_upper :: "char \<Rightarrow> char" where
  "hex_upper c = (let n = of_char c :: nat in if 97 \<le> n \<and> n \<le> 102 then char_of (n - 32) else c)"

definition Hash :: "(byte list \<Rightarrow> byte list) \<Rightarrow> byte list \<Rightarrow> string" where
  "Hash sha512 blob = map hex_upper (hex_encode (take 32 (sha512 ([0x54, 0x58, 0x4E, 0x00] @ blob))))"

definition InnerHash :: "(byte list \<Rightarrow> byte list) \<Rightarrow> tx \<Rightarrow> codec_error + string" where
  "InnerHash sha512 t = and_then (Serialize t False) (\<lambda>body. Inr (Hash sha512 body))"

section \<open>Reading\<close>

definition r_take :: "nat \<Rightarrow> (codec_error, byte list) reader" where
  "r_take n = rd_take BlobTruncated n"

definition r_header :: "(codec_error, nat \<times> nat) reader" where
  "r_header bs =
     and_then (r_take 1 bs) (\<lambda>(h, r).
       (let typ = unat (drop_bit 4 (hd h)); field = unat (hd h AND 0x0F) in
        and_then (if typ = 0 then and_then (r_take 1 r) (\<lambda>(t, r). Inr (unat (hd t), r)) else Inr (typ, r))
          (\<lambda>(typ, r).
        and_then (if field = 0 then and_then (r_take 1 r) (\<lambda>(f, r). Inr (unat (hd f), r)) else Inr (field, r))
          (\<lambda>(field, r). Inr ((typ, field), r)))))"

definition r_u16 :: "(codec_error, u16) reader" where "r_u16 = rd_u16 BlobTruncated"
definition r_u32 :: "(codec_error, u32) reader" where "r_u32 = rd_u32 BlobTruncated"
definition r_u64 :: "(codec_error, u64) reader" where "r_u64 = rd_u64 BlobTruncated"

definition r_vl :: "(codec_error, byte list) reader" where
  "r_vl bs =
     and_then (r_take 1 bs) (\<lambda>(l, r).
       (let n = unat (hd l) in
        if n \<le> 192 then r_take n r
        else if n \<le> 240 then
          and_then (r_take 1 r) (\<lambda>(l2, r). r_take (193 + push_bit 8 (n - 193) + unat (l2 ! 0)) r)
        else
          and_then (r_take 2 r)
            (\<lambda>(l2, r). r_take (12481 + push_bit 16 (n - 241) + push_bit 8 (unat (l2 ! 0)) + unat (l2 ! 1)) r)))"

lemma r_take_length: "r_take n bs = Inr (v, r) \<Longrightarrow> length bs = n + length r"
  by (auto simp: r_take_def rd_take_Inr)

lemma r_vl_length: "r_vl bs = Inr (v, r) \<Longrightarrow> length r < length bs"
  by (auto simp: r_vl_def and_then_Inr Let_def dest!: r_take_length split: if_splits)

text \<open>The inner loop of \<open>memos\<close>: the fields of one memo, up to the object end.\<close>

function memo_fields :: "memo \<Rightarrow> (codec_error, memo) reader" where
  "memo_fields m [] = Inl BlobTruncated"
| "memo_fields m (f # bs) =
     (if f = 0xE1 then Inr (m, bs)
      else case r_vl bs of
        Inl e \<Rightarrow> Inl e
      | Inr (v, r) \<Rightarrow>
          (if f = 0x7C then memo_fields (m\<lparr>memo_Type := v\<rparr>) r
           else if f = 0x7D then memo_fields (m\<lparr>memo_Data := v\<rparr>) r
           else if f = 0x7E then memo_fields (m\<lparr>memo_Format := v\<rparr>) r
           else Inl BadMemoField))"
  by pat_completeness auto
termination
  by (relation "measure (\<lambda>(m, bs). length bs)") (auto dest!: r_vl_length)

definition no_memo :: memo where
  "no_memo = \<lparr>memo_Type = [], memo_Data = [], memo_Format = []\<rparr>"

lemma memo_fields_length: "memo_fields m bs = Inr (v, r) \<Longrightarrow> length r < length bs"
proof (induction bs arbitrary: m rule: length_induct)
  case (1 bs)
  show ?case
  proof (cases bs)
    case (Cons f bs')
    have IH: "length r < length b" if "memo_fields m b = Inr (v, r)" "length b < length bs'" for m b
      using 1(1) that Cons by (metis length_Cons less_SucI)
    show ?thesis
      using 1(2) Cons by (auto split: if_splits sum.splits dest!: r_vl_length) (meson IH less_SucI less_trans)+
  qed (use 1 in simp)
qed

function r_memos :: "(codec_error, memo list) reader" where
  "r_memos [] = Inl BlobTruncated"
| "r_memos (h # bs) =
     (if h = 0xF1 then Inr ([], bs)
      else if h \<noteq> 0xEA then Inl BadMemoHeader
      else case memo_fields no_memo bs of
        Inl e \<Rightarrow> Inl e
      | Inr (m, r) \<Rightarrow> (case r_memos r of Inl e \<Rightarrow> Inl e | Inr (ms, r') \<Rightarrow> Inr (m # ms, r')))"
  by pat_completeness auto
termination
  by (relation "measure length") (auto dest!: memo_fields_length)

text \<open>One field of \<open>object\<close> other than the array of inner transactions.\<close>

definition r_u32_field :: "nat \<Rightarrow> txfields \<Rightarrow> (codec_error, txfields) reader" where
  "r_u32_field field h bs =
     and_then (r_u32 bs) (\<lambda>(v, r).
       if field = 2 then Inr (h\<lparr>tx_Flags := v\<rparr>, r)
       else if field = 4 then Inr (h\<lparr>tx_Sequence := v\<rparr>, r)
       else if field = 27 then Inr (h\<lparr>tx_LastLedgerSequence := v\<rparr>, r)
       else Inl (UnknownUInt32 field))"

definition r_blob_field :: "nat \<Rightarrow> txfields \<Rightarrow> (codec_error, txfields) reader" where
  "r_blob_field field h bs =
     and_then (r_vl bs) (\<lambda>(v, r).
       if field = 3 then Inr (h\<lparr>tx_SigningPubKey := v\<rparr>, r)
       else if field = 4 then Inr (h\<lparr>tx_TxnSignature := v\<rparr>, r)
       else if field = 5 then Inr (h\<lparr>tx_URI := v\<rparr>, r)
       else if field = 26 then Inr (h\<lparr>tx_DIDDocument := v\<rparr>, r)
       else if field = 27 then Inr (h\<lparr>tx_Data := v\<rparr>, r)
       else Inl (UnknownBlob field))"

definition r_field :: "nat \<Rightarrow> nat \<Rightarrow> txfields \<Rightarrow> (codec_error, txfields) reader" where
  "r_field typ field h bs =
     (if typ = 1 \<and> field = 2 then and_then (r_u16 bs) (\<lambda>(v, r). Inr (h\<lparr>tx_Type := v\<rparr>, r))
      else if typ = 2 then r_u32_field field h bs
      else if typ = 6 \<and> field = 8 then
        and_then (r_u64 bs) (\<lambda>(d, r). Inr (h\<lparr>tx_FeeDrops := d AND NOT xrp_bit\<rparr>, r))
      else if typ = 7 then r_blob_field field h bs
      else if typ = 8 \<and> field = 1 then and_then (r_vl bs) (\<lambda>(v, r). Inr (h\<lparr>tx_Account := v\<rparr>, r))
      else if typ = 15 \<and> field = 9 then and_then (r_memos bs) (\<lambda>(ms, r). Inr (h\<lparr>tx_Memos := ms\<rparr>, r))
      else Inl (UnknownField typ field))"

definition no_fields :: txfields where
  "no_fields = \<lparr>tx_Type = 0, tx_Flags = 0, tx_Sequence = 0, tx_LastLedgerSequence = 0, tx_FeeDrops = 0,
     tx_SigningPubKey = [], tx_TxnSignature = [], tx_Account = [], tx_URI = [], tx_DIDDocument = [],
     tx_Data = [], tx_Memos = []\<rparr>"

definition empty_tx :: tx where
  "empty_tx = Tx no_fields []"

fun r_object :: "nat \<Rightarrow> bool \<Rightarrow> tx \<Rightarrow> (codec_error, tx) reader"
  and rawTransactions :: "nat \<Rightarrow> (codec_error, tx list) reader" where
  "r_object 0 nested t bs = Inl OutOfFuel"
| "r_object (Suc n) nested t bs =
     (if bs = [] then (if nested then Inl InnerNotTerminated else Inr (t, []))
      else if nested \<and> hd bs = 0xE1 then Inr (t, tl bs)
      else and_then (r_header bs) (\<lambda>((typ, field), r).
        if typ = 15 \<and> field = 30
        then and_then (rawTransactions n r) (\<lambda>(inner, r'). r_object n nested (Tx (tx_fields t) inner) r')
        else and_then (r_field typ field (tx_fields t) r)
               (\<lambda>(h, r'). r_object n nested (Tx h (tx_Inner t)) r')))"
| "rawTransactions 0 bs = Inl OutOfFuel"
| "rawTransactions (Suc n) bs =
     (if bs = [] then Inl RawNotTerminated
      else if hd bs = 0xF1 then Inr ([], tl bs)
      else and_then (r_header bs) (\<lambda>((typ, field), r).
        if typ \<noteq> 14 \<or> field \<noteq> 34 then Inl (UnexpectedInRaw typ field)
        else and_then (r_object n True empty_tx r) (\<lambda>(i, r').
             and_then (rawTransactions n r') (\<lambda>(is, r''). Inr (i # is, r'')))))"

definition Deserialize :: "byte list \<Rightarrow> codec_error + tx" where
  "Deserialize b =
     and_then (r_object (Suc (length b)) False empty_tx b)
       (\<lambda>(t, r). if r \<noteq> [] then Inl TrailingBytes else Inr t)"

section \<open>Field headers and variable lengths\<close>

lemma unat_of_nat_byte: "n < 256 \<Longrightarrow> unat (of_nat n :: byte) = n"
  by (simp add: unat_of_nat)

lemma byte_nibbles:
  "k < 256 \<Longrightarrow> unat (drop_bit 4 (of_nat k :: byte)) = k div 16"
  "k < 256 \<Longrightarrow> unat (of_nat k AND 0x0F :: byte) = k mod 16"
proof -
  assume k: "k < 256"
  show "unat (drop_bit 4 (of_nat k :: byte)) = k div 16"
    unfolding unat_drop_bit_eq unat_of_nat_byte [OF k] by (simp add: drop_bit_eq_div)
  have "(0x0F :: byte) = mask 4" by (simp add: mask_eq_exp_minus_1)
  then have "unat (of_nat k AND 0x0F :: byte) = unat (take_bit 4 (of_nat k :: byte))" by (simp add: take_bit_eq_mask)
  also have "\<dots> = k mod 16" unfolding unsigned_take_bit_eq unat_of_nat_byte [OF k] by (simp add: take_bit_eq_mod)
  finally show "unat (of_nat k AND 0x0F :: byte) = k mod 16" .
qed

lemma nibble_or:
  assumes "f < 16"
  shows "push_bit 4 t OR f = 16 * t + (f :: nat)"
proof -
  have "push_bit 4 t AND take_bit 4 f = 0" by (auto simp: bit_eq_iff bit_simps)
  moreover have "take_bit 4 f = f" using assms by (simp add: take_bit_nat_eq_self)
  ultimately have "push_bit 4 t OR f = push_bit 4 t + f" by (simp add: disjunctive_add_eq_or)
  then show ?thesis by (simp add: push_bit_eq_mult)
qed

lemma header_nibbles:
  "0 < t \<Longrightarrow> t < 16 \<Longrightarrow> 0 < f \<Longrightarrow> f < 16 \<Longrightarrow>
     unat (drop_bit 4 (of_nat (push_bit 4 t OR f) :: byte)) = t \<and> unat (of_nat (push_bit 4 t OR f) AND 0x0F :: byte) = f"
  "0 < t \<Longrightarrow> t < 16 \<Longrightarrow> unat (drop_bit 4 (of_nat (push_bit 4 t) :: byte)) = t \<and> (of_nat (push_bit 4 t) AND 0x0F :: byte) = 0"
  "f < 16 \<Longrightarrow> drop_bit 4 (of_nat f :: byte) = 0 \<and> unat (of_nat f AND 0x0F :: byte) = f"
proof -
  show "unat (drop_bit 4 (of_nat (push_bit 4 t OR f) :: byte)) = t \<and> unat (of_nat (push_bit 4 t OR f) AND 0x0F :: byte) = f"
    if "0 < t" "t < 16" "0 < f" "f < 16"
    using byte_nibbles [of "16 * t + f"] that unfolding nibble_or [OF that(4)] by simp
  have p: "push_bit 4 t = 16 * t" by (simp add: push_bit_eq_mult)
  show "unat (drop_bit 4 (of_nat (push_bit 4 t) :: byte)) = t \<and> (of_nat (push_bit 4 t) AND 0x0F :: byte) = 0"
    if "0 < t" "t < 16"
    using byte_nibbles [of "16 * t"] that unfolding p by (simp add: unat_eq_zero)
  show "drop_bit 4 (of_nat f :: byte) = 0 \<and> unat (of_nat f AND 0x0F :: byte) = f" if "f < 16"
    using byte_nibbles [of f] that by (simp flip: unat_eq_zero)
qed

definition header_ok :: "nat \<times> nat \<Rightarrow> bool" where
  "header_ok = (\<lambda>(t, f). 0 < t \<and> t < 256 \<and> 0 < f \<and> f < 256)"

interpretation c_header: prefix_codec "\<lambda>(t, f). appendHeader t f" r_header header_ok
proof
  fix x :: "nat \<times> nat" and r
  assume "header_ok x"
  then obtain t f where x: "x = (t, f)" "0 < t" "t < 256" "0 < f" "f < 256" by (auto simp: header_ok_def)
  have tt: "\<not> t < 16 \<Longrightarrow> t \<noteq> 0" using x by simp
  show "r_header ((case x of (t, f) \<Rightarrow> appendHeader t f) @ r) = Inr (x, r)"
    using x header_nibbles(1) [of t f] header_nibbles(2) [of t] header_nibbles(3) [of f]
    by (auto simp: appendHeader_def r_header_def r_take_def unat_of_nat_byte Let_def)
qed

lemma r_header_append [codec_simps]: "header_ok (t, f) \<Longrightarrow> r_header (appendHeader t f @ r) = Inr ((t, f), r)"
  using c_header.dec_enc [of "(t, f)" r] by simp

definition vl_ok :: "byte list \<Rightarrow> bool" where
  "vl_ok v \<longleftrightarrow> length v \<le> 918744"

lemma r_vl_short: "unat a \<le> 192 \<Longrightarrow> r_vl (a # r) = r_take (unat a) r"
  by (simp add: r_vl_def r_take_def)

lemma r_vl_mid:
  "192 < unat a \<Longrightarrow> unat a \<le> 240 \<Longrightarrow> r_vl (a # b # r) = r_take (193 + (unat a - 193) * 256 + unat b) r"
  by (simp add: r_vl_def r_take_def push_bit_eq_mult)

lemma r_vl_long:
  "240 < unat a \<Longrightarrow>
     r_vl (a # b # c # r) = r_take (12481 + (unat a - 241) * 65536 + unat b * 256 + unat c) r"
  by (simp add: r_vl_def r_take_def rd_take_def push_bit_eq_mult)

lemma vl_prefix_decodes:
  assumes "n \<le> 918744"
  shows "r_vl (vl_prefix n @ r) = r_take n r"
proof -
  consider "n \<le> 192" | "192 < n" "n \<le> 12480" | "12480 < n" by linarith
  then show ?thesis
  proof cases
    case 1
    then show ?thesis using r_vl_short [of "of_nat n" r] by (simp add: vl_prefix_def unat_of_nat_byte)
  next
    case 2
    define m where "m = n - 193"
    have "m div 256 \<le> 47" using 2 m_def by linarith
    then have b0: "unat (of_nat (193 + m div 256) :: byte) = 193 + m div 256" by (intro unat_of_nat_byte) simp
    have b1: "unat (of_nat m :: byte) = m mod 256" by (simp add: unat_of_nat)
    have "193 + (m div 256) * 256 + m mod 256 = n" using 2 m_def by simp
    moreover have "vl_prefix n = [of_nat (193 + m div 256), of_nat m]"
      using 2 by (simp add: vl_prefix_def m_def drop_bit_eq_div)
    ultimately show ?thesis
      using r_vl_mid [of "of_nat (193 + m div 256)" "of_nat m" r] \<open>m div 256 \<le> 47\<close> by (simp add: b0 b1 del: of_nat_add)
  next
    case 3
    define m where "m = n - 12481"
    have k: "m div 65536 \<le> 13" using assms m_def by linarith
    then have b0: "unat (of_nat (241 + m div 65536) :: byte) = 241 + m div 65536" by (intro unat_of_nat_byte) simp
    have b1: "unat (of_nat (m div 256) :: byte) = m div 256 mod 256" "unat (of_nat m :: byte) = m mod 256"
      by (simp_all add: unat_of_nat)
    have "m div 65536 = m div 256 div 256" by (simp add: div_mult2_eq [symmetric])
    then have "12481 + (m div 65536) * 65536 + (m div 256 mod 256) * 256 + m mod 256 = n"
      using 3 m_def mult_div_mod_eq [of 256 m] mult_div_mod_eq [of 256 "m div 256"] by linarith
    moreover have "vl_prefix n = [of_nat (241 + m div 65536), of_nat (m div 256), of_nat m]"
      using 3 by (simp add: vl_prefix_def m_def drop_bit_eq_div)
    ultimately show ?thesis
      using r_vl_long [of "of_nat (241 + m div 65536)" "of_nat (m div 256)" "of_nat m" r]
      by (simp add: b0 b1 del: of_nat_add)
  qed
qed

interpretation c_vl: prefix_codec appendVL r_vl vl_ok
  by unfold_locales (simp add: appendVL_def vl_ok_def vl_prefix_decodes r_take_def)

section \<open>Fuel\<close>

lemma take_no_fuel: "r_take n bs \<noteq> Inl OutOfFuel"
  by (simp add: r_take_def rd_take_def)

lemma header_no_fuel: "r_header bs \<noteq> Inl OutOfFuel"
  by (auto simp: r_header_def Let_def and_then_Inl take_no_fuel split: prod.splits if_splits)

lemma vl_no_fuel: "r_vl bs \<noteq> Inl OutOfFuel"
  by (auto simp: r_vl_def Let_def and_then_Inl take_no_fuel split: prod.splits if_splits)

lemma be_no_fuel: "rd_be BlobTruncated n bs \<noteq> Inl OutOfFuel"
  by (auto simp: rd_be_def and_then_Inl rd_take_Inl split: prod.splits)

lemma memo_fields_no_fuel: "memo_fields m bs \<noteq> Inl OutOfFuel"
  by (induction m bs rule: memo_fields.induct) (auto split: sum.splits simp: vl_no_fuel dest: sym)

lemma memos_no_fuel: "r_memos bs \<noteq> Inl OutOfFuel"
  by (induction bs rule: r_memos.induct) (auto split: sum.splits simp: memo_fields_no_fuel dest: sym)

lemma field_no_fuel: "r_field t f h bs \<noteq> Inl OutOfFuel"
  by (auto simp: r_field_def r_u32_field_def r_blob_field_def r_u16_def r_u32_def r_u64_def and_then_Inl be_no_fuel
      vl_no_fuel memos_no_fuel split: prod.splits if_splits)

lemma header_length: "r_header bs = Inr (v, r) \<Longrightarrow> length r < length bs"
  by (auto simp: r_header_def Let_def and_then_Inr dest!: r_take_length split: prod.splits if_splits)

lemma r_memos_length: "r_memos bs = Inr (v, r) \<Longrightarrow> length r < length bs"
proof (induction bs arbitrary: v rule: length_induct)
  case (1 bs)
  show ?case
  proof (cases bs)
    case (Cons f bs')
    have IH: "length r < length b" if "r_memos b = Inr (v, r)" "length b < length bs'" for v b
      using 1(1) that Cons by (metis length_Cons less_SucI)
    show ?thesis
      using 1(2) Cons by (auto split: if_splits sum.splits dest!: memo_fields_length) (meson IH less_SucI less_trans)
  qed (use 1 in simp)
qed

lemma field_length: "r_field t f h bs = Inr (v, r) \<Longrightarrow> length r \<le> length bs"
  by (auto simp: r_field_def r_u32_field_def r_blob_field_def r_u16_def r_u32_def r_u64_def and_then_Inr
      dest!: rd_be_length r_vl_length r_memos_length split: prod.splits if_splits)

text \<open>More fuel than bytes is enough, and no reader gives back more than it was given.\<close>

lemma object_fuel:
  "(length bs < n \<longrightarrow> r_object n nested t bs \<noteq> Inl OutOfFuel \<and>
      (\<forall>t' r. r_object n nested t bs = Inr (t', r) \<longrightarrow> length r \<le> length bs)) \<and>
   (length bs < n \<longrightarrow> rawTransactions n bs \<noteq> Inl OutOfFuel \<and>
      (\<forall>ts r. rawTransactions n bs = Inr (ts, r) \<longrightarrow> length r \<le> length bs))"
proof (induction n arbitrary: nested t bs)
  case (Suc n)
  have o: "r_object n nested t r \<noteq> Inl OutOfFuel"
      "\<And>t' r'. r_object n nested t r = Inr (t', r') \<Longrightarrow> length r' \<le> length r"
    and w: "rawTransactions n r \<noteq> Inl OutOfFuel"
      "\<And>ts r'. rawTransactions n r = Inr (ts, r') \<Longrightarrow> length r' \<le> length r"
    if "length r < n" for nested t r using Suc.IH that by blast+
  have hd: "length r < n" if "r_header bs = Inr (v, r)" "length bs < Suc n" for v r
    using header_length [OF that(1)] that(2) by simp
  show ?case
  proof (intro conjI impI)
    assume l: "length bs < Suc n"
    show "r_object (Suc n) nested t bs \<noteq> Inl OutOfFuel"
      using hd [OF _ l] o w field_length field_no_fuel header_no_fuel
      by (auto simp: and_then_Inl dest!: field_length) (meson le_less_trans)+
    show "rawTransactions (Suc n) bs \<noteq> Inl OutOfFuel"
      using hd [OF _ l] o w header_no_fuel by (auto simp: and_then_Inl) (meson le_less_trans)+
    show "\<forall>t' r. r_object (Suc n) nested t bs = Inr (t', r) \<longrightarrow> length r \<le> length bs"
      using hd [OF _ l] o(2) w(2) header_length field_length
      by (auto simp: and_then_Inr split: if_splits) (meson le_less_trans le_trans less_imp_le)+
    show "\<forall>ts r. rawTransactions (Suc n) bs = Inr (ts, r) \<longrightarrow> length r \<le> length bs"
      using hd [OF _ l] o(2) w(2) header_length
      by (auto simp: and_then_Inr split: if_splits) (meson le_less_trans le_trans less_imp_le)+
  qed
qed simp

lemma object_mono:
  "(r_object n nested t bs \<noteq> Inl OutOfFuel \<longrightarrow> r_object (Suc n) nested t bs = r_object n nested t bs) \<and>
   (rawTransactions n bs \<noteq> Inl OutOfFuel \<longrightarrow> rawTransactions (Suc n) bs = rawTransactions n bs)"
proof (induction n arbitrary: nested t bs)
  case (Suc n)
  have o: "r_object n nested t r \<noteq> Inl OutOfFuel \<Longrightarrow> r_object (Suc n) nested t r = r_object n nested t r" for nested t r
    using Suc.IH by blast
  have w: "rawTransactions n r \<noteq> Inl OutOfFuel \<Longrightarrow> rawTransactions (Suc n) r = rawTransactions n r" for r
    using Suc.IH by blast
  have "r_object (Suc (Suc n)) nested t bs = r_object (Suc n) nested t bs"
    if "r_object (Suc n) nested t bs \<noteq> Inl OutOfFuel"
  proof -
    have "and_then (rawTransactions (Suc n) r) (\<lambda>(inner, r'). r_object (Suc n) nested (Tx (tx_fields t) inner) r')
        = and_then (rawTransactions n r) (\<lambda>(inner, r'). r_object n nested (Tx (tx_fields t) inner) r')"
      if "and_then (rawTransactions n r) (\<lambda>(inner, r'). r_object n nested (Tx (tx_fields t) inner) r') \<noteq> Inl OutOfFuel"
      for r
      using that w [of r] by (cases "rawTransactions n r") (auto simp del: r_object.simps rawTransactions.simps intro: o split: prod.splits)
    moreover have "and_then q (\<lambda>(h, r'). r_object (Suc n) nested (Tx h (tx_Inner t)) r')
        = and_then q (\<lambda>(h, r'). r_object n nested (Tx h (tx_Inner t)) r')"
      if "and_then q (\<lambda>(h, r'). r_object n nested (Tx h (tx_Inner t)) r') \<noteq> Inl OutOfFuel" for q
      using that by (cases q) (auto simp del: r_object.simps intro: o split: prod.splits)
    ultimately show ?thesis
      using that unfolding r_object.simps(2) [of "Suc n"] r_object.simps(2) [of n]
      by (cases "r_header bs") (auto simp del: r_object.simps rawTransactions.simps split: prod.splits if_splits)
  qed
  moreover have "rawTransactions (Suc (Suc n)) bs = rawTransactions (Suc n) bs"
    if "rawTransactions (Suc n) bs \<noteq> Inl OutOfFuel"
  proof -
    have "and_then (r_object (Suc n) True empty_tx r) (\<lambda>(i, r'). and_then (rawTransactions (Suc n) r') (\<lambda>(is, r''). Inr (i # is, r'')))
        = and_then (r_object n True empty_tx r) (\<lambda>(i, r'). and_then (rawTransactions n r') (\<lambda>(is, r''). Inr (i # is, r'')))"
      if "and_then (r_object n True empty_tx r) (\<lambda>(i, r'). and_then (rawTransactions n r') (\<lambda>(is, r''). Inr (i # is, r'')))
            \<noteq> Inl OutOfFuel" for r
      using that o [of True empty_tx r] by (cases "r_object n True empty_tx r")
        (auto simp del: r_object.simps rawTransactions.simps simp: w and_then_Inl split: prod.splits)
    then show ?thesis
      using that unfolding rawTransactions.simps(2) [of "Suc n"] rawTransactions.simps(2) [of n]
      by (cases "r_header bs") (auto simp del: r_object.simps rawTransactions.simps split: prod.splits if_splits)
  qed
  ultimately show ?case by blast
qed simp

lemma object_mono_le:
  assumes "n \<le> m" "r_object n nested t bs = Inr x"
  shows "r_object m nested t bs = Inr x"
  using assms by (induction m rule: dec_induct) (use object_mono in auto)

lemma raw_mono_le:
  assumes "n \<le> m" "rawTransactions n bs = Inr x"
  shows "rawTransactions m bs = Inr x"
  using assms by (induction m rule: dec_induct) (use object_mono in auto)

lemma object_enough:
  assumes "r_object n nested t bs = Inr x"
  shows "r_object (Suc (length bs)) nested t bs = Inr x"
proof (cases "n \<le> Suc (length bs)")
  case True
  then show ?thesis using object_mono_le assms by blast
next
  case False
  obtain y where y: "r_object (Suc (length bs)) nested t bs = y" "y \<noteq> Inl OutOfFuel"
    using object_fuel [of bs "Suc (length bs)" nested t] by blast
  have "r_object m nested t bs = y" if "Suc (length bs) \<le> m" for m
    using that y by (induction m rule: dec_induct) (use object_mono in auto)
  then show ?thesis using assms y False by auto
qed

section \<open>Reading what was written\<close>

text \<open>Fuel aside: the reader returns \<open>x\<close> on \<open>bs\<close>.\<close>

definition reads :: "bool \<Rightarrow> tx \<Rightarrow> byte list \<Rightarrow> tx \<times> byte list \<Rightarrow> bool" where
  "reads nested t bs x \<longleftrightarrow> (\<exists>n. r_object n nested t bs = Inr x)"

definition raws :: "byte list \<Rightarrow> tx list \<times> byte list \<Rightarrow> bool" where
  "raws bs x \<longleftrightarrow> (\<exists>n. rawTransactions n bs = Inr x)"

lemma header_ne: "appendHeader t f \<noteq> []"
  by (simp add: appendHeader_def)

lemma hd_header [simp]: "hd (appendHeader t f @ r) = hd (appendHeader t f)"
  by (simp add: header_ne)

lemma reads_end: "reads False t [] (t, [])" "reads True t (0xE1 # r) (t, r)"
  unfolding reads_def by (rule exI [of _ "Suc 0"], simp)+

lemma reads_field:
  assumes "header_ok (ty, f)" "hd (appendHeader ty f) \<noteq> 0xE1" "\<not> (ty = 15 \<and> f = 30)"
    and "r_field ty f h r = Inr (h', r')" "reads nested (Tx h' i) r' x"
  shows "reads nested (Tx h i) (appendHeader ty f @ r) x"
proof -
  obtain n where n: "r_object n nested (Tx h' i) r' = Inr x" using assms(5) by (auto simp: reads_def)
  have "r_object (Suc n) nested (Tx h i) (appendHeader ty f @ r) = Inr x"
    using assms(2-4) n by (auto simp: r_header_append [OF assms(1)] header_ne)
  then show ?thesis unfolding reads_def by blast
qed

lemma reads_raw:
  assumes "raws r (is, r')" "reads nested (Tx h is) r' x"
  shows "reads nested (Tx h i) (appendHeader 15 30 @ r) x"
proof -
  obtain n where n: "rawTransactions n r = Inr (is, r')" using assms(1) by (auto simp: raws_def)
  obtain m where m: "r_object m nested (Tx h is) r' = Inr x" using assms(2) by (auto simp: reads_def)
  have "header_ok (15, 30)" by (simp add: header_ok_def)
  moreover have "hd (appendHeader 15 30) \<noteq> 0xE1" by code_simp
  ultimately have "r_object (Suc (max n m)) nested (Tx h i) (appendHeader 15 30 @ r) = Inr x"
    using raw_mono_le [OF _ n, of "max n m"] object_mono_le [OF _ m, of "max n m"]
    by (simp add: r_header_append header_ne)
  then show ?thesis unfolding reads_def by blast
qed

lemma raws_end: "raws (0xF1 # r) ([], r)"
  unfolding raws_def by (rule exI [of _ "Suc 0"], simp)

lemma raws_Cons:
  assumes "reads True empty_tx r (i, r')" "raws r' (is, r'')"
  shows "raws (appendHeader 14 34 @ r) (i # is, r'')"
proof -
  obtain n where n: "r_object n True empty_tx r = Inr (i, r')" using assms(1) by (auto simp: reads_def)
  obtain m where m: "rawTransactions m r' = Inr (is, r'')" using assms(2) by (auto simp: raws_def)
  have "header_ok (14, 34)" by (simp add: header_ok_def)
  moreover have "hd (appendHeader 14 34) \<noteq> 0xF1" by code_simp
  ultimately have "rawTransactions (Suc (max n m)) (appendHeader 14 34 @ r) = Inr (i # is, r'')"
    using object_mono_le [OF _ n, of "max n m"] raw_mono_le [OF _ m, of "max n m"]
    by (simp add: r_header_append header_ne)
  then show ?thesis unfolding raws_def by blast
qed

lemma bit_xrp_bit: "bit xrp_bit n \<longleftrightarrow> n = 62"
  unfolding xrp_bit_def bit_push_bit_iff by (auto simp: bit_simps)

lemma fee_bit:
  assumes "\<not> fee \<ge> xrp_bit"
  shows "(xrp_bit OR fee) AND NOT xrp_bit = fee"
proof -
  have "fee < 2 ^ 62" using assms by (simp add: xrp_bit_def)
  then have "unat fee < 2 ^ 62" using word_less_nat_alt [of fee "2 ^ 62"] by simp
  then have "take_bit 62 (unat fee) = unat fee" by (simp add: take_bit_nat_eq_self)
  then have "unat (take_bit 62 fee) = unat fee" by (simp add: unsigned_take_bit_eq)
  then have "take_bit 62 fee = fee" by (simp only: word_unat_eq_iff)
  then have "\<not> bit fee 62" by (metis bit_take_bit_iff less_irrefl)
  then show ?thesis by (intro bit_word_eqI) (auto simp: bit_xrp_bit bit_simps)
qed

lemma field_reads [codec_simps]:
  "r_field 1 2 h (be16 a @ r) = Inr (h\<lparr>tx_Type := a\<rparr>, r)"
  "r_field 2 2 h (be32 b @ r) = Inr (h\<lparr>tx_Flags := b\<rparr>, r)"
  "r_field 2 4 h (be32 b @ r) = Inr (h\<lparr>tx_Sequence := b\<rparr>, r)"
  "r_field 2 27 h (be32 b @ r) = Inr (h\<lparr>tx_LastLedgerSequence := b\<rparr>, r)"
  "\<not> fee \<ge> xrp_bit \<Longrightarrow> r_field 6 8 h (be64 (xrp_bit OR fee) @ r) = Inr (h\<lparr>tx_FeeDrops := fee\<rparr>, r)"
  "vl_ok v \<Longrightarrow> r_field 7 3 h (appendVL v @ r) = Inr (h\<lparr>tx_SigningPubKey := v\<rparr>, r)"
  "vl_ok v \<Longrightarrow> r_field 7 4 h (appendVL v @ r) = Inr (h\<lparr>tx_TxnSignature := v\<rparr>, r)"
  "vl_ok v \<Longrightarrow> r_field 7 5 h (appendVL v @ r) = Inr (h\<lparr>tx_URI := v\<rparr>, r)"
  "vl_ok v \<Longrightarrow> r_field 7 26 h (appendVL v @ r) = Inr (h\<lparr>tx_DIDDocument := v\<rparr>, r)"
  "vl_ok v \<Longrightarrow> r_field 7 27 h (appendVL v @ r) = Inr (h\<lparr>tx_Data := v\<rparr>, r)"
  "vl_ok v \<Longrightarrow> r_field 8 1 h (appendVL v @ r) = Inr (h\<lparr>tx_Account := v\<rparr>, r)"
  by (simp_all add: r_field_def r_u32_field_def r_blob_field_def r_u16_def r_u32_def r_u64_def c_vl.dec_enc fee_bit)

lemma header_bytes:
  "appendHeader 14 10 = [0xEA]" "appendHeader 7 12 = [0x7C]" "appendHeader 7 13 = [0x7D]" "appendHeader 7 14 = [0x7E]"
  by code_simp+

lemma memo_fields_opt:
  "vl_ok v \<Longrightarrow> memo_Type m = [] \<Longrightarrow> memo_fields m (opt_vl 7 12 v @ r) = memo_fields (m\<lparr>memo_Type := v\<rparr>) r"
  "vl_ok v \<Longrightarrow> memo_Data m = [] \<Longrightarrow> memo_fields m (opt_vl 7 13 v @ r) = memo_fields (m\<lparr>memo_Data := v\<rparr>) r"
  "vl_ok v \<Longrightarrow> memo_Format m = [] \<Longrightarrow> memo_fields m (opt_vl 7 14 v @ r) = memo_fields (m\<lparr>memo_Format := v\<rparr>) r"
  by (cases m; simp add: opt_vl_def header_bytes c_vl.dec_enc)+

definition memo_ok :: "memo \<Rightarrow> bool" where
  "memo_ok m \<longleftrightarrow> vl_ok (memo_Type m) \<and> vl_ok (memo_Data m) \<and> vl_ok (memo_Format m)"

text \<open>One memo is self-delimiting: the header byte, then \<open>memo_fields\<close> up to the object end.\<close>

definition r_memo :: "(codec_error, memo) reader" where
  "r_memo bs = (case bs of [] \<Rightarrow> Inl BlobTruncated
     | h # r \<Rightarrow> if h \<noteq> 0xEA then Inl BadMemoHeader else memo_fields no_memo r)"

interpretation c_memo: prefix_codec memo_bytes r_memo memo_ok
  by unfold_locales
     (simp add: r_memo_def memo_bytes_def header_bytes memo_ok_def memo_fields_opt no_memo_def)

lemma r_memos_append:
  "\<forall>m \<in> set ms. memo_ok m \<Longrightarrow> r_memos (concat (map memo_bytes ms) @ 0xF1 # r) = Inr (ms, r)"
proof (induction ms)
  case (Cons m ms)
  have hd: "memo_bytes m @ z = 0xEA # tl (memo_bytes m) @ z" for z by (simp add: memo_bytes_def header_bytes)
  have "memo_fields no_memo (tl (memo_bytes m) @ z) = Inr (m, z)" for z
    using c_memo.dec_enc [of m z] Cons.prems by (simp add: r_memo_def hd)
  then show ?case using Cons by (simp add: hd)
qed simp

lemma length_memo_bytes:
  "length (memo_Type m) \<le> length (memo_bytes m)" "length (memo_Data m) \<le> length (memo_bytes m)"
  "length (memo_Format m) \<le> length (memo_bytes m)"
  by (simp_all add: memo_bytes_def opt_vl_def appendVL_def)

lemma vl_ok_short: "length v \<le> 1024 \<Longrightarrow> vl_ok v"
  by (simp add: vl_ok_def)

lemma SerializeMemos_ok:
  assumes "SerializeMemos ms = Inr b"
  shows "b = appendHeader 15 9 @ concat (map memo_bytes ms) @ [0xF1]" "\<forall>m \<in> set ms. memo_ok m" "length b \<le> 1024"
proof -
  show b: "b = appendHeader 15 9 @ concat (map memo_bytes ms) @ [0xF1]" "length b \<le> 1024"
    using assms by (auto simp: SerializeMemos_def Let_def MaxMemosSerialized_def split: if_splits)
  have "length (memo_bytes m) \<le> 1024" if "m \<in> set ms" for m
  proof -
    have "length (memo_bytes m) \<le> length (concat (map memo_bytes ms))"
      using that by (induction ms) auto
    then show ?thesis using b by simp
  qed
  then show "\<forall>m \<in> set ms. memo_ok m"
    using length_memo_bytes vl_ok_short unfolding memo_ok_def by (meson le_trans)
qed

text \<open>
  What the canonical form does not carry: DID fields outside a \<^verbatim>\<open>DIDSet\<close>, and blobs beyond the three
  byte length prefix.
\<close>

definition fields_ok :: "txfields \<Rightarrow> bool" where
  "fields_ok h \<longleftrightarrow> (tx_Type h \<noteq> TxDIDSet \<longrightarrow> tx_URI h = [] \<and> tx_DIDDocument h = [] \<and> tx_Data h = [])
     \<and> vl_ok (tx_TxnSignature h) \<and> vl_ok (tx_URI h) \<and> vl_ok (tx_DIDDocument h)"

definition tx_ok :: "tx \<Rightarrow> bool" where
  "tx_ok t \<longleftrightarrow> fields_ok (tx_fields t) \<and> list_all (\<lambda>i. fields_ok (tx_fields i)) (tx_Inner t)"

text \<open>The transaction without its signature, which is what the unsigned form carries.\<close>

definition unsigned_fields :: "txfields \<Rightarrow> txfields" where
  "unsigned_fields h = h\<lparr>tx_TxnSignature := []\<rparr>"

definition unsigned_tx :: "tx \<Rightarrow> tx" where
  "unsigned_tx t = Tx (unsigned_fields (tx_fields t)) (tx_Inner t)"

lemma heads_not_end:
  "hd (appendHeader 1 2) \<noteq> 0xE1" "hd (appendHeader 2 2) \<noteq> 0xE1" "hd (appendHeader 2 4) \<noteq> 0xE1"
  "hd (appendHeader 2 27) \<noteq> 0xE1" "hd (appendHeader 6 8) \<noteq> 0xE1" "hd (appendHeader 7 3) \<noteq> 0xE1"
  "hd (appendHeader 7 4) \<noteq> 0xE1" "hd (appendHeader 7 5) \<noteq> 0xE1" "hd (appendHeader 7 26) \<noteq> 0xE1"
  "hd (appendHeader 7 27) \<noteq> 0xE1" "hd (appendHeader 8 1) \<noteq> 0xE1" "hd (appendHeader 15 9) \<noteq> 0xE1"
  by (simp_all add: appendHeader_def push_bit_eq_mult nibble_or)

lemmas reads_known = reads_field [OF _ _ _ field_reads(1)] reads_field [OF _ _ _ field_reads(2)]
  reads_field [OF _ _ _ field_reads(3)] reads_field [OF _ _ _ field_reads(4)] reads_field [OF _ _ _ field_reads(5)]
  reads_field [OF _ _ _ field_reads(6)] reads_field [OF _ _ _ field_reads(7)] reads_field [OF _ _ _ field_reads(8)]
  reads_field [OF _ _ _ field_reads(9)] reads_field [OF _ _ _ field_reads(10)] reads_field [OF _ _ _ field_reads(11)]

lemma reads_opt_u32:
  "tx_Flags h = 0 \<Longrightarrow> reads nested (Tx (h\<lparr>tx_Flags := v\<rparr>) i) r x \<Longrightarrow> reads nested (Tx h i) (opt_u32 2 2 v @ r) x"
  "tx_LastLedgerSequence h = 0 \<Longrightarrow> reads nested (Tx (h\<lparr>tx_LastLedgerSequence := v\<rparr>) i) r x
     \<Longrightarrow> reads nested (Tx h i) (opt_u32 2 27 v @ r) x"
  by (cases h; auto simp: opt_u32_def header_ok_def heads_not_end intro!: reads_known)+

lemma reads_opt_vl:
  "vl_ok v \<Longrightarrow> tx_URI h = [] \<Longrightarrow> reads nested (Tx (h\<lparr>tx_URI := v\<rparr>) i) r x \<Longrightarrow> reads nested (Tx h i) (opt_vl 7 5 v @ r) x"
  "vl_ok v \<Longrightarrow> tx_DIDDocument h = [] \<Longrightarrow> reads nested (Tx (h\<lparr>tx_DIDDocument := v\<rparr>) i) r x
     \<Longrightarrow> reads nested (Tx h i) (opt_vl 7 26 v @ r) x"
  "vl_ok v \<Longrightarrow> tx_Data h = [] \<Longrightarrow> reads nested (Tx (h\<lparr>tx_Data := v\<rparr>) i) r x \<Longrightarrow> reads nested (Tx h i) (opt_vl 7 27 v @ r) x"
  by (cases h; auto simp: opt_vl_def header_ok_def heads_not_end intro!: reads_known)+

lemma reads_memos:
  assumes "ser_memos ms = Inr b" "tx_Memos h = []" "reads nested (Tx (h\<lparr>tx_Memos := ms\<rparr>) i) r x"
  shows "reads nested (Tx h i) (b @ r) x"
proof (cases "ms = []")
  case True
  then show ?thesis using assms by (cases h) (simp add: ser_memos_def)
next
  case False
  then have "SerializeMemos ms = Inr b" using assms(1) by (simp add: ser_memos_def)
  note m = SerializeMemos_ok [OF this]
  have "r_field 15 9 h ((concat (map memo_bytes ms) @ [0xF1]) @ r) = Inr (h\<lparr>tx_Memos := ms\<rparr>, r)"
    using m(2) by (simp add: r_field_def r_memos_append)
  from reads_field [OF _ heads_not_end(12) _ this assms(3)] show ?thesis
    by (simp add: m(1) header_ok_def)
qed

lemma reads_did:
  assumes "ser_did h0 = Inr b" "fields_ok h0" "tx_URI h = []" "tx_DIDDocument h = []" "tx_Data h = []"
    and "reads nested (Tx (h\<lparr>tx_URI := tx_URI h0, tx_DIDDocument := tx_DIDDocument h0, tx_Data := tx_Data h0\<rparr>) i) r x"
  shows "reads nested (Tx h i) (b @ r) x"
proof (cases "tx_Type h0 = TxDIDSet")
  case True
  then have "b = opt_vl 7 5 (tx_URI h0) @ opt_vl 7 26 (tx_DIDDocument h0) @ opt_vl 7 27 (tx_Data h0)" "vl_ok (tx_Data h0)"
    using assms(1) by (auto simp: ser_did_def vl_ok_def split: if_splits)
  then show ?thesis using assms(2-6) by (simp add: fields_ok_def reads_opt_vl)
next
  case False
  then show ?thesis using assms by (cases h) (auto simp: ser_did_def fields_ok_def)
qed

lemma reads_signature:
  assumes "ser_signature h0 s = Inr b" "check_signer h0 = Inr ()" "fields_ok h0" "tx_TxnSignature h = []"
    and "reads nested (Tx (h\<lparr>tx_TxnSignature := (if s then tx_TxnSignature h0 else [])\<rparr>) i) r x"
  shows "reads nested (Tx h i) (b @ r) x"
proof (cases "s \<and> \<not> fields_IsInner h0")
  case True
  then have "b = appendHeader 7 4 @ appendVL (tx_TxnSignature h0)"
    using assms(1) by (auto simp: ser_signature_def split: if_splits)
  then show ?thesis using assms True by (simp add: fields_ok_def header_ok_def heads_not_end reads_known(7))
next
  case False
  then have "b = []" "(if s then tx_TxnSignature h0 else []) = []"
    using assms(1,2) by (auto simp: ser_signature_def check_signer_def split: if_splits)
  then show ?thesis using assms(4,5) by (cases h) simp
qed

lemma reads_fields:
  assumes "ser_fields h s = Inr b" "fields_ok h"
    and "reads nested (Tx (if s then h else unsigned_fields h) []) r x"
  shows "reads nested empty_tx (b @ r) x"
proof -
  obtain sig did memos where p: "check_signer h = Inr ()" "ser_signature h s = Inr sig" "ser_did h = Inr did"
    "length (tx_Account h) = 20" "ser_memos (tx_Memos h) = Inr memos"
    and b: "b = appendHeader 1 2 @ be16 (tx_Type h) @ opt_u32 2 2 (tx_Flags h)
            @ appendHeader 2 4 @ be32 (tx_Sequence h) @ opt_u32 2 27 (tx_LastLedgerSequence h)
            @ appendHeader 6 8 @ be64 (xrp_bit OR tx_FeeDrops h)
            @ appendHeader 7 3 @ appendVL (tx_SigningPubKey h)
            @ sig @ did @ appendHeader 8 1 @ appendVL (tx_Account h) @ memos"
    using assms(1) unfolding ser_fields_def by (auto simp: and_then_Inr)
  have k: "vl_ok (tx_SigningPubKey h)" "vl_ok (tx_Account h)" "\<not> tx_FeeDrops h \<ge> xrp_bit"
    using p(1,4) by (auto simp: check_signer_def vl_ok_def split: if_splits)
  have f: "no_fields\<lparr>tx_Type := tx_Type h, tx_Flags := tx_Flags h, tx_Sequence := tx_Sequence h,
      tx_LastLedgerSequence := tx_LastLedgerSequence h, tx_FeeDrops := tx_FeeDrops h, tx_SigningPubKey := tx_SigningPubKey h,
      tx_TxnSignature := (if s then tx_TxnSignature h else []), tx_URI := tx_URI h, tx_DIDDocument := tx_DIDDocument h,
      tx_Data := tx_Data h, tx_Account := tx_Account h, tx_Memos := tx_Memos h\<rparr> = (if s then h else unsigned_fields h)"
    by (cases h) (simp add: no_fields_def unsigned_fields_def)
  note last = assms(3) [folded f]
  show ?thesis unfolding b empty_tx_def append_assoc
    by (intro reads_known(1,3,5,6,11) reads_opt_u32 reads_signature [OF p(2,1) assms(2)] reads_did [OF p(3) assms(2)]
        reads_memos [OF p(5)] last) (simp_all add: no_fields_def heads_not_end header_ok_def k del: One_nat_def)
qed

lemma ser_fields_signer: "ser_fields h s = Inr b \<Longrightarrow> check_signer h = Inr ()"
  by (auto simp: ser_fields_def and_then_Inr)

lemma inner_plain:
  assumes "Serialize t s = Inr b" "IsInner t"
  shows "tx_Inner t = []" "ser_fields (tx_fields t) s = Inr b" "tx_Type (tx_fields t) \<noteq> TxBatch"
    "tx_FeeDrops (tx_fields t) = 0" "tx_SigningPubKey (tx_fields t) = []" "tx_TxnSignature (tx_fields t) = []"
proof -
  obtain h i where t: "t = Tx h i" by (cases t)
  obtain b' where b': "ser_fields h s = Inr b'" using assms(1) t by (auto simp: and_then_Inr)
  have c: "tx_Type h \<noteq> TxBatch" "tx_FeeDrops h = 0" "tx_SigningPubKey h = []" "tx_TxnSignature h = []"
    using ser_fields_signer [OF b'] assms(2) t by (auto simp: check_signer_def IsInner_def split: if_splits)
  show "tx_Inner t = []" "ser_fields (tx_fields t) s = Inr b" "tx_Type (tx_fields t) \<noteq> TxBatch"
    "tx_FeeDrops (tx_fields t) = 0" "tx_SigningPubKey (tx_fields t) = []" "tx_TxnSignature (tx_fields t) = []"
    using assms(1) b' c t by (auto split: if_splits)
qed

lemma serialize_each_inner:
  "serialize_each ts = Inr b \<Longrightarrow> i \<in> set ts \<Longrightarrow> IsInner i \<and> (\<exists>c. Serialize i False = Inr c)"
  by (induction ts arbitrary: b) (auto simp: and_then_Inr split: if_splits)

lemma raws_each:
  assumes "serialize_each ts = Inr b" "list_all (\<lambda>i. fields_ok (tx_fields i)) ts"
  shows "raws (b @ 0xF1 # r) (ts, r)"
  using assms
proof (induction ts arbitrary: b)
  case Nil
  then show ?case by (simp add: raws_end)
next
  case (Cons t ts)
  then obtain body b' where s: "IsInner t" "Serialize t False = Inr body" "serialize_each ts = Inr b'"
    and b: "b = appendHeader 14 34 @ body @ [0xE1] @ b'" by (auto simp: and_then_Inr split: if_splits)
  note pl = inner_plain [OF s(2,1)]
  have "unsigned_fields (tx_fields t) = tx_fields t" using pl(6) by (cases "tx_fields t") (simp add: unsigned_fields_def)
  then have "Tx (if False then tx_fields t else unsigned_fields (tx_fields t)) [] = t" using pl(1) by (cases t) simp
  then have "reads True (Tx (if False then tx_fields t else unsigned_fields (tx_fields t)) []) (0xE1 # b' @ 0xF1 # r) (t, b' @ 0xF1 # r)"
    using reads_end(2) [of t] by simp
  from reads_fields [OF pl(2) _ this] have "reads True empty_tx (body @ 0xE1 # b' @ 0xF1 # r) (t, b' @ 0xF1 # r)"
    using Cons.prems by simp
  from raws_Cons [OF this Cons.IH [OF s(3)]] show ?case using Cons.prems by (simp add: b)
qed

lemma deserialize_reads: "reads False empty_tx b (t, []) \<Longrightarrow> Deserialize b = Inr t"
  unfolding reads_def Deserialize_def using object_enough by fastforce

lemma deserialize_serialized:
  assumes "Serialize t s = Inr b" "tx_ok t"
  shows "Deserialize b = Inr (if s then t else unsigned_tx t)"
proof -
  obtain h i where t: "t = Tx h i" by (cases t)
  obtain b' where b': "ser_fields h s = Inr b'" using assms(1) t by (auto simp: and_then_Inr)
  let ?h = "if s then h else unsigned_fields h"
  have res: "(if s then t else unsigned_tx t) = Tx ?h i" by (simp add: t unsigned_tx_def)
  have ok: "fields_ok h" using assms(2) t by (simp add: tx_ok_def)
  have "reads False (Tx ?h []) r (Tx ?h i, [])" if "b = b' @ r" for r
  proof (cases "tx_Type h = TxBatch")
    case True
    then obtain c where c: "serialize_each i = Inr c" "b = b' @ appendHeader 15 30 @ c @ [0xF1]"
      using assms(1) t b' by (auto simp: and_then_Inr split: if_splits)
    have "raws (c @ 0xF1 # []) (i, [])"
      by (rule raws_each [OF c(1)]) (use assms(2) t in \<open>simp add: tx_ok_def\<close>)
    from reads_raw [OF this reads_end(1)] show ?thesis using that c(2) by simp
  next
    case False
    then show ?thesis using assms(1) t b' that reads_end(1) by (auto split: if_splits)
  qed
  moreover obtain r where "b = b' @ r"
    using assms(1) t b' by (auto simp: and_then_Inr split: if_splits)
  ultimately show ?thesis using reads_fields [OF b' ok] deserialize_reads res by metis
qed

definition sample_inner :: tx where
  "sample_inner = Tx (no_fields\<lparr>tx_Type := TxAccountSet, tx_Flags := FlagInnerBatchTxn, tx_Sequence := 7,
     tx_Account := replicate 20 9,
     tx_Memos := [\<lparr>memo_Type = [1, 2], memo_Data = [3], memo_Format = []\<rparr>]\<rparr>) []"

definition sample_batch :: tx where
  "sample_batch = Tx (no_fields\<lparr>tx_Type := TxBatch, tx_Flags := FlagAllOrNothing, tx_Sequence := 6, tx_FeeDrops := 40,
     tx_LastLedgerSequence := 300, tx_SigningPubKey := replicate 33 2, tx_TxnSignature := [5, 6],
     tx_Account := replicate 20 9\<rparr>) [sample_inner, sample_inner]"

lemmas tx_consts = TxBatch_def TxAccountSet_def TxDIDSet_def FlagAllOrNothing_def FlagInnerBatchTxn_def xrp_bit_def

lemma Serialize_plain:
  "ser_fields (tx_fields t) s = Inr b \<Longrightarrow> tx_Inner t = [] \<Longrightarrow> tx_Type (tx_fields t) \<noteq> TxBatch \<Longrightarrow> Serialize t s = Inr b"
  by (cases t) simp

lemma Serialize_batch:
  "ser_fields (tx_fields t) s = Inr b \<Longrightarrow> serialize_each (tx_Inner t) = Inr c \<Longrightarrow> tx_Type (tx_fields t) = TxBatch \<Longrightarrow>
     2 \<le> length (tx_Inner t) \<Longrightarrow> length (tx_Inner t) \<le> 8 \<Longrightarrow> Serialize t s = Inr (b @ appendHeader 15 30 @ c @ [0xF1])"
  by (cases t) (simp add: MaxBatchInner_def)

lemma sample_memos: "ser_memos (tx_Memos (tx_fields sample_inner)) = Inr (projr (ser_memos (tx_Memos (tx_fields sample_inner))))"
  by (simp add: sample_inner_def ser_memos_def SerializeMemos_def memo_bytes_def opt_vl_def appendVL_def vl_prefix_def
      appendHeader_def MaxMemosSerialized_def Let_def)

lemma sample_inner_serializes: "Serialize sample_inner False = Inr (projr (Serialize sample_inner False))" "IsInner sample_inner"
proof -
  show "IsInner sample_inner" by (simp add: sample_inner_def IsInner_def fields_IsInner_def FlagInnerBatchTxn_def)
  have "check_signer (tx_fields sample_inner) = Inr ()" "ser_signature (tx_fields sample_inner) False = Inr []"
    "ser_did (tx_fields sample_inner) = Inr []" "length (tx_Account (tx_fields sample_inner)) = 20"
    by (simp_all add: sample_inner_def check_signer_def ser_signature_def ser_did_def no_fields_def fields_IsInner_def tx_consts)
  then have "\<exists>b. ser_fields (tx_fields sample_inner) False = Inr b"
    by (subst ser_fields_def, subst sample_memos) simp
  moreover have "tx_Inner sample_inner = []" "tx_Type (tx_fields sample_inner) \<noteq> TxBatch"
    by (simp_all add: sample_inner_def tx_consts)
  ultimately show "Serialize sample_inner False = Inr (projr (Serialize sample_inner False))"
    using Serialize_plain by (metis sum.sel(2))
qed

lemma sample_batch_serializes:
  "Serialize sample_batch s = Inr (projr (Serialize sample_batch s))" "tx_ok sample_batch"
    "\<not> IsInner sample_batch" "tx_Type (tx_fields sample_batch) = TxBatch"
proof -
  have "check_signer (tx_fields sample_batch) = Inr ()" "\<exists>b. ser_signature (tx_fields sample_batch) s = Inr b"
    "ser_did (tx_fields sample_batch) = Inr []" "length (tx_Account (tx_fields sample_batch)) = 20"
    "tx_Memos (tx_fields sample_batch) = []"
    by (simp_all add: sample_batch_def check_signer_def ser_signature_def ser_did_def no_fields_def fields_IsInner_def tx_consts)
  then have "\<exists>b. ser_fields (tx_fields sample_batch) s = Inr b"
    by (auto simp: ser_fields_def ser_memos_def)
  moreover obtain body where "Serialize sample_inner False = Inr body" using sample_inner_serializes(1) by blast
  then have "\<exists>b. serialize_each [sample_inner, sample_inner] = Inr b" using sample_inner_serializes(2) by simp
  moreover have "tx_Inner sample_batch = [sample_inner, sample_inner]" by (simp add: sample_batch_def)
  moreover show "tx_Type (tx_fields sample_batch) = TxBatch" by (simp add: sample_batch_def)
  ultimately show "Serialize sample_batch s = Inr (projr (Serialize sample_batch s))"
    using Serialize_batch [of sample_batch s] by fastforce
  show "tx_ok sample_batch" "\<not> IsInner sample_batch"
    by (simp_all add: sample_batch_def sample_inner_def tx_ok_def fields_ok_def vl_ok_def no_fields_def IsInner_def
        fields_IsInner_def tx_consts)
qed

text \<open>The unsigned form of an outer transaction does not depend on its signature.\<close>

lemma ser_fields_unsigned: "\<not> fields_IsInner h \<Longrightarrow> ser_fields (unsigned_fields h) False = ser_fields h False"
  by (simp add: ser_fields_def unsigned_fields_def check_signer_def ser_signature_def ser_did_def fields_IsInner_def)

lemma payload_unsigned: "\<not> IsInner t \<Longrightarrow> SigningPayload (unsigned_tx t) = SigningPayload t"
  by (cases t) (simp add: SigningPayload_def unsigned_tx_def ser_fields_unsigned IsInner_def, simp add: unsigned_fields_def)

text \<open>
  C10.  The binary form is faithful: deserializing a serialized transaction gives it back, and
  deserializing the form that gets signed gives it back without its signature.  The hypothesis
  excludes only what the form has no place for: DID fields outside a DIDSet, and blobs longer than
  the three byte length prefix can say.
\<close>

theorem deserialize_serialize:
  assumes "Serialize t s = Inr b" "tx_ok t"
  shows "Deserialize b = Inr (if s then t else unsigned_tx t)"
  using assms by (rule deserialize_serialized)

lemma deserialize_serialize_witness:
  "Deserialize (projr (Serialize sample_batch True)) = Inr sample_batch"
  using deserialize_serialize [OF sample_batch_serializes(1) [of True] sample_batch_serializes(2)] by simp

text \<open>
  C37.  The signature covers the whole transaction: two transactions with the same signing payload are
  equal but for their signatures.
\<close>

theorem signing_payload_inject:
  assumes "SigningPayload t = Inr p" "SigningPayload u = Inr p" "tx_ok t" "tx_ok u"
  shows "unsigned_tx t = unsigned_tx u"
proof -
  obtain b where b: "p = [0x53, 0x54, 0x58, 0x00] @ b" "Serialize t False = Inr b"
    using assms(1) by (auto simp: SigningPayload_def and_then_Inr)
  then have "Serialize u False = Inr b" using assms(2) by (auto simp: SigningPayload_def and_then_Inr)
  then show ?thesis using deserialize_serialized [OF b(2) assms(3)] deserialize_serialized [of u False b] assms(4) by simp
qed

lemma signing_payload_inject_witness:
  "unsigned_tx sample_batch = unsigned_tx (unsigned_tx sample_batch)"
proof (rule signing_payload_inject [where p = "projr (SigningPayload sample_batch)"])
  show s: "SigningPayload sample_batch = Inr (projr (SigningPayload sample_batch))"
    unfolding SigningPayload_def by (subst (1 2) sample_batch_serializes(1)) simp
  then show "SigningPayload (unsigned_tx sample_batch) = Inr (projr (SigningPayload sample_batch))"
    by (simp add: payload_unsigned sample_batch_serializes(3))
  show "tx_ok sample_batch" by (rule sample_batch_serializes(2))
  then show "tx_ok (unsigned_tx sample_batch)"
    by (simp add: tx_ok_def unsigned_tx_def unsigned_fields_def fields_ok_def vl_ok_def)
qed

text \<open>
  A Batch that serializes obeys rippled's rules for its inner transactions: two to eight of them,
  each flagged, with a zero fee, no key and no signature, and none of them a Batch or with inner
  transactions of its own.
\<close>

theorem serialize_batch_inner:
  assumes "Serialize t s = Inr b" "tx_Type (tx_fields t) = TxBatch"
  shows "2 \<le> length (tx_Inner t) \<and> length (tx_Inner t) \<le> 8 \<and>
    list_all (\<lambda>i. IsInner i \<and> tx_Inner i = [] \<and> tx_Type (tx_fields i) \<noteq> TxBatch \<and> tx_FeeDrops (tx_fields i) = 0
      \<and> tx_SigningPubKey (tx_fields i) = [] \<and> tx_TxnSignature (tx_fields i) = []) (tx_Inner t)"
proof -
  obtain c where c: "serialize_each (tx_Inner t) = Inr c" "2 \<le> length (tx_Inner t)" "length (tx_Inner t) \<le> 8"
    using assms by (cases t) (auto simp: and_then_Inr MaxBatchInner_def split: if_splits)
  have "IsInner i \<and> tx_Inner i = [] \<and> tx_Type (tx_fields i) \<noteq> TxBatch \<and> tx_FeeDrops (tx_fields i) = 0
      \<and> tx_SigningPubKey (tx_fields i) = [] \<and> tx_TxnSignature (tx_fields i) = []" if "i \<in> set (tx_Inner t)" for i
    using serialize_each_inner [OF c(1) that] inner_plain [of i False] by blast
  then show ?thesis using c(2,3) by (simp add: list_all_iff)
qed

lemma serialize_batch_inner_witness:
  "length (tx_Inner sample_batch) \<le> 8 \<and> tx_FeeDrops (tx_fields (hd (tx_Inner sample_batch))) = 0"
proof -
  from serialize_batch_inner [OF sample_batch_serializes(1) [of True] sample_batch_serializes(4)] show ?thesis
    by (cases "tx_Inner sample_batch") auto
qed

text \<open>
  The reader always finishes: on every input \<open>Deserialize\<close> returns a transaction or one of the
  source's own errors, never for lack of fuel.
\<close>

theorem deserialize_fuel: "Deserialize b \<noteq> Inl OutOfFuel"
  using object_fuel [of b "Suc (length b)" False empty_tx]
  by (auto simp: Deserialize_def and_then_Inl split: if_splits)

end
