(* ===== verification/Go_Strings.thy ===== *)
theory Go_Strings
  imports Prelude "HOL-Library.Char_ord" "HOL-Library.List_Lexorder"
begin

text \<open>
  The functions of Go's \<^verbatim>\<open>strings\<close> package that the program calls, on byte strings.
  \<^verbatim>\<open>TrimSpace\<close> and \<^verbatim>\<open>Fields\<close> treat every Unicode white-space code point as space; in UTF-8
  those are the byte patterns of \<open>space_runes\<close>.  Since no lead byte of a pattern is a continuation
  byte, matching the patterns byte by byte finds exactly the runes Go's decoder finds, on valid
  and on invalid UTF-8.  \<^verbatim>\<open>ToLower\<close> maps ASCII strings byte by byte and hands every other string
  to the Unicode tables, which are a parameter.
\<close>

section \<open>Prefixes, suffixes, search\<close>

definition has_prefix :: "string \<Rightarrow> string \<Rightarrow> bool" where
  "has_prefix s p \<longleftrightarrow> take (length p) s = p"

definition has_suffix :: "string \<Rightarrow> string \<Rightarrow> bool" where
  "has_suffix s p \<longleftrightarrow> has_prefix (rev s) (rev p)"

fun contains :: "string \<Rightarrow> string \<Rightarrow> bool" where
  "contains [] p = (p = [])"
| "contains (c # s) p = (has_prefix (c # s) p \<or> contains s p)"

text \<open>\<^verbatim>\<open>strings.Index\<close>; \<open>None\<close> is Go's \<open>-1\<close>.\<close>

fun str_index :: "string \<Rightarrow> string \<Rightarrow> nat option" where
  "str_index [] p = (if p = [] then Some 0 else None)"
| "str_index (c # s) p = (if has_prefix (c # s) p then Some 0 else map_option Suc (str_index s p))"

definition index_any :: "string \<Rightarrow> string \<Rightarrow> nat option" where
  "index_any s cs = (let n = length (takeWhile (\<lambda>c. c \<notin> set cs) s) in if n < length s then Some n else None)"

definition trim_prefix :: "string \<Rightarrow> string \<Rightarrow> string" where
  "trim_prefix s p = (if has_prefix s p then drop (length p) s else s)"

definition trim_suffix :: "string \<Rightarrow> string \<Rightarrow> string" where
  "trim_suffix s p = (if has_suffix s p then take (length s - length p) s else s)"

lemma has_prefix_iff: "has_prefix s p \<longleftrightarrow> (\<exists>t. s = p @ t)"
  by (metis append_eq_conv_conj append_take_drop_id has_prefix_def)

lemma has_suffix_iff: "has_suffix s p \<longleftrightarrow> (\<exists>t. s = t @ p)"
proof -
  have "has_suffix s p \<longleftrightarrow> (\<exists>t. rev s = rev p @ t)"
    by (simp add: has_suffix_def has_prefix_iff)
  also have "\<dots> \<longleftrightarrow> (\<exists>t. s = t @ p)"
    by (metis rev_append rev_rev_ident)
  finally show ?thesis .
qed

lemma has_prefix_append [simp]: "has_prefix (p @ s) p"
  by (auto simp: has_prefix_iff)

lemma has_suffix_append [simp]: "has_suffix (s @ p) p"
  by (auto simp: has_suffix_iff)

lemma contains_iff: "contains s p \<longleftrightarrow> (\<exists>a b. s = a @ p @ b)"
proof (induction s)
  case (Cons c s)
  have "(\<exists>a b. c # s = a @ p @ b) \<longleftrightarrow> (\<exists>b. c # s = p @ b) \<or> (\<exists>a b. s = a @ p @ b)"
    by (auto simp: Cons_eq_append_conv intro: exI [of _ "[]"])
  then show ?case using Cons by (simp add: has_prefix_iff)
qed auto

lemma contains_suffix: "has_suffix s p \<Longrightarrow> contains s p"
  by (auto simp: has_suffix_iff contains_iff intro: exI [of _ "[]"])

section \<open>Trimming\<close>

definition is_ascii_space :: "char \<Rightarrow> bool" where
  "is_ascii_space c \<longleftrightarrow> c \<in> set [CHR '' '', CHR 0x09, CHR 0x0A, CHR 0x0B, CHR 0x0C, CHR 0x0D]"

text \<open>\<^verbatim>\<open>strings.Trim(s, cutset)\<close> for an ASCII cutset given as a predicate.\<close>

definition go_trim :: "(char \<Rightarrow> bool) \<Rightarrow> string \<Rightarrow> string" where
  "go_trim p s = rev (dropWhile p (rev (dropWhile p s)))"

definition space_runes :: "string list" where
  "space_runes =
     [[CHR '' ''], [CHR 0x09], [CHR 0x0A], [CHR 0x0B], [CHR 0x0C], [CHR 0x0D],
      [CHR 0xC2, CHR 0x85], [CHR 0xC2, CHR 0xA0], [CHR 0xE1, CHR 0x9A, CHR 0x80],
      [CHR 0xE2, CHR 0x80, CHR 0x80], [CHR 0xE2, CHR 0x80, CHR 0x81], [CHR 0xE2, CHR 0x80, CHR 0x82],
      [CHR 0xE2, CHR 0x80, CHR 0x83], [CHR 0xE2, CHR 0x80, CHR 0x84], [CHR 0xE2, CHR 0x80, CHR 0x85],
      [CHR 0xE2, CHR 0x80, CHR 0x86], [CHR 0xE2, CHR 0x80, CHR 0x87], [CHR 0xE2, CHR 0x80, CHR 0x88],
      [CHR 0xE2, CHR 0x80, CHR 0x89], [CHR 0xE2, CHR 0x80, CHR 0x8A], [CHR 0xE2, CHR 0x80, CHR 0xA8],
      [CHR 0xE2, CHR 0x80, CHR 0xA9], [CHR 0xE2, CHR 0x80, CHR 0xAF], [CHR 0xE2, CHR 0x81, CHR 0x9F],
      [CHR 0xE3, CHR 0x80, CHR 0x80]]"

text \<open>The length of the white-space rune the string starts with, or 0.\<close>

definition space_len :: "string list \<Rightarrow> string \<Rightarrow> nat" where
  "space_len ps s = (case filter (has_prefix s) ps of [] \<Rightarrow> 0 | p # _ \<Rightarrow> length p)"

function strip_left :: "string list \<Rightarrow> string \<Rightarrow> string" where
  "strip_left ps s =
     (if s \<noteq> [] \<and> 0 < space_len ps s then strip_left ps (drop (space_len ps s) s) else s)"
  by pat_completeness auto
termination by (relation "measure (length \<circ> snd)") auto

declare strip_left.simps [simp del]

definition trim_space :: "string \<Rightarrow> string" where
  "trim_space s = rev (strip_left (map rev space_runes) (rev (strip_left space_runes s)))"

lemma strip_left_suffix: "\<exists>t. s = t @ strip_left ps s"
proof (induction ps s rule: strip_left.induct)
  case (1 ps s)
  show ?case
  proof (cases "s \<noteq> [] \<and> 0 < space_len ps s")
    case True
    then obtain t where "drop (space_len ps s) s = t @ strip_left ps (drop (space_len ps s) s)"
      using 1 by blast
    then have "s = (take (space_len ps s) s @ t) @ strip_left ps (drop (space_len ps s) s)"
      by (metis append_assoc append_take_drop_id)
    moreover have "strip_left ps s = strip_left ps (drop (space_len ps s) s)"
      using True by (subst strip_left.simps) simp
    ultimately show ?thesis by metis
  next
    case False
    then have "strip_left ps s = s" by (subst strip_left.simps) auto
    then show ?thesis by simp
  qed
qed

lemma strip_left_stop: "space_len ps s = 0 \<Longrightarrow> strip_left ps s = s"
  by (subst strip_left.simps) simp

lemma trim_space_infix: "\<exists>a b. s = a @ trim_space s @ b"
proof -
  obtain a where a: "s = a @ strip_left space_runes s" using strip_left_suffix by blast
  let ?t = "strip_left space_runes s"
  obtain b where "rev ?t = b @ strip_left (map rev space_runes) (rev ?t)"
    using strip_left_suffix by blast
  then have "?t = trim_space s @ rev b"
    unfolding trim_space_def by (metis rev_append rev_rev_ident)
  with a show ?thesis by metis
qed

lemma go_trim_infix: "\<exists>a b. s = a @ go_trim p s @ b"
proof -
  let ?t = "dropWhile p s"
  have "s = takeWhile p s @ ?t" by simp
  moreover have "?t = go_trim p s @ rev (takeWhile p (rev ?t))"
    unfolding go_trim_def by (metis rev_append rev_rev_ident takeWhile_dropWhile_id)
  ultimately show ?thesis by metis
qed

lemma go_trim_hd: "go_trim p s \<noteq> [] \<Longrightarrow> \<not> p (hd (go_trim p s))"
proof -
  let ?t = "dropWhile p s"
  assume ne: "go_trim p s \<noteq> []"
  have eq: "?t = go_trim p s @ rev (takeWhile p (rev ?t))"
    unfolding go_trim_def by (metis rev_append rev_rev_ident takeWhile_dropWhile_id)
  then have "?t \<noteq> []" "hd ?t = hd (go_trim p s)" using ne by (metis append_is_Nil_conv, metis hd_append2)
  then show ?thesis using hd_dropWhile [of p s] by simp
qed

lemma go_trim_last: "go_trim p s \<noteq> [] \<Longrightarrow> \<not> p (last (go_trim p s))"
  unfolding go_trim_def by (metis hd_dropWhile last_rev rev_is_Nil_conv)

lemma go_trim_idem:
  assumes "s \<noteq> [] \<Longrightarrow> \<not> p (hd s)" and "s \<noteq> [] \<Longrightarrow> \<not> p (last s)"
  shows "go_trim p s = s"
proof (cases "s = []")
  case False
  then have "dropWhile p s = s" using assms(1) by (cases s) auto
  moreover have "dropWhile p (rev s) = rev s" using assms(2) False by (cases s rule: rev_cases) auto
  ultimately show ?thesis by (simp add: go_trim_def)
qed (simp add: go_trim_def)

lemma go_trim_trim [simp]: "go_trim p (go_trim p s) = go_trim p s"
  by (rule go_trim_idem) (auto dest: go_trim_hd go_trim_last)

lemma set_go_trim: "set (go_trim p s) \<subseteq> set s"
  using go_trim_infix [of s p] by (metis Un_upper2 set_append le_sup_iff order_refl)

lemma go_trim_eq_Nil: "go_trim p s = [] \<longleftrightarrow> (\<forall>c \<in> set s. p c)"
proof -
  have "go_trim p s = [] \<longleftrightarrow> (\<forall>c \<in> set (dropWhile p s). p c)"
    by (simp add: go_trim_def)
  also have "\<dots> \<longleftrightarrow> dropWhile p s = []"
    using hd_dropWhile [of p s] by (cases "dropWhile p s") (auto dest: set_dropWhileD)
  finally show ?thesis by simp
qed

lemma space_len_first: "\<forall>p \<in> set ps. p \<noteq> [] \<and> hd p \<noteq> c \<Longrightarrow> space_len ps (c # s) = 0"
proof -
  assume a: "\<forall>p \<in> set ps. p \<noteq> [] \<and> hd p \<noteq> c"
  then have "filter (has_prefix (c # s)) ps = []"
    by (auto simp: filter_empty_conv has_prefix_iff) (metis append_Cons list.exhaust_sel list.inject)
  then show ?thesis by (simp add: space_len_def)
qed

text \<open>A printable ASCII byte starts no white-space rune and ends none, so a text between two such bytes is already trimmed.\<close>

definition is_graph :: "char \<Rightarrow> bool" where
  "is_graph c \<longleftrightarrow> 32 < (of_char c :: nat) \<and> (of_char c :: nat) < 127"

lemma is_graph_not_space:
  "is_graph c \<Longrightarrow> \<forall>p \<in> set space_runes. p \<noteq> [] \<and> hd p \<noteq> c"
  "is_graph c \<Longrightarrow> \<forall>p \<in> set (map rev space_runes). p \<noteq> [] \<and> hd p \<noteq> c"
  by (auto simp: space_runes_def is_graph_def)

lemma trim_space_graph: "s \<noteq> [] \<Longrightarrow> is_graph (hd s) \<Longrightarrow> is_graph (last s) \<Longrightarrow> trim_space s = s"
proof -
  assume s: "s \<noteq> []" "is_graph (hd s)" "is_graph (last s)"
  have "space_len space_runes s = 0"
    using space_len_first [OF is_graph_not_space(1) [OF s(2)], of "tl s"] s(1) by simp
  moreover have "space_len (map rev space_runes) (rev s) = 0"
    using space_len_first [OF is_graph_not_space(2) [OF s(3)], of "rev (butlast s)"] s(1)
    by (metis append_butlast_last_id rev_eq_Cons_iff rev_rev_ident)
  ultimately show ?thesis by (simp add: trim_space_def strip_left_stop)
qed

section \<open>Case mapping\<close>

definition is_ascii :: "char \<Rightarrow> bool" where
  "is_ascii c \<longleftrightarrow> (of_char c :: nat) < 128"

definition ascii_lower :: "char \<Rightarrow> char" where
  "ascii_lower c = (let n = of_char c :: nat in if 65 \<le> n \<and> n \<le> 90 then char_of (n + 32) else c)"

definition ascii_upper :: "char \<Rightarrow> char" where
  "ascii_upper c = (let n = of_char c :: nat in if 97 \<le> n \<and> n \<le> 122 then char_of (n - 32) else c)"

text \<open>\<open>uni\<close> stands for \<^verbatim>\<open>strings.Map(unicode.ToLower, s)\<close>, taken for a string with a non-ASCII byte only.\<close>

definition to_lower :: "(string \<Rightarrow> string) \<Rightarrow> string \<Rightarrow> string" where
  "to_lower uni s = (if list_all is_ascii s then map ascii_lower s else uni s)"

definition to_upper :: "(string \<Rightarrow> string) \<Rightarrow> string \<Rightarrow> string" where
  "to_upper uni s = (if list_all is_ascii s then map ascii_upper s else uni s)"

section \<open>Splitting\<close>

text \<open>\<^verbatim>\<open>strings.FieldsFunc\<close> for a predicate on ASCII bytes.\<close>

fun fields_func :: "(char \<Rightarrow> bool) \<Rightarrow> string \<Rightarrow> string \<Rightarrow> string list" where
  "fields_func p acc [] = (if acc = [] then [] else [rev acc])"
| "fields_func p acc (c # s) =
     (if p c then (if acc = [] then fields_func p [] s else rev acc # fields_func p [] s)
      else fields_func p (c # acc) s)"

text \<open>The first field of \<^verbatim>\<open>strings.Fields\<close>, the only one the program reads: the text up to the next white-space rune.\<close>

fun until_space :: "string \<Rightarrow> string" where
  "until_space [] = []"
| "until_space (c # s) = (if 0 < space_len space_runes (c # s) then [] else c # until_space s)"

text \<open>\<^verbatim>\<open>strings.Split(s, sep)\<close> for a one-byte separator.\<close>

fun split_on :: "char \<Rightarrow> string \<Rightarrow> string list" where
  "split_on d [] = [[]]"
| "split_on d (c # s) =
     (if c = d then [] # split_on d s
      else (case split_on d s of [] \<Rightarrow> [[c]] | w # ws \<Rightarrow> (c # w) # ws))"

lemma split_on_not_Nil [simp]: "split_on d s \<noteq> []"
  by (cases s) (auto split: list.splits)

text \<open>\<^verbatim>\<open>strings.Join\<close>.\<close>

fun join :: "string \<Rightarrow> string list \<Rightarrow> string" where
  "join sep [] = []"
| "join sep [w] = w"
| "join sep (w # ws) = w @ sep @ join sep ws"

lemma join_Cons: "ws \<noteq> [] \<Longrightarrow> join sep (w # ws) = w @ sep @ join sep ws"
  by (cases ws) simp_all

text \<open>Decimal notation of \<^verbatim>\<open>fmt\<close>'s \<open>%d\<close>.\<close>

fun dec_nat :: "nat \<Rightarrow> string" where
  "dec_nat n = (if n < 10 then [char_of (48 + n)] else dec_nat (n div 10) @ [char_of (48 + n mod 10)])"

declare dec_nat.simps [simp del]

definition dec_int :: "int \<Rightarrow> string" where
  "dec_int i = (if i < 0 then ''-'' @ dec_nat (nat (- i)) else dec_nat (nat i))"

end
