(* ===== verification/Container.thy ===== *)
theory Container
  imports Go_Strings "HOL-Library.Multiset"
begin

text \<open>
  \<^verbatim>\<open>internal/container/container.go\<close>: the deterministic archive and its padding.  SHA-256 is the
  parameter \<open>sha256\<close>, of which the archive relies on the length of the digest; DEFLATE is the pair of
  parameters \<open>deflate\<close> and \<open>inflate\<close>, of which \<open>Unpack\<close> relies on \<open>inflate\<close> undoing \<open>deflate\<close>.
\<close>

section \<open>Archive\<close>

definition magic :: "byte list" where
  "magic = bytes ''XBC1''"

definition BlockLen :: nat where
  "BlockLen = 960"

record entry =
  e_Path :: string
  e_Mode :: u32
  e_Data :: "byte list"

datatype container_error =
    DuplicatePath string | BadPathLength string | NotAContainer | TruncatedAt nat | TruncatedInside string
  | HashMismatch string | TrailingContainerBytes | NotWholeBlocks | BadPadding | DecompressFailed

fun find_duplicate :: "string list \<Rightarrow> string option" where
  "find_duplicate (p # q # ps) = (if q = p then Some q else find_duplicate (q # ps))"
| "find_duplicate _ = None"

definition path_ok :: "entry \<Rightarrow> bool" where
  "path_ok e \<longleftrightarrow> e_Path e \<noteq> [] \<and> length (e_Path e) \<le> 65535"

text \<open>The bytes of one entry; the mode is written as given.\<close>

definition entry_bytes :: "(byte list \<Rightarrow> byte list) \<Rightarrow> entry \<Rightarrow> byte list" where
  "entry_bytes sha256 e =
     be16 (of_nat (length (e_Path e))) @ bytes (e_Path e) @ be32 (e_Mode e)
     @ be64 (of_nat (length (e_Data e))) @ sha256 (e_Data e) @ e_Data e"

definition perm_bits :: "entry \<Rightarrow> entry" where
  "perm_bits e = e\<lparr>e_Mode := e_Mode e AND 0xFFF\<rparr>"

fun encode_entries :: "(byte list \<Rightarrow> byte list) \<Rightarrow> entry list \<Rightarrow> container_error + byte list" where
  "encode_entries sha256 [] = Inr []"
| "encode_entries sha256 (e # es) =
     (if \<not> path_ok e then Inl (BadPathLength (e_Path e))
      else and_then (encode_entries sha256 es) (\<lambda>r. Inr (entry_bytes sha256 (perm_bits e) @ r)))"

definition Encode :: "(byte list \<Rightarrow> byte list) \<Rightarrow> entry list \<Rightarrow> container_error + byte list" where
  "Encode sha256 entries =
     (let sorted = sort_key e_Path entries in
      case find_duplicate (map e_Path sorted) of
        Some p \<Rightarrow> Inl (DuplicatePath p)
      | None \<Rightarrow>
          and_then (encode_entries sha256 sorted)
            (\<lambda>r. Inr (magic @ be32 (of_nat (length sorted)) @ r)))"

definition decode_entry :: "(byte list \<Rightarrow> byte list) \<Rightarrow> nat \<Rightarrow> (container_error, entry) reader" where
  "decode_entry sha256 i bs =
     and_then (rd_u16 (TruncatedAt i) bs) (\<lambda>(plen, bs).
     and_then (rd_take (TruncatedAt i) (unat plen) bs) (\<lambda>(path, bs).
     and_then (rd_u32 (TruncatedAt i) bs) (\<lambda>(mode, bs).
     and_then (rd_u64 (TruncatedAt i) bs) (\<lambda>(size, bs).
     and_then (rd_take (TruncatedAt i) 32 bs) (\<lambda>(sum, bs).
     and_then (rd_take (TruncatedInside (str path)) (unat size) bs) (\<lambda>(data, bs).
       if sha256 data \<noteq> sum then Inl (HashMismatch (str path))
       else Inr (\<lparr>e_Path = str path, e_Mode = mode, e_Data = data\<rparr>, bs)))))))"

fun decode_entries :: "(byte list \<Rightarrow> byte list) \<Rightarrow> nat \<Rightarrow> nat \<Rightarrow> (container_error, entry list) reader" where
  "decode_entries sha256 i 0 bs = Inr ([], bs)"
| "decode_entries sha256 i (Suc n) bs =
     and_then (decode_entry sha256 i bs) (\<lambda>(e, bs).
     and_then (decode_entries sha256 (Suc i) n bs) (\<lambda>(es, bs). Inr (e # es, bs)))"

definition Decode :: "(byte list \<Rightarrow> byte list) \<Rightarrow> byte list \<Rightarrow> container_error + entry list" where
  "Decode sha256 b =
     (if length b < 8 \<or> take 4 b \<noteq> magic then Inl NotAContainer
      else
        and_then (rd_u32 NotAContainer (drop 4 b)) (\<lambda>(count, bs).
        and_then (decode_entries sha256 0 (unat count) bs) (\<lambda>(es, bs).
          if bs \<noteq> [] then Inl TrailingContainerBytes else Inr es)))"

section \<open>Padding\<close>

definition pad_len :: "nat \<Rightarrow> nat" where
  "pad_len n = (let pad = BlockLen - (n + 2) mod BlockLen in if pad = BlockLen then 0 else pad)"

definition Pack :: "(byte list \<Rightarrow> byte list) \<Rightarrow> byte list \<Rightarrow> byte list" where
  "Pack deflate raw =
     (let c = deflate raw; pad = pad_len (length c)
      in c @ replicate pad 0 @ be16 (of_nat (pad + 2)))"

definition Unpack :: "(byte list \<Rightarrow> byte list option) \<Rightarrow> byte list \<Rightarrow> container_error + byte list" where
  "Unpack inflate packed =
     (if length packed < 2 \<or> length packed mod BlockLen \<noteq> 0 then Inl NotWholeBlocks
      else
        (let pad = unat (uint16_be (drop (length packed - 2) packed)) in
         if pad < 2 \<or> pad > length packed then Inl BadPadding
         else case inflate (take (length packed - pad) packed) of
           None \<Rightarrow> Inl DecompressFailed
         | Some raw \<Rightarrow> Inr raw))"

section \<open>One entry\<close>

text \<open>What the fixed-width length fields can say.\<close>

definition entry_ok :: "entry \<Rightarrow> bool" where
  "entry_ok e \<longleftrightarrow> length (e_Path e) < 2 ^ 16 \<and> length (e_Data e) < 2 ^ 64"

interpretation c_entry: prefix_codec "entry_bytes sha256" "decode_entry sha256 i"
  "\<lambda>e. entry_ok e \<and> length (sha256 (e_Data e)) = 32" for sha256 i
  by unfold_locales
     (simp add: entry_bytes_def decode_entry_def entry_ok_def unat_of_nat_len)

lemma decode_entries_bytes:
  "\<forall>e \<in> set es. entry_ok e \<and> length (sha256 (e_Data e)) = 32 \<Longrightarrow>
     decode_entries sha256 i (length es) (concat (map (entry_bytes sha256) es) @ r) = Inr (es, r)"
  by (induction es arbitrary: i) (auto simp: c_entry.dec_enc)

section \<open>The archive\<close>

lemma encode_entries_Inr:
  "encode_entries sha256 es = Inr b \<longleftrightarrow> (\<forall>e \<in> set es. path_ok e) \<and> b = concat (map (entry_bytes sha256 \<circ> perm_bits) es)"
  by (induction es arbitrary: b) (auto simp: and_then_Inr)

lemma find_duplicate_None: "sorted ps \<Longrightarrow> find_duplicate ps = None \<longleftrightarrow> distinct ps"
  by (induction ps rule: find_duplicate.induct) auto

lemma Encode_Inr:
  "Encode sha256 es = Inr b \<longleftrightarrow> distinct (map e_Path es) \<and> (\<forall>e \<in> set es. path_ok e) \<and>
     b = magic @ be32 (of_nat (length es)) @ concat (map (entry_bytes sha256 \<circ> perm_bits) (sort_key e_Path es))"
proof -
  have "distinct (map e_Path (sort_key e_Path es)) \<longleftrightarrow> distinct (map e_Path es)"
    by (metis distinct_map distinct_sort set_sort)
  then have "find_duplicate (map e_Path (sort_key e_Path es)) = None \<longleftrightarrow> distinct (map e_Path es)"
    by (simp add: find_duplicate_None)
  then show ?thesis
    by (auto simp: Encode_def Let_def and_then_Inr encode_entries_Inr split: option.splits)
qed

lemma Decode_magic:
  "Decode sha256 (magic @ be32 n @ r) =
     and_then (decode_entries sha256 0 (unat n) r) (\<lambda>(es, bs). if bs \<noteq> [] then Inl TrailingContainerBytes else Inr es)"
  by (simp add: Decode_def magic_def bytes_def)

lemma path_ok_entry: "path_ok e \<Longrightarrow> length (e_Data e) < 2 ^ 64 \<Longrightarrow> entry_ok (perm_bits e)"
  by (simp add: path_ok_def entry_ok_def perm_bits_def)

lemma decode_encoded:
  assumes "\<forall>d. length (sha256 d) = 32"
    and "Encode sha256 es = Inr b" "length es < 2 ^ 32" "\<forall>e \<in> set es. length (e_Data e) < 2 ^ 64"
  shows "Decode sha256 b = Inr (map perm_bits (sort_key e_Path es))"
proof -
  let ?fs = "map perm_bits (sort_key e_Path es)"
  have "\<forall>e \<in> set ?fs. entry_ok e \<and> length (sha256 (e_Data e)) = 32"
    using assms by (auto simp: Encode_Inr path_ok_entry)
  from decode_entries_bytes [OF this, of 0 "[]"] show ?thesis
    using assms(2,3) by (simp add: Encode_Inr Decode_magic unat_of_nat_len)
qed

definition sample_entry :: entry where
  "sample_entry = \<lparr>e_Path = ''a'', e_Mode = 0x1A4, e_Data = [1, 2, 3]\<rparr>"

definition sample_sha :: "byte list \<Rightarrow> byte list" where
  "sample_sha d = replicate 32 (of_nat (length d))"

lemma sample_archive:
  "Encode sample_sha [sample_entry] = Inr (projr (Encode sample_sha [sample_entry]))"
  "perm_bits sample_entry = sample_entry" "\<forall>d. length (sample_sha d) = 32" "length (e_Data sample_entry) < 2 ^ 64"
  by (simp_all add: Encode_def sample_entry_def path_ok_def perm_bits_def sample_sha_def)

text \<open>
  The archive is lossless: decoding an encoded set of files gives back every file, sorted by path,
  with its permission bits.  SHA-256 is relied on for the length of its digest only.
\<close>

theorem decode_encode:
  assumes "\<forall>d. length (sha256 d) = 32"
    and "Encode sha256 es = Inr b" "length es < 2 ^ 32" "\<forall>e \<in> set es. length (e_Data e) < 2 ^ 64"
  shows "Decode sha256 b = Inr (map perm_bits (sort_key e_Path es))"
  using assms by (rule decode_encoded)

lemma decode_encode_witness:
  "Decode sample_sha (projr (Encode sample_sha [sample_entry])) = Inr [sample_entry]"
  using decode_encode [OF sample_archive(3,1)] sample_archive(2,4) by simp

lemma map_sort_key: "map f (sort_key f xs) = sort (map f xs)"
  by (rule properties_for_sort [symmetric]) simp_all

lemma sort_key_unique:
  assumes "mset es = mset fs" "distinct (map e_Path es)"
  shows "sort_key e_Path es = sort_key e_Path fs"
proof (rule map_inj_on)
  have "mset (map e_Path es) = mset (map e_Path fs)" using assms(1) by simp
  then have "sort (map e_Path es) = sort (map e_Path fs)" by (metis properties_for_sort mset_sort sorted_sort)
  then show "map e_Path (sort_key e_Path es) = map e_Path (sort_key e_Path fs)" by (simp only: map_sort_key)
  show "inj_on e_Path (set (sort_key e_Path es) \<union> set (sort_key e_Path fs))"
    using assms mset_eq_setD [OF assms(1)] by (simp add: distinct_map)
qed

text \<open>
  The archive is deterministic: the same files, in whatever order they are collected, give the
  same bytes or the same refusal.
\<close>

theorem encode_order_free:
  assumes "mset es = mset fs"
  shows "Encode sha256 es = Encode sha256 fs"
proof (cases "distinct (map e_Path es)")
  case True
  then show ?thesis using sort_key_unique [OF assms] by (simp add: Encode_def)
next
  case False
  have "mset (map e_Path es) = mset (map e_Path fs)" using assms by simp
  then have s: "sort (map e_Path es) = sort (map e_Path fs)" by (metis properties_for_sort mset_sort sorted_sort)
  have "find_duplicate (sort (map e_Path es)) \<noteq> None" using False by (simp add: find_duplicate_None)
  then show ?thesis by (auto simp: Encode_def map_sort_key s Let_def)
qed

lemma encode_order_free_witness:
  "Encode (\<lambda>_. []) [sample_entry, sample_entry\<lparr>e_Path := ''b''\<rparr>] = Encode (\<lambda>_. []) [sample_entry\<lparr>e_Path := ''b''\<rparr>, sample_entry]"
  by (rule encode_order_free) simp

lemma rd_be_be16: "rd_u16 e bs = Inr (v, r) \<Longrightarrow> bs = be16 v @ r"
  by (auto simp: rd_be_def and_then_Inr rd_take_Inr be16_be_acc)

lemma rd_be_be32: "rd_u32 e bs = Inr (v, r) \<Longrightarrow> bs = be32 v @ r"
  by (auto simp: rd_be_def and_then_Inr rd_take_Inr be32_be_acc)

lemma rd_be_be64: "rd_u64 e bs = Inr (v, r) \<Longrightarrow> bs = be64 v @ r"
  by (auto simp: rd_be_def and_then_Inr rd_take_Inr be64_be_acc)

lemma decode_entry_sound:
  assumes "decode_entry sha256 i bs = Inr (e, r)"
  shows "bs = entry_bytes sha256 e @ r"
  using assms
  by (auto simp: decode_entry_def entry_bytes_def and_then_Inr rd_take_Inr split: if_splits
      dest!: rd_be_be16 rd_be_be32 rd_be_be64)

lemma decode_entries_sound:
  "decode_entries sha256 i n bs = Inr (es, r) \<Longrightarrow> bs = concat (map (entry_bytes sha256) es) @ r \<and> length es = n"
  by (induction n arbitrary: i bs es) (auto simp: and_then_Inr dest!: decode_entry_sound)

lemma Decode_sound:
  assumes "Decode sha256 b = Inr es"
  shows "b = magic @ be32 (of_nat (length es)) @ concat (map (entry_bytes sha256) es)"
proof -
  obtain count bs where c: "take 4 b = magic" "rd_u32 NotAContainer (drop 4 b) = Inr (count, bs)"
    "decode_entries sha256 0 (unat count) bs = Inr (es, [])"
    using assms by (auto simp: Decode_def and_then_Inr split: if_splits)
  have "bs = concat (map (entry_bytes sha256) es)" "length es = unat count"
    using decode_entries_sound [OF c(3)] by simp_all
  moreover have "b = magic @ be32 count @ bs" using c(1) rd_be_be32 [OF c(2)] append_take_drop_id [of 4 b] by simp
  ultimately show ?thesis by simp
qed

text \<open>
  An archive that decodes holds nothing but its files: two byte strings that decode to the same
  files are equal, so no byte of an accepted archive is ignored, and every digest was checked.
\<close>

theorem decode_inject:
  assumes "Decode sha256 a = Inr es" "Decode sha256 b = Inr es"
  shows "a = b \<and> a = magic @ be32 (of_nat (length es)) @ concat (map (entry_bytes sha256) es)"
  using assms [THEN Decode_sound] by simp

lemma decode_inject_witness:
  "projr (Encode sample_sha [sample_entry]) = magic @ be32 1 @ entry_bytes sample_sha sample_entry"
proof -
  have "Decode sample_sha (projr (Encode sample_sha [sample_entry])) = Inr [sample_entry]"
    using decode_encoded [OF sample_archive(3,1)] sample_archive(2,4) by simp
  from decode_inject [OF this this] show ?thesis by simp
qed

section \<open>Padding\<close>

lemma pad_len_props: "pad_len n < 960" "(n + pad_len n + 2) mod 960 = 0"
proof -
  have m: "(n + 2) mod 960 < 960" by simp
  show "pad_len n < 960" using m by (auto simp: pad_len_def BlockLen_def Let_def)
  have "(n + 2 + (960 - (n + 2) mod 960)) mod 960 = 0"
    using m mult_div_mod_eq [of 960 "n + 2"] by (metis add.commute add_diff_cancel_left' le_add_diff_inverse less_imp_le mod_add_left_eq mod_self)
  then show "(n + pad_len n + 2) mod 960 = 0"
    by (auto simp: pad_len_def BlockLen_def Let_def ac_simps split: if_splits)
qed

lemma unpack_packed:
  assumes "\<forall>x. inflate (deflate x) = Some x"
  shows "Unpack inflate (Pack deflate raw) = Inr raw
    \<and> length (Pack deflate raw) mod BlockLen = 0 \<and> 0 < length (Pack deflate raw)"
proof -
  define c where "c = deflate raw"
  define n where "n = pad_len (length c)"
  have p: "Pack deflate raw = c @ replicate n 0 @ be16 (of_nat (n + 2))"
    by (simp add: Pack_def Let_def c_def n_def)
  have n: "n < 960" "(length c + n + 2) mod 960 = 0" using pad_len_props by (simp_all add: n_def)
  have l: "length (Pack deflate raw) = length c + n + 2" by (simp add: p)
  have d: "drop (length (Pack deflate raw) - 2) (Pack deflate raw) = be16 (of_nat (n + 2))"
    unfolding l unfolding p by simp
  have u: "unat (of_nat (n + 2) :: u16) = n + 2" using n(1) by (intro unat_of_nat_len) simp
  have t: "take (length c) (Pack deflate raw) = c" by (simp add: p)
  have "inflate c = Some raw" using assms by (simp add: c_def)
  moreover have "unat (uint16_be (drop (length (Pack deflate raw) - 2) (Pack deflate raw))) = n + 2"
    by (simp only: d u uint16_be16)
  ultimately show ?thesis
    using n l unfolding Unpack_def Let_def BlockLen_def by (simp add: t)
qed

text \<open>
  Packing is exact and block aligned: whatever the input, the packed form is a positive number of
  960 byte blocks, which \<open>chunk.Split\<close> requires, and unpacking gives the input back.  DEFLATE is relied
  on for \<open>inflate\<close> undoing \<open>deflate\<close>.
\<close>

theorem unpack_pack:
  assumes "\<forall>x. inflate (deflate x) = Some x"
  shows "Unpack inflate (Pack deflate raw) = Inr raw
    \<and> length (Pack deflate raw) mod BlockLen = 0 \<and> 0 < length (Pack deflate raw)"
  using assms by (rule unpack_packed)

lemma unpack_pack_witness: "Unpack Some (Pack id [1, 2, 3]) = Inr [1, 2, 3]"
  using unpack_pack [where inflate = Some and deflate = id and raw = "[1, 2, 3]"] by simp

end
