(* ===== verification/Chunk.thy ===== *)
theory Chunk
  imports Codec Container Crypto
begin

text \<open>
  \<^verbatim>\<open>internal/chunk/chunk.go\<close>: the memo payloads that carry ciphertext, and the cut of packed plaintext into
  blocks.  A Go byte array of fixed length is a list of that length.
\<close>

section \<open>Definitions\<close>

definition TypeChunk :: string where "TypeChunk = ''xrplbak/v1/c''"
definition TypeManifest :: string where "TypeManifest = ''xrplbak/v1/m''"
definition chunk_Version :: byte where "chunk_Version = 1"
definition headerLen :: nat where "headerLen = 1 + 16 + 2 + 2"
definition ManifestPartLen :: nat where "ManifestPartLen = BlockLen - 16"
definition MaxChunks :: nat where "MaxChunks = 8"
definition MaxManifestParts :: nat where "MaxManifestParts = 16"

record payload =
  pl_Type :: string
  pl_BackupID :: "byte list"
  pl_Index :: u16
  pl_Total :: u16
  pl_Nonce :: "byte list"
  pl_Ciphertext :: "byte list"

datatype chunk_error = BackupIDLength | NonceMismatch | MemoRejected codec_error | NotBlockAligned

definition chunk_data :: "byte list \<Rightarrow> u16 \<Rightarrow> u16 \<Rightarrow> byte list \<Rightarrow> byte list \<Rightarrow> byte list" where
  "chunk_data backupID idx tot nonce ct = [chunk_Version] @ backupID @ be16 idx @ be16 tot @ nonce @ ct"

definition chunk_Encode ::
    "string \<Rightarrow> byte list \<Rightarrow> u16 \<Rightarrow> u16 \<Rightarrow> byte list \<Rightarrow> byte list \<Rightarrow> chunk_error + memo" where
  "chunk_Encode typ backupID idx tot nonce ct =
     (if length backupID \<noteq> 16 then Inl BackupIDLength
      else if (typ = TypeManifest) \<noteq> (length nonce = ManifestNonceLen) then Inl NonceMismatch
      else
        (let m = \<lparr>memo_Type = bytes typ, memo_Data = chunk_data backupID idx tot nonce ct, memo_Format = []\<rparr> in
         case SerializeMemos [m] of Inl e \<Rightarrow> Inl (MemoRejected e) | Inr _ \<Rightarrow> Inr m))"

definition chunk_Decode :: "memo \<Rightarrow> payload option" where
  "chunk_Decode m =
     (let typ = str (memo_Type m); d = memo_Data m in
      if typ \<noteq> TypeChunk \<and> typ \<noteq> TypeManifest then None
      else if length d < headerLen + TagLen \<or> d ! 0 \<noteq> chunk_Version then None
      else
        (let idx = uint16_be (take 2 (drop 17 d)); tot = uint16_be (take 2 (drop 19 d)); rest = drop headerLen d in
         if typ = TypeManifest \<and> length rest < ManifestNonceLen + TagLen then None
         else
           (let nonce = (if typ = TypeManifest then take ManifestNonceLen rest else replicate ManifestNonceLen 0);
                body = (if typ = TypeManifest then drop ManifestNonceLen rest else rest) in
            if tot = 0 \<or> idx \<ge> tot then None
            else Some \<lparr>pl_Type = typ, pl_BackupID = take 16 (drop 1 d), pl_Index = idx, pl_Total = tot,
                       pl_Nonce = nonce, pl_Ciphertext = body\<rparr>)))"

definition chunk_Split :: "byte list \<Rightarrow> chunk_error + byte list list" where
  "chunk_Split packed =
     (if packed = [] \<or> length packed mod BlockLen \<noteq> 0 then Inl NotBlockAligned
      else Inr (map (\<lambda>i. take BlockLen (drop (i * BlockLen) packed)) [0..<length packed div BlockLen]))"

section \<open>Memos carry their payload\<close>

lemma chunk_types: "TypeChunk \<noteq> TypeManifest" "length TypeChunk = 12" "length TypeManifest = 12"
  by (simp_all add: TypeChunk_def TypeManifest_def)

lemma chunk_Encode_Inr:
  "chunk_Encode typ i idx tot nonce ct = Inr m \<Longrightarrow>
     length i = 16 \<and> ((typ = TypeManifest) = (length nonce = 10)) \<and>
     m = \<lparr>memo_Type = bytes typ, memo_Data = chunk_data i idx tot nonce ct, memo_Format = []\<rparr>"
  by (auto simp: chunk_Encode_def ManifestNonceLen_def Let_def split: if_splits sum.splits)

lemma chunk_data_parts:
  assumes "length i = 16"
  shows "take 16 (drop 1 (chunk_data i idx tot nonce ct)) = i" "take 2 (drop 17 (chunk_data i idx tot nonce ct)) = be16 idx"
    "take 2 (drop 19 (chunk_data i idx tot nonce ct)) = be16 tot" "drop 21 (chunk_data i idx tot nonce ct) = nonce @ ct"
    "length (chunk_data i idx tot nonce ct) = 21 + length nonce + length ct" "chunk_data i idx tot nonce ct ! 0 = 1"
  using assms by (simp_all add: chunk_data_def chunk_Version_def)

lemma decode_chunk_data:
  assumes "length i = 16" "typ = TypeChunk \<and> nonce = [] \<or> typ = TypeManifest \<and> length nonce = 10"
    and "idx < tot" "TagLen \<le> length ct"
  shows "chunk_Decode \<lparr>memo_Type = bytes typ, memo_Data = chunk_data i idx tot nonce ct, memo_Format = []\<rparr> =
    Some \<lparr>pl_Type = typ, pl_BackupID = i, pl_Index = idx, pl_Total = tot,
      pl_Nonce = (if typ = TypeManifest then nonce else replicate 10 0), pl_Ciphertext = ct\<rparr>"
proof -
  have "tot \<noteq> 0" using assms(3) by (metis word_not_simps(1))
  then show ?thesis
    using assms chunk_data_parts [of i idx tot nonce ct] chunk_types(1)
    by (auto simp: chunk_Decode_def headerLen_def TagLen_def ManifestNonceLen_def chunk_Version_def Let_def)
qed

lemma decode_encoded_memo:
  assumes "chunk_Encode typ i idx tot nonce ct = Inr m" "typ = TypeChunk \<and> nonce = [] \<or> typ = TypeManifest"
    and "idx < tot" "TagLen \<le> length ct"
  shows "chunk_Decode m = Some \<lparr>pl_Type = typ, pl_BackupID = i, pl_Index = idx, pl_Total = tot,
    pl_Nonce = (if typ = TypeManifest then nonce else replicate 10 0), pl_Ciphertext = ct\<rparr>"
  using chunk_Encode_Inr [OF assms(1)] assms(2-4) by (metis decode_chunk_data)

text \<open>
  A memo carries its piece: decoding an encoded memo gives the type, the backup, the position, the
  nonce of a manifest part, and the ciphertext, for every ciphertext that has room for its tag.
\<close>

theorem chunk_decode_encode:
  assumes "chunk_Encode typ i idx tot nonce ct = Inr m" "typ = TypeChunk \<and> nonce = [] \<or> typ = TypeManifest"
    and "idx < tot" "TagLen \<le> length ct"
  shows "chunk_Decode m = Some \<lparr>pl_Type = typ, pl_BackupID = i, pl_Index = idx, pl_Total = tot,
    pl_Nonce = (if typ = TypeManifest then nonce else replicate 10 0), pl_Ciphertext = ct\<rparr>"
  using assms by (rule decode_encoded_memo)

text \<open>The size of one memo: two length bytes once its data passes 192 bytes.\<close>

lemma memo_size:
  assumes "length (memo_Type m) = 12" "192 < length (memo_Data m)" "length (memo_Data m) \<le> 12480" "memo_Format m = []"
  shows "length (appendHeader 15 9 @ concat (map memo_bytes [m]) @ [0xF1]) = length (memo_Data m) + 21"
  using assms by (auto simp: memo_bytes_def opt_vl_def appendVL_def vl_prefix_def appendHeader_def)

lemma encode_fits:
  assumes "length typ = 12" "(typ = TypeManifest) = (length nonce = 10)" "length i = 16"
    and "171 < length nonce + length ct" "length nonce + length ct \<le> 982"
  shows "\<exists>m. chunk_Encode typ i idx tot nonce ct = Inr m"
proof -
  let ?m = "\<lparr>memo_Type = bytes typ, memo_Data = chunk_data i idx tot nonce ct, memo_Format = []\<rparr>"
  have l: "length (memo_Data ?m) = 21 + (length nonce + length ct)"
    using chunk_data_parts(5) [OF assms(3)] by simp
  have "length (appendHeader 15 9 @ concat (map memo_bytes [?m]) @ [0xF1]) \<le> 1024"
    using memo_size [of ?m] l assms by simp
  then have "\<exists>b. SerializeMemos [?m] = Inr b" by (simp add: SerializeMemos_def MaxMemosSerialized_def)
  then show ?thesis using assms(2,3) by (auto simp: chunk_Encode_def ManifestNonceLen_def)
qed

text \<open>
  The sizes were chosen right: a sealed block of 960 bytes always fits a chunk memo, and a sealed
  full manifest part always fits a manifest memo, within rippled's limit on serialized memos.
\<close>

theorem sealed_pieces_fit:
  assumes "gcm_ok g" "length i = 16" "length prefix = ManifestNonceLen"
    and "length block = BlockLen" "length part = ManifestPartLen"
  shows "\<exists>m m' c. chunk_Encode TypeChunk i idx tot [] (SealChunk g key i idx tot block) = Inr m
    \<and> SealManifest g key i prefix idx tot part = Some c \<and> chunk_Encode TypeManifest i idx tot prefix c = Inr m'"
proof -
  obtain c where c: "SealManifest g key i prefix idx tot part = Some c" "length c = 960"
    using assms by (simp add: SealManifest_def gcm_length ManifestPartLen_def BlockLen_def)
  have s: "length (SealChunk g key i idx tot block) = 976"
    using assms by (simp add: SealChunk_def gcm_length BlockLen_def)
  obtain m where "chunk_Encode TypeChunk i idx tot [] (SealChunk g key i idx tot block) = Inr m"
    using encode_fits [of TypeChunk "[]" i "SealChunk g key i idx tot block" idx tot] chunk_types s assms(2) by auto
  moreover obtain m' where "chunk_Encode TypeManifest i idx tot prefix c = Inr m'"
    using encode_fits [of TypeManifest prefix i c idx tot] chunk_types c(2) assms(2,3) by (auto simp: ManifestNonceLen_def)
  ultimately show ?thesis using c(1) by blast
qed

lemma sealed_pieces_fit_witness:
  "\<exists>m m' c. chunk_Encode TypeChunk (replicate 16 1) 0 1 [] (SealChunk toy_gcm [] (replicate 16 1) 0 1 (replicate 960 2)) = Inr m
    \<and> SealManifest toy_gcm [] (replicate 16 1) (replicate 10 3) 0 1 (replicate 944 4) = Some c
    \<and> chunk_Encode TypeManifest (replicate 16 1) 0 1 (replicate 10 3) c = Inr m'"
  by (rule sealed_pieces_fit [OF toy_gcm_ok]) (simp_all add: BlockLen_def ManifestPartLen_def ManifestNonceLen_def)

lemma chunk_decode_encode_witness:
  "map_option pl_Ciphertext (chunk_Decode (projr (chunk_Encode TypeChunk (replicate 16 1) 0 1 [] (replicate 200 2))))
     = Some (replicate 200 2)"
proof -
  obtain m where m: "chunk_Encode TypeChunk (replicate 16 1) 0 1 [] (replicate 200 2) = Inr m"
    using encode_fits [of TypeChunk "[]" "replicate 16 1" "replicate 200 2" 0 1] chunk_types by auto
  from chunk_decode_encode [OF this] show ?thesis by (simp add: m TagLen_def)
qed

text \<open>Cutting into blocks loses nothing, and is refused exactly when the input is empty or not block aligned.\<close>

lemma chunk_Split_blocks:
  "case chunk_Split packed of
     Inl e \<Rightarrow> e = NotBlockAligned \<and> (packed = [] \<or> 0 < length packed mod BlockLen)
   | Inr ps \<Rightarrow> concat ps = packed \<and> list_all (\<lambda>p. length p = BlockLen) ps \<and> ps \<noteq> []"
proof (cases "packed = [] \<or> length packed mod BlockLen \<noteq> 0")
  case False
  let ?n = "length packed div BlockLen"
  have n: "length packed = ?n * BlockLen" using False by (metis add.right_neutral div_mult_mod_eq)
  have "concat (map (\<lambda>i. take BlockLen (drop (i * BlockLen) packed)) [0..<?n]) = packed"
    by (rule concat_blocks_all) (use n in simp)
  moreover have "length (take BlockLen (drop (i * BlockLen) packed)) = BlockLen" if "i < ?n" for i
  proof -
    have "Suc i * BlockLen \<le> length packed" using that n by (metis Suc_leI mult_le_mono1)
    then show ?thesis by simp
  qed
  moreover have "0 < ?n" using False n by (metis length_0_conv gr0I mult_0)
  ultimately show ?thesis using False by (simp add: chunk_Split_def list_all_iff)
qed (auto simp: chunk_Split_def)

end
