(* ===== verification/Ripemd160.thy ===== *)
theory Ripemd160
  imports Prelude
begin

unbundle bit_operations_syntax

text \<open>
  RIPEMD-160 (\<^verbatim>\<open>internal/xrpl/sign/ripemd160\<close>): the block function with its two parallel lines on
  32-bit words, and the buffered digest with \<^verbatim>\<open>Reset\<close>, \<^verbatim>\<open>Write\<close> and \<^verbatim>\<open>Sum\<close>.  The buffered digest is
  proved equal to hashing the padded message in one pass, however the message is cut into writes.
\<close>

section \<open>The block function\<close>

definition BlockSize :: nat where "BlockSize = 64"

definition line_n :: "nat list" where
  "line_n = [
    0, 1, 2, 3, 4, 5, 6, 7, 8, 9, 10, 11, 12, 13, 14, 15,
    7, 4, 13, 1, 10, 6, 15, 3, 12, 0, 9, 5, 2, 14, 11, 8,
    3, 10, 14, 4, 9, 15, 8, 1, 2, 7, 0, 6, 13, 11, 5, 12,
    1, 9, 11, 10, 0, 8, 12, 4, 13, 3, 7, 15, 14, 5, 6, 2,
    4, 0, 5, 9, 7, 12, 2, 10, 14, 1, 3, 8, 11, 6, 15, 13]"

definition line_r :: "nat list" where
  "line_r = [
    11, 14, 15, 12, 5, 8, 7, 9, 11, 13, 14, 15, 6, 7, 9, 8,
    7, 6, 8, 13, 11, 9, 7, 15, 7, 12, 15, 9, 11, 7, 13, 12,
    11, 13, 6, 7, 14, 9, 13, 15, 14, 8, 13, 6, 5, 12, 7, 5,
    11, 12, 14, 15, 14, 15, 9, 8, 9, 14, 5, 6, 8, 6, 5, 12,
    9, 15, 5, 11, 6, 8, 13, 12, 5, 12, 13, 14, 11, 8, 5, 6]"

definition para_n :: "nat list" where
  "para_n = [
    5, 14, 7, 0, 9, 2, 11, 4, 13, 6, 15, 8, 1, 10, 3, 12,
    6, 11, 3, 7, 0, 13, 5, 10, 14, 15, 8, 12, 4, 9, 1, 2,
    15, 5, 1, 3, 7, 14, 6, 9, 11, 8, 12, 2, 10, 0, 4, 13,
    8, 6, 4, 1, 3, 11, 15, 0, 5, 12, 2, 13, 9, 7, 10, 14,
    12, 15, 10, 4, 1, 5, 8, 7, 6, 2, 13, 14, 0, 3, 9, 11]"

definition para_r :: "nat list" where
  "para_r = [
    8, 9, 9, 11, 13, 15, 15, 5, 7, 7, 8, 11, 14, 14, 12, 6,
    9, 13, 15, 7, 12, 8, 9, 11, 7, 7, 12, 7, 6, 15, 13, 11,
    9, 7, 15, 11, 8, 6, 6, 14, 12, 13, 5, 14, 13, 13, 7, 5,
    15, 5, 8, 11, 14, 14, 6, 14, 6, 9, 12, 9, 12, 5, 15, 8,
    8, 5, 12, 9, 12, 5, 14, 6, 8, 13, 6, 5, 15, 13, 11, 11]"

type_synonym rstate = "u32 \<times> u32 \<times> u32 \<times> u32 \<times> u32"

text \<open>One step of one line: \<open>v\<close> is the round function's value, \<open>k\<close> the round constant.\<close>

definition line_step :: "(u32 \<Rightarrow> u32 \<Rightarrow> u32 \<Rightarrow> u32) \<Rightarrow> u32 \<Rightarrow> u32 \<Rightarrow> nat \<Rightarrow> rstate \<Rightarrow> rstate" where
  "line_step f k xi s = (\<lambda>(a, b, c, d, e).
     let alpha = a + f b c d + xi + k;
         alpha = word_rotl s alpha + e;
         beta = word_rotl 10 c
     in (e, alpha, b, beta, d))"

definition f_xor :: "u32 \<Rightarrow> u32 \<Rightarrow> u32 \<Rightarrow> u32" where "f_xor b c d = b XOR c XOR d"
definition f_bc_nbd :: "u32 \<Rightarrow> u32 \<Rightarrow> u32 \<Rightarrow> u32" where "f_bc_nbd b c d = (b AND c) OR (NOT b AND d)"
definition f_bnc_d :: "u32 \<Rightarrow> u32 \<Rightarrow> u32 \<Rightarrow> u32" where "f_bnc_d b c d = (b OR NOT c) XOR d"
definition f_bd_cnd :: "u32 \<Rightarrow> u32 \<Rightarrow> u32 \<Rightarrow> u32" where "f_bd_cnd b c d = (b AND d) OR (c AND NOT d)"
definition f_b_cnd :: "u32 \<Rightarrow> u32 \<Rightarrow> u32 \<Rightarrow> u32" where "f_b_cnd b c d = b XOR (c OR NOT d)"

text \<open>The five rounds: function and constant of the line and of the parallel line at step \<open>i\<close>.\<close>

definition round_of :: "nat \<Rightarrow> ((u32 \<Rightarrow> u32 \<Rightarrow> u32 \<Rightarrow> u32) \<times> u32) \<times> ((u32 \<Rightarrow> u32 \<Rightarrow> u32 \<Rightarrow> u32) \<times> u32)" where
  "round_of i =
     (if i < 16 then ((f_xor, 0), (f_b_cnd, 0x50a28be6))
      else if i < 32 then ((f_bc_nbd, 0x5a827999), (f_bd_cnd, 0x5c4dd124))
      else if i < 48 then ((f_bnc_d, 0x6ed9eba1), (f_bnc_d, 0x6d703ef3))
      else if i < 64 then ((f_bd_cnd, 0x8f1bbcdc), (f_bc_nbd, 0x7a6d76e9))
      else ((f_b_cnd, 0xa953fd4e), (f_xor, 0)))"

definition both_lines :: "u32 list \<Rightarrow> nat \<Rightarrow> rstate \<times> rstate \<Rightarrow> rstate \<times> rstate" where
  "both_lines x i = (\<lambda>(l, p).
     let ((f, k), (f', k')) = round_of i
     in (line_step f k (x ! (line_n ! i)) (line_r ! i) l, line_step f' k' (x ! (para_n ! i)) (para_r ! i) p))"

definition le32_at :: "byte list \<Rightarrow> nat \<Rightarrow> u32" where
  "le32_at p j = ucast (p ! j) OR push_bit 8 (ucast (p ! (j + 1))) OR push_bit 16 (ucast (p ! (j + 2))) OR push_bit 24 (ucast (p ! (j + 3)))"

definition compress :: "rstate \<Rightarrow> byte list \<Rightarrow> rstate" where
  "compress s p =
     (let x = map (\<lambda>i. le32_at p (4 * i)) [0..<16];
          ((a, b, c, d, e), (aa, bb, cc, dd, ee)) = fold (both_lines x) [0..<80] (s, s);
          (s0, s1, s2, s3, s4) = s
      in (dd + c + s1, s2 + d + ee, s3 + e + aa, s4 + a + bb, s0 + b + cc))"

text \<open>\<^verbatim>\<open>_Block\<close>: absorbs whole blocks and returns how many bytes it used.\<close>

function Block :: "rstate \<Rightarrow> byte list \<Rightarrow> rstate \<times> nat" where
  "Block s p =
     (if BlockSize \<le> length p
      then let (s', n) = Block (compress s (take BlockSize p)) (drop BlockSize p) in (s', n + BlockSize)
      else (s, 0))"
  by pat_completeness auto
termination by (relation "measure (length \<circ> snd)") (auto simp: BlockSize_def)

declare Block.simps [simp del]

section \<open>The digest\<close>

record digest =
  dg_s :: rstate
  dg_x :: "byte list"
  dg_nx :: nat
  dg_tc :: u64

definition initial :: rstate where
  "initial = (0x67452301, 0xefcdab89, 0x98badcfe, 0x10325476, 0xc3d2e1f0)"

definition New :: digest where
  "New = \<lparr>dg_s = initial, dg_x = replicate BlockSize 0, dg_nx = 0, dg_tc = 0\<rparr>"

definition Reset :: "digest \<Rightarrow> digest" where
  "Reset d = d\<lparr>dg_s := initial, dg_nx := 0, dg_tc := 0\<rparr>"

text \<open>The first part of \<^verbatim>\<open>Write\<close>: fill the pending block; returns the rest of the input.\<close>

definition fill_pending :: "digest \<Rightarrow> byte list \<Rightarrow> digest \<times> byte list" where
  "fill_pending d p =
     (if 0 < dg_nx d then
        let n = min (length p) (BlockSize - dg_nx d);
            x = take (dg_nx d) (dg_x d) @ take n p @ drop (dg_nx d + n) (dg_x d);
            d = d\<lparr>dg_x := x, dg_nx := dg_nx d + n\<rparr>;
            d = (if dg_nx d = BlockSize then d\<lparr>dg_s := fst (Block (dg_s d) x), dg_nx := 0\<rparr> else d)
        in (d, drop n p)
      else (d, p))"

definition Write :: "digest \<Rightarrow> byte list \<Rightarrow> digest" where
  "Write d p =
     (let d = d\<lparr>dg_tc := dg_tc d + of_nat (length p)\<rparr>;
          (d, p) = fill_pending d p;
          (s, n) = Block (dg_s d) p;
          d = d\<lparr>dg_s := s\<rparr>;
          p = drop n p
      in if 0 < length p then d\<lparr>dg_x := p @ drop (length p) (dg_x d), dg_nx := length p\<rparr> else d)"

definition le64 :: "u64 \<Rightarrow> byte list" where
  "le64 v = map (\<lambda>i. ucast (drop_bit (8 * i) v)) [0..<8]"

definition state_bytes :: "rstate \<Rightarrow> byte list" where
  "state_bytes = (\<lambda>(s0, s1, s2, s3, s4).
     concat (map (\<lambda>s. [ucast s, ucast (drop_bit 8 s), ucast (drop_bit 16 s), ucast (drop_bit 24 s)]) [s0, s1, s2, s3, s4]))"

text \<open>\<open>None\<close> is the panic on a pending block.\<close>

definition Sum :: "digest \<Rightarrow> byte list \<Rightarrow> byte list option" where
  "Sum d0 inp =
     (let tc = dg_tc d0;
          tmp = 0x80 # replicate 63 0 :: byte list;
          r = unat (tc mod 64);
          d = (if r < 56 then Write d0 (take (56 - r) tmp) else Write d0 (take (64 + 56 - r) tmp));
          d = Write d (le64 (push_bit 3 tc))
      in if dg_nx d \<noteq> 0 then None else Some (inp @ state_bytes (dg_s d)))"

section \<open>Hashing in one pass\<close>

text \<open>The reference: pad the whole message, absorb all its blocks.\<close>

definition padding :: "nat \<Rightarrow> byte list" where
  "padding n = 0x80 # replicate ((119 - n mod 64) mod 64) 0 @ le64 (push_bit 3 (of_nat n))"

definition ripemd160 :: "byte list \<Rightarrow> byte list" where
  "ripemd160 m = state_bytes (fst (Block initial (m @ padding (length m))))"

lemma Block_short: "length p < 64 \<Longrightarrow> Block s p = (s, 0)"
  by (subst Block.simps) (simp add: BlockSize_def)

lemma Block_step: "length b = 64 \<Longrightarrow> Block s (b @ p) = (fst (Block (compress s b) p), snd (Block (compress s b) p) + 64)"
  by (subst Block.simps) (simp add: BlockSize_def split: prod.splits)

lemma Block_append: "length a mod 64 = 0 \<Longrightarrow>
    fst (Block s (a @ p)) = fst (Block (fst (Block s a)) p) \<and> snd (Block s (a @ p)) = length a + snd (Block (fst (Block s a)) p)"
proof (induction "length a" arbitrary: a s rule: less_induct)
  case less
  show ?case
  proof (cases "length a < 64")
    case True
    then show ?thesis using less.prems by (simp add: Block_short)
  next
    case False
    then obtain b r where a: "a = b @ r" "length b = 64" using append_take_drop_id [of 64 a] by (metis length_take linorder_not_less min.absorb2)
    have "length r < length a" "length r mod 64 = 0" using a less.prems by auto
    from less.hyps [OF this, of "compress s b"] show ?thesis using a by (simp add: Block_step)
  qed
qed

lemma whole_blocks:
  "length (take (length p - length p mod 64) p) mod 64 = 0"
  "length (take (length p - length p mod 64) p) = length p - length p mod 64"
proof -
  show l: "length (take (length p - length p mod 64) p) = length p - length p mod 64" by simp
  show "length (take (length p - length p mod 64) p) mod 64 = 0"
    unfolding l by (simp only: minus_mod_eq_mult_div mod_mult_self1_is_0)
qed

lemma Block_used: "snd (Block s p) = length p - length p mod 64"
proof -
  let ?n = "length p - length p mod 64"
  have "length (drop ?n p) < 64" by simp
  then show ?thesis
    using Block_append [OF whole_blocks(1), of s p "drop ?n p"] whole_blocks(2) [of p] by (simp add: Block_short)
qed

lemma Block_tail:
  assumes "length a mod 64 = 0" "length p < 64"
  shows "fst (Block s (a @ p)) = fst (Block s a)"
  using Block_append [OF assms(1), of s p] assms(2) by (simp add: Block_short)

section \<open>The digest holds the message\<close>

text \<open>The state is the absorbed whole blocks, the buffer the rest, the counter the length modulo \<open>2 ^ 64\<close>.\<close>

definition holds :: "rstate \<Rightarrow> byte list \<Rightarrow> nat \<Rightarrow> byte list \<Rightarrow> bool" where
  "holds s x nx m \<longleftrightarrow> length x = 64 \<and> nx = length m mod 64 \<and> take nx x = drop (length m - nx) m \<and> s = fst (Block initial m)"

definition digest_inv :: "digest \<Rightarrow> byte list \<Rightarrow> bool" where
  "digest_inv d m \<longleftrightarrow> holds (dg_s d) (dg_x d) (dg_nx d) m \<and> dg_tc d = of_nat (length m)"

lemma holds_split:
  assumes "holds s x nx m"
  obtains w where "m = w @ take nx x" "length w mod 64 = 0" "nx < 64" "s = fst (Block initial w)" "length x = 64" "length w = length m - nx"
proof (rule that [of "take (length m - nx) m"])
  have nx: "nx = length m mod 64" "take nx x = drop (length m - nx) m" "length x = 64" using assms by (auto simp: holds_def)
  show "m = take (length m - nx) m @ take nx x" using nx(2) by (metis append_take_drop_id)
  show "length (take (length m - nx) m) mod 64 = 0" "nx < 64" "length x = 64" using nx by (simp_all add: minus_mod_eq_mult_div)
  have "length (take nx x) < 64" using nx by (simp add: min_def)
  then show "s = fst (Block initial (take (length m - nx) m))"
    using Block_tail [of "take (length m - nx) m" "take nx x" initial] nx assms
    by (simp add: holds_def minus_mod_eq_mult_div)
  show "length (take (length m - nx) m) = length m - nx" by simp
qed

lemma holds_intro:
  assumes "length w mod 64 = 0" "length t < 64" "length x = 64" "take (length t) x = t" "s = fst (Block initial w)"
  shows "holds s x (length t) (w @ t)"
proof -
  have "(length w + length t) mod 64 = length t" using assms(1,2) by (simp add: mod_add_left_eq [symmetric])
  then show ?thesis using assms by (simp add: holds_def Block_tail)
qed

lemma fill_pending_holds:
  assumes "holds (dg_s d) (dg_x d) (dg_nx d) m" "fill_pending d p = (d', p')"
  obtains u where "p = u @ p'" "holds (dg_s d') (dg_x d') (dg_nx d') (m @ u)" "dg_nx d' = 0 \<or> p' = []" "dg_tc d' = dg_tc d"
proof (cases "0 < dg_nx d")
  case False
  then show ?thesis using assms that [of "[]"] by (simp add: fill_pending_def)
next
  case True
  let ?nx = "dg_nx d" and ?n = "min (length p) (64 - dg_nx d)"
  let ?u = "take ?n p"
  let ?x = "take ?nx (dg_x d) @ ?u @ drop (?nx + ?n) (dg_x d)"
  obtain w where w: "m = w @ take ?nx (dg_x d)" "length w mod 64 = 0" "?nx < 64" "dg_s d = fst (Block initial w)" "length (dg_x d) = 64"
    by (rule holds_split [OF assms(1)])
  have x: "length ?x = 64" and t: "length (take ?nx (dg_x d) @ ?u) = ?nx + ?n" using w by (auto simp: min_def)
  show ?thesis
  proof (cases "?nx + ?n = 64")
    case full: True
    then have "?x = take ?nx (dg_x d) @ ?u" using w(5) by simp
    then have "holds (fst (Block (dg_s d) ?x)) ?x (length ([] :: byte list)) ((m @ ?u) @ [])"
      using w Block_append [OF w(2), of initial ?x] t full x by (intro holds_intro) auto
    moreover have "d' = d\<lparr>dg_x := ?x, dg_s := fst (Block (dg_s d) ?x), dg_nx := 0\<rparr>" "p' = drop ?n p"
      using assms(2) True full by (auto simp: fill_pending_def Let_def BlockSize_def)
    ultimately show ?thesis using that [of ?u] by simp
  next
    case part: False
    then have n: "?n = length p" "?nx + length p < 64" using w(3) by (auto simp: min_def split: if_splits)
    have "holds (dg_s d) ?x (length (take ?nx (dg_x d) @ ?u)) (w @ (take ?nx (dg_x d) @ ?u))"
      using w x t n by (intro holds_intro) auto
    moreover have "d' = d\<lparr>dg_x := ?x, dg_nx := ?nx + ?n\<rparr>" "p' = drop ?n p"
      using assms(2) True part by (auto simp: fill_pending_def Let_def BlockSize_def)
    ultimately show ?thesis using that [of ?u] w(1) t n(1) by simp
  qed
qed

lemma write_inv: "digest_inv d m \<Longrightarrow> digest_inv (Write d p) (m @ p)"
proof -
  assume inv: "digest_inv d m"
  let ?d = "d\<lparr>dg_tc := dg_tc d + of_nat (length p)\<rparr>"
  obtain d' p' where f: "fill_pending ?d p = (d', p')" by force
  have "holds (dg_s ?d) (dg_x ?d) (dg_nx ?d) m" using inv by (simp add: digest_inv_def)
  then obtain u where u: "p = u @ p'" "holds (dg_s d') (dg_x d') (dg_nx d') (m @ u)" "dg_nx d' = 0 \<or> p' = []" "dg_tc d' = dg_tc ?d"
    using fill_pending_holds [OF _ f] by blast
  let ?n = "length p' - length p' mod 64" and ?s = "fst (Block (dg_s d') p')"
  have W: "Write d p = (let d'' = d'\<lparr>dg_s := ?s\<rparr> in if drop ?n p' = [] then d'' else
      d''\<lparr>dg_x := drop ?n p' @ drop (length (drop ?n p')) (dg_x d'), dg_nx := length (drop ?n p')\<rparr>)"
  proof -
    obtain s n where B: "Block (dg_s d') p' = (s, n)" by (metis surj_pair)
    then have "n = ?n" using Block_used [of "dg_s d'" p'] by simp
    then show ?thesis by (simp add: Write_def f B Let_def)
  qed
  have tc: "dg_tc (Write d p) = of_nat (length (m @ p))" using inv u(4) unfolding W by (simp add: digest_inv_def Let_def)
  have "holds (dg_s (Write d p)) (dg_x (Write d p)) (dg_nx (Write d p)) (m @ p)"
  proof (cases "p' = []")
    case True
    then show ?thesis using u(1,2) unfolding W by (simp add: Block_short Let_def)
  next
    case False
    then have nx: "dg_nx d' = 0" using u(3) by simp
    then have mu: "length (m @ u) mod 64 = 0" and len: "length (dg_x d') = 64" and s: "dg_s d' = fst (Block initial (m @ u))"
      using u(2) by (auto simp: holds_def)
    let ?w = "(m @ u) @ take ?n p'" and ?t = "drop ?n p'"
    have w: "length ?w mod 64 = 0"
      using mod_add_eq [of "length (m @ u)" 64 "length (take ?n p')"] mu whole_blocks(1) [of p'] by (simp only: length_append [of "m @ u"]) simp
    have t: "length ?t < 64" by simp
    have "fst (Block (dg_s d') p') = fst (Block initial ((m @ u) @ p'))" using Block_append [OF mu] s by simp
    also have "\<dots> = fst (Block initial (?w @ ?t))" by simp
    also have "\<dots> = fst (Block initial ?w)" by (rule Block_tail [OF w t])
    finally have S: "?s = fst (Block initial ?w)" .
    have mp: "m @ p = ?w @ ?t" using u(1) by simp
    show ?thesis
    proof (cases "?t = []")
      case True
      have "holds ?s (dg_x d') (length ?t) (?w @ ?t)" by (rule holds_intro [OF w t len _ S]) (use True in simp)
      then show ?thesis using True nx unfolding W mp by (simp add: Let_def)
    next
      case nonempty: False
      have "holds ?s (?t @ drop (length ?t) (dg_x d')) (length ?t) (?w @ ?t)"
        by (rule holds_intro [OF w t _ _ S]) (use t len in \<open>simp_all only: length_append length_drop append_eq_conv_conj\<close>, simp_all)
      then show ?thesis using nonempty unfolding W mp by (simp add: Let_def)
    qed
  qed
  then show ?thesis using tc by (simp add: digest_inv_def)
qed

lemma new_inv: "digest_inv New []"
  by (simp add: digest_inv_def holds_def New_def BlockSize_def Block_short)

lemma pad_zeros: "r < 64 \<Longrightarrow> (119 - r) mod 64 = (if r < 56 then 55 - r else 119 - r :: nat)"
proof (cases "r < 56")
  case True
  then have "119 - r = 55 - r + 64" by simp
  then show ?thesis using True by (simp only: mod_add_self2) simp
qed simp

lemma pad_first:
  "r < 64 \<Longrightarrow> (if r < 56 then take (56 - r) (0x80 # replicate 63 0 :: byte list) else take (64 + 56 - r) (0x80 # replicate 63 0))
    = 0x80 # replicate ((119 - r) mod 64) 0"
  by (cases "r < 56") (simp_all add: pad_zeros take_Cons' min_def)

lemma pad_length: "(n + length (padding n)) mod 64 = 0"
proof -
  let ?r = "n mod 64"
  have "?r + (9 + (119 - ?r) mod 64) = 64 * 1 \<or> ?r + (9 + (119 - ?r) mod 64) = 64 * 2"
    using pad_zeros [of ?r] by (auto split: if_splits)
  then have "(?r + (9 + (119 - ?r) mod 64)) mod 64 = 0" by (metis mod_mult_self1_is_0)
  moreover have "length (padding n) = 9 + (119 - ?r) mod 64" by (simp add: padding_def le64_def)
  ultimately show ?thesis by (metis mod_add_left_eq)
qed

lemma sum_holds: "digest_inv d m \<Longrightarrow> Sum d inp = Some (inp @ ripemd160 m)"
proof -
  assume inv: "digest_inv d m"
  let ?r = "length m mod 64" and ?tmp = "0x80 # replicate 63 0 :: byte list"
  have tc: "dg_tc d = of_nat (length m)" using inv by (simp add: digest_inv_def)
  have r: "unat (dg_tc d mod 64) = ?r"
    unfolding tc by (simp add: unat_mod unat_of_nat mod_mod_cancel)
  note z = pad_first [of ?r]
  let ?pre = "0x80 # replicate ((119 - ?r) mod 64) 0 :: byte list" and ?len = "le64 (push_bit 3 (dg_tc d))"
  have S: "Sum d inp = (let d' = Write (Write d ?pre) ?len in if dg_nx d' \<noteq> 0 then None else Some (inp @ state_bytes (dg_s d')))"
    unfolding Sum_def Let_def r using z by (simp split: if_splits)
  have "digest_inv (Write (Write d ?pre) ?len) ((m @ ?pre) @ ?len)" by (intro write_inv inv)
  then have "digest_inv (Write (Write d ?pre) ?len) (m @ padding (length m))" by (simp add: padding_def tc)
  then have "dg_nx (Write (Write d ?pre) ?len) = 0" "dg_s (Write (Write d ?pre) ?len) = fst (Block initial (m @ padding (length m)))"
    using pad_length [of "length m"] by (simp_all add: digest_inv_def holds_def)
  then show ?thesis unfolding S by (simp add: Let_def ripemd160_def)
qed

text \<open>
  C39.  The buffered hash is the hash of the whole message: however the message is cut into writes, the
  digest never panics and appends the one-pass RIPEMD-160 of all the bytes written, and the result has
  20 bytes.
\<close>

theorem ripemd_streaming:
  "Sum (fold (\<lambda>p d. Write d p) ps New) inp = Some (inp @ ripemd160 (concat ps)) \<and> length (ripemd160 (concat ps)) = 20"
proof -
  have "digest_inv (fold (\<lambda>p d. Write d p) ps d) (m @ concat ps)" if "digest_inv d m" for d m
    using that by (induction ps arbitrary: d m) (simp_all, metis append_assoc write_inv)
  from this [OF new_inv] show ?thesis
    by (simp add: sum_holds ripemd160_def state_bytes_def split: prod.splits)
qed

end
