(* ===== verification/Go_Path.thy ===== *)
theory Go_Path
  imports Go_Strings
begin

text \<open>
  The functions of Go's \<^verbatim>\<open>path\<close> and \<^verbatim>\<open>path/filepath\<close> (on Unix, where the two agree and \<^verbatim>\<open>ToSlash\<close> and
  \<^verbatim>\<open>FromSlash\<close> change nothing), and of \<^verbatim>\<open>unicode/utf8\<close>, that the restore code calls on untrusted paths.
\<close>

section \<open>Runes\<close>

definition code :: "char \<Rightarrow> nat" where
  "code c = of_char c"

definition cont :: "nat \<Rightarrow> nat \<Rightarrow> char \<Rightarrow> bool" where
  "cont lo hi c \<longleftrightarrow> lo \<le> code c \<and> code c \<le> hi"

text \<open>
  One step of the UTF-8 decoder: the rune and its width.  The ranges of the second byte exclude overlong
  forms, surrogates and values above \<open>0x10FFFF\<close>; anything else is one byte of \<^verbatim>\<open>RuneError\<close>, here \<open>None\<close>.
\<close>

definition decode_rune :: "string \<Rightarrow> (nat \<times> nat) option" where
  "decode_rune s =
     (case s of
        [] \<Rightarrow> None
      | a # r \<Rightarrow>
          if code a < 0x80 then Some (code a, 1)
          else if 0xC2 \<le> code a \<and> code a \<le> 0xDF then
            (case r of b # _ \<Rightarrow> if cont 0x80 0xBF b then Some ((code a - 0xC0) * 64 + (code b - 0x80), 2) else None | _ \<Rightarrow> None)
          else if 0xE0 \<le> code a \<and> code a \<le> 0xEF then
            (case r of
               b # c # _ \<Rightarrow>
                 if cont (if code a = 0xE0 then 0xA0 else 0x80) (if code a = 0xED then 0x9F else 0xBF) b \<and> cont 0x80 0xBF c
                 then Some ((code a - 0xE0) * 4096 + (code b - 0x80) * 64 + (code c - 0x80), 3) else None
             | _ \<Rightarrow> None)
          else if 0xF0 \<le> code a \<and> code a \<le> 0xF4 then
            (case r of
               b # c # d # _ \<Rightarrow>
                 if cont (if code a = 0xF0 then 0x90 else 0x80) (if code a = 0xF4 then 0x8F else 0xBF) b \<and> cont 0x80 0xBF c \<and> cont 0x80 0xBF d
                 then Some ((code a - 0xF0) * 262144 + (code b - 0x80) * 4096 + (code c - 0x80) * 64 + (code d - 0x80), 4) else None
             | _ \<Rightarrow> None)
          else None)"

lemma decode_rune_width: "decode_rune s = Some (r, n) \<Longrightarrow> 0 < n \<and> s \<noteq> []"
  by (auto simp: decode_rune_def split: list.splits if_splits)

text \<open>The runes a \<^verbatim>\<open>range\<close> loop sees; an invalid byte gives \<^verbatim>\<open>RuneError\<close>.\<close>

function runes :: "string \<Rightarrow> nat list" where
  "runes s =
     (if s = [] then []
      else case decode_rune s of
             Some (r, n) \<Rightarrow> r # runes (drop n s)
           | None \<Rightarrow> 0xFFFD # runes (drop 1 s))"
  by pat_completeness auto
termination by (relation "measure length") (auto dest: decode_rune_width)

function ValidString :: "string \<Rightarrow> bool" where
  "ValidString s =
     (if s = [] then True
      else case decode_rune s of Some (r, n) \<Rightarrow> ValidString (drop n s) | None \<Rightarrow> False)"
  by pat_completeness auto
termination by (relation "measure length") (auto dest: decode_rune_width)

declare runes.simps [simp del] ValidString.simps [simp del]

section \<open>Paths\<close>

abbreviation slash :: char where "slash \<equiv> CHR ''/''"

text \<open>
  \<^verbatim>\<open>Clean\<close>: the shortest equivalent path.  The elements are taken from the left; an empty element or \<open>.\<close>
  is dropped, \<open>..\<close> removes the element before it, and is dropped at the root of a rooted path.
\<close>

fun clean_loop :: "bool \<Rightarrow> string list \<Rightarrow> string list \<Rightarrow> string list" where
  "clean_loop rooted out [] = out"
| "clean_loop rooted out (p # ps) =
     (if p = [] \<or> p = ''.'' then clean_loop rooted out ps
      else if p = ''..'' then
        (if out \<noteq> [] \<and> last out \<noteq> ''..'' then clean_loop rooted (butlast out) ps
         else if rooted then clean_loop rooted out ps
         else clean_loop rooted (out @ [p]) ps)
      else clean_loop rooted (out @ [p]) ps)"

definition Clean :: "string \<Rightarrow> string" where
  "Clean p =
     (let rooted = has_prefix p ''/'';
          s = (if rooted then ''/'' else []) @ join ''/'' (clean_loop rooted [] (split_on slash p))
      in if s = [] then ''.'' else s)"

text \<open>\<^verbatim>\<open>Base\<close>: the last element without trailing slashes.\<close>

definition Base :: "string \<Rightarrow> string" where
  "Base p =
     (if p = [] then ''.''
      else let q = rev (dropWhile (\<lambda>c. c = slash) (rev p));
               b = rev (takeWhile (\<lambda>c. c \<noteq> slash) (rev q))
           in if b = [] then ''/'' else b)"

text \<open>\<^verbatim>\<open>Join\<close> of two elements; empty ones are ignored.\<close>

definition Join :: "string \<Rightarrow> string \<Rightarrow> string" where
  "Join a b = (if a = [] \<and> b = [] then [] else if a = [] then Clean b else if b = [] then Clean a else Clean (a @ ''/'' @ b))"

section \<open>Clean paths\<close>

text \<open>A name that stands for itself, and the absolute path of a list of names.\<close>

definition plain :: "string \<Rightarrow> bool" where
  "plain c \<longleftrightarrow> c \<noteq> [] \<and> c \<noteq> ''.'' \<and> c \<noteq> ''..'' \<and> slash \<notin> set c"

definition abs_path :: "string list \<Rightarrow> string" where
  "abs_path cs = concat (map (\<lambda>c. slash # c) cs)"

lemma abs_path_simps [simp]:
  "abs_path [] = []" "abs_path (c # cs) = slash # c @ abs_path cs" "abs_path (cs @ ds) = abs_path cs @ abs_path ds"
  by (simp_all add: abs_path_def)

lemma split_on_append: "d \<notin> set w \<Longrightarrow> split_on d (w @ d # s) = w # split_on d s"
  by (induction w) auto

lemma split_on_last: "d \<notin> set w \<Longrightarrow> split_on d w = [w]"
  by (induction w) auto

lemma split_on_parts: "w \<in> set (split_on d s) \<Longrightarrow> d \<notin> set w"
  by (induction s arbitrary: w) (auto split: list.splits if_splits)

lemma split_on_abs: "list_all (\<lambda>c. slash \<notin> set c) cs \<Longrightarrow> slash \<notin> set w \<Longrightarrow> split_on slash (w @ abs_path cs) = w # cs"
proof (induction cs arbitrary: w)
  case Nil
  then show ?case by (simp add: split_on_last)
next
  case (Cons c cs)
  then show ?case by (simp add: split_on_append)
qed

lemma join_abs: "cs \<noteq> [] \<Longrightarrow> slash # join ''/'' cs = abs_path cs"
proof (induction cs)
  case (Cons c cs)
  then show ?case by (cases "cs = []") (simp_all add: join_Cons)
qed simp

lemma clean_plain: "list_all plain cs \<Longrightarrow> clean_loop r out cs = out @ cs"
  by (induction cs arbitrary: out) (auto simp: plain_def)

lemma clean_loop_plain:
  "list_all (\<lambda>c. slash \<notin> set c) ps \<Longrightarrow> list_all plain out \<Longrightarrow> list_all plain (clean_loop True out ps)"
proof (induction ps arbitrary: out)
  case (Cons p ps)
  have "list_all plain (butlast out)" using Cons.prems(2) by (auto simp: list_all_iff dest: in_set_butlastD)
  moreover have "plain p" if "p \<noteq> []" "p \<noteq> ''.''" "p \<noteq> ''..''" using that Cons.prems(1) by (simp add: plain_def)
  ultimately show ?case using Cons by auto
qed simp

text \<open>The rooted paths that \<^verbatim>\<open>Clean\<close> leaves alone are the root and the absolute paths of plain names.\<close>

lemma clean_rooted_iff:
  "has_prefix p ''/'' \<and> Clean p = p \<longleftrightarrow> p = ''/'' \<or> (\<exists>cs. cs \<noteq> [] \<and> list_all plain cs \<and> p = abs_path cs)"
proof
  assume a: "has_prefix p ''/'' \<and> Clean p = p"
  let ?cs = "clean_loop True [] (split_on slash p)"
  have "list_all plain ?cs" by (rule clean_loop_plain) (auto simp: list_all_iff dest: split_on_parts)
  moreover have "p = slash # join ''/'' ?cs" using a by (auto simp: Clean_def Let_def)
  ultimately show "p = ''/'' \<or> (\<exists>cs. cs \<noteq> [] \<and> list_all plain cs \<and> p = abs_path cs)"
    using join_abs [of ?cs] by (cases "?cs = []") auto
next
  assume "p = ''/'' \<or> (\<exists>cs. cs \<noteq> [] \<and> list_all plain cs \<and> p = abs_path cs)"
  then show "has_prefix p ''/'' \<and> Clean p = p"
  proof
    assume "p = ''/''"
    then show ?thesis by (simp add: Clean_def has_prefix_def Let_def)
  next
    assume "\<exists>cs. cs \<noteq> [] \<and> list_all plain cs \<and> p = abs_path cs"
    then obtain cs where cs: "cs \<noteq> []" "list_all plain cs" "p = abs_path cs" by blast
    have "split_on slash p = [] # cs" using split_on_abs [of cs "[]"] cs by (auto simp: list_all_iff plain_def)
    moreover have "has_prefix p ''/''" using cs by (cases cs) (auto simp: has_prefix_def)
    ultimately show ?thesis using cs clean_plain [OF cs(2)] join_abs [OF cs(1)] by (simp add: Clean_def Let_def)
  qed
qed

lemma Clean_abs: "cs \<noteq> [] \<Longrightarrow> list_all plain cs \<Longrightarrow> Clean (abs_path cs) = abs_path cs"
  using clean_rooted_iff [of "abs_path cs"] by blast

lemma abs_path_prefix: "cs \<noteq> [] \<Longrightarrow> has_prefix (abs_path cs) ''/''"
  by (cases cs) (auto simp: has_prefix_def)

lemma Base_abs: "list_all plain (cs @ [c]) \<Longrightarrow> Base (abs_path (cs @ [c])) = c"
proof -
  assume p: "list_all plain (cs @ [c])"
  then have c: "c \<noteq> []" "slash \<notin> set c" by (auto simp: plain_def)
  then have d: "dropWhile (\<lambda>x. x = slash) (rev c @ slash # rev (abs_path cs)) = rev c @ slash # rev (abs_path cs)"
    by (cases c rule: rev_cases) auto
  have t: "takeWhile (\<lambda>x. x \<noteq> slash) (rev c @ slash # rev (abs_path cs)) = rev c"
    using c by (subst takeWhile_append2) auto
  show ?thesis using c by (simp add: Base_def Let_def d t)
qed

lemma Join_abs: "list_all plain ds \<Longrightarrow> ds \<noteq> [] \<Longrightarrow> list_all plain cs \<Longrightarrow> cs \<noteq> [] \<Longrightarrow> Join (abs_path ds) (tl (abs_path cs)) = abs_path (ds @ cs)"
proof -
  assume p: "list_all plain ds" "ds \<noteq> []" "list_all plain cs" "cs \<noteq> []"
  have "abs_path ds \<noteq> []" "tl (abs_path cs) \<noteq> []" using p by (cases ds; cases cs; auto simp: plain_def)+
  moreover have "abs_path ds @ ''/'' @ tl (abs_path cs) = abs_path (ds @ cs)" using p(4) by (cases cs) simp_all
  ultimately show ?thesis using Clean_abs [of "ds @ cs"] p by (simp add: Join_def)
qed

end
