(* ===== verification/Cfg.thy ===== *)
theory Cfg
  imports Go_Strings
begin

text \<open>
  \<^verbatim>\<open>internal/cfg/cfg.go\<close>: the lossless config parser.  \<open>splitLines\<close>, \<open>Parse\<close>, \<open>Render\<close>, \<open>Get\<close> and
  \<open>Canonical\<close> follow the source function by function.  The stanza pointer \<^verbatim>\<open>cur\<close> of \<^verbatim>\<open>Parse\<close> is the
  name of the stanza it points to: \<^verbatim>\<open>Get\<close> is consulted before every append, so names are unique
  (\<open>parse_distinct\<close>) and the name identifies the object.
\<close>

section \<open>Lines\<close>

definition LF :: char where "LF = CHR 0x0A"
definition CR :: char where "CR = CHR 0x0D"
definition hash_ch :: char where "hash_ch = CHR 0x23"
definition backslash :: char where "backslash = CHR 0x5C"
definition lbrack :: char where "lbrack = CHR 0x5B"
definition rbrack :: char where "rbrack = CHR 0x5D"

lemmas ch_defs = LF_def CR_def hash_ch_def backslash_def lbrack_def rbrack_def

definition MarkerPrefix :: string where
  "MarkerPrefix = ''# xrplbak:''"

text \<open>\<open>inlineComment\<close>: the index of the first \<^verbatim>\<open>#\<close> not preceded by a backslash, or \<open>None\<close> for \<open>-1\<close>.\<close>

fun inline_from :: "nat \<Rightarrow> char option \<Rightarrow> string \<Rightarrow> nat option" where
  "inline_from i prev [] = None"
| "inline_from i prev (c # s) =
     (if c \<noteq> hash_ch then inline_from (Suc i) (Some c) s
      else if prev = Some backslash then inline_from (Suc i) (Some c) s
      else Some i)"

definition inlineComment :: "string \<Rightarrow> nat option" where
  "inlineComment line = inline_from 0 None line"

definition looksLikeHeader :: "string \<Rightarrow> bool" where
  "looksLikeHeader line \<longleftrightarrow> 2 \<le> length line \<and> hd line = lbrack \<and> last line = rbrack"

datatype kind = Blank | Comment | Header | Value

record line =
  l_kind :: kind
  l_raw :: string
  l_end :: string
  l_stanza :: string
  l_no :: nat
  l_value :: string
  l_comment :: string

record stanza =
  s_name :: string
  s_lines :: "string list"
  s_lineno :: nat

record cfgfile =
  f_lines :: "line list"
  f_stanzas :: "stanza list"

definition trim_ascii :: "string \<Rightarrow> string" where
  "trim_ascii s = go_trim is_ascii_space s"

text \<open>A fresh \<^verbatim>\<open>Line\{Raw, End, No\}\<close>; the other fields are zero values.\<close>

definition raw_line :: "string \<Rightarrow> string \<Rightarrow> nat \<Rightarrow> line" where
  "raw_line r e n = \<lparr>l_kind = Blank, l_raw = r, l_end = e, l_stanza = [], l_no = n, l_value = [], l_comment = []\<rparr>"

definition is_eol :: "char \<Rightarrow> bool" where
  "is_eol c \<longleftrightarrow> c = LF \<or> c = CR"

function split_from :: "nat \<Rightarrow> string \<Rightarrow> line list" where
  "split_from n text =
     (let raw = takeWhile (\<lambda>c. \<not> is_eol c) text;
          rest = dropWhile (\<lambda>c. \<not> is_eol c) text
      in case rest of
           [] \<Rightarrow> [raw_line raw [] n]
         | c # r \<Rightarrow>
             (if c = CR \<and> r \<noteq> [] \<and> hd r = LF
              then raw_line raw [CR, LF] n # split_from (Suc n) (tl r)
              else raw_line raw [c] n # split_from (Suc n) r))"
  by pat_completeness auto
termination
proof (relation "measure (length \<circ> snd)", simp, goal_cases)
  case (1 n t raw rest c r)
  then have "length (c # r) \<le> length t" using length_dropWhile_le by metis
  then show ?case using 1 by (cases r) auto
next
  case (2 n t raw rest c r)
  then have "length (c # r) \<le> length t" using length_dropWhile_le by metis
  then show ?case by simp
qed

declare split_from.simps [simp del]

definition splitLines :: "string \<Rightarrow> line list" where
  "splitLines text = split_from 1 text"

definition render_lines :: "line list \<Rightarrow> string" where
  "render_lines ls = concat (map (\<lambda>l. l_raw l @ l_end l) ls)"

definition Render :: "cfgfile \<Rightarrow> string" where
  "Render f = render_lines (f_lines f)"

section \<open>Parse\<close>

definition get_stanza :: "string \<Rightarrow> stanza list \<Rightarrow> stanza option" where
  "get_stanza name ss = List.find (\<lambda>s. s_name s = name) ss"

definition Get :: "cfgfile \<Rightarrow> string \<Rightarrow> stanza option" where
  "Get f name = get_stanza name (f_stanzas f)"

definition new_stanza :: "string \<Rightarrow> nat \<Rightarrow> stanza" where
  "new_stanza name no = \<lparr>s_name = name, s_lines = [], s_lineno = no\<rparr>"

text \<open>\<^verbatim>\<open>cur.Lines = append(cur.Lines, line)\<close> through the pointer \<^verbatim>\<open>cur\<close>.\<close>

fun add_value :: "string \<Rightarrow> string \<Rightarrow> stanza list \<Rightarrow> stanza list" where
  "add_value name v [] = []"
| "add_value name v (s # ss) =
     (if s_name s = name then s\<lparr>s_lines := s_lines s @ [v]\<rparr> # ss else s # add_value name v ss)"

text \<open>The loop's variables: the stanzas so far, \<^verbatim>\<open>cur\<close> and \<^verbatim>\<open>stanza\<close>.\<close>

record pstate =
  p_stanzas :: "stanza list"
  p_cur :: "string option"
  p_stanza :: string

definition value_parts :: "string \<Rightarrow> string \<times> string" where
  "value_parts line =
     (case inlineComment line of
        Some c \<Rightarrow>
          (if 0 < c
           then let v = trim_ascii (take c line) in
                if \<not> looksLikeHeader v then (v, drop c line) else (line, [])
           else (line, []))
      | None \<Rightarrow> (line, []))"

definition parse_step :: "pstate \<Rightarrow> line \<Rightarrow> line \<times> pstate" where
  "parse_step p l0 =
     (let l = l0\<lparr>l_stanza := p_stanza p\<rparr>;
          line = trim_ascii (l_raw l) in
      if line = [] then (l\<lparr>l_kind := Blank\<rparr>, p)
      else if has_prefix line ''#'' \<and> \<not> has_prefix line MarkerPrefix then (l\<lparr>l_kind := Comment\<rparr>, p)
      else if looksLikeHeader line then
        (let name = butlast (tl line);
             ss = (case get_stanza name (p_stanzas p) of
                     None \<Rightarrow> p_stanzas p @ [new_stanza name (l_no l)]
                   | Some _ \<Rightarrow> p_stanzas p)
         in (l\<lparr>l_kind := Header, l_stanza := name\<rparr>,
             p\<lparr>p_stanzas := ss, p_cur := Some name, p_stanza := name\<rparr>))
      else
        (let (v, comment) = value_parts line;
             l' = l\<lparr>l_kind := Value, l_value := v, l_comment := comment\<rparr> in
         if v = [] then (l', p)
         else case p_cur p of
                None \<Rightarrow> (l', p\<lparr>p_stanzas := add_value [] v (p_stanzas p @ [new_stanza [] (l_no l)]),
                              p_cur := Some []\<rparr>)
              | Some n \<Rightarrow> (l', p\<lparr>p_stanzas := add_value n v (p_stanzas p)\<rparr>)))"

fun parse_loop :: "pstate \<Rightarrow> line list \<Rightarrow> line list \<times> pstate" where
  "parse_loop p [] = ([], p)"
| "parse_loop p (l # ls) =
     (let (l', p') = parse_step p l; (ls', p'') = parse_loop p' ls in (l' # ls', p''))"

definition init_pstate :: pstate where
  "init_pstate = \<lparr>p_stanzas = [], p_cur = None, p_stanza = []\<rparr>"

definition Parse :: "string \<Rightarrow> cfgfile" where
  "Parse text = (let (ls, p) = parse_loop init_pstate (splitLines text)
                 in \<lparr>f_lines = ls, f_stanzas = p_stanzas p\<rparr>)"

section \<open>Canonical form\<close>

text \<open>
  Go compares strings byte by byte, which is the lexicographic order the library gives \<^typ>\<open>string\<close>;
  \<^verbatim>\<open>sort.SliceStable\<close> by name is the stable \<open>sort_key\<close>.
\<close>

definition render_stanza :: "stanza \<Rightarrow> string" where
  "render_stanza s =
     (if s_name s \<noteq> [] then [lbrack] @ s_name s @ [rbrack, LF] else [])
     @ concat (map (\<lambda>l. l @ [LF]) (s_lines s))"

fun join_stanzas :: "stanza list \<Rightarrow> string" where
  "join_stanzas [] = []"
| "join_stanzas [s] = render_stanza s"
| "join_stanzas (s # ss) = render_stanza s @ [LF] @ join_stanzas ss"

definition Canonical :: "cfgfile \<Rightarrow> string" where
  "Canonical f =
     join_stanzas (sort_key s_name
       (filter (\<lambda>s. \<not> (s_name s = [] \<and> s_lines s = [])) (f_stanzas f)))"

section \<open>Parse keeps the bytes\<close>

text \<open>
  What survives of a line in the rendered bytes is its text and its terminator.  \<open>proper\<close> is what
  every split document satisfies: no terminator inside a line, a terminator on every line but the
  last, and no lone CR in front of a line that would turn it into CR LF.
\<close>

abbreviation re :: "line \<Rightarrow> string \<times> string" where
  "re l \<equiv> (l_raw l, l_end l)"

definition no_eol :: "string \<Rightarrow> bool" where
  "no_eol s \<longleftrightarrow> (\<forall>c \<in> set s. \<not> is_eol c)"

definition eol_ok :: "string \<Rightarrow> bool" where
  "eol_ok e \<longleftrightarrow> e = [LF] \<or> e = [CR] \<or> e = [CR, LF]"

definition cr_clash :: "string \<Rightarrow> string \<times> string \<Rightarrow> bool" where
  "cr_clash e q \<longleftrightarrow> e = [CR] \<and> fst q = [] \<and> snd q \<noteq> [] \<and> hd (snd q) = LF"

fun proper :: "(string \<times> string) list \<Rightarrow> bool" where
  "proper [] = False"
| "proper [(r, e)] = (no_eol r \<and> e = [])"
| "proper ((r, e) # q # xs) = (no_eol r \<and> eol_ok e \<and> \<not> cr_clash e q \<and> proper (q # xs))"

definition flat :: "(string \<times> string) list \<Rightarrow> string" where
  "flat xs = concat (map (\<lambda>(r, e). r @ e) xs)"

lemma flat_simps [simp]: "flat [] = []" "flat (q # xs) = fst q @ snd q @ flat xs"
  by (simp_all add: flat_def split_beta)

lemma flat_append [simp]: "flat (xs @ ys) = flat xs @ flat ys"
  by (simp add: flat_def)

lemma render_lines_flat: "render_lines ls = flat (map re ls)"
  by (simp add: render_lines_def flat_def comp_def)

lemma re_raw_line [simp]: "re (raw_line r e n) = (r, e)"
  by (simp add: raw_line_def)

lemma is_eol_simps [simp]: "is_eol LF" "is_eol CR" "LF \<noteq> CR" "CR \<noteq> LF"
  by (simp_all add: is_eol_def ch_defs)

lemma eol_ok_simps [simp]: "eol_ok [LF]" "eol_ok [CR]" "eol_ok [CR, LF]" "\<not> eol_ok []"
  by (simp_all add: eol_ok_def)

lemma no_eol_takeWhile: "no_eol (takeWhile (\<lambda>c. \<not> is_eol c) t)"
  by (auto simp: no_eol_def dest: set_takeWhileD)

lemma split_from_no_eol:
  assumes "no_eol t"
  shows "split_from n t = [raw_line t [] n]"
proof -
  have tw: "takeWhile (\<lambda>c. \<not> is_eol c) t = t" and dw: "dropWhile (\<lambda>c. \<not> is_eol c) t = []"
    using assms by (auto simp: no_eol_def)
  show ?thesis by (subst split_from.simps) (simp only: tw dw Let_def list.case)
qed

lemma split_from_cases:
  obtains (last) "no_eol t" "split_from n t = [raw_line t [] n]"
  | (cont) r e t' where "t = r @ e @ t'" "no_eol r" "eol_ok e" "e = [CR] \<Longrightarrow> t' = [] \<or> hd t' \<noteq> LF"
      "split_from n t = raw_line r e n # split_from (Suc n) t'" "length t' < length t"
proof (cases "dropWhile (\<lambda>c. \<not> is_eol c) t")
  case Nil
  then have "takeWhile (\<lambda>c. \<not> is_eol c) t = t" by (metis append_Nil2 takeWhile_dropWhile_id)
  then have "no_eol t" using no_eol_takeWhile [of t] by metis
  then show ?thesis using last split_from_no_eol by blast
next
  case (Cons c r)
  let ?raw = "takeWhile (\<lambda>c. \<not> is_eol c) t"
  have t: "t = ?raw @ c # r" by (metis Cons takeWhile_dropWhile_id)
  have "is_eol c" using hd_dropWhile [of "\<lambda>c. \<not> is_eol c" t] Cons by (metis list.distinct(1) list.sel(1))
  then have c: "c = LF \<or> c = CR" by (simp add: is_eol_def)
  have len: "length t = length ?raw + Suc (length r)" using t by (metis length_Cons length_append)
  show ?thesis
  proof (cases "c = CR \<and> r \<noteq> [] \<and> hd r = LF")
    case True
    then have r: "r = LF # tl r" by (cases r) auto
    show ?thesis
    proof (rule cont [of ?raw "[CR, LF]" "tl r"])
      show "t = ?raw @ [CR, LF] @ tl r" using t True r by simp
      show "split_from n t = raw_line ?raw [CR, LF] n # split_from (Suc n) (tl r)"
        using True Cons by (simp add: split_from.simps [of n t])
      show "length (tl r) < length t" using len by simp
    qed (use no_eol_takeWhile in auto)
  next
    case False
    show ?thesis
    proof (rule cont [of ?raw "[c]" r])
      show "t = ?raw @ [c] @ r" using t by simp
      show "split_from n t = raw_line ?raw [c] n # split_from (Suc n) r"
        using False Cons by (auto simp: split_from.simps [of n t])
      show "length r < length t" using len by simp
    qed (use no_eol_takeWhile c False in auto)
  qed
qed

lemma render_split_from: "flat (map re (split_from n t)) = t"
proof (induction t arbitrary: n rule: length_induct)
  case (1 t)
  show ?case by (cases t n rule: split_from_cases) (use 1 in auto)
qed

lemma split_from_not_Nil [simp]: "split_from n t \<noteq> []"
  by (cases t n rule: split_from_cases) auto

lemma split_from_proper: "proper (map re (split_from n t))"
proof (induction t arbitrary: n rule: length_induct)
  case (1 t)
  show ?case
  proof (cases t n rule: split_from_cases)
    case last
    then show ?thesis by simp
  next
    case (cont r e t')
    have IH: "proper (map re (split_from (Suc n) t'))" using 1 cont(6) by blast
    obtain q xs where q: "map re (split_from (Suc n) t') = q # xs"
      by (cases "split_from (Suc n) t'") auto
    have "t' = fst q @ snd q @ flat xs"
      using render_split_from [of "Suc n" t'] q by simp
    then have "\<not> cr_clash e q" using cont(4) by (auto simp: cr_clash_def)
    then show ?thesis using IH q cont by simp
  qed
qed

lemma takeWhile_no_eol:
  "no_eol r \<Longrightarrow> is_eol c \<Longrightarrow>
     takeWhile (\<lambda>c. \<not> is_eol c) (r @ c # s) = r \<and> dropWhile (\<lambda>c. \<not> is_eol c) (r @ c # s) = c # s"
  by (induction r) (auto simp: no_eol_def)

lemma split_from_step:
  assumes "no_eol r" "eol_ok e" "e = [CR] \<Longrightarrow> t = [] \<or> hd t \<noteq> LF"
  shows "split_from n (r @ e @ t) = raw_line r e n # split_from (Suc n) t"
proof -
  have tw: "takeWhile (\<lambda>c. \<not> is_eol c) (r @ e @ t) = r"
    and dw: "dropWhile (\<lambda>c. \<not> is_eol c) (r @ e @ t) = e @ t"
    using assms(1,2) takeWhile_no_eol [OF assms(1)] by (auto simp: eol_ok_def)
  show ?thesis
    using assms(2,3) by (auto simp: split_from.simps [of n "r @ e @ t"] tw dw eol_ok_def)
qed

lemma proper_hd_clash:
  assumes "proper (q # xs)" "\<not> cr_clash e q" "e = [CR]"
  shows "flat (q # xs) = [] \<or> hd (flat (q # xs)) \<noteq> LF"
proof (cases "fst q")
  case Nil
  then show ?thesis using assms by (cases q; cases xs) (auto simp: cr_clash_def eol_ok_def)
next
  case (Cons c r)
  then have "\<not> is_eol c" using assms(1) by (cases q; cases xs) (auto simp: no_eol_def)
  then show ?thesis using Cons by auto
qed

lemma split_from_flat: "proper xs \<Longrightarrow> map re (split_from n (flat xs)) = xs"
proof (induction xs arbitrary: n rule: proper.induct)
  case (2 r e)
  then show ?case by (simp add: split_from_no_eol)
next
  case (3 r e q xs)
  then have "split_from n (r @ e @ flat (q # xs)) = raw_line r e n # split_from (Suc n) (flat (q # xs))"
    using proper_hd_clash [of q xs e] by (intro split_from_step) (auto simp del: flat_simps)
  then show ?case using 3 by simp
qed simp

lemma parse_step_re:
  assumes "parse_step p l = (l', p')"
  shows "re l' = re l" "l_no l' = l_no l"
  using assms by (auto simp: parse_step_def Let_def split: if_splits option.splits prod.splits)

lemma parse_loop_re: "parse_loop p ls = (ls', p') \<Longrightarrow> map re ls' = map re ls"
proof (induction ls arbitrary: p ls' p')
  case (Cons l ls)
  then show ?case by (auto dest: parse_step_re split: prod.splits)
qed simp

lemma map_re_Parse: "map re (f_lines (Parse t)) = map re (splitLines t)"
  by (auto simp: Parse_def dest: parse_loop_re split: prod.splits)

lemma Render_flat: "Render f = flat (map re (f_lines f))"
  by (simp add: Render_def render_lines_flat)

lemma Parse_proper: "proper (map re (f_lines (Parse t)))"
  unfolding map_re_Parse splitLines_def by (rule split_from_proper)

lemma Parse_flat: "proper xs \<Longrightarrow> map re (f_lines (Parse (flat xs))) = xs"
  by (simp add: map_re_Parse splitLines_def split_from_flat)

section \<open>What each parsed line is\<close>

text \<open>The classification \<open>Parse\<close> gives a line, as a predicate on the finished line.\<close>

definition line_ok :: "line \<Rightarrow> bool" where
  "line_ok l = (let t = trim_ascii (l_raw l) in
     case l_kind l of
       Blank \<Rightarrow> t = []
     | Comment \<Rightarrow> t \<noteq> [] \<and> has_prefix t ''#'' \<and> \<not> has_prefix t MarkerPrefix
     | Header \<Rightarrow> looksLikeHeader t \<and> l_stanza l = butlast (tl t)
     | Value \<Rightarrow> t \<noteq> [] \<and> \<not> looksLikeHeader t \<and> (l_value l, l_comment l) = value_parts t)"

lemma parse_step_ok: "parse_step p l = (l', p') \<Longrightarrow> line_ok l'"
  by (auto simp: parse_step_def line_ok_def Let_def split: if_splits option.splits prod.splits)

lemma parse_loop_ok: "parse_loop p ls = (ls', p') \<Longrightarrow> l \<in> set ls' \<Longrightarrow> line_ok l"
proof (induction ls arbitrary: p ls' p')
  case (Cons l ls)
  then show ?case by (auto dest: parse_step_ok split: prod.splits)
qed simp

lemma Parse_line_ok: "l \<in> set (f_lines (Parse t)) \<Longrightarrow> line_ok l"
  by (auto simp: Parse_def dest: parse_loop_ok split: prod.splits)

lemma set_trim_ascii: "set (trim_ascii s) \<subseteq> set s"
  by (simp add: trim_ascii_def set_go_trim)

lemma trim_ascii_Nil [simp]: "trim_ascii [] = []"
  by (simp add: trim_ascii_def go_trim_def)

lemma inline_from_bounds: "inline_from i prev s = Some c \<Longrightarrow> i \<le> c \<and> c < i + length s"
  by (induction i prev s rule: inline_from.induct) (auto split: if_splits)

lemma value_parts_props:
  assumes "trim_ascii t = t" "t \<noteq> []" "value_parts t = (v, k)"
  shows "v \<noteq> []" "set v \<subseteq> set t" "trim_ascii v = v"
    "k \<noteq> [] \<Longrightarrow> \<exists>c. inlineComment t = Some c \<and> 0 < c \<and> k = drop c t \<and> v = trim_ascii (take c t)"
proof -
  have hd: "\<not> is_ascii_space (hd t)" using go_trim_hd [of is_ascii_space t] assms(1,2) by (simp add: trim_ascii_def)
  have ne: "trim_ascii (take c t) \<noteq> []" if "0 < c" for c
  proof -
    have "hd t \<in> set (take c t)" using that assms(2) by (cases t; cases c) auto
    then show ?thesis using hd by (auto simp: trim_ascii_def go_trim_eq_Nil)
  qed
  have sub: "set (trim_ascii (take c t)) \<subseteq> set t" for c
    using set_trim_ascii [of "take c t"] set_take_subset [of c t] by blast
  have tt: "trim_ascii (trim_ascii (take c t)) = trim_ascii (take c t)" for c
    by (simp add: trim_ascii_def)
  show "v \<noteq> []" using assms(2,3) ne by (auto simp: value_parts_def Let_def split: option.splits if_splits)
  show "set v \<subseteq> set t" using assms(3) sub by (auto simp: value_parts_def Let_def split: option.splits if_splits)
  show "trim_ascii v = v" using assms(1,3) tt by (auto simp: value_parts_def Let_def split: option.splits if_splits)
  show "k \<noteq> [] \<Longrightarrow> \<exists>c. inlineComment t = Some c \<and> 0 < c \<and> k = drop c t \<and> v = trim_ascii (take c t)"
    using assms(3) by (auto simp: value_parts_def Let_def split: option.splits if_splits)
qed

lemma trim_trim_ascii [simp]: "trim_ascii (trim_ascii s) = trim_ascii s"
  by (simp add: trim_ascii_def)

lemma line_ok_value:
  assumes "line_ok l" "l_kind l = Value"
  shows "l_value l \<noteq> []" "set (l_value l) \<subseteq> set (l_raw l)"
  using assms value_parts_props [of "trim_ascii (l_raw l)" "l_value l" "l_comment l"] set_trim_ascii [of "l_raw l"]
  by (auto simp: line_ok_def Let_def)

section \<open>The stanza view\<close>

definition lines_of :: "string \<Rightarrow> stanza list \<Rightarrow> string list" where
  "lines_of n ss = (case get_stanza n ss of None \<Rightarrow> [] | Some s \<Rightarrow> s_lines s)"

definition values_of :: "string \<Rightarrow> line list \<Rightarrow> string list" where
  "values_of n ls = map l_value (filter (\<lambda>l. l_kind l = Value \<and> l_stanza l = n) ls)"

lemma get_stanza_simps [simp]:
  "get_stanza n [] = None"
  "get_stanza n (s # ss) = (if s_name s = n then Some s else get_stanza n ss)"
  by (simp_all add: get_stanza_def)

definition names :: "stanza list \<Rightarrow> string set" where
  "names ss = set (map s_name ss)"

lemma names_simps [simp]: "names [] = {}" "names (s # ss) = insert (s_name s) (names ss)"
  "names (ss @ ts) = names ss \<union> names ts"
  by (auto simp: names_def)

lemma distinct_names_snoc: "distinct (map s_name (ss @ [s])) \<longleftrightarrow> distinct (map s_name ss) \<and> s_name s \<notin> names ss"
  by (auto simp: names_def)

lemma get_stanza_None: "get_stanza n ss = None \<longleftrightarrow> n \<notin> names ss"
  by (induction ss) auto

lemma get_stanza_Some: "get_stanza n ss = Some s \<Longrightarrow> n \<in> names ss"
  using get_stanza_None [of n ss] by simp

lemma names_add_value [simp]: "map s_name (add_value n v ss) = map s_name ss"
  by (induction ss) auto

lemma lines_of_add_value:
  "m \<in> names ss \<Longrightarrow> lines_of n (add_value m v ss) = lines_of n ss @ (if n = m then [v] else [])"
  by (induction ss) (auto simp: lines_of_def)

lemma lines_of_new [simp]: "lines_of n (ss @ [new_stanza m k]) = lines_of n ss"
  by (induction ss) (auto simp: lines_of_def new_stanza_def)

lemma lines_of_fresh [simp]: "lines_of n [] = []" "lines_of n [new_stanza m k] = []"
  by (simp_all add: lines_of_def new_stanza_def)

lemma lines_of_single [simp]: "lines_of n [s] = (if s_name s = n then s_lines s else [])"
  by (simp add: lines_of_def)

lemma lines_new_stanza [simp]: "s_lines (new_stanza n k) = []"
  by (simp add: new_stanza_def)

lemma name_new_stanza [simp]: "s_name (new_stanza n k) = n"
  by (simp add: new_stanza_def)

text \<open>The loop invariant: names are unique, and \<^verbatim>\<open>cur\<close> points to the stanza named by \<^verbatim>\<open>stanza\<close>.\<close>

definition pinv :: "pstate \<Rightarrow> bool" where
  "pinv p \<longleftrightarrow> distinct (map s_name (p_stanzas p)) \<and>
     (case p_cur p of
        None \<Rightarrow> p_stanzas p = [] \<and> p_stanza p = []
      | Some n \<Rightarrow> n = p_stanza p \<and> n \<in> names (p_stanzas p))"

lemma pinv_init [simp]: "pinv init_pstate"
  by (simp add: pinv_def init_pstate_def)

lemma add_value_names [simp]: "names (add_value n v ss) = names ss"
  by (simp add: names_def del: set_map)

lemma parse_step_view:
  assumes "parse_step p l = (l', p')" "pinv p"
  shows "pinv p'"
    and "lines_of n (p_stanzas p') = lines_of n (p_stanzas p) @ values_of n [l']"
    and "l_kind l' = Value \<Longrightarrow> l_stanza l' \<in> names (p_stanzas p')"
    and "names (p_stanzas p) \<subseteq> names (p_stanzas p')"
proof -
  have ne: "fst (value_parts t) \<noteq> []" if "t = trim_ascii (l_raw l)" "t \<noteq> []" for t
    using value_parts_props(1) [of t "fst (value_parts t)" "snd (value_parts t)"] that by simp
  show "pinv p'"
    using assms by (auto simp: parse_step_def pinv_def Let_def get_stanza_None distinct_names_snoc
        dest: get_stanza_Some simp del: map_append distinct_append split: if_splits option.splits prod.splits)
  show "lines_of n (p_stanzas p') = lines_of n (p_stanzas p) @ values_of n [l']"
    using assms ne by (auto simp: parse_step_def pinv_def Let_def values_of_def lines_of_add_value
        split: if_splits option.splits prod.splits)
  show "l_kind l' = Value \<Longrightarrow> l_stanza l' \<in> names (p_stanzas p')"
    using assms ne by (auto simp: parse_step_def pinv_def Let_def split: if_splits option.splits prod.splits)
  show "names (p_stanzas p) \<subseteq> names (p_stanzas p')"
    using assms by (auto simp: parse_step_def Let_def split: if_splits option.splits prod.splits)
qed

lemma values_of_Cons: "values_of n (l # ls) = values_of n [l] @ values_of n ls"
  by (simp add: values_of_def)

lemma parse_loop_view:
  assumes "parse_loop p ls = (ls', p')" "pinv p"
  shows "pinv p' \<and> lines_of n (p_stanzas p') = lines_of n (p_stanzas p) @ values_of n ls'
    \<and> (\<forall>l \<in> set ls'. l_kind l = Value \<longrightarrow> l_stanza l \<in> names (p_stanzas p'))
    \<and> names (p_stanzas p) \<subseteq> names (p_stanzas p')"
  using assms
proof (induction ls arbitrary: p ls' p')
  case (Cons l ls)
  obtain l1 p1 where 1: "parse_step p l = (l1, p1)" by fastforce
  obtain ls2 where 2: "parse_loop p1 ls = (ls2, p')" "ls' = l1 # ls2"
    using Cons.prems 1 by (auto split: prod.splits)
  note step = parse_step_view [OF 1 Cons.prems(2)]
  note IH = Cons.IH [OF 2(1) step(1)]
  have "lines_of n (p_stanzas p') = lines_of n (p_stanzas p) @ values_of n ls'"
    using IH step(2) [of n] 2(2) by (simp only: values_of_Cons [of n l1 ls2] append_assoc)
  moreover have "\<forall>l \<in> set ls'. l_kind l = Value \<longrightarrow> l_stanza l \<in> names (p_stanzas p')"
    using IH step(3) 2(2) by auto
  ultimately show ?case using IH step(4) by blast
qed (simp add: values_of_def)

lemma get_stanza_mem: "distinct (map s_name ss) \<Longrightarrow> s \<in> set ss \<Longrightarrow> get_stanza (s_name s) ss = Some s"
  by (induction ss) auto

text \<open>
  The stanza view agrees with the lines: stanza names are unique, each stanza holds exactly the
  values of the value lines that belong to it, in file order, every value line belongs to a stanza
  of the view, and no value is empty.
\<close>

theorem parse_stanza_view:
  "distinct (map s_name (f_stanzas (Parse t)))
   \<and> (\<forall>s \<in> set (f_stanzas (Parse t)). s_lines s = values_of (s_name s) (f_lines (Parse t)))
   \<and> (\<forall>l \<in> set (f_lines (Parse t)). l_kind l = Value \<longrightarrow>
        l_value l \<noteq> [] \<and> l_stanza l \<in> names (f_stanzas (Parse t)))"
proof -
  obtain ls p where p: "parse_loop init_pstate (splitLines t) = (ls, p)" by fastforce
  then have f: "f_lines (Parse t) = ls" "f_stanzas (Parse t) = p_stanzas p" by (simp_all add: Parse_def)
  note view = parse_loop_view [OF p pinv_init]
  have d: "distinct (map s_name (p_stanzas p))" using view by (auto simp: pinv_def)
  have "s_lines s = values_of (s_name s) ls" if "s \<in> set (p_stanzas p)" for s
    using view [of "s_name s"] get_stanza_mem [OF d that] by (simp add: lines_of_def init_pstate_def)
  moreover have "l_value l \<noteq> []" if "l \<in> set ls" "l_kind l = Value" for l
    using line_ok_value(1) Parse_line_ok that f by blast
  ultimately show ?thesis using view d f by auto
qed

lemma parse_stanza_view_witness:
  "s_lines (hd (f_stanzas (Parse ''[a]\<newline>x # y''))) = values_of ''a'' (f_lines (Parse ''[a]\<newline>x # y''))"
proof -
  have "f_stanzas (Parse ''[a]\<newline>x # y'') \<noteq> []" "s_name (hd (f_stanzas (Parse ''[a]\<newline>x # y''))) = ''a''"
    by code_simp+
  then show ?thesis using parse_stanza_view [of "''[a]\<newline>x # y''"] by (metis hd_in_set)
qed

text \<open>
  C40.  Parsing loses nothing: rendering a parsed document gives back the operator's bytes, for every
  input, whatever its line endings, comments and blank lines.
\<close>

theorem render_parse: "Render (Parse t) = t"
  by (simp add: Render_flat map_re_Parse splitLines_def render_split_from)

end
