(* ===== verification/Regex.thy ===== *)
theory Regex
  imports Go_Strings
begin

text \<open>
  The fragment of Go's \<^verbatim>\<open>regexp\<close> that \<^verbatim>\<open>internal/redact\<close> uses: byte classes, sequence, ordered
  alternative, greedy bounded and unbounded repetition, and the ASCII word boundary.  Go's matcher
  is leftmost-first: at the leftmost position where the pattern matches, it takes the match a
  backtracking search would find first.  \<open>matches\<close> lists the matches at a position in that order.

  A position is the byte before it (for the word boundary) and the rest of the text.  All classes
  are ASCII, except that case folding adds U+017F and U+212A to \<^verbatim>\<open>[a-z]\<close>; those are
  given as byte sequences, so matching bytes and matching runes agree.
\<close>

type_synonym pos = "char option \<times> string"

datatype re =
    Chr "char \<Rightarrow> bool"
  | Seq re re
  | Alt re re
  | Rep nat nat re
  | RepInf nat re
  | WordB

definition is_digit :: "char \<Rightarrow> bool" where
  "is_digit c \<longleftrightarrow> 48 \<le> (of_char c :: nat) \<and> (of_char c :: nat) \<le> 57"

definition is_upper :: "char \<Rightarrow> bool" where
  "is_upper c \<longleftrightarrow> 65 \<le> (of_char c :: nat) \<and> (of_char c :: nat) \<le> 90"

definition is_lower :: "char \<Rightarrow> bool" where
  "is_lower c \<longleftrightarrow> 97 \<le> (of_char c :: nat) \<and> (of_char c :: nat) \<le> 122"

definition is_hex :: "char \<Rightarrow> bool" where
  "is_hex c \<longleftrightarrow> from_hex_char c \<noteq> None"

definition is_alnum :: "char \<Rightarrow> bool" where
  "is_alnum c \<longleftrightarrow> is_digit c \<or> is_upper c \<or> is_lower c"

definition is_word :: "char \<Rightarrow> bool" where
  "is_word c \<longleftrightarrow> is_alnum c \<or> c = CHR ''_''"

definition at_word_boundary :: "pos \<Rightarrow> bool" where
  "at_word_boundary p \<longleftrightarrow>
     (case fst p of None \<Rightarrow> False | Some c \<Rightarrow> is_word c) \<noteq>
     (case snd p of [] \<Rightarrow> False | c # _ \<Rightarrow> is_word c)"

text \<open>Greedy repetition of a matcher between \<open>lo\<close> and \<open>hi\<close> times: longer repetitions come first.\<close>

fun rep_greedy :: "(pos \<Rightarrow> pos list) \<Rightarrow> nat \<Rightarrow> nat \<Rightarrow> pos \<Rightarrow> pos list" where
  "rep_greedy f lo 0 p = (if lo = 0 then [p] else [])"
| "rep_greedy f lo (Suc hi) p =
     concat (map (rep_greedy f (lo - 1) hi) (f p)) @ (if lo = 0 then [p] else [])"

text \<open>
  An unbounded repetition of a sub-pattern that consumes at least one byte repeats at most as often
  as there are bytes left; every repeated sub-pattern of the program consumes.
\<close>

primrec matches :: "re \<Rightarrow> pos \<Rightarrow> pos list" where
  "matches (Chr f) p = (case snd p of [] \<Rightarrow> [] | c # s \<Rightarrow> if f c then [(Some c, s)] else [])"
| "matches (Seq a b) p = concat (map (matches b) (matches a p))"
| "matches (Alt a b) p = matches a p @ matches b p"
| "matches (Rep lo hi r) p = rep_greedy (matches r) lo hi p"
| "matches (RepInf lo r) p = rep_greedy (matches r) lo (length (snd p)) p"
| "matches WordB p = (if at_word_boundary p then [p] else [])"

text \<open>\<^verbatim>\<open>MatchString\<close>: some position has a match.\<close>

fun match_from :: "re \<Rightarrow> char option \<Rightarrow> string \<Rightarrow> bool" where
  "match_from r prev [] = (matches r (prev, []) \<noteq> [])"
| "match_from r prev (c # s) = (matches r (prev, c # s) \<noteq> [] \<or> match_from r (Some c) s)"

definition match_string :: "re \<Rightarrow> string \<Rightarrow> bool" where
  "match_string r s = match_from r None s"

text \<open>
  \<^verbatim>\<open>FindAllString(s, -1)\<close>: leftmost matches, each starting where the last one ended.  The fuel is the
  length of the text; every step consumes at least one byte.
\<close>

fun find_all_from :: "nat \<Rightarrow> re \<Rightarrow> char option \<Rightarrow> string \<Rightarrow> string list" where
  "find_all_from 0 r prev s = []"
| "find_all_from (Suc n) r prev s =
     (case s of
        [] \<Rightarrow> []
      | c # s' \<Rightarrow>
          (case matches r (prev, s) of
             [] \<Rightarrow> find_all_from n r (Some c) s'
           | p # _ \<Rightarrow>
               (if length (snd p) < length s
                then take (length s - length (snd p)) s # find_all_from n r (fst p) (snd p)
                else find_all_from n r (Some c) s')))"

definition find_all :: "re \<Rightarrow> string \<Rightarrow> string list" where
  "find_all r s = find_all_from (length s) r None s"

text \<open>Literal bytes, as a sequence.\<close>

definition Lit :: "char \<Rightarrow> re" where
  "Lit c = Chr (\<lambda>d. d = c)"

text \<open>Repetition only ever moves forward, and a match that is found was there to find.\<close>

definition ahead :: "string \<Rightarrow> string \<Rightarrow> bool" where
  "ahead s t \<longleftrightarrow> (\<exists>u. s = u @ t)"

lemma ahead_refl [simp]: "ahead s s"
  by (simp add: ahead_def)

lemma ahead_Cons [simp]: "ahead (c # s) s"
  by (simp add: ahead_def)

lemma ahead_trans: "ahead s t \<Longrightarrow> ahead t u \<Longrightarrow> ahead s u"
  by (auto simp: ahead_def)

lemma ahead_contains: "ahead s t \<Longrightarrow> contains t m \<Longrightarrow> contains s m"
  by (auto simp: ahead_def contains_iff) (metis append_assoc)

lemma rep_greedy_ahead:
  assumes "\<And>p q. q \<in> set (f p) \<Longrightarrow> ahead (snd p) (snd q)"
  shows "q \<in> set (rep_greedy f lo hi p) \<Longrightarrow> ahead (snd p) (snd q)"
proof (induction hi arbitrary: lo p)
  case 0
  then show ?case by (auto split: if_splits)
next
  case (Suc hi)
  then have "q = p \<or> (\<exists>m \<in> set (f p). q \<in> set (rep_greedy f (lo - 1) hi m))"
    by (auto split: if_splits)
  then show ?case using assms Suc.IH ahead_trans by (metis ahead_refl)
qed

lemma matches_ahead: "q \<in> set (matches r p) \<Longrightarrow> ahead (snd p) (snd q)"
proof (induction r arbitrary: p q)
  case (Seq a b)
  then obtain m where "m \<in> set (matches a p)" "q \<in> set (matches b m)" by auto
  then show ?case using Seq.IH ahead_trans by blast
next
  case (Rep lo hi r)
  then show ?case using rep_greedy_ahead [of "matches r"] by simp
next
  case (RepInf lo r)
  then show ?case using rep_greedy_ahead [of "matches r"] by simp
qed (auto split: list.splits if_splits)

lemma find_all_from_infix: "m \<in> set (find_all_from n r prev s) \<Longrightarrow> contains s m"
proof (induction n arbitrary: prev s)
  case (Suc n)
  then obtain c s' where s: "s = c # s'" by (cases s) auto
  consider (skip) "m \<in> set (find_all_from n r (Some c) s')"
    | (hit) k where "m = take k s"
    | (rest) p ps where "matches r (prev, s) = p # ps" "m \<in> set (find_all_from n r (fst p) (snd p))"
    using Suc.prems s by (auto split: list.splits if_splits)
  then show ?case
  proof cases
    case skip
    then show ?thesis using Suc.IH s by simp
  next
    case (hit k)
    then have "s = [] @ m @ drop k s" by simp
    then show ?thesis unfolding contains_iff by blast
  next
    case (rest p ps)
    then have "ahead s (snd p)" using matches_ahead [of p r "(prev, s)"] by simp
    then show ?thesis using Suc.IH rest(2) ahead_contains by blast
  qed
qed simp

lemma find_all_infix: "m \<in> set (find_all r s) \<Longrightarrow> contains s m"
  by (simp add: find_all_def find_all_from_infix)

end
