(* ===== verification/Net.thy ===== *)
theory Net
  imports Go_Strings
begin

text \<open>
  \<^verbatim>\<open>net.ParseIP\<close>, \<^verbatim>\<open>net.ParseCIDR\<close> and the address predicates the redaction scanners use.  An
  address is its 16-byte form, as \<^verbatim>\<open>net.IP\<close> holds it: an IPv4 address is mapped under
  \<^verbatim>\<open>::ffff:0:0/96\<close>.
\<close>

definition dot :: char where "dot = CHR ''.''"
definition colon :: char where "colon = CHR '':''"

definition digit_val :: "char \<Rightarrow> nat option" where
  "digit_val c = (let n = of_char c :: nat in if 48 \<le> n \<and> n \<le> 57 then Some (n - 48) else None)"

fun decimal :: "nat \<Rightarrow> string \<Rightarrow> nat option" where
  "decimal acc [] = Some acc"
| "decimal acc (c # s) = (case digit_val c of None \<Rightarrow> None | Some d \<Rightarrow> decimal (10 * acc + d) s)"

text \<open>One IPv4 octet: 1 to 3 digits, no leading zero, at most 255.\<close>

definition octet :: "string \<Rightarrow> byte option" where
  "octet s =
     (if s = [] \<or> (1 < length s \<and> hd s = CHR ''0'') then None
      else case decimal 0 s of None \<Rightarrow> None | Some v \<Rightarrow> if v \<le> 255 then Some (of_nat v) else None)"

definition parse_ipv4 :: "string \<Rightarrow> byte list option" where
  "parse_ipv4 s =
     (case split_on dot s of
        [a, b, c, d] \<Rightarrow>
          (case (octet a, octet b, octet c, octet d) of
             (Some w, Some x, Some y, Some z) \<Rightarrow> Some [w, x, y, z]
           | _ \<Rightarrow> None)
      | _ \<Rightarrow> None)"

definition hex_run :: "string \<Rightarrow> string" where
  "hex_run s = takeWhile (\<lambda>c. from_hex_char c \<noteq> None) s"

definition hex_val :: "string \<Rightarrow> nat" where
  "hex_val s = foldl (\<lambda>a c. 16 * a + the (from_hex_char c)) 0 s"

text \<open>
  The loop of \<^verbatim>\<open>netip.parseIPv6\<close>: \<open>ip\<close> holds the bytes so far, \<open>ell\<close> the position of the
  ellipsis.  Each round adds two bytes, so eight rounds are enough.
\<close>

fun ipv6_loop :: "nat \<Rightarrow> byte list \<Rightarrow> nat option \<Rightarrow> string \<Rightarrow> (byte list \<times> nat option \<times> string) option" where
  "ipv6_loop 0 ip ell s = Some (ip, ell, s)"
| "ipv6_loop (Suc n) ip ell s =
     (let h = hex_run s; rest = drop (length h) s in
      if h = [] \<or> 4 < length h then None
      else if rest \<noteq> [] \<and> hd rest = dot then
        (if (ell = None \<and> length ip \<noteq> 12) \<or> 16 < length ip + 4 then None
         else case parse_ipv4 s of None \<Rightarrow> None | Some q \<Rightarrow> Some (ip @ q, ell, []))
      else
        (let ip' = ip @ [of_nat (hex_val h div 256), of_nat (hex_val h mod 256)] in
         if rest = [] then Some (ip', ell, [])
         else if hd rest \<noteq> colon \<or> length rest = 1 then None
         else
           (let s' = tl rest in
            if hd s' = colon
            then (if ell \<noteq> None then None
                  else if tl s' = [] then Some (ip', Some (length ip'), [])
                  else ipv6_loop n ip' (Some (length ip')) (tl s'))
            else ipv6_loop n ip' ell s')))"

definition parse_ipv6 :: "string \<Rightarrow> byte list option" where
  "parse_ipv6 s =
     (let lead = has_prefix s ''::''; s1 = (if lead then drop 2 s else s) in
      if lead \<and> s1 = [] then Some (replicate 16 0)
      else case ipv6_loop 8 [] (if lead then Some 0 else None) s1 of
        None \<Rightarrow> None
      | Some (ip, ell, rest) \<Rightarrow>
          (if rest \<noteq> [] then None
           else if length ip < 16 then
             (case ell of
                None \<Rightarrow> None
              | Some e \<Rightarrow> Some (take e ip @ replicate (16 - length ip) 0 @ drop e ip))
           else if ell \<noteq> None then None
           else Some ip))"

definition v4_prefix :: "byte list" where
  "v4_prefix = replicate 10 0 @ [0xFF, 0xFF]"

text \<open>
  \<^verbatim>\<open>netip.ParseAddr\<close>: the first of \<^verbatim>\<open>. : %\<close> decides.  The result is the 16-byte form and the bit
  length.  An address with a zone is refused by both callers, so a \<^verbatim>\<open>%\<close> anywhere fails.
\<close>

definition parse_addr :: "string \<Rightarrow> (byte list \<times> nat) option" where
  "parse_addr s =
     (case dropWhile (\<lambda>c. c \<noteq> dot \<and> c \<noteq> colon \<and> c \<noteq> CHR 0x25) s of
        [] \<Rightarrow> None
      | c # _ \<Rightarrow>
          if c = dot then map_option (\<lambda>q. (v4_prefix @ q, 32)) (parse_ipv4 s)
          else if c = colon \<and> CHR 0x25 \<notin> set s then map_option (\<lambda>q. (q, 128)) (parse_ipv6 s)
          else None)"

definition ParseIP :: "string \<Rightarrow> byte list option" where
  "ParseIP s = map_option fst (parse_addr s)"

definition To4 :: "byte list \<Rightarrow> byte list option" where
  "To4 ip = (if length ip = 16 \<and> take 12 ip = v4_prefix then Some (drop 12 ip) else None)"

definition IsLoopback :: "byte list \<Rightarrow> bool" where
  "IsLoopback ip = (case To4 ip of Some q \<Rightarrow> hd q = 127 | None \<Rightarrow> ip = replicate 15 0 @ [1])"

definition IsUnspecified :: "byte list \<Rightarrow> bool" where
  "IsUnspecified ip \<longleftrightarrow> ip = v4_prefix @ [0, 0, 0, 0] \<or> ip = replicate 16 0"

definition IsPrivate :: "byte list \<Rightarrow> bool" where
  "IsPrivate ip =
     (case To4 ip of
        Some q \<Rightarrow> q ! 0 = 10 \<or> (q ! 0 = 172 \<and> q ! 1 AND 0xF0 = 16) \<or> (q ! 0 = 192 \<and> q ! 1 = 168)
      | None \<Rightarrow> ip ! 0 AND 0xFE = 0xFC)"

definition IsLinkLocalUnicast :: "byte list \<Rightarrow> bool" where
  "IsLinkLocalUnicast ip =
     (case To4 ip of
        Some q \<Rightarrow> q ! 0 = 169 \<and> q ! 1 = 254
      | None \<Rightarrow> ip ! 0 = 0xFE \<and> ip ! 1 AND 0xC0 = 0x80)"

text \<open>\<^verbatim>\<open>dtoi\<close>: decimal digits only, below \<^verbatim>\<open>0xFFFFFF\<close>; a mask of other characters is refused by the caller.\<close>

definition dtoi :: "string \<Rightarrow> nat option" where
  "dtoi s = (if s = [] then None
             else case decimal 0 s of None \<Rightarrow> None | Some v \<Rightarrow> if v < 0xFFFFFF then Some v else None)"

text \<open>\<^verbatim>\<open>net.ParseCIDR\<close>: the address and the mask's (ones, bits).\<close>

definition ParseCIDR :: "string \<Rightarrow> (byte list \<times> nat \<times> nat) option" where
  "ParseCIDR s =
     (case str_index s ''/'' of
        None \<Rightarrow> None
      | Some i \<Rightarrow>
          (case (parse_addr (take i s), dtoi (drop (Suc i) s)) of
             (Some (ip, bits), Some n) \<Rightarrow> if n \<le> bits then Some (ip, n, bits) else None
           | _ \<Rightarrow> None))"

text \<open>The \<open>i\<close>-th byte of the network address: the address byte under a mask of \<open>ones\<close> leading ones.\<close>

definition mask_byte :: "nat \<Rightarrow> nat \<Rightarrow> byte \<Rightarrow> byte" where
  "mask_byte ones i b = (if 8 * (i + 1) \<le> ones then b else if ones \<le> 8 * i then 0
                         else b AND NOT (mask (8 * (i + 1) - ones)))"

end
