(* ===== verification/Redact.thy ===== *)
theory Redact
  imports Cfg Regex Net
begin

text \<open>
  \<^verbatim>\<open>internal/redact/redact.go\<close>: the classification of config content, \<open>Split\<close> into the on-chain and
  the bundle document, and \<open>Merge\<close>, its inverse.  The parameter \<open>lo\<close> is the Unicode case mapping of
  \<^verbatim>\<open>strings.ToLower\<close> on strings that are not ASCII; no theorem depends on it.
\<close>

section \<open>Tables\<close>

definition MovedMarker :: string where
  "MovedMarker = ''# xrplbak: content moved to the off-chain bundle''"

definition CommentMarker :: string where
  "CommentMarker = ''# xrplbak: comment moved to the off-chain bundle''"

datatype mode = CommentsToBundle | CommentsOnChain

record options =
  o_comments :: mode
  o_peers :: bool

definition neverStanzas :: "(string \<times> string) list" where
  "neverStanzas =
     [(''validation_seed'', ''legacy validator secret; use a validator token instead''),
      (''node_seed'', ''node identity secret; xrplbak never handles node seeds''),
      (''ssl_key'', ''TLS private key path; keep it out of backups'')]"

definition bundleStanzas :: "string list" where
  "bundleStanzas = [''validator_token'', ''validator_key_revocation'', ''ips_fixed'', ''cluster_nodes'',
     ''rpc_startup'', ''ssl_cert'', ''peer_private'']"

definition onChainStanzas :: "string list" where
  "onChainStanzas =
     [''server'', ''node_size'', ''node_db'', ''database_path'',
      ''ledger_history'', ''fetch_depth'', ''path_search'', ''path_search_fast'',
      ''path_search_max'', ''path_search_old'', ''debug_logfile'', ''sntp_servers'',
      ''voting'', ''amendments'', ''veto_amendments'', ''ssl_verify'',
      ''ssl_verify_file'', ''ssl_verify_dir'', ''validators_file'',
      ''validator_list_sites'', ''validator_list_keys'', ''validator_list_threshold'',
      ''validators'', ''ips'', ''peers_max'', ''peers_in_max'', ''peers_out_max'',
      ''reduce_relay'', ''compression'', ''ledger_tx_tables'', ''workers'',
      ''io_workers'', ''prefetch_workers'', ''overlay'', ''transaction_queue'',
      ''network_id'', ''relay_proposals'', ''relay_validations'', ''beta_rpc_api'',
      ''max_transactions'', ''insight'', ''perf'', ''signing_support'', ''crawl'',
      ''vl'', ''import_db'', ''ledger_replay'', ''sqlite'', ''load'',
      ''rpc_ip'', ''rpc_port'']"

definition keyStanzas :: "string list" where
  "keyStanzas = [''validator_list_keys'', ''validators'', ''amendments'', ''veto_amendments'',
     ''cluster_nodes'', ''validator_token'', ''validator_key_revocation'']"

definition blobStanzas :: "string list" where
  "blobStanzas = [''validator_token'', ''validator_key_revocation'']"

definition hostValueStanzas :: "string list" where
  "hostValueStanzas = [''ips'', ''ips_fixed'', ''sntp_servers'', ''cluster_nodes'', ''validator_list_sites'']"

definition specialUseSuffixes :: "string list" where
  "specialUseSuffixes = [''.local'', ''.localhost'', ''.localdomain'', ''.internal'', ''.intranet'',
     ''.lan'', ''.home'', ''.home.arpa'', ''.corp'', ''.private'', ''.test'', ''.onion'']"

definition portSecretKeys :: "string list" where
  "portSecretKeys = [''admin'', ''secure_gateway'', ''user'', ''password'',
     ''admin_user'', ''admin_password'', ''ssl_key'', ''ssl_cert'', ''ssl_chain'']"

definition peerStanzas :: "string list" where
  "peerStanzas = [''ips_fixed'']"

section \<open>Scanners\<close>

definition is_base58 :: "char \<Rightarrow> bool" where
  "is_base58 c \<longleftrightarrow> is_alnum c \<and> c \<notin> set ''0OIl''"

definition reSeed :: re where
  "reSeed = Seq WordB (Seq (Lit (CHR ''s'')) (Seq (Rep 28 30 (Chr is_base58)) WordB))"

definition reRFC1751 :: re where
  "reRFC1751 =
     Seq WordB (Seq (Rep 11 11 (Seq (Rep 1 4 (Chr is_upper)) (Lit (CHR '' ''))))
       (Seq (Rep 1 4 (Chr is_upper)) WordB))"

definition reHex :: re where
  "reHex = RepInf 64 (Chr is_hex)"

definition reBase64 :: re where
  "reBase64 = RepInf 44 (Chr (\<lambda>c. is_alnum c \<or> c \<in> set ''+/=''))"

text \<open>\<^verbatim>\<open>[a-z0-9]\<close> under \<^verbatim>\<open>(?i)\<close>: the ASCII letters and digits, U+017F and U+212A.\<close>

definition fold_alnum :: re where
  "fold_alnum = Alt (Chr is_alnum)
     (Alt (Seq (Lit (CHR 0xC5)) (Lit (CHR 0xBF)))
          (Seq (Lit (CHR 0xE2)) (Seq (Lit (CHR 0x84)) (Lit (CHR 0xAA)))))"

definition fold_label :: re where
  "fold_label = Seq fold_alnum (RepInf 0 (Alt fold_alnum (Lit (CHR ''-''))))"

definition reDotted :: re where
  "reDotted = Seq WordB (Seq fold_label (Seq (RepInf 1 (Seq (Lit dot) fold_label)) WordB))"

definition reIP :: re where
  "reIP = Alt
     (Seq WordB (Seq (Rep 3 3 (Seq (Rep 1 3 (Chr is_digit)) (Lit dot))) (Seq (Rep 1 3 (Chr is_digit)) WordB)))
     (Seq WordB (Seq (Rep 2 7 (Seq (Rep 0 4 (Chr is_hex)) (Lit colon))) (Seq (Rep 0 4 (Chr is_hex)) WordB)))"

definition specialUse :: "string \<Rightarrow> bool" where
  "specialUse name \<longleftrightarrow> list_ex (has_suffix name) specialUseSuffixes"

definition is_port :: "string \<Rightarrow> bool" where
  "is_port stanza \<longleftrightarrow> has_prefix stanza ''port_''"

definition host_strip :: "(string \<Rightarrow> string) \<Rightarrow> string \<Rightarrow> string" where
  "host_strip lo f0 =
     (let h1 = (case str_index f0 ''://'' of None \<Rightarrow> f0 | Some i \<Rightarrow> drop (i + 3) f0);
          h2 = (case index_any h1 ''/?#'' of None \<Rightarrow> h1 | Some i \<Rightarrow> take i h1) in
      if has_prefix h2 [lbrack] then []
      else
        (let h3 = (if length (filter (\<lambda>c. c = colon) h2) = 1 then takeWhile (\<lambda>c. c \<noteq> colon) h2 else h2)
         in trim_suffix (to_lower lo h3) [dot]))"

definition hostValue :: "(string \<Rightarrow> string) \<Rightarrow> string \<Rightarrow> string \<Rightarrow> string" where
  "hostValue lo stanza line =
     (let v = trim_space line in
      case (if is_port stanza
            then (case str_index v ''='' of None \<Rightarrow> None | Some i \<Rightarrow> Some (trim_space (drop (Suc i) v)))
            else Some v) of
        None \<Rightarrow> []
      | Some v' \<Rightarrow> (if v' = [] then [] else host_strip lo (until_space v')))"

definition hostReason :: "(string \<Rightarrow> string) \<Rightarrow> string \<Rightarrow> string \<Rightarrow> string \<Rightarrow> string" where
  "hostReason lo stanza key line =
     (if list_ex (\<lambda>tok. specialUse (to_lower lo tok)) (find_all reDotted line) then ''internal hostname''
      else if stanza \<notin> set hostValueStanzas \<and> \<not> (is_port stanza \<and> key = ''ip'') then []
      else
        (let h = hostValue lo stanza line in
         if h = [] \<or> h = ''localhost'' \<or> contains h ''.'' then []
         else if ParseIP h \<noteq> None then []
         else ''bare hostname with no public domain''))"

text \<open>One entry of an access list is loopback: an address, or a CIDR block inside the loopback range.\<close>

definition loopback_field :: "string \<Rightarrow> bool" where
  "loopback_field f =
     (case ParseIP f of
        Some ip \<Rightarrow> IsLoopback ip
      | None \<Rightarrow>
          (case ParseCIDR f of
             None \<Rightarrow> False
           | Some (ip, ones, bits) \<Rightarrow>
               (if \<not> IsLoopback ip then False
                else if bits = 32 \<and> (ones < 8 \<or> mask_byte ones 0 (ip ! 12) \<noteq> 127) then False
                else if bits = 128 \<and> ones \<noteq> 128 then False
                else True)))"

definition loopbackOnly :: "string \<Rightarrow> string \<Rightarrow> bool" where
  "loopbackOnly key line =
     (if key \<noteq> ''admin'' \<and> key \<noteq> ''secure_gateway'' then False
      else case str_index line ''='' of
        None \<Rightarrow> False
      | Some i \<Rightarrow>
          (let fields = fields_func (\<lambda>c. c = CHR '','' \<or> c = CHR '' '' \<or> c = CHR 0x09) [] (drop (Suc i) line)
           in if fields = [] then False else list_all loopback_field fields))"

fun ip_reason :: "string \<Rightarrow> string \<Rightarrow> string list \<Rightarrow> string" where
  "ip_reason stanza key [] = []"
| "ip_reason stanza key (m # ms) =
     (case ParseIP m of
        None \<Rightarrow> ip_reason stanza key ms
      | Some ip \<Rightarrow>
          (if IsLoopback ip \<or> IsUnspecified ip then ip_reason stanza key ms
           else if IsPrivate ip \<or> IsLinkLocalUnicast ip then ''private network address''
           else if is_port stanza \<and> key = ''ip'' then ''listen address''
           else ip_reason stanza key ms))"

definition line_key :: "(string \<Rightarrow> string) \<Rightarrow> string \<Rightarrow> string" where
  "line_key lo line = to_lower lo (trim_space (takeWhile (\<lambda>c. c \<noteq> CHR ''='') line))"

definition lineReason :: "(string \<Rightarrow> string) \<Rightarrow> string \<Rightarrow> string \<Rightarrow> string" where
  "lineReason lo stanza line =
     (let key = line_key lo line in
      if is_port stanza \<and> key \<in> set portSecretKeys \<and> \<not> loopbackOnly key line
      then ''access list, credential, or key path''
      else if stanza \<notin> set keyStanzas \<and> match_string reHex line then ''long hex value''
      else if stanza \<notin> set keyStanzas \<and> match_string reBase64 line then ''long base64 value''
      else if hostReason lo stanza key line \<noteq> [] then hostReason lo stanza key line
      else ip_reason stanza key (find_all reIP line))"

definition valueReason :: "(string \<Rightarrow> string) \<Rightarrow> string \<Rightarrow> string \<Rightarrow> string" where
  "valueReason lo stanza v =
     (if stanza \<in> set bundleStanzas then ''bundle-only stanza''
      else if stanza \<notin> set onChainStanzas \<and> \<not> is_port stanza \<and> stanza \<noteq> []
      then ''stanza not on the on-chain allowlist''
      else if stanza = [] then ''line sits outside any stanza''
      else lineReason lo stanza v)"

definition valueReasonOpt :: "(string \<Rightarrow> string) \<Rightarrow> string \<Rightarrow> string \<Rightarrow> options \<Rightarrow> string" where
  "valueReasonOpt lo stanza v opt =
     (if o_peers opt \<and> stanza \<in> set peerStanzas then lineReason lo stanza v else valueReason lo stanza v)"

section \<open>Refusal\<close>

record refused =
  re_stanza :: string
  re_lineno :: nat
  re_reason :: string

fun refuse_stanzas :: "stanza list \<Rightarrow> refused option" where
  "refuse_stanzas [] = None"
| "refuse_stanzas (s # ss) =
     (case map_of neverStanzas (s_name s) of
        Some reason \<Rightarrow> Some \<lparr>re_stanza = s_name s, re_lineno = s_lineno s, re_reason = reason\<rparr>
      | None \<Rightarrow> refuse_stanzas ss)"

definition refuse_line :: "(string \<Rightarrow> string) \<Rightarrow> line \<Rightarrow> string option" where
  "refuse_line lo l =
     (if l_kind l = Blank \<or> l_kind l = Header then None
      else
        (let t = l_raw l in
         if l_stanza l \<notin> set blobStanzas \<and> (match_string reSeed t \<or> match_string reRFC1751 t)
         then Some ''line looks like a seed or secret key''
         else if contains (to_lower lo t) ''-----begin'' then Some ''PEM key material''
         else if contains t MarkerPrefix
         then Some ''file contains an xrplbak restore marker; finish the restore (merge the bundle) before backing it up''
         else None))"

fun refuse_lines :: "(string \<Rightarrow> string) \<Rightarrow> line list \<Rightarrow> refused option" where
  "refuse_lines lo [] = None"
| "refuse_lines lo (l # ls) =
     (case refuse_line lo l of
        Some reason \<Rightarrow> Some \<lparr>re_stanza = l_stanza l, re_lineno = l_no l, re_reason = reason\<rparr>
      | None \<Rightarrow> refuse_lines lo ls)"

definition refuse :: "(string \<Rightarrow> string) \<Rightarrow> cfgfile \<Rightarrow> refused option" where
  "refuse lo f = (case refuse_stanzas (f_stanzas f) of Some e \<Rightarrow> Some e | None \<Rightarrow> refuse_lines lo (f_lines f))"

section \<open>Split\<close>

record move =
  m_file :: string
  m_stanza :: string
  m_lines :: nat
  m_comments :: nat
  m_reason :: string

record result =
  r_onchain :: cfgfile
  r_bundle :: cfgfile
  r_moves :: "move list"
  r_role :: string

text \<open>
  The switch of \<open>Split\<close> on one line: \<open>None\<close> keeps it, \<open>Some (marker, reason)\<close> moves it.
\<close>

definition verdict :: "(string \<Rightarrow> string) \<Rightarrow> options \<Rightarrow> line \<Rightarrow> (string \<times> string) option" where
  "verdict lo opt l =
     (case l_kind l of
        Blank \<Rightarrow> None
      | Header \<Rightarrow> None
      | Comment \<Rightarrow>
          (if o_comments opt = CommentsToBundle then Some (MovedMarker, ''operator comment'')
           else if lineReason lo (l_stanza l) (l_raw l) \<noteq> []
           then Some (MovedMarker, lineReason lo (l_stanza l) (l_raw l))
           else None)
      | Value \<Rightarrow>
          (if valueReasonOpt lo (l_stanza l) (l_value l) opt \<noteq> []
           then Some (MovedMarker, valueReasonOpt lo (l_stanza l) (l_value l) opt)
           else if l_comment l = [] then None
           else if o_comments opt = CommentsToBundle then Some (CommentMarker, ''operator comment'')
           else if lineReason lo (l_stanza l) (l_comment l) \<noteq> []
           then Some (CommentMarker, lineReason lo (l_stanza l) (l_comment l))
           else None))"

text \<open>The move accounting: one \<^verbatim>\<open>Move\<close> per stanza, in the order stanzas first lose a line.\<close>

fun count_move :: "string \<Rightarrow> bool \<Rightarrow> string \<Rightarrow> move list \<Rightarrow> move list" where
  "count_move st com reason [] =
     [\<lparr>m_file = [], m_stanza = st, m_lines = 1, m_comments = (if com then 1 else 0), m_reason = reason\<rparr>]"
| "count_move st com reason (m # ms) =
     (if m_stanza m = st
      then m\<lparr>m_lines := Suc (m_lines m),
             m_comments := (if com then Suc (m_comments m) else m_comments m),
             m_reason := reason\<rparr> # ms
      else m # count_move st com reason ms)"

definition marked :: "string \<Rightarrow> line \<Rightarrow> line" where
  "marked marker l =
     l\<lparr>l_raw := (if marker = CommentMarker then l_value l @ '' '' @ CommentMarker else marker)\<rparr>"

fun split_loop :: "(string \<Rightarrow> string) \<Rightarrow> options \<Rightarrow> line list \<Rightarrow> line list \<times> line list \<times> move list
    \<Rightarrow> line list \<times> line list \<times> move list" where
  "split_loop lo opt [] acc = acc"
| "split_loop lo opt (l # ls) (on, bu, mv) =
     (case verdict lo opt l of
        None \<Rightarrow> split_loop lo opt ls (on @ [l], bu, mv)
      | Some (marker, reason) \<Rightarrow>
          split_loop lo opt ls
            (on @ [marked marker l], bu @ [l],
             count_move (l_stanza l) (l_kind l = Comment \<or> marker = CommentMarker) reason mv))"

definition with_stanzas :: "line list \<Rightarrow> cfgfile" where
  "with_stanzas ls = \<lparr>f_lines = ls, f_stanzas = f_stanzas (Parse (render_lines ls))\<rparr>"

definition Split :: "(string \<Rightarrow> string) \<Rightarrow> cfgfile \<Rightarrow> options \<Rightarrow> refused + result" where
  "Split lo f opt =
     (case refuse lo f of
        Some e \<Rightarrow> Inl e
      | None \<Rightarrow>
          (let role = (if list_ex (\<lambda>s. s_name s = ''validator_token'' \<and> s_lines s \<noteq> []) (f_stanzas f)
                       then ''validator'' else ''node'');
               (on, bu, mv) = split_loop lo opt (f_lines f) ([], [], [])
           in Inr \<lparr>r_onchain = with_stanzas on, r_bundle = with_stanzas bu, r_moves = mv, r_role = role\<rparr>))"

section \<open>Merge\<close>

definition isMarker :: "line \<Rightarrow> bool" where
  "isMarker l \<longleftrightarrow> trim_space (l_raw l) = MovedMarker \<or> has_suffix (trim_space (l_raw l)) CommentMarker"

text \<open>\<^verbatim>\<open>take\<close>: the next bundle line that is not the empty segment \<^verbatim>\<open>Render\<close> leaves at the end.\<close>

fun merge_take :: "line list \<Rightarrow> (line \<times> line list) option" where
  "merge_take [] = None"
| "merge_take (l # ls) = (if l_raw l = [] \<and> l_end l = [] then merge_take ls else Some (l, ls))"

fun merge_loop :: "line list \<Rightarrow> line list \<Rightarrow> line list \<times> line list" where
  "merge_loop [] rest = ([], rest)"
| "merge_loop (l # ls) rest =
     (if \<not> isMarker l then (let (out, r) = merge_loop ls rest in (l # out, r))
      else case merge_take rest of
        None \<Rightarrow> (let (out, r) = merge_loop ls [] in (l # out, r))
      | Some (b, rest') \<Rightarrow> (let (out, r) = merge_loop ls rest' in (b\<lparr>l_end := l_end l\<rparr> # out, r)))"

definition drain :: "line list \<Rightarrow> line list" where
  "drain rest = filter (\<lambda>l. \<not> (l_raw l = [] \<and> l_end l = [])) rest"

definition Merge :: "cfgfile \<Rightarrow> cfgfile \<Rightarrow> cfgfile" where
  "Merge onchain bundle =
     (let (out, rest) = merge_loop (f_lines onchain) (f_lines bundle)
      in with_stanzas (out @ drain rest))"

section \<open>Markers survive trimming\<close>

definition space_chars :: "char set" where
  "space_chars = \<Union> (set ` set space_runes)"

lemma space_chars_not:
  "hash_ch \<notin> space_chars" "rbrack \<notin> space_chars" "CHR ''e'' \<notin> space_chars"
  by (simp_all add: space_chars_def space_runes_def ch_defs)

lemma strip_left_chars:
  "\<exists>t. s = t @ strip_left ps s \<and> set t \<subseteq> \<Union> (set ` set ps)"
proof (induction ps s rule: strip_left.induct)
  case (1 ps s)
  show ?case
  proof (cases "s \<noteq> [] \<and> 0 < space_len ps s")
    case True
    let ?n = "space_len ps s"
    obtain t where t: "drop ?n s = t @ strip_left ps (drop ?n s)" "set t \<subseteq> \<Union> (set ` set ps)"
      using 1 True by blast
    obtain p where p: "p \<in> set ps" "has_prefix s p" "?n = length p"
      using True filter_is_subset [of "has_prefix s" ps] filter_set [of "has_prefix s" ps]
      by (auto simp: space_len_def split: list.splits) (metis list.set_intros(1) mem_Collect_eq set_filter)
    have "take ?n s = p" using p by (simp add: has_prefix_def)
    then have "set (take ?n s @ t) \<subseteq> \<Union> (set ` set ps)" using p(1) t(2) by auto
    moreover have "s = (take ?n s @ t) @ strip_left ps (drop ?n s)"
      using t(1) by (metis append_assoc append_take_drop_id)
    moreover have "strip_left ps s = strip_left ps (drop ?n s)"
      using True by (subst strip_left.simps) simp
    ultimately show ?thesis by metis
  next
    case False
    then have "strip_left ps s = s" by (subst strip_left.simps) auto
    then show ?thesis by (intro exI [of _ "[]"]) simp
  qed
qed

lemma strip_left_keeps:
  assumes "m \<noteq> []" "hd m \<notin> \<Union> (set ` set ps)"
  shows "\<exists>y. strip_left ps (x @ m) = y @ m"
proof -
  obtain t where t: "x @ m = t @ strip_left ps (x @ m)" "set t \<subseteq> \<Union> (set ` set ps)"
    using strip_left_chars by blast
  from t(1) obtain us where "x = t @ us \<and> us @ m = strip_left ps (x @ m) \<or> x @ us = t \<and> m = us @ strip_left ps (x @ m)"
    by (auto simp: append_eq_append_conv2)
  then show ?thesis
  proof
    assume c: "x @ us = t \<and> m = us @ strip_left ps (x @ m)"
    have "us = []"
    proof (rule ccontr)
      assume "us \<noteq> []"
      then have "hd m = hd us" "hd us \<in> set t" using c by (metis hd_append2, metis Un_iff hd_in_set set_append)
      then show False using assms(2) t(2) by auto
    qed
    with c show ?thesis by (metis append_Nil)
  qed (metis append_Nil)
qed

lemma comment_marker_suffix: "has_suffix (trim_space (x @ CommentMarker)) CommentMarker"
proof -
  have "hd CommentMarker = hash_ch" "CommentMarker \<noteq> []" by (simp_all add: CommentMarker_def hash_ch_def)
  then obtain y where y: "strip_left space_runes (x @ CommentMarker) = y @ CommentMarker"
    using strip_left_keeps [of CommentMarker space_runes x] space_chars_not(1) by (auto simp: space_chars_def)
  have "space_len (map rev space_runes) (rev (y @ CommentMarker)) = 0"
    by (simp add: CommentMarker_def, rule space_len_first) (simp add: space_runes_def)
  then have "trim_space (x @ CommentMarker) = y @ CommentMarker"
    by (simp add: trim_space_def y strip_left_stop)
  then show ?thesis by simp
qed

lemma trim_moved_marker: "trim_space MovedMarker = MovedMarker"
proof -
  have "space_len space_runes MovedMarker = 0"
    by (simp add: MovedMarker_def, rule space_len_first) (simp add: space_runes_def)
  moreover have "space_len (map rev space_runes) (rev MovedMarker) = 0"
    by (simp add: MovedMarker_def, rule space_len_first) (simp add: space_runes_def)
  ultimately show ?thesis by (simp add: trim_space_def strip_left_stop)
qed

lemma markers_differ: "MovedMarker \<noteq> CommentMarker"
  by (simp add: MovedMarker_def CommentMarker_def)

lemma marked_isMarker: "m = MovedMarker \<or> m = CommentMarker \<Longrightarrow> isMarker (marked m l)"
  using comment_marker_suffix [of "l_value l @ '' ''"]
  by (auto simp: isMarker_def marked_def trim_moved_marker markers_differ)

text \<open>A line the operator wrote is no marker: \<open>refuse\<close> has rejected every other line that could be one.\<close>

lemma trim_space_tail: "\<exists>a b. s = a @ trim_space s @ b \<and> set b \<subseteq> space_chars"
proof -
  let ?t = "strip_left space_runes s"
  obtain a where a: "s = a @ ?t" using strip_left_suffix by blast
  obtain b where b: "rev ?t = b @ strip_left (map rev space_runes) (rev ?t)"
    "set b \<subseteq> \<Union> (set ` set (map rev space_runes))"
    using strip_left_chars by blast
  have "?t = trim_space s @ rev b"
    using b(1) unfolding trim_space_def by (metis rev_append rev_rev_ident)
  moreover have "set (rev b) \<subseteq> space_chars" using b(2) by (auto simp: space_chars_def)
  ultimately show ?thesis using a by metis
qed

lemma is_ascii_space_e: "\<not> is_ascii_space (CHR ''e'')"
  by (simp add: is_ascii_space_def)

lemma last_solid_unique:
  assumes "a @ e # b = c @ r # d" "\<forall>x \<in> set d. P x" "\<not> P e" "r \<notin> set b"
  shows "e = r"
  using assms by (auto simp: append_eq_append_conv2 Cons_eq_append_conv append_eq_Cons_conv)

lemma header_no_marker:
  assumes "looksLikeHeader (trim_ascii (l_raw l))"
  shows "\<not> isMarker l"
proof
  assume "isMarker l"
  let ?r = "l_raw l"
  have "last (trim_space ?r) = CHR ''e'' \<and> trim_space ?r \<noteq> []"
    using \<open>isMarker l\<close> by (auto simp: isMarker_def has_suffix_iff MovedMarker_def CommentMarker_def)
  then obtain u where u: "trim_space ?r = u @ [CHR ''e'']" by (metis append_butlast_last_id)
  obtain a b where ab: "?r = a @ trim_space ?r @ b" "set b \<subseteq> space_chars" using trim_space_tail by blast
  let ?t = "dropWhile is_ascii_space ?r"
  have t: "?t = trim_ascii ?r @ rev (takeWhile is_ascii_space (rev ?t))"
    unfolding trim_ascii_def go_trim_def by (metis rev_append rev_rev_ident takeWhile_dropWhile_id)
  have "trim_ascii ?r = butlast (trim_ascii ?r) @ [rbrack]"
    using assms by (auto simp: looksLikeHeader_def) (metis append_butlast_last_id list.size(3) not_numeral_le_zero)
  then have "?r = (takeWhile is_ascii_space ?r @ butlast (trim_ascii ?r)) @ rbrack # rev (takeWhile is_ascii_space (rev ?t))"
    using t by (metis append.assoc append_Cons append_Nil takeWhile_dropWhile_id)
  moreover have "?r = (a @ u) @ CHR ''e'' # b" using ab(1) u by simp
  ultimately have "CHR ''e'' = rbrack"
    using last_solid_unique [of "a @ u" "CHR ''e''" b _ rbrack _ is_ascii_space] ab(2) space_chars_not(2)
    by (metis (no_types, lifting) is_ascii_space_e set_rev set_takeWhileD subsetD)
  then show False by (simp add: rbrack_def)
qed

section \<open>Split, line by line\<close>

definition moved :: "(string \<Rightarrow> string) \<Rightarrow> options \<Rightarrow> line \<Rightarrow> bool" where
  "moved lo opt l = (case verdict lo opt l of None \<Rightarrow> False | Some _ \<Rightarrow> True)"

lemma moved_simps [simp]:
  "verdict lo opt l = None \<Longrightarrow> \<not> moved lo opt l" "verdict lo opt l = Some q \<Longrightarrow> moved lo opt l"
  by (simp_all add: moved_def)

definition onchain_line :: "(string \<Rightarrow> string) \<Rightarrow> options \<Rightarrow> line \<Rightarrow> line" where
  "onchain_line lo opt l = (case verdict lo opt l of None \<Rightarrow> l | Some (m, _) \<Rightarrow> marked m l)"

lemma split_loop_lines:
  "split_loop lo opt ls (on, bu, mv) = (on', bu', mv') \<Longrightarrow>
     on' = on @ map (onchain_line lo opt) ls \<and> bu' = bu @ filter (moved lo opt) ls"
proof (induction ls arbitrary: on bu mv)
  case (Cons l ls)
  show ?case
  proof (cases "verdict lo opt l")
    case None
    then show ?thesis using Cons.IH [of "on @ [l]" bu mv] Cons.prems by (simp add: onchain_line_def)
  next
    case (Some q)
    then show ?thesis
      using Cons.IH [of "on @ [marked (fst q) l]" "bu @ [l]"] Cons.prems
      by (cases q) (force simp: onchain_line_def)
  qed
qed simp

lemma Split_cases:
  assumes "Split lo f opt = Inr r"
  shows "refuse lo f = None"
    and "f_lines (r_onchain r) = map (onchain_line lo opt) (f_lines f)"
    and "f_lines (r_bundle r) = filter (moved lo opt) (f_lines f)"
proof -
  obtain on bu mv where l: "split_loop lo opt (f_lines f) ([], [], []) = (on, bu, mv)"
    by (metis prod_cases3)
  show "refuse lo f = None" using assms by (auto simp: Split_def split: option.splits)
  show "f_lines (r_onchain r) = map (onchain_line lo opt) (f_lines f)"
    "f_lines (r_bundle r) = filter (moved lo opt) (f_lines f)"
    using assms split_loop_lines [OF l] l
    by (auto simp: Split_def with_stanzas_def Let_def split: option.splits)
qed

lemma verdict_marker: "verdict lo opt l = Some (m, why) \<Longrightarrow> m = MovedMarker \<or> m = CommentMarker"
  by (auto simp: verdict_def split: kind.splits if_splits)

lemma verdict_kind: "moved lo opt l \<Longrightarrow> l_kind l = Comment \<or> l_kind l = Value"
  by (auto simp: verdict_def moved_def split: kind.splits)

lemma refuse_lines_None: "refuse_lines lo ls = None \<longleftrightarrow> (\<forall>l \<in> set ls. refuse_line lo l = None)"
  by (induction ls) (auto split: option.splits)

lemma refuse_None_line: "refuse lo f = None \<Longrightarrow> l \<in> set (f_lines f) \<Longrightarrow> refuse_line lo l = None"
  by (auto simp: refuse_def refuse_lines_None split: option.splits)

lemma markers_contain: "contains MovedMarker MarkerPrefix" "contains CommentMarker MarkerPrefix"
  by (simp_all add: MovedMarker_def CommentMarker_def MarkerPrefix_def has_prefix_def)

lemma contains_trans: "contains s t \<Longrightarrow> contains t u \<Longrightarrow> contains s u"
  by (auto simp: contains_iff) (metis append_assoc)

lemma isMarker_contains: "isMarker l \<Longrightarrow> contains (l_raw l) MarkerPrefix"
proof -
  assume "isMarker l"
  then have "contains (trim_space (l_raw l)) MarkerPrefix"
    using markers_contain contains_suffix contains_trans unfolding isMarker_def by metis
  moreover have "contains (l_raw l) (trim_space (l_raw l))"
    using trim_space_infix by (simp add: contains_iff)
  ultimately show ?thesis using contains_trans by blast
qed

lemma contains_set: "contains s t \<Longrightarrow> set t \<subseteq> set s"
  by (auto simp: contains_iff)

lemma operator_line_no_marker:
  assumes "line_ok l" "refuse_line lo l = None"
  shows "\<not> isMarker l"
proof (cases "l_kind l")
  case Blank
  then have "\<forall>c \<in> set (l_raw l). is_ascii_space c"
    using assms(1) by (simp add: line_ok_def trim_ascii_def go_trim_eq_Nil)
  moreover have "hash_ch \<in> set MarkerPrefix" "\<not> is_ascii_space hash_ch"
    by (simp_all add: MarkerPrefix_def ch_defs is_ascii_space_def)
  ultimately show ?thesis using isMarker_contains contains_set by blast
next
  case Header
  then show ?thesis using assms(1) header_no_marker by (simp add: line_ok_def Let_def)
qed (use assms(2) isMarker_contains in \<open>auto simp: refuse_line_def Let_def split: if_splits\<close>)

lemma onchain_isMarker:
  assumes "line_ok l" "refuse_line lo l = None"
  shows "isMarker (onchain_line lo opt l) \<longleftrightarrow> moved lo opt l"
proof (cases "verdict lo opt l")
  case None
  then show ?thesis using operator_line_no_marker [OF assms] by (simp add: onchain_line_def)
next
  case (Some q)
  obtain m why where "q = (m, why)" by fastforce
  then show ?thesis
    using Some marked_isMarker verdict_marker [of lo opt l m why] by (auto simp: onchain_line_def)
qed

section \<open>Split and Merge are inverse\<close>

lemma l_end_onchain [simp]: "l_end (onchain_line lo opt l) = l_end l"
  by (auto simp: onchain_line_def marked_def split: option.splits)

lemma line_ok_raw_ne: "line_ok l \<Longrightarrow> moved lo opt l \<Longrightarrow> l_raw l \<noteq> []"
  using verdict_kind [of lo opt l] by (auto simp: line_ok_def Let_def)

lemma markers_clean: "no_eol MovedMarker" "no_eol CommentMarker" "MovedMarker \<noteq> []" "CommentMarker \<noteq> []"
  by (simp_all add: MovedMarker_def CommentMarker_def no_eol_def is_eol_def ch_defs)

lemma verdict_comment_value: "verdict lo opt l = Some (CommentMarker, why) \<Longrightarrow> l_kind l = Value"
  using markers_differ by (auto simp: verdict_def split: kind.splits if_splits)

lemma marked_raw:
  "l_raw (marked MovedMarker l) = MovedMarker" "l_raw (marked CommentMarker l) = l_value l @ '' '' @ CommentMarker"
  using markers_differ by (simp_all add: marked_def)

lemma onchain_line_cases:
  obtains (kept) "\<not> moved lo opt l" "onchain_line lo opt l = l"
  | (whole) "moved lo opt l" "l_raw (onchain_line lo opt l) = MovedMarker"
  | (tail) "moved lo opt l" "l_kind l = Value" "l_raw (onchain_line lo opt l) = l_value l @ '' '' @ CommentMarker"
proof (cases "verdict lo opt l")
  case None
  then show ?thesis using kept by (simp add: onchain_line_def)
next
  case (Some q)
  obtain m why where q: "q = (m, why)" by fastforce
  consider "m = MovedMarker" | "m = CommentMarker" "l_kind l = Value"
    using verdict_marker verdict_comment_value Some q by blast
  then show ?thesis
  proof cases
    case 1
    then have "onchain_line lo opt l = marked MovedMarker l" using Some q by (simp add: onchain_line_def)
    then show ?thesis using whole Some markers_differ by (metis marked_raw(1) moved_simps(2))
  next
    case 2
    then have "onchain_line lo opt l = marked CommentMarker l" using Some q by (simp add: onchain_line_def)
    then show ?thesis using tail 2 Some by (metis marked_raw(2) moved_simps(2))
  qed
qed

lemma no_eol_append: "no_eol (s @ t) \<longleftrightarrow> no_eol s \<and> no_eol t"
  by (auto simp: no_eol_def)

lemma onchain_raw:
  assumes "line_ok l" "no_eol (l_raw l)"
  shows "no_eol (l_raw (onchain_line lo opt l))"
    and "l_raw (onchain_line lo opt l) = [] \<longleftrightarrow> l_raw l = []"
proof -
  have "no_eol (l_value l @ '' '' @ CommentMarker)" if "l_kind l = Value"
  proof -
    have "no_eol (l_value l)" using line_ok_value(2) [OF assms(1) that] assms(2) unfolding no_eol_def by blast
    moreover have "no_eol '' ''" by (simp add: no_eol_def is_eol_def ch_defs)
    ultimately show ?thesis using markers_clean(2) by (simp only: no_eol_append)
  qed
  then show "no_eol (l_raw (onchain_line lo opt l))"
    using assms(2) markers_clean(1) by (cases lo opt l rule: onchain_line_cases) auto
  show "l_raw (onchain_line lo opt l) = [] \<longleftrightarrow> l_raw l = []"
    using line_ok_raw_ne [OF assms(1), of lo opt] markers_clean(3)
    by (cases lo opt l rule: onchain_line_cases) auto
qed

text \<open>Replacing texts by texts with no terminator in them, empty for empty, keeps a document proper.\<close>

lemma proper_map:
  assumes "proper (map re ls)"
    and "\<And>l. l \<in> set ls \<Longrightarrow> l_end (g l) = l_end l \<and> (no_eol (l_raw l) \<longrightarrow> no_eol (l_raw (g l)))
          \<and> (l_raw (g l) = [] \<longleftrightarrow> l_raw l = [])"
  shows "proper (map re (map g ls))"
  using assms
proof (induction ls rule: induct_list012)
  case (3 l k ls)
  then show ?case by (auto simp: cr_clash_def)
qed auto

lemma proper_no_eol: "proper xs \<Longrightarrow> (r, e) \<in> set xs \<Longrightarrow> no_eol r"
  by (induction xs rule: proper.induct) auto

text \<open>A sublist of a proper document whose texts are not empty, closed by the empty last segment if needed.\<close>

lemma proper_filter:
  assumes "proper (map re ls)" "\<And>l. l \<in> set ls \<Longrightarrow> P l \<Longrightarrow> l_raw l \<noteq> []"
  shows "proper (map re (filter P ls)) \<or> proper (map re (filter P ls) @ [([], [])])"
  using assms
proof (induction ls rule: induct_list012)
  case (2 l)
  then show ?case by (auto simp: no_eol_def)
next
  case (3 l k ls)
  have IH: "proper (map re (filter P (k # ls))) \<or> proper (map re (filter P (k # ls)) @ [([], [])])"
    using 3 by simp
  show ?case
  proof (cases "P l")
    case False
    then show ?thesis using IH by simp
  next
    case True
    show ?thesis
    proof (cases "filter P (k # ls)")
      case Nil
      then show ?thesis using 3 True by (auto simp: cr_clash_def no_eol_def)
    next
      case (Cons m ms)
      then have "m \<in> set (filter P (k # ls))" by simp
      then have "m \<in> set (k # ls)" "P m" by (simp_all only: filter_set set_filter mem_Collect_eq)
      then have "l_raw m \<noteq> []" using 3(4) by auto
      then show ?thesis using IH 3 True Cons by (auto simp: cr_clash_def)
    qed
  qed
qed simp

lemma flat_snoc_empty: "flat (xs @ [([], [])]) = flat xs"
  by simp

lemma bundle_reparse:
  assumes "proper (map re ls)" "\<And>l. l \<in> set ls \<Longrightarrow> P l \<Longrightarrow> l_raw l \<noteq> []"
  shows "\<exists>z. (z = [] \<or> z = [([], [])]) \<and>
    map re (f_lines (Parse (flat (map re (filter P ls))))) = map re (filter P ls) @ z"
proof (cases "proper (map re (filter P ls))")
  case True
  then show ?thesis using Parse_flat by auto
next
  case False
  then have "proper (map re (filter P ls) @ [([], [])])" using proper_filter [OF assms] by blast
  then have "map re (f_lines (Parse (flat (map re (filter P ls) @ [([], [])])))) = map re (filter P ls) @ [([], [])]"
    by (rule Parse_flat)
  then show ?thesis unfolding flat_snoc_empty by blast
qed

text \<open>The merge loop, seen through the bytes it will render.\<close>

lemma merge_take_re:
  assumes "map re rest = (r, e) # xs" "r \<noteq> []"
  shows "\<exists>b rest'. merge_take rest = Some (b, rest') \<and> l_raw b = r \<and> map re rest' = xs"
  using assms by (cases rest) auto

lemma merge_take_empty: "map re rest = [] \<or> map re rest = [([], [])] \<Longrightarrow> merge_take rest = None"
  by (cases rest) auto

lemma isMarker_re: "l_raw l = l_raw k \<Longrightarrow> isMarker l = isMarker k"
  by (simp add: isMarker_def)

lemma merge_loop_inverse:
  assumes "map re on = map (re \<circ> g) ls"
    and "\<And>l. l \<in> set ls \<Longrightarrow> l_end (g l) = l_end l"
    and "\<And>l. l \<in> set ls \<Longrightarrow> isMarker (g l) \<longleftrightarrow> P l"
    and "\<And>l. l \<in> set ls \<Longrightarrow> \<not> P l \<Longrightarrow> l_raw (g l) = l_raw l"
    and "\<And>l. l \<in> set ls \<Longrightarrow> P l \<Longrightarrow> l_raw l \<noteq> []"
    and "map re rest = map re (filter P ls) @ z"
  shows "\<exists>out r. merge_loop on rest = (out, r) \<and> map re out = map re ls \<and> map re r = z"
  using assms
proof (induction ls arbitrary: on rest)
  case Nil
  then show ?case by auto
next
  case (Cons l ls)
  then obtain o1 on' where on: "on = o1 # on'" "re o1 = re (g l)" "map re on' = map (re \<circ> g) ls"
    by (cases on) auto
  have mk: "isMarker o1 \<longleftrightarrow> P l" using isMarker_re [of o1 "g l"] on(2) Cons.prems(3) by simp
  show ?case
  proof (cases "P l")
    case False
    obtain out r where "merge_loop on' rest = (out, r)" "map re out = map re ls" "map re r = z"
      using Cons.IH [OF on(3), of rest] Cons.prems False by auto
    then show ?thesis using on mk False Cons.prems(2,4) by simp
  next
    case True
    then have "map re rest = (l_raw l, l_end l) # (map re (filter P ls) @ z)" "l_raw l \<noteq> []"
      using Cons.prems by auto
    from merge_take_re [OF this] obtain b rest' where b: "merge_take rest = Some (b, rest')" "l_raw b = l_raw l"
      "map re rest' = map re (filter P ls) @ z"
      by (elim exE conjE)
    obtain out r where "merge_loop on' rest' = (out, r)" "map re out = map re ls" "map re r = z"
      using Cons.IH [OF on(3) _ _ _ _ b(3)] Cons.prems by auto
    then show ?thesis using on mk True b Cons.prems(2) by simp
  qed
qed

lemma Parse_lines_ne: "f_lines (Parse t) \<noteq> []"
  using map_re_Parse [of t] by (auto simp: splitLines_def)

lemma drain_tail: "z = [] \<or> z = [([], [])] \<Longrightarrow> map re r = z \<Longrightarrow> drain r = []"
  by (cases r) (auto simp: drain_def)

lemma Render_with_stanzas [simp]: "Render (with_stanzas ls) = flat (map re ls)"
  by (simp add: Render_flat with_stanzas_def)

lemma Split_Parse_lines:
  assumes "Split lo (Parse t) opt = Inr r" "l \<in> set (f_lines (Parse t))"
  shows "line_ok l" "refuse_line lo l = None" "no_eol (l_raw l)"
  using assms Parse_line_ok refuse_None_line [OF Split_cases(1)]
    proper_no_eol [OF Parse_proper, of "l_raw l" "l_end l" t]
  by auto

lemma onchain_reparse:
  assumes "Split lo (Parse t) opt = Inr r"
  shows "map re (f_lines (Parse (Render (r_onchain r)))) = map (re \<circ> onchain_line lo opt) (f_lines (Parse t))"
proof -
  have "proper (map re (map (onchain_line lo opt) (f_lines (Parse t))))"
    by (rule proper_map [OF Parse_proper]) (use onchain_raw Split_Parse_lines [OF assms] in auto)
  from Parse_flat [OF this] show ?thesis by (simp add: Render_flat Split_cases(2) [OF assms])
qed

lemma merge_split_gen:
  assumes "Split lo (Parse t) opt = Inr r"
    and "map re (f_lines b) = map re (f_lines (r_bundle r)) @ z" "z = [] \<or> z = [([], [])]"
  shows "Render (Merge (Parse (Render (r_onchain r))) b) = t"
proof -
  let ?ls = "f_lines (Parse t)"
  note ln = Split_Parse_lines [OF assms(1)]
  have "\<exists>out rest. merge_loop (f_lines (Parse (Render (r_onchain r)))) (f_lines b) = (out, rest)
      \<and> map re out = map re ?ls \<and> map re rest = z"
  proof (rule merge_loop_inverse [where g = "onchain_line lo opt" and P = "moved lo opt"])
    show "\<And>l. l \<in> set ?ls \<Longrightarrow> \<not> moved lo opt l \<Longrightarrow> l_raw (onchain_line lo opt l) = l_raw l"
      by (simp add: onchain_line_def moved_def split: option.splits)
    show "map re (f_lines b) = map re (filter (moved lo opt) ?ls) @ z"
      using assms(2) by (simp only: Split_cases(3) [OF assms(1)])
  qed (use ln onchain_isMarker line_ok_raw_ne in \<open>auto simp: onchain_reparse [OF assms(1)]\<close>)
  then obtain out rest where "merge_loop (f_lines (Parse (Render (r_onchain r)))) (f_lines b) = (out, rest)"
    "map re out = map re ?ls" "map re rest = z" by (elim exE conjE)
  then show ?thesis using drain_tail [OF assms(3)]
    by (simp add: Merge_def map_re_Parse splitLines_def render_split_from)
qed

definition sample_opt :: options where
  "sample_opt = \<lparr>o_comments = CommentsToBundle, o_peers = False\<rparr>"

definition sample_cfg :: string where
  "sample_cfg = ''[vl]\<newline>x # y''"

lemma sample_split: "Split id (Parse sample_cfg) sample_opt = Inr (projr (Split id (Parse sample_cfg) sample_opt))"
proof -
  have "\<not> isl (Split id (Parse sample_cfg) sample_opt)" by code_simp
  then show ?thesis by (simp add: isl_def split: sum.splits)
qed

lemma merge_split_text:
  assumes "Split lo (Parse t) opt = Inr r"
  shows "Render (Merge (Parse (Render (r_onchain r))) (Parse (Render (r_bundle r)))) = t"
proof -
  have "\<exists>z. (z = [] \<or> z = [([], [])]) \<and>
      map re (f_lines (Parse (flat (map re (filter (moved lo opt) (f_lines (Parse t)))))))
      = map re (filter (moved lo opt) (f_lines (Parse t))) @ z"
    by (rule bundle_reparse [OF Parse_proper])
      (use line_ok_raw_ne Split_Parse_lines(1) [OF assms] in blast)
  then show ?thesis using merge_split_gen [OF assms] by (auto simp: Render_flat Split_cases(3) [OF assms])
qed

text \<open>
  C7.  A restore with the bundle is exact: splitting a config file, rendering both documents, parsing
  them back and merging gives the operator's bytes, for every file that is not refused and every
  combination of options.
\<close>

theorem merge_split:
  assumes "Split lo (Parse t) opt = Inr r"
  shows "Render (Merge (Parse (Render (r_onchain r))) (Parse (Render (r_bundle r)))) = t"
  using assms by (rule merge_split_text)

lemma merge_split_witness:
  "Render (Merge (Parse (Render (r_onchain (projr (Split id (Parse sample_cfg) sample_opt)))))
     (Parse (Render (r_bundle (projr (Split id (Parse sample_cfg) sample_opt)))))) = sample_cfg"
  by (rule merge_split [OF sample_split])

section \<open>What reaches the chain\<close>

definition publishable :: "options \<Rightarrow> string \<Rightarrow> bool" where
  "publishable opt st \<longleftrightarrow> (o_peers opt \<and> st \<in> set peerStanzas) \<or>
     (st \<notin> set bundleStanzas \<and> (st \<in> set onChainStanzas \<or> is_port st) \<and> st \<noteq> [])"

definition comment_allowed :: "(string \<Rightarrow> string) \<Rightarrow> options \<Rightarrow> string \<Rightarrow> string \<Rightarrow> bool" where
  "comment_allowed lo opt st c \<longleftrightarrow> o_comments opt = CommentsOnChain \<and> lineReason lo st c = []"

lemma valueReasonOpt_publishable:
  "valueReasonOpt lo st v opt = [] \<longleftrightarrow> publishable opt st \<and> lineReason lo st v = []"
  by (auto simp: valueReasonOpt_def valueReason_def publishable_def)

lemma onchain_line_safe:
  fixes lo opt l
  defines "k \<equiv> onchain_line lo opt l"
  shows "l_kind k = Comment \<Longrightarrow> l_raw k = MovedMarker \<or> comment_allowed lo opt (l_stanza k) (l_raw k)"
    and "l_kind k = Value \<Longrightarrow> l_raw k = MovedMarker \<or>
      publishable opt (l_stanza k) \<and> lineReason lo (l_stanza k) (l_value k) = [] \<and>
      (l_raw k = l_value k @ '' '' @ CommentMarker \<or> l_comment k = []
       \<or> comment_allowed lo opt (l_stanza k) (l_comment k))"
proof -
  have o: "o_comments opt = CommentsToBundle \<or> o_comments opt = CommentsOnChain"
    by (cases "o_comments opt") auto
  show "l_kind k = Comment \<Longrightarrow> l_raw k = MovedMarker \<or> comment_allowed lo opt (l_stanza k) (l_raw k)"
    using o markers_differ
    by (auto simp: k_def onchain_line_def verdict_def marked_def comment_allowed_def split: kind.splits if_splits)
  show "l_kind k = Value \<Longrightarrow> l_raw k = MovedMarker \<or>
      publishable opt (l_stanza k) \<and> lineReason lo (l_stanza k) (l_value k) = [] \<and>
      (l_raw k = l_value k @ '' '' @ CommentMarker \<or> l_comment k = []
       \<or> comment_allowed lo opt (l_stanza k) (l_comment k))"
    using o markers_differ valueReasonOpt_publishable [of lo "l_stanza l" "l_value l" opt]
    by (auto simp: k_def onchain_line_def verdict_def marked_def comment_allowed_def split: kind.splits if_splits)
qed

text \<open>
  C6.  Nothing the classification withholds is left in the on-chain document.  A comment line is the
  marker unless comments were asked for and the scanners find nothing in it.  A value line is the
  marker unless its stanza may be published and the scanners find nothing in the value; and then its
  inline comment is gone, or was asked for and scanned as well.
\<close>

theorem split_onchain_safe:
  assumes "Split lo f opt = Inr r" "k \<in> set (f_lines (r_onchain r))"
  shows "(l_kind k = Comment \<longrightarrow> l_raw k = MovedMarker \<or> comment_allowed lo opt (l_stanza k) (l_raw k))
    \<and> (l_kind k = Value \<longrightarrow> l_raw k = MovedMarker \<or>
      publishable opt (l_stanza k) \<and> lineReason lo (l_stanza k) (l_value k) = [] \<and>
      (l_raw k = l_value k @ '' '' @ CommentMarker \<or> l_comment k = []
       \<or> comment_allowed lo opt (l_stanza k) (l_comment k)))"
proof -
  obtain l where k: "k = onchain_line lo opt l" using assms(2) unfolding Split_cases(2) [OF assms(1)] by auto
  show ?thesis unfolding k by (intro conjI impI onchain_line_safe)
qed

lemma sample_line:
  "(\<lambda>k. l_kind k = Value \<and> l_value k = ''x'' \<and> l_stanza k = ''vl'' \<and> l_raw k \<noteq> MovedMarker \<and> l_comment k \<noteq> [])
     (last (f_lines (r_onchain (projr (Split id (Parse sample_cfg) sample_opt)))))"
  by code_simp

lemma split_onchain_safe_witness:
  "l_raw (last (f_lines (r_onchain (projr (Split id (Parse sample_cfg) sample_opt))))) = ''x '' @ CommentMarker"
proof -
  let ?ls = "f_lines (r_onchain (projr (Split id (Parse sample_cfg) sample_opt)))"
  have "?ls \<noteq> []" by (simp add: Split_cases(2) [OF sample_split] Parse_lines_ne)
  then have "last ?ls \<in> set ?ls" by (rule last_in_set)
  from split_onchain_safe [OF sample_split this] show ?thesis
    using sample_line by (simp add: comment_allowed_def sample_opt_def)
qed

section \<open>The moves and the refusals\<close>

definition moved_in :: "(string \<Rightarrow> string) \<Rightarrow> options \<Rightarrow> line list \<Rightarrow> string \<Rightarrow> nat" where
  "moved_in lo opt ls st = length (filter (\<lambda>l. moved lo opt l \<and> l_stanza l = st) ls)"

definition count_of :: "string \<Rightarrow> move list \<Rightarrow> nat" where
  "count_of st ms = sum_list (map m_lines (filter (\<lambda>m. m_stanza m = st) ms))"

lemma count_move_view:
  "set (map m_stanza (count_move st c why ms)) = insert st (set (map m_stanza ms))"
  "distinct (map m_stanza ms) \<Longrightarrow> distinct (map m_stanza (count_move st c why ms))"
  "distinct (map m_stanza ms) \<Longrightarrow> count_of n (count_move st c why ms) = count_of n ms + (if n = st then 1 else 0)"
  by (induction ms) (auto simp: count_of_def)

lemma split_loop_moves:
  "split_loop lo opt ls (on, bu, mv) = (on', bu', mv') \<Longrightarrow> distinct (map m_stanza mv) \<Longrightarrow>
     distinct (map m_stanza mv') \<and> count_of n mv' = count_of n mv + moved_in lo opt ls n"
proof (induction ls arbitrary: on bu mv)
  case (Cons l ls)
  show ?case
  proof (cases "verdict lo opt l")
    case None
    then show ?thesis using Cons by (auto simp: moved_in_def)
  next
    case (Some q)
    obtain m why where q: "q = (m, why)" by fastforce
    let ?mv = "count_move (l_stanza l) (l_kind l = Comment \<or> m = CommentMarker) why mv"
    have "distinct (map m_stanza mv') \<and> count_of n mv' = count_of n ?mv + moved_in lo opt ls n"
      using Cons.IH [of "on @ [marked m l]" "bu @ [l]" ?mv] Cons.prems Some q count_move_view(2) by simp
    then show ?thesis using count_move_view(3) [OF Cons.prems(2)] moved_simps(2) [OF Some] by (simp add: moved_in_def)
  qed
qed (simp add: moved_in_def)

text \<open>
  The summary of what left the file is exact: a stanza has at most one move, and the move's line
  count is the number of that stanza's lines in the bundle document.
\<close>

theorem split_moves_exact:
  assumes "Split lo f opt = Inr r"
  shows "distinct (map m_stanza (r_moves r))
    \<and> count_of st (r_moves r) = length (filter (\<lambda>l. l_stanza l = st) (f_lines (r_bundle r)))"
proof -
  obtain on bu mv where l: "split_loop lo opt (f_lines f) ([], [], []) = (on, bu, mv)" by (metis prod_cases3)
  then have "r_moves r = mv" using assms by (auto simp: Split_def Let_def split: option.splits)
  then show ?thesis
    using split_loop_moves [OF l, of st] Split_cases(3) [OF assms]
    by (simp add: count_of_def moved_in_def conj_commute)
qed

lemma split_moves_exact_witness:
  "count_of ''vl'' (r_moves (projr (Split id (Parse sample_cfg) sample_opt)))
   = length (filter (\<lambda>l. l_stanza l = ''vl'') (f_lines (r_bundle (projr (Split id (Parse sample_cfg) sample_opt)))))"
  using split_moves_exact [OF sample_split, of "''vl''"] by blast

lemma refuse_line_Some:
  "refuse_line lo l \<noteq> None \<longleftrightarrow> (l_kind l = Comment \<or> l_kind l = Value) \<and>
     (l_stanza l \<notin> set blobStanzas \<and> (match_string reSeed (l_raw l) \<or> match_string reRFC1751 (l_raw l))
      \<or> contains (to_lower lo (l_raw l)) ''-----begin'' \<or> contains (l_raw l) MarkerPrefix)"
  by (cases "l_kind l") (auto simp: refuse_line_def Let_def)

lemma refuse_stanzas_None: "refuse_stanzas ss = None \<longleftrightarrow> (\<forall>s \<in> set ss. s_name s \<notin> fst ` set neverStanzas)"
proof (induction ss)
  case (Cons s ss)
  then show ?case
    using map_of_eq_None_iff [of neverStanzas "s_name s"] by (cases "map_of neverStanzas (s_name s)") simp_all
qed simp

text \<open>
  A file is refused exactly when it has a stanza that may never be backed up, or a line, comments
  included and blank lines and headers apart, that looks like a seed outside the blob stanzas, holds
  PEM material, or holds a marker of this program.
\<close>

theorem split_refuses:
  "isl (Split lo f opt) \<longleftrightarrow>
     (\<exists>s. s \<in> set (f_stanzas f) \<and> s_name s \<in> {''validation_seed'', ''node_seed'', ''ssl_key''}) \<or>
     (\<exists>l. l \<in> set (f_lines f) \<and> (l_kind l = Comment \<or> l_kind l = Value) \<and>
        (l_stanza l \<notin> set blobStanzas \<and> (match_string reSeed (l_raw l) \<or> match_string reRFC1751 (l_raw l))
         \<or> contains (to_lower lo (l_raw l)) ''-----begin''
         \<or> contains (l_raw l) MarkerPrefix))"
proof -
  have n: "fst ` set neverStanzas = {''validation_seed'', ''node_seed'', ''ssl_key''}"
    by (simp add: neverStanzas_def)
  have "isl (Split lo f opt) \<longleftrightarrow> refuse lo f \<noteq> None"
    by (auto simp: Split_def Let_def split: option.splits prod.splits)
  also have "\<dots> \<longleftrightarrow> refuse_stanzas (f_stanzas f) \<noteq> None \<or> refuse_lines lo (f_lines f) \<noteq> None"
    by (auto simp: refuse_def split: option.splits)
  also have "\<dots> \<longleftrightarrow> (\<exists>s. s \<in> set (f_stanzas f) \<and> s_name s \<in> fst ` set neverStanzas) \<or>
      (\<exists>l. l \<in> set (f_lines f) \<and> refuse_line lo l \<noteq> None)"
    by (simp only: refuse_stanzas_None refuse_lines_None) (simp only: Ball_def Bex_def not_all not_imp not_not)
  finally show ?thesis by (simp only: n refuse_line_Some)
qed

end
