(* ===== verification/Manifest.thy ===== *)
theory Manifest
  imports Prelude
begin

text \<open>
  \<^verbatim>\<open>internal/manifest/manifest.go\<close>: the encrypted index of a backup.  The JSON encoder and decoder of Go's
  library are the parameters \<open>to_json\<close> and \<open>of_json\<close>; the functions around them are modelled.
\<close>

section \<open>Definitions\<close>

definition manifest_Version :: int where "manifest_Version = 1"

record mchunk =
  ch_Index :: int
  ch_TxHash :: string
  ch_Ledger :: u32
  ch_SHA256 :: string

record mfile =
  mf_Path :: string
  mf_Mode :: u32
  mf_SHA256 :: string
  mf_Where :: string

record redaction =
  rd_FileIndex :: int
  rd_Stanza :: string
  rd_Lines :: int
  rd_Comments :: int
  rd_To :: string

record attestation =
  at_Scheme :: string
  at_VPK :: string
  at_Sig :: string

record manifest =
  mn_V :: int
  mn_Epoch :: u32
  mn_Seq :: u32
  mn_BackupID :: string
  mn_Created :: string
  mn_Tool :: string
  mn_Role :: string
  mn_VPKSHA256 :: string
  mn_ServerVersion :: string
  mn_PlainSHA256 :: string
  mn_PlainLen :: int
  mn_Chunks :: "mchunk list"
  mn_BundlePlainSHA256 :: string
  mn_BundleCipherSHA256 :: string
  mn_BundleLen :: int
  mn_Files :: "mfile list"
  mn_Redactions :: "redaction list"
  mn_Supersedes :: string
  mn_Tombstone :: bool
  mn_Attestation :: "attestation option"

datatype manifest_error = NotJSON | WrongVersion int | NoBackupID

definition RedactionPath :: "manifest \<Rightarrow> redaction \<Rightarrow> string" where
  "RedactionPath m r =
     (if rd_FileIndex r < 1 \<or> rd_FileIndex r > int (length (mn_Files m)) then []
      else mf_Path (mn_Files m ! nat (rd_FileIndex r - 1)))"

definition Marshal :: "(manifest \<Rightarrow> byte list) \<Rightarrow> manifest \<Rightarrow> byte list" where
  "Marshal to_json m = to_json (m\<lparr>mn_V := manifest_Version\<rparr>)"

definition Unmarshal :: "(byte list \<Rightarrow> manifest option) \<Rightarrow> byte list \<Rightarrow> manifest_error + manifest" where
  "Unmarshal of_json b =
     (case of_json b of
        None \<Rightarrow> Inl NotJSON
      | Some m \<Rightarrow>
          (if mn_V m \<noteq> manifest_Version then Inl (WrongVersion (mn_V m))
           else if length (mn_BackupID m) \<noteq> 32 then Inl NoBackupID
           else Inr m))"

definition Newer :: "manifest \<Rightarrow> manifest \<Rightarrow> bool" where
  "Newer a b = (if mn_Epoch a \<noteq> mn_Epoch b then mn_Epoch a > mn_Epoch b else mn_Seq a > mn_Seq b)"

definition AttestString :: "string \<Rightarrow> string \<Rightarrow> string \<Rightarrow> string" where
  "AttestString backupID onchainSHA bundleSHA =
     ''xrplbak/v1/attest '' @ backupID @ '' '' @ onchainSHA @ '' '' @ bundleSHA"

section \<open>Properties\<close>

definition blank_manifest :: manifest where
  "blank_manifest = \<lparr>mn_V = 0, mn_Epoch = 0, mn_Seq = 0, mn_BackupID = [], mn_Created = [], mn_Tool = [], mn_Role = [],
     mn_VPKSHA256 = [], mn_ServerVersion = [], mn_PlainSHA256 = [], mn_PlainLen = 0, mn_Chunks = [],
     mn_BundlePlainSHA256 = [], mn_BundleCipherSHA256 = [], mn_BundleLen = 0, mn_Files = [], mn_Redactions = [],
     mn_Supersedes = [], mn_Tombstone = False, mn_Attestation = None\<rparr>"

lemma Newer_iff: "Newer a b \<longleftrightarrow> mn_Epoch b < mn_Epoch a \<or> mn_Epoch a = mn_Epoch b \<and> mn_Seq b < mn_Seq a"
  by (cases "mn_Epoch a = mn_Epoch b") (simp_all add: Newer_def)

lemma lex_trans:
  fixes e e' e'' :: u32 and s s' s'' :: u32
  shows "e' < e \<or> e = e' \<and> s' < s \<Longrightarrow> e'' < e' \<or> e' = e'' \<and> s'' < s' \<Longrightarrow> e'' < e \<or> e = e'' \<and> s'' < s"
  by (elim disjE conjE) (blast intro: less_trans | simp)+

text \<open>
  Superseding is a strict order on (epoch, sequence): no manifest supersedes itself, superseding
  is transitive, and of two manifests that differ in epoch or sequence exactly one supersedes.
\<close>

theorem newer_order:
  "\<not> Newer a a \<and> (Newer a b \<longrightarrow> Newer b c \<longrightarrow> Newer a c) \<and> (Newer a b \<longrightarrow> \<not> Newer b a)
   \<and> (Newer a b \<or> Newer b a \<or> mn_Epoch a = mn_Epoch b \<and> mn_Seq a = mn_Seq b)"
proof (intro conjI impI)
  show "\<not> Newer a a" by (simp add: Newer_iff)
  show "Newer a b \<Longrightarrow> Newer b c \<Longrightarrow> Newer a c" unfolding Newer_iff by (rule lex_trans)
  show "Newer a b \<Longrightarrow> \<not> Newer b a" unfolding Newer_iff by (metis less_asym)
  show "Newer a b \<or> Newer b a \<or> mn_Epoch a = mn_Epoch b \<and> mn_Seq a = mn_Seq b"
    unfolding Newer_iff by (metis neqE)
qed

lemma newer_order_witness:
  "\<not> Newer (blank_manifest\<lparr>mn_Epoch := 1, mn_Seq := 9\<rparr>) (blank_manifest\<lparr>mn_Epoch := 2\<rparr>)"
proof -
  have "Newer (blank_manifest\<lparr>mn_Epoch := 2\<rparr>) (blank_manifest\<lparr>mn_Epoch := 1, mn_Seq := 9\<rparr>)" by (simp add: Newer_iff)
  then show ?thesis
    using newer_order [of "blank_manifest\<lparr>mn_Epoch := 2\<rparr>" "blank_manifest\<lparr>mn_Epoch := 1, mn_Seq := 9\<rparr>" blank_manifest] by blast
qed

lemma until_space_unique:
  assumes "CHR '' '' \<notin> set a" "CHR '' '' \<notin> set b" "a @ '' '' @ r = b @ '' '' @ s"
  shows "a = b \<and> r = s"
proof -
  have "takeWhile (\<lambda>c. c \<noteq> CHR '' '') (a @ '' '' @ r) = a" "takeWhile (\<lambda>c. c \<noteq> CHR '' '') (b @ '' '' @ s) = b"
    using assms(1,2) by (auto simp: takeWhile_append)
  then show ?thesis using assms(3) by simp
qed

text \<open>
  The text the validator key signs determines the backup id and both digests, when these are
  written without spaces, as hexadecimal is: a signature cannot be moved to another backup.
\<close>

theorem attest_string_inject:
  assumes "CHR '' '' \<notin> set a" "CHR '' '' \<notin> set b" "CHR '' '' \<notin> set a'" "CHR '' '' \<notin> set b'"
    and "AttestString a b c = AttestString a' b' c'"
  shows "a = a' \<and> b = b' \<and> c = c'"
proof -
  have "a @ '' '' @ b @ '' '' @ c = a' @ '' '' @ b' @ '' '' @ c'" using assms(5) by (simp add: AttestString_def)
  from until_space_unique [OF assms(1,3) this] until_space_unique [OF assms(2,4), of c c'] show ?thesis by blast
qed

lemma attest_string_inject_witness: "AttestString ''ab'' ''cd'' ''ef'' \<noteq> AttestString ''ab'' ''ce'' ''ef''"
  using attest_string_inject [of "''ab''" "''cd''" "''ab''" "''ce''" "''ef''" "''ef''"] by auto

lemma Unmarshal_Marshal:
  assumes "\<forall>m. of_json (to_json m) = Some m" "length (mn_BackupID m) = 32"
  shows "Unmarshal of_json (Marshal to_json m) = Inr (m\<lparr>mn_V := manifest_Version\<rparr>)"
  using assms by (simp add: Unmarshal_def Marshal_def)

end
