(* ===== verification/Restore.thy ===== *)
theory Restore
  imports Go_Path Redact Container Manifest "HOL-Library.AList"
begin

unbundle bit_operations_syntax

text \<open>
  \<^verbatim>\<open>internal/restore/restore.go\<close>: the merge of on-chain and bundle content into files, the checks on
  untrusted paths, and the two ways to write the result.  SHA-256 is a parameter; the file system is seen
  through \<^verbatim>\<open>filepath.Abs\<close>, \<^verbatim>\<open>os.Lstat\<close> and the success of each write, and what is written is returned
  as the list of writes in order.
\<close>

section \<open>Files and completeness\<close>

record completeness =
  cp_digest :: "byte list"
  cp_proven :: bool

record rfile =
  rf_Path :: string
  rf_Mode :: u32
  rf_Data :: "byte list"
  rf_Source :: string
  rf_proof :: completeness

definition no_proof :: completeness where
  "no_proof = \<lparr>cp_digest = replicate 32 0, cp_proven = False\<rparr>"

definition checkComplete :: "(byte list \<Rightarrow> byte list) \<Rightarrow> byte list \<Rightarrow> string \<Rightarrow> completeness" where
  "checkComplete sha256 data wantHex =
     (let sum = sha256 data
      in if hex_encode sum \<noteq> wantHex then no_proof else \<lparr>cp_digest = sum, cp_proven = True\<rparr>)"

definition Complete :: "(byte list \<Rightarrow> byte list) \<Rightarrow> rfile \<Rightarrow> bool" where
  "Complete sha256 f \<longleftrightarrow> cp_proven (rf_proof f) \<and> sha256 (rf_Data f) = cp_digest (rf_proof f)"

record rplan =
  rp_Files :: "rfile list"
  rp_Todo :: "string list"

datatype restore_error =
    UnsafePath string | ListedTwice string | NotListed string
  | NoAbsolutePath | UnderVarLib string | SameName string string | AlreadyExists string
  | NoTempDir | WriteFailed string

section \<open>Paths\<close>

definition isBidiControl :: "nat \<Rightarrow> bool" where
  "isBidiControl r \<longleftrightarrow> r \<in> set [0x200e, 0x200f, 0x202a, 0x202b, 0x202c, 0x202d, 0x202e, 0x2066, 0x2067, 0x2068, 0x2069]"

definition checkPath :: "string \<Rightarrow> restore_error option" where
  "checkPath p =
     (let bad = Some (UnsafePath p) in
      if p = [] then bad
      else if list_ex (\<lambda>r. r < 0x20 \<or> r = 0x7f \<or> isBidiControl r) (runes p) then bad
      else if \<not> ValidString p then bad
      else if \<not> has_prefix p ''/'' \<or> p \<noteq> Clean p then bad
      else if Base p = ''/'' \<or> Base p = ''.'' \<or> Base p = ''..'' then bad
      else if list_ex (\<lambda>part. part = ''..'') (split_on slash p) then bad
      else None)"

definition safeRelative :: "string \<Rightarrow> restore_error + string" where
  "safeRelative p =
     (if list_ex (\<lambda>part. part = ''..'') (split_on slash p) then Inl (UnsafePath p)
      else let clean = Clean (''/'' @ p); rel = trim_prefix clean ''/''
           in if rel = [] \<or> rel = ''.'' then Inl (UnsafePath p)
              else if list_ex (\<lambda>part. part = ''..'') (split_on slash rel) then Inl (UnsafePath p)
              else Inr rel)"

section \<open>Build\<close>

fun check_listed :: "string list \<Rightarrow> mfile list \<Rightarrow> restore_error + string list" where
  "check_listed listed [] = Inr listed"
| "check_listed listed (mf # mfs) =
     (case checkPath (mf_Path mf) of
        Some e \<Rightarrow> Inl e
      | None \<Rightarrow> if mf_Path mf \<in> set listed then Inl (ListedTwice (mf_Path mf))
                else check_listed (mf_Path mf # listed) mfs)"

fun check_entries :: "string list \<Rightarrow> entry list \<Rightarrow> restore_error option" where
  "check_entries listed [] = None"
| "check_entries listed (e # es) =
     (case checkPath (e_Path e) of
        Some err \<Rightarrow> Some err
      | None \<Rightarrow> if e_Path e \<notin> set listed then Some (NotListed (e_Path e)) else check_entries listed es)"

text \<open>The two Go maps are association lists with one pair per key.\<close>

definition new_rfile :: "string \<Rightarrow> u32 \<Rightarrow> byte list \<Rightarrow> string \<Rightarrow> rfile" where
  "new_rfile p mode data src = \<lparr>rf_Path = p, rf_Mode = mode, rf_Data = data, rf_Source = src, rf_proof = no_proof\<rparr>"

definition merge_entry :: "entry \<Rightarrow> entry option \<Rightarrow> rfile" where
  "merge_entry e b =
     (let on = Parse (str (e_Data e)) in
      case b of
        Some b \<Rightarrow> new_rfile (e_Path e) (e_Mode e) (bytes (Render (Merge on (Parse (str (e_Data b)))))) ''onchain+bundle''
      | None \<Rightarrow>
          let data = Render (Merge on \<lparr>f_lines = [], f_stanzas = []\<rparr>)
          in new_rfile (e_Path e) (e_Mode e) (bytes data)
               (if contains data MovedMarker then ''onchain (bundle missing)'' else ''onchain''))"

fun merge_onchain ::
    "(string \<times> entry) list \<Rightarrow> (string \<times> rfile) list \<Rightarrow> entry list \<Rightarrow> (string \<times> entry) list \<times> (string \<times> rfile) list" where
  "merge_onchain bundleByPath byPath [] = (bundleByPath, byPath)"
| "merge_onchain bundleByPath byPath (e # es) =
     merge_onchain (AList.delete (e_Path e) bundleByPath)
       (AList.update (e_Path e) (merge_entry e (map_of bundleByPath (e_Path e))) byPath) es"

definition with_proof :: "(byte list \<Rightarrow> byte list) \<Rightarrow> mfile \<Rightarrow> rfile \<Rightarrow> rfile" where
  "with_proof sha256 mf f = f\<lparr>rf_proof := checkComplete sha256 (rf_Data f) (mf_SHA256 mf)\<rparr>"

fun collect_files ::
    "(byte list \<Rightarrow> byte list) \<Rightarrow> (string \<times> rfile) list \<Rightarrow> mfile list \<Rightarrow> (string \<times> rfile) list \<times> rfile list \<times> string list" where
  "collect_files sha256 byPath [] = (byPath, [], [])"
| "collect_files sha256 byPath (mf # mfs) =
     (case map_of byPath (mf_Path mf) of
        None \<Rightarrow>
          let (rest, fs, todo) = collect_files sha256 byPath mfs
          in (rest, fs, (mf_Path mf @ '' is listed in the manifest but was not recovered (stored in: '' @ mf_Where mf @ '')'') # todo)
      | Some f \<Rightarrow>
          let (rest, fs, todo) = collect_files sha256 (AList.delete (mf_Path mf) byPath) mfs
          in (rest, with_proof sha256 mf f # fs, todo))"

definition todoLine :: "redaction \<Rightarrow> string \<Rightarrow> string" where
  "todoLine r path =
     (let at = (if rd_Stanza r = [] then ''the lines before the first stanza'' else ''['' @ rd_Stanza r @ '']'');
          at = (if path \<noteq> [] then at @ '' in '' @ path else at)
      in if rd_Comments r \<ge> rd_Lines r \<and> rd_Lines r > 0
         then ''Comment only: '' @ at @ '': '' @ dec_int (rd_Lines r) @ '' comment line(s) were kept only in the off-chain bundle; every setting there is present''
         else if rd_Comments r > 0
         then ''Re-enter '' @ at @ '': '' @ dec_int (rd_Lines r) @ '' line(s) were kept only in the off-chain bundle ('' @ dec_int (rd_Comments r) @ '' of them comments)''
         else ''Re-enter '' @ at @ '': '' @ dec_int (rd_Lines r) @ '' line(s) were kept only in the off-chain bundle'')"

text \<open>The absent bundle is Go's nil slice, which is also what a bundle without entries decodes to.\<close>

definition todo_items :: "manifest \<Rightarrow> entry list \<Rightarrow> string list" where
  "todo_items m bundle =
     (if bundle = [] \<and> mn_Redactions m \<noteq> [] then
        (if mn_Role m = ''validator''
         then [''Regenerate the validator token from the master key (validator-keys create_token) and add [validator_token] to the config'']
         else [])
        @ map (\<lambda>r. todoLine r (RedactionPath m r)) (mn_Redactions m)
      else [])
     @ (if mn_Role m = ''validator''
        then [''Run only one validator with this token. Stop the old host before starting the new one''] else [])"

definition restore_Build ::
    "(byte list \<Rightarrow> byte list) \<Rightarrow> manifest \<Rightarrow> entry list \<Rightarrow> entry list \<Rightarrow> restore_error + rplan" where
  "restore_Build sha256 m onchain bundle =
     and_then (check_listed [] (mn_Files m)) (\<lambda>listed.
       case check_entries listed (onchain @ bundle) of
         Some e \<Rightarrow> Inl e
       | None \<Rightarrow>
           let bundleByPath = fold (\<lambda>e. AList.update (e_Path e) e) bundle [];
               (bundleByPath, byPath) = merge_onchain bundleByPath [] onchain;
               byPath = fold (\<lambda>(_, e). AList.update (e_Path e) (new_rfile (e_Path e) (e_Mode e) (e_Data e) ''bundle'')) bundleByPath byPath;
               (rest, fs, todo) = collect_files sha256 byPath (mn_Files m)
           in Inr \<lparr>rp_Files = sort_key rf_Path (fs @ map snd rest), rp_Todo = todo @ todo_items m bundle\<rparr>)"

section \<open>Writing\<close>

definition file_mode :: "u32 \<Rightarrow> u32" where
  "file_mode mode = (let mode = mode AND 0x1FF in if mode = 0 then 0x180 else mode)"

record fwrite =
  w_dst :: string
  w_data :: "byte list"
  w_mode :: u32

text \<open>\<^verbatim>\<open>writeFile\<close> for each file in turn; \<open>ok\<close> says whether directories and file could be written.\<close>

fun write_files :: "(string \<Rightarrow> bool) \<Rightarrow> (string \<times> rfile) list \<Rightarrow> fwrite list \<times> restore_error option" where
  "write_files ok [] = ([], None)"
| "write_files ok ((dst, f) # fs) =
     (if ok dst
      then let (ws, e) = write_files ok fs
           in (\<lparr>w_dst = dst, w_data = rf_Data f, w_mode = file_mode (rf_Mode f)\<rparr> # ws, e)
      else ([], Some (WriteFailed dst)))"

fun relatives :: "rfile list \<Rightarrow> restore_error + string list" where
  "relatives [] = Inr []"
| "relatives (f # fs) =
     (case checkPath (rf_Path f) of
        Some e \<Rightarrow> Inl e
      | None \<Rightarrow> and_then (safeRelative (rf_Path f)) (\<lambda>rel. and_then (relatives fs) (\<lambda>rels. Inr (rel # rels))))"

text \<open>\<open>dir\<close> is the fresh directory of \<^verbatim>\<open>os.MkdirTemp\<close>, \<open>None\<close> when it cannot be made.\<close>

definition WriteTemp :: "string option \<Rightarrow> (string \<Rightarrow> bool) \<Rightarrow> rplan \<Rightarrow> fwrite list \<times> (restore_error + string)" where
  "WriteTemp dir ok p =
     (case relatives (rp_Files p) of
        Inl e \<Rightarrow> ([], Inl e)
      | Inr rels \<Rightarrow>
          (case dir of
             None \<Rightarrow> ([], Inl NoTempDir)
           | Some d \<Rightarrow>
               (case write_files ok (zip (map (Join d) rels) (rp_Files p)) of
                  (ws, Some e) \<Rightarrow> (ws, Inl e)
                | (ws, None) \<Rightarrow> (ws, Inr d))))"

fun target_checks :: "(string \<Rightarrow> bool) \<Rightarrow> string \<Rightarrow> bool \<Rightarrow> (string \<rightharpoonup> string) \<Rightarrow> rfile list \<Rightarrow> restore_error option" where
  "target_checks exists d force seen [] = None"
| "target_checks exists d force seen (f # fs) =
     (case checkPath (rf_Path f) of
        Some e \<Rightarrow> Some e
      | None \<Rightarrow>
          let base = Base (Clean (rf_Path f)) in
          (case seen base of
             Some first \<Rightarrow> Some (SameName first (rf_Path f))
           | None \<Rightarrow>
               if exists (Join d base) \<and> \<not> force then Some (AlreadyExists (Join d base))
               else target_checks exists d force (seen(base \<mapsto> rf_Path f)) fs))"

definition WriteTarget ::
    "(string \<Rightarrow> string option) \<Rightarrow> (string \<Rightarrow> bool) \<Rightarrow> (string \<Rightarrow> bool) \<Rightarrow> rplan \<Rightarrow> string \<Rightarrow> bool \<Rightarrow> fwrite list \<times> restore_error option" where
  "WriteTarget absolute exists ok p targetDir force =
     (case absolute targetDir of
        None \<Rightarrow> ([], Some NoAbsolutePath)
      | Some d \<Rightarrow>
          if has_prefix d ''/var/lib'' then ([], Some (UnderVarLib d))
          else case target_checks exists d force Map.empty (rp_Files p) of
                 Some e \<Rightarrow> ([], Some e)
               | None \<Rightarrow> write_files ok (map (\<lambda>f. (Join d (Base (rf_Path f)), f)) (rp_Files p)))"

section \<open>Accepted paths\<close>

definition clean_text :: "string \<Rightarrow> bool" where
  "clean_text p \<longleftrightarrow> ValidString p \<and> list_all (\<lambda>r. 0x20 \<le> r \<and> r \<noteq> 0x7f \<and> \<not> isBidiControl r) (runes p)"

lemma plain_last: "list_all plain cs \<Longrightarrow> cs \<noteq> [] \<Longrightarrow> Base (abs_path cs) = last cs \<and> plain (last cs)"
  using Base_abs [of "butlast cs" "last cs"] by (auto simp: list_all_iff)

lemma split_on_abs_path: "list_all plain cs \<Longrightarrow> split_on slash (abs_path cs) = [] # cs"
  using split_on_abs [of cs "[]"] by (auto simp: list_all_iff plain_def)

lemma checkPath_iff:
  "checkPath p = None \<longleftrightarrow> clean_text p \<and> (\<exists>cs. cs \<noteq> [] \<and> list_all plain cs \<and> p = abs_path cs)"
proof -
  have t: "list_ex (\<lambda>r. r < 0x20 \<or> r = 0x7f \<or> isBidiControl r) (runes p) \<longleftrightarrow>
      \<not> list_all (\<lambda>r. 0x20 \<le> r \<and> r \<noteq> 0x7f \<and> \<not> isBidiControl r) (runes p)"
    by (auto simp: list_ex_iff list_all_iff not_le)
  have "checkPath p = None \<longleftrightarrow> clean_text p \<and> p \<noteq> [] \<and> (has_prefix p ''/'' \<and> Clean p = p)
      \<and> Base p \<noteq> ''/'' \<and> Base p \<noteq> ''.'' \<and> Base p \<noteq> ''..'' \<and> \<not> list_ex (\<lambda>part. part = ''..'') (split_on slash p)"
    unfolding checkPath_def Let_def t clean_text_def by auto
  also have "\<dots> \<longleftrightarrow> clean_text p \<and> (\<exists>cs. cs \<noteq> [] \<and> list_all plain cs \<and> p = abs_path cs)"
  proof (cases "\<exists>cs. cs \<noteq> [] \<and> list_all plain cs \<and> p = abs_path cs")
    case True
    then obtain cs where cs: "cs \<noteq> []" "list_all plain cs" "p = abs_path cs" by blast
    have "\<not> list_ex (\<lambda>part. part = ''..'') ([] # cs)" using cs(2) by (auto simp: list_ex_iff list_all_iff plain_def)
    then show ?thesis
      using cs plain_last [OF cs(2,1)] split_on_abs_path [OF cs(2)] clean_rooted_iff [of p] abs_path_prefix [OF cs(1)]
      by (auto simp: plain_def has_prefix_def)
  next
    case False
    moreover have "Base ''/'' = ''/''" by (simp add: Base_def)
    ultimately show ?thesis using clean_rooted_iff [of p] by auto
  qed
  finally show ?thesis .
qed

lemma safeRelative_abs:
  assumes "list_all plain cs" "cs \<noteq> []"
  shows "safeRelative (abs_path cs) = Inr (tl (abs_path cs))"
proof -
  obtain c r where cs: "cs = c # r" using assms(2) by (cases cs) auto
  have c: "plain c" "list_all plain r" using assms(1) cs by auto
  have nodots: "\<not> list_ex (\<lambda>part. part = ''..'') cs" using assms(1) by (auto simp: list_ex_iff list_all_iff plain_def)
  have "split_on slash (''/'' @ abs_path cs) = [] # [] # cs" using split_on_abs_path [OF assms(1)] by simp
  then have clean: "Clean (''/'' @ abs_path cs) = abs_path cs"
    using clean_plain [OF assms(1)] join_abs [OF assms(2)] by (simp add: Clean_def has_prefix_def)
  have rel: "trim_prefix (abs_path cs) ''/'' = tl (abs_path cs)" using cs by (simp add: trim_prefix_def has_prefix_def)
  have parts: "split_on slash (tl (abs_path cs)) = cs"
    using split_on_abs [of r c] c cs by (auto simp: list_all_iff plain_def)
  have "tl (abs_path cs) \<noteq> [] \<and> tl (abs_path cs) \<noteq> ''.''"
    using c(1) cs by (cases r) (auto simp: plain_def append_eq_Cons_conv)
  then show ?thesis
    using nodots parts rel clean split_on_abs_path [OF assms(1)] by (simp add: safeRelative_def Let_def)
qed

section \<open>Where files go\<close>

lemma relatives_Inr:
  "relatives fs = Inr rels \<Longrightarrow> rels = map (\<lambda>f. tl (rf_Path f)) fs \<and> (\<forall>f \<in> set fs. checkPath (rf_Path f) = None)"
proof (induction fs arbitrary: rels)
  case (Cons f fs)
  then have c: "checkPath (rf_Path f) = None" by (auto split: option.splits)
  then obtain cs where "cs \<noteq> []" "list_all plain cs" "rf_Path f = abs_path cs" using checkPath_iff by blast
  then have "safeRelative (rf_Path f) = Inr (tl (rf_Path f))" using safeRelative_abs by simp
  then show ?case using Cons c by (auto simp: and_then_Inr)
qed simp

lemma write_files_writes:
  "w \<in> set (fst (write_files ok dfs)) \<Longrightarrow> \<exists>f. (w_dst w, f) \<in> set dfs \<and> w_data w = rf_Data f \<and> w_mode w = file_mode (rf_Mode f)"
proof (induction dfs)
  case (Cons df dfs)
  obtain dst f where df: "df = (dst, f)" by force
  with Cons.prems consider "w = \<lparr>w_dst = dst, w_data = rf_Data f, w_mode = file_mode (rf_Mode f)\<rparr>" | "w \<in> set (fst (write_files ok dfs))"
    by (auto split: prod.splits if_splits)
  then show ?case
  proof cases
    case 1
    then show ?thesis using df by (intro exI [of _ f]) simp
  next
    case 2
    then show ?thesis using Cons.IH by auto
  qed
qed simp

lemma write_files_dsts: "\<exists>k. map w_dst (fst (write_files ok dfs)) = take k (map fst dfs)"
proof (induction dfs)
  case (Cons df dfs)
  then obtain k where "map w_dst (fst (write_files ok dfs)) = take k (map fst dfs)" by blast
  then show ?case
    by (cases df; cases "ok (fst df)") (auto simp: split: prod.splits intro: exI [of _ 0] exI [of _ "Suc k"])
qed simp

lemma Join_accepted:
  assumes "list_all plain ds" "ds \<noteq> []" "checkPath p = None"
  shows "Join (abs_path ds) (tl p) = abs_path ds @ p"
    and "Join (abs_path ds) (Base p) = abs_path ds @ ''/'' @ Base p" and "plain (Base p)" and "Clean p = p"
proof -
  obtain cs where cs: "cs \<noteq> []" "list_all plain cs" "p = abs_path cs" using checkPath_iff assms(3) by blast
  show "Join (abs_path ds) (tl p) = abs_path ds @ p" using Join_abs [OF assms(1,2) cs(2,1)] cs(3) by simp
  have b: "Base p = last cs" "plain (last cs)" using plain_last [OF cs(2,1)] cs(3) by auto
  then show "plain (Base p)" by simp
  show "Join (abs_path ds) (Base p) = abs_path ds @ ''/'' @ Base p" using Join_abs [OF assms(1,2), of "[last cs]"] b by simp
  show "Clean p = p" using Clean_abs [OF cs(1,2)] cs(3) by simp
qed

lemma file_mode_bits: "file_mode m AND NOT 0x1FF = 0"
proof -
  have "(m AND 0x1FF) AND NOT 0x1FF = (0 :: u32)" by (simp add: and.assoc)
  moreover have "(0x180 :: u32) AND NOT 0x1FF = 0" by simp
  ultimately show ?thesis by (simp add: file_mode_def Let_def)
qed

lemma target_checks_None:
  assumes "target_checks exists d force seen fs = None" "list_all plain ds" "ds \<noteq> []" "d = abs_path ds"
  shows "(\<forall>f \<in> set fs. checkPath (rf_Path f) = None \<and> seen (Base (rf_Path f)) = None
      \<and> (force \<or> \<not> exists (Join d (Base (rf_Path f))))) \<and> distinct (map (\<lambda>f. Base (rf_Path f)) fs)"
  using assms(1)
proof (induction fs arbitrary: seen)
  case (Cons f fs)
  then have c: "checkPath (rf_Path f) = None" by (auto split: option.splits)
  then have "Clean (rf_Path f) = rf_Path f" using Join_accepted(4) assms(2,3) by blast
  then have s: "seen (Base (rf_Path f)) = None" "force \<or> \<not> exists (Join d (Base (rf_Path f)))"
    "target_checks exists d force (seen(Base (rf_Path f) \<mapsto> rf_Path f)) fs = None"
    using Cons.prems c by (auto simp: Let_def split: option.splits if_splits)
  show ?case using Cons.IH [OF s(3)] s(1,2) c by (auto split: if_splits)
qed simp

text \<open>
  A dry run stays in its directory: every write goes to the temporary directory followed by the
  file's own accepted absolute path, with that file's bytes and at most permission bits, whatever the
  authenticated but untrusted manifest named its files.
\<close>

theorem write_temp_confined:
  assumes "list_all plain ds" "ds \<noteq> []" "w \<in> set (fst (WriteTemp (Some (abs_path ds)) ok p))"
  shows "\<exists>f \<in> set (rp_Files p). \<exists>cs. list_all plain cs \<and> rf_Path f = abs_path cs \<and> w_dst w = abs_path (ds @ cs)
    \<and> w_data w = rf_Data f \<and> w_mode w AND NOT 0x1FF = 0"
proof -
  obtain rels where r: "relatives (rp_Files p) = Inr rels"
    and w: "w \<in> set (fst (write_files ok (zip (map (Join (abs_path ds)) rels) (rp_Files p))))"
    using assms(3) by (auto simp: WriteTemp_def split: sum.splits option.splits prod.splits)
  note rels = relatives_Inr [OF r]
  obtain f where f: "(w_dst w, f) \<in> set (zip (map (Join (abs_path ds)) rels) (rp_Files p))" "w_data w = rf_Data f" "w_mode w = file_mode (rf_Mode f)"
    using write_files_writes [OF w] by blast
  have "f \<in> set (rp_Files p)" "w_dst w = Join (abs_path ds) (tl (rf_Path f))"
    using f(1) rels by (auto simp: in_set_zip)
  moreover from this rels obtain cs where "list_all plain cs" "rf_Path f = abs_path cs" using checkPath_iff by blast
  ultimately show ?thesis
    using Join_accepted(1) [OF assms(1,2), of "rf_Path f"] rels f(2,3) file_mode_bits
    by (intro bexI [of _ f] exI [of _ cs]) auto
qed

lemma target_writes_confined:
  assumes "absolute targetDir = Some (abs_path ds)" "list_all plain ds" "ds \<noteq> []"
    and "fst (WriteTarget absolute exists ok p targetDir force) = ws"
  shows "distinct (map w_dst ws) \<and> (\<forall>w \<in> set ws. \<not> has_prefix (abs_path ds) ''/var/lib''
      \<and> (force \<or> \<not> exists (w_dst w)) \<and> w_mode w AND NOT 0x1FF = 0
      \<and> (\<exists>f \<in> set (rp_Files p). plain (Base (rf_Path f)) \<and> w_dst w = abs_path (ds @ [Base (rf_Path f)]) \<and> w_data w = rf_Data f))"
proof (cases "ws = []")
  case False
  let ?dst = "\<lambda>f. Join (abs_path ds) (Base (rf_Path f))"
  have var: "\<not> has_prefix (abs_path ds) ''/var/lib''" and t: "target_checks exists (abs_path ds) force Map.empty (rp_Files p) = None"
    and ws: "ws = fst (write_files ok (map (\<lambda>f. (?dst f, f)) (rp_Files p)))"
    using assms(1,4) False by (auto simp: WriteTarget_def split: if_splits option.splits)
  note c = target_checks_None [OF t assms(2,3) refl]
  have d: "?dst f = abs_path (ds @ [Base (rf_Path f)])" "plain (Base (rf_Path f))" if "f \<in> set (rp_Files p)" for f
    using c that Join_accepted(2,3) [OF assms(2,3)] by auto
  have "inj_on (\<lambda>b. abs_path (ds @ [b])) X" for X by (auto simp: inj_on_def)
  then have "distinct (map ?dst (rp_Files p))"
    using c d(1) by (simp add: distinct_map inj_on_def cong: map_cong)
  then have "distinct (map w_dst ws)"
    using write_files_dsts [of ok "map (\<lambda>f. (?dst f, f)) (rp_Files p)"] ws by (auto simp: comp_def distinct_take)
  moreover have "\<not> has_prefix (abs_path ds) ''/var/lib'' \<and> (force \<or> \<not> exists (w_dst w)) \<and> w_mode w AND NOT 0x1FF = 0
      \<and> (\<exists>f \<in> set (rp_Files p). plain (Base (rf_Path f)) \<and> w_dst w = abs_path (ds @ [Base (rf_Path f)]) \<and> w_data w = rf_Data f)"
    if w: "w \<in> set ws" for w
  proof -
    obtain f where f: "f \<in> set (rp_Files p)" "w_dst w = ?dst f" "w_data w = rf_Data f" "w_mode w = file_mode (rf_Mode f)"
      using write_files_writes [of w ok "map (\<lambda>f. (?dst f, f)) (rp_Files p)"] w unfolding ws by auto
    have "force \<or> \<not> exists (w_dst w)" using c f(1,2) by (metis (no_types, lifting))
    then show ?thesis using var file_mode_bits f d [OF f(1)] by (auto intro!: bexI [of _ f])
  qed
  ultimately show ?thesis by blast
qed simp

text \<open>
  Writing to a target is confined and never overwrites unasked: every write goes to a plain name
  directly in the target directory, no two writes to the same name, never with a directory under \<^verbatim>\<open>/var/lib\<close>, and
  without \<^verbatim>\<open>--force\<close> never to a name that existed when the run checked, with no setuid, setgid or sticky bit.
\<close>

theorem write_target_confined:
  assumes "absolute targetDir = Some (abs_path ds)" "list_all plain ds" "ds \<noteq> []"
    and "fst (WriteTarget absolute exists ok p targetDir force) = ws"
  shows "distinct (map w_dst ws) \<and> (\<forall>w \<in> set ws. \<not> has_prefix (abs_path ds) ''/var/lib''
      \<and> (force \<or> \<not> exists (w_dst w)) \<and> w_mode w AND NOT 0x1FF = 0
      \<and> (\<exists>f \<in> set (rp_Files p). plain (Base (rf_Path f)) \<and> w_dst w = abs_path (ds @ [Base (rf_Path f)]) \<and> w_data w = rf_Data f))"
  using assms by (rule target_writes_confined)

section \<open>What is restored\<close>

lemma check_listed_Inr:
  "check_listed acc mfs = Inr listed \<Longrightarrow> listed = rev (map mf_Path mfs) @ acc
    \<and> (\<forall>mf \<in> set mfs. checkPath (mf_Path mf) = None) \<and> distinct (map mf_Path mfs) \<and> set (map mf_Path mfs) \<inter> set acc = {}"
proof (induction mfs arbitrary: acc)
  case (Cons mf mfs)
  then have "checkPath (mf_Path mf) = None" "mf_Path mf \<notin> set acc" "check_listed (mf_Path mf # acc) mfs = Inr listed"
    by (auto split: option.splits if_splits)
  then show ?case using Cons.IH by fastforce
qed simp

lemma check_entries_None:
  "check_entries listed es = None \<longleftrightarrow> (\<forall>e \<in> set es. checkPath (e_Path e) = None \<and> e_Path e \<in> set listed)"
  by (induction es) (auto split: option.splits)

lemma collect_files_map:
  "distinct (map mf_Path mfs) \<Longrightarrow> collect_files sha256 byPath mfs = (rest, fs, todo) \<Longrightarrow>
     fs = List.map_filter (\<lambda>mf. map_option (with_proof sha256 mf) (map_of byPath (mf_Path mf))) mfs
     \<and> map_of rest = map_of byPath |` (- set (map mf_Path mfs))"
proof (induction mfs arbitrary: byPath rest fs todo)
  case (Cons mf mfs)
  show ?case
  proof (cases "map_of byPath (mf_Path mf)")
    case None
    obtain rest' fs' todo' where c: "collect_files sha256 byPath mfs = (rest', fs', todo')" by (metis surj_pair)
    from Cons.IH [OF _ this] Cons.prems None c show ?thesis
      by (auto simp: map_filter_simps restrict_map_def fun_eq_iff)
  next
    case (Some f)
    let ?b = "AList.delete (mf_Path mf) byPath"
    obtain rest' fs' todo' where c: "collect_files sha256 ?b mfs = (rest', fs', todo')" by (metis surj_pair)
    have "map_option (with_proof sha256 k) (map_of ?b (mf_Path k)) = map_option (with_proof sha256 k) (map_of byPath (mf_Path k))"
      if "k \<in> set mfs" for k
    proof -
      have "mf_Path k \<in> set (map mf_Path mfs)" using that by simp
      then have "mf_Path k \<noteq> mf_Path mf" using Cons.prems(1) by (metis distinct.simps(2) list.simps(9))
      then show ?thesis by (simp add: AList.delete_conv')
    qed
    then have "List.map_filter (\<lambda>mf. map_option (with_proof sha256 mf) (map_of ?b (mf_Path mf))) mfs
        = List.map_filter (\<lambda>mf. map_option (with_proof sha256 mf) (map_of byPath (mf_Path mf))) mfs"
      by (rule map_filter_cong)
    then show ?thesis using Cons.IH [OF _ c] Cons.prems Some c
      by (auto simp: map_filter_simps restrict_map_def fun_eq_iff AList.delete_conv')
  qed
qed (auto simp: map_filter_simps restrict_map_def)

text \<open>The map of merged files: its keys are the carried paths, and each file has the path it is stored under.\<close>

definition by_path :: "entry list \<Rightarrow> entry list \<Rightarrow> (string \<times> rfile) list" where
  "by_path onchain bundle =
     (let (rest, files) = merge_onchain (fold (\<lambda>e. AList.update (e_Path e) e) bundle []) [] onchain
      in fold (\<lambda>(_, e). AList.update (e_Path e) (new_rfile (e_Path e) (e_Mode e) (e_Data e) ''bundle'')) rest files)"

lemma restore_Build_Inr:
  assumes "restore_Build sha256 m onchain bundle = Inr p"
  shows "distinct (map mf_Path (mn_Files m))" "\<forall>mf \<in> set (mn_Files m). checkPath (mf_Path mf) = None"
    "\<forall>e \<in> set onchain \<union> set bundle. e_Path e \<in> mf_Path ` set (mn_Files m)"
    "rp_Files p = sort_key rf_Path (fst (snd (collect_files sha256 (by_path onchain bundle) (mn_Files m)))
       @ map snd (fst (collect_files sha256 (by_path onchain bundle) (mn_Files m))))"
proof -
  obtain listed where l: "check_listed [] (mn_Files m) = Inr listed" and e: "check_entries listed (onchain @ bundle) = None"
    and p: "rp_Files p = sort_key rf_Path (fst (snd (collect_files sha256 (by_path onchain bundle) (mn_Files m)))
       @ map snd (fst (collect_files sha256 (by_path onchain bundle) (mn_Files m))))"
    using assms by (auto simp: restore_Build_def and_then_Inr by_path_def Let_def split: option.splits prod.splits)
  note ll = check_listed_Inr [OF l]
  show "distinct (map mf_Path (mn_Files m))" "\<forall>mf \<in> set (mn_Files m). checkPath (mf_Path mf) = None" using ll by auto
  show "\<forall>e \<in> set onchain \<union> set bundle. e_Path e \<in> mf_Path ` set (mn_Files m)"
    using e ll by (auto simp: check_entries_None)
  show "rp_Files p = sort_key rf_Path (fst (snd (collect_files sha256 (by_path onchain bundle) (mn_Files m)))
       @ map snd (fst (collect_files sha256 (by_path onchain bundle) (mn_Files m))))" by (rule p)
qed

definition stored_ok :: "(string \<times> rfile) list \<Rightarrow> bool" where
  "stored_ok fs \<longleftrightarrow> (\<forall>p f. map_of fs p = Some f \<longrightarrow> rf_Path f = p)"

lemma dom_alist_update [simp]: "dom (map_of (AList.update k v al)) = insert k (dom (map_of al))"
  by (simp add: update_conv')

lemma path_merge_entry [simp]: "rf_Path (merge_entry e b) = e_Path e"
  by (simp add: merge_entry_def new_rfile_def Let_def split: option.splits)

lemma merge_onchain_view:
  assumes "merge_onchain bs fs es = (bs', fs')" "stored_ok fs"
  shows "stored_ok fs' \<and> dom (map_of fs') = dom (map_of fs) \<union> e_Path ` set es \<and> bs' = filter (\<lambda>(k, _). k \<notin> e_Path ` set es) bs"
  using assms
proof (induction es arbitrary: bs fs)
  case (Cons e es)
  have "stored_ok (AList.update (e_Path e) (merge_entry e (map_of bs (e_Path e))) fs)"
    using Cons.prems(2) by (auto simp: stored_ok_def update_conv)
  from Cons.IH [OF _ this] Cons.prems(1)
  have "stored_ok fs' \<and> dom (map_of fs') = insert (e_Path e) (dom (map_of fs)) \<union> e_Path ` set es
      \<and> bs' = filter (\<lambda>(k, _). k \<notin> e_Path ` set es) (AList.delete (e_Path e) bs)" by simp
  moreover have "filter (\<lambda>(k, _). k \<notin> e_Path ` set es) (AList.delete (e_Path e) bs) = filter (\<lambda>(k, _). k \<notin> e_Path ` set (e # es)) bs"
    by (auto simp: AList.delete_eq split_def intro: filter_cong)
  ultimately show ?case by auto
qed simp

definition add_bundle :: "(string \<times> entry) list \<Rightarrow> (string \<times> rfile) list \<Rightarrow> (string \<times> rfile) list" where
  "add_bundle = fold (\<lambda>(_, e). AList.update (e_Path e) (new_rfile (e_Path e) (e_Mode e) (e_Data e) ''bundle''))"

lemma add_bundle_view:
  assumes "stored_ok fs" "list_all (\<lambda>(k, e). e_Path e = k) rest"
  shows "stored_ok (add_bundle rest fs) \<and> dom (map_of (add_bundle rest fs)) = dom (map_of fs) \<union> fst ` set rest"
  using assms
proof (induction rest arbitrary: fs)
  case (Cons ke rest)
  obtain k e where ke: "ke = (k, e)" "e_Path e = k" using Cons.prems(2) by (cases ke) auto
  have "stored_ok (AList.update (e_Path e) (new_rfile (e_Path e) (e_Mode e) (e_Data e) ''bundle'') fs)"
    using Cons.prems(1) by (auto simp: stored_ok_def update_conv new_rfile_def)
  from Cons.IH [OF this] Cons.prems(2) ke show ?case by (simp add: add_bundle_def)
qed (simp add: add_bundle_def)

definition bundle_map :: "entry list \<Rightarrow> (string \<times> entry) list" where
  "bundle_map bundle = fold (\<lambda>e. AList.update (e_Path e) e) bundle []"

lemma bundle_map_fold:
  "list_all (\<lambda>(k, e). e_Path e = k) acc \<Longrightarrow>
    list_all (\<lambda>(k, e). e_Path e = k) (fold (\<lambda>e. AList.update (e_Path e) e) es acc)
    \<and> fst ` set (fold (\<lambda>e. AList.update (e_Path e) e) es acc) = fst ` set acc \<union> e_Path ` set es"
proof (induction es arbitrary: acc)
  case (Cons e es)
  have "list_all (\<lambda>(k, e). e_Path e = k) (AList.update (e_Path e) e acc)"
    using Cons.prems by (induction acc) auto
  then show ?case using Cons.IH by (simp flip: dom_map_of_conv_image_fst)
qed simp

lemma bundle_map_view:
  "list_all (\<lambda>(k, e). e_Path e = k) (bundle_map es)" "fst ` set (bundle_map es) = e_Path ` set es"
  using bundle_map_fold [of "[]" es] by (auto simp: bundle_map_def)

lemma by_path_alt: "by_path onchain bundle = (let (rest, files) = merge_onchain (bundle_map bundle) [] onchain in add_bundle rest files)"
  by (simp add: by_path_def bundle_map_def add_bundle_def)

lemma by_path_view:
  "stored_ok (by_path onchain bundle) \<and> dom (map_of (by_path onchain bundle)) = e_Path ` (set onchain \<union> set bundle)"
proof -
  obtain rest files where m: "merge_onchain (bundle_map bundle) [] onchain = (rest, files)" by force
  have v: "stored_ok files" "dom (map_of files) = e_Path ` set onchain" "rest = filter (\<lambda>(k, _). k \<notin> e_Path ` set onchain) (bundle_map bundle)"
    using merge_onchain_view [OF m] by (auto simp: stored_ok_def)
  have r: "list_all (\<lambda>(k, e). e_Path e = k) rest" using bundle_map_view(1) [of "bundle"] by (auto simp: v(3) list_all_iff)
  have "fst ` set rest = e_Path ` set bundle - e_Path ` set onchain"
    using bundle_map_view(2) [of "bundle"] unfolding v(3) image_set [symmetric] filter_map [symmetric]
    by (force simp: image_iff)
  then show ?thesis using add_bundle_view [OF v(1) r] v(2) by (auto simp: by_path_alt m)
qed

text \<open>The files of a plan are the listed files that are carried, each with the proof for its own hash.\<close>

lemma restore_files:
  assumes "restore_Build sha256 m onchain bundle = Inr p"
  shows "rp_Files p = sort_key rf_Path (List.map_filter
    (\<lambda>mf. map_option (with_proof sha256 mf) (map_of (by_path onchain bundle) (mf_Path mf))) (mn_Files m))"
proof -
  obtain rest fs todo where c: "collect_files sha256 (by_path onchain bundle) (mn_Files m) = (rest, fs, todo)" by (metis surj_pair)
  note b = restore_Build_Inr [OF assms]
  note v = collect_files_map [OF _ c]
  have "dom (map_of (by_path onchain bundle)) \<subseteq> set (map mf_Path (mn_Files m))"
    using b(3) by_path_view [of onchain "bundle"] by auto
  then have "map_of (by_path onchain bundle) |` (- set (map mf_Path (mn_Files m))) = Map.empty"
    by (auto simp: restrict_map_def fun_eq_iff)
  then have "map_of rest = Map.empty" using b(1) v by simp
  then have "rest = []" by (cases rest) (auto simp: fun_eq_iff split: if_splits)
  then show ?thesis using b(1,4) v c by simp
qed

lemma with_proof_simps [simp]:
  "rf_Path (with_proof sha256 mf f) = rf_Path f" "rf_Data (with_proof sha256 mf f) = rf_Data f" "rf_Mode (with_proof sha256 mf f) = rf_Mode f"
  "rf_Source (with_proof sha256 mf f) = rf_Source f"
  "Complete sha256 (with_proof sha256 mf f) \<longleftrightarrow> hex_encode (sha256 (rf_Data f)) = mf_SHA256 mf"
  by (simp_all add: with_proof_def Complete_def checkComplete_def no_proof_def Let_def)

lemma map_filter_paths_distinct:
  "distinct (map mf_Path mfs) \<Longrightarrow> stored_ok byPath \<Longrightarrow>
    distinct (map rf_Path (List.map_filter (\<lambda>mf. map_option (with_proof sha256 mf) (map_of byPath (mf_Path mf))) mfs))"
proof (induction mfs)
  case (Cons mf mfs)
  then show ?case
    by (auto simp: map_filter_simps set_map_filter stored_ok_def split: option.splits)
qed (simp add: map_filter_simps)

text \<open>
  C29.  A restore reports exactly what it has: the files of the plan are the carried paths, each once and in
  order, all accepted and all listed, and a file counts as complete exactly when its bytes have the
  SHA-256 the manifest lists for that path.
\<close>

theorem restore_complete_exact:
  assumes "restore_Build sha256 m onchain bundle = Inr p"
  shows "sorted_wrt (<) (map rf_Path (rp_Files p)) \<and> set (map rf_Path (rp_Files p)) = e_Path ` (set onchain \<union> set bundle)
    \<and> (\<forall>f \<in> set (rp_Files p). checkPath (rf_Path f) = None \<and> (\<exists>mf \<in> set (mn_Files m). mf_Path mf = rf_Path f \<and>
         (Complete sha256 f \<longleftrightarrow> hex_encode (sha256 (rf_Data f)) = mf_SHA256 mf)))"
proof -
  let ?fs = "List.map_filter (\<lambda>mf. map_option (with_proof sha256 mf) (map_of (by_path onchain bundle) (mf_Path mf))) (mn_Files m)"
  note b = restore_Build_Inr [OF assms]
  note v = by_path_view [of onchain "bundle"]
  have files: "rp_Files p = sort_key rf_Path ?fs" by (rule restore_files [OF assms])
  have "distinct (map rf_Path ?fs)" using map_filter_paths_distinct [OF b(1)] v by blast
  then have "distinct (map rf_Path (rp_Files p))" unfolding files by (simp add: distinct_map)
  then have s: "sorted_wrt (<) (map rf_Path (rp_Files p))" unfolding files by (simp add: strict_sorted_iff)
  have each: "\<exists>mf \<in> set (mn_Files m). mf_Path mf = rf_Path f \<and> (Complete sha256 f \<longleftrightarrow> hex_encode (sha256 (rf_Data f)) = mf_SHA256 mf)"
    if "f \<in> set ?fs" for f
    using that v by (auto simp: set_map_filter stored_ok_def)
  have "rf_Path ` set ?fs = e_Path ` (set onchain \<union> set bundle)"
  proof
    show "rf_Path ` set ?fs \<subseteq> e_Path ` (set onchain \<union> set bundle)"
      using v by (auto simp: set_map_filter stored_ok_def dom_def)
    show "e_Path ` (set onchain \<union> set bundle) \<subseteq> rf_Path ` set ?fs"
    proof
      fix q assume q: "q \<in> e_Path ` (set onchain \<union> set bundle)"
      then have "q \<in> dom (map_of (by_path onchain bundle))" using v by simp
      then obtain f where f: "map_of (by_path onchain bundle) q = Some f" by blast
      then have path: "rf_Path f = q" using v by (simp add: stored_ok_def)
      have "q \<in> mf_Path ` set (mn_Files m)" using b(3) q by (metis (no_types, lifting) imageE)
      then obtain mf where mf: "mf \<in> set (mn_Files m)" "mf_Path mf = q" by blast
      then have "with_proof sha256 mf f \<in> set ?fs" using f by (auto simp: set_map_filter)
      then have "rf_Path (with_proof sha256 mf f) \<in> rf_Path ` set ?fs" by (rule imageI)
      then show "q \<in> rf_Path ` set ?fs" using path by simp
    qed
  qed
  then show ?thesis using s each b(2) unfolding files by auto metis
qed

section \<open>The bytes of a restored file\<close>

lemma merge_onchain_value:
  assumes "distinct (map e_Path es)" "merge_onchain bs fs es = (bs', fs')"
  shows "(\<forall>e \<in> set es. map_of fs' (e_Path e) = Some (merge_entry e (map_of bs (e_Path e)))) \<and> (\<forall>q. q \<notin> e_Path ` set es \<longrightarrow> map_of fs' q = map_of fs q)"
  using assms
proof (induction es arbitrary: bs fs)
  case (Cons e es)
  let ?bs = "AList.delete (e_Path e) bs" and ?fs = "AList.update (e_Path e) (merge_entry e (map_of bs (e_Path e))) fs"
  have d: "e_Path e \<notin> e_Path ` set es" and m: "merge_onchain ?bs ?fs es = (bs', fs')" using Cons.prems by auto
  have ih: "map_of fs' (e_Path k) = Some (merge_entry k (map_of ?bs (e_Path k)))" if "k \<in> set es" for k
    using Cons.IH [OF _ m] Cons.prems(1) that by simp
  have out: "map_of fs' q = map_of ?fs q" if "q \<notin> e_Path ` set es" for q using Cons.IH [OF _ m] Cons.prems(1) that by simp
  have "map_of ?bs (e_Path k) = map_of bs (e_Path k)" if "k \<in> set es" for k
    using d that by (metis AList.delete_conv' fun_upd_other imageI)
  then show ?case using ih out d by (auto simp: update_conv')
qed simp

lemma add_bundle_value:
  assumes "distinct (map fst rest)" "list_all (\<lambda>(k, e). e_Path e = k) rest"
  shows "(\<forall>(k, e) \<in> set rest. map_of (add_bundle rest fs) k = Some (new_rfile k (e_Mode e) (e_Data e) ''bundle''))
    \<and> (\<forall>q. q \<notin> fst ` set rest \<longrightarrow> map_of (add_bundle rest fs) q = map_of fs q)"
  using assms
proof (induction rest arbitrary: fs)
  case (Cons ke rest)
  obtain k e where ke: "ke = (k, e)" "e_Path e = k" using Cons.prems(2) by (cases ke) auto
  have "add_bundle (ke # rest) fs = add_bundle rest (AList.update k (new_rfile k (e_Mode e) (e_Data e) ''bundle'') fs)"
    using ke by (simp add: add_bundle_def)
  moreover have "k \<notin> fst ` set rest" using Cons.prems(1) ke by auto
  ultimately show ?case
    using Cons.IH [of "AList.update k (new_rfile k (e_Mode e) (e_Data e) ''bundle'') fs"] Cons.prems ke by (auto simp: update_conv')
qed (simp add: add_bundle_def)

lemma bundle_map_value:
  assumes "distinct (map e_Path es)"
  shows "(\<forall>e \<in> set es. map_of (fold (\<lambda>e. AList.update (e_Path e) e) es acc) (e_Path e) = Some e)
    \<and> (\<forall>q. q \<notin> e_Path ` set es \<longrightarrow> map_of (fold (\<lambda>e. AList.update (e_Path e) e) es acc) q = map_of acc q)"
  using assms
proof (induction es arbitrary: acc)
  case (Cons e es)
  have "e_Path e \<notin> e_Path ` set es" using Cons.prems by auto
  then show ?case using Cons.IH [of "AList.update (e_Path e) e acc"] Cons.prems by (auto simp: update_conv')
qed simp

lemma distinct_bundle_map: "distinct (map fst (bundle_map es))"
proof -
  have "distinct (map fst acc) \<Longrightarrow> distinct (map fst (fold (\<lambda>e. AList.update (e_Path e) e) es acc))" for acc :: "(string \<times> entry) list"
    by (induction es arbitrary: acc) (auto simp: distinct_update)
  then show ?thesis by (simp add: bundle_map_def)
qed

lemma by_path_value:
  assumes "distinct (map e_Path onchain)" "distinct (map e_Path es)"
  shows "e \<in> set onchain \<Longrightarrow> map_of (by_path onchain es) (e_Path e) = Some (merge_entry e (map_of (bundle_map es) (e_Path e)))"
    and "b \<in> set es \<Longrightarrow> e_Path b \<notin> e_Path ` set onchain \<Longrightarrow>
      map_of (by_path onchain es) (e_Path b) = Some (new_rfile (e_Path b) (e_Mode b) (e_Data b) ''bundle'')"
    and "b \<in> set es \<Longrightarrow> map_of (bundle_map es) (e_Path b) = Some b"
    and "q \<notin> e_Path ` set es \<Longrightarrow> map_of (bundle_map es) q = None"
proof -
  obtain rest files where m: "merge_onchain (bundle_map es) [] onchain = (rest, files)" by force
  have rest: "rest = filter (\<lambda>(k, _). k \<notin> e_Path ` set onchain) (bundle_map es)"
    using merge_onchain_view [OF m] by (auto simp: stored_ok_def)
  have r: "list_all (\<lambda>(k, e). e_Path e = k) rest" "distinct (map fst rest)"
    using bundle_map_view(1) [of es] distinct_bundle_map [of es] by (auto simp: rest list_all_iff distinct_map_filter)
  note a = add_bundle_value [OF r(2,1), of files] and o = merge_onchain_value [OF assms(1) m]
  show bm: "b \<in> set es \<Longrightarrow> map_of (bundle_map es) (e_Path b) = Some b" for b
    using bundle_map_value [OF assms(2), of "[]"] by (simp add: bundle_map_def)
  show "q \<notin> e_Path ` set es \<Longrightarrow> map_of (bundle_map es) q = None" using bundle_map_value [OF assms(2), of "[]"] by (simp add: bundle_map_def)
  show "map_of (by_path onchain es) (e_Path e) = Some (merge_entry e (map_of (bundle_map es) (e_Path e)))" if "e \<in> set onchain"
  proof -
    have "e_Path e \<notin> fst ` set rest" using that by (auto simp: rest)
    then show ?thesis using a o that by (simp add: by_path_alt m)
  qed
  show "map_of (by_path onchain es) (e_Path b) = Some (new_rfile (e_Path b) (e_Mode b) (e_Data b) ''bundle'')"
    if "b \<in> set es" "e_Path b \<notin> e_Path ` set onchain"
  proof -
    have "(e_Path b, b) \<in> set rest" using map_of_SomeD [OF bm [OF that(1)]] that(2) by (simp add: rest)
    then show ?thesis using a by (auto simp: by_path_alt m)
  qed
qed

section \<open>Samples\<close>

lemma checkPath_ascii:
  assumes "cs \<noteq> []" "list_all plain cs" "list_all is_graph (abs_path cs)"
  shows "checkPath (abs_path cs) = None"
proof -
  have g: "code c < 0x80" "0x20 \<le> code c" "code c \<noteq> 0x7f" "\<not> isBidiControl (code c)" if "is_graph c" for c
    using that by (auto simp: code_def is_graph_def isBidiControl_def)
  have "ValidString s \<and> runes s = map code s" if "list_all is_graph s" for s
    using that
  proof (induction s)
    case (Cons c s)
    then have "decode_rune (c # s) = Some (code c, 1)" using g(1) by (simp add: decode_rune_def)
    then show ?case using Cons by (simp add: ValidString.simps [of "c # s"] runes.simps [of "c # s"])
  qed (simp add: ValidString.simps runes.simps)
  then show ?thesis using assms g unfolding checkPath_iff clean_text_def by (auto simp: list_all_iff)
qed

definition sample_rfile :: rfile where
  "sample_rfile = new_rfile (abs_path [''e'', ''a'']) 0x1A4 [1, 2] ''bundle''"

definition sample_rplan :: rplan where
  "sample_rplan = \<lparr>rp_Files = [sample_rfile], rp_Todo = []\<rparr>"

lemma sample_paths:
  "list_all plain [''t'']" "list_all plain [''e'', ''a'']" "checkPath (abs_path [''e'', ''a'']) = None" "checkPath (abs_path [''a'']) = None"
  by (auto simp: plain_def is_graph_def intro!: checkPath_ascii simp del: abs_path_simps) (simp_all add: is_graph_def)

lemma sample_temp:
  "fst (WriteTemp (Some (abs_path [''t''])) (\<lambda>_. True) sample_rplan)
    = [\<lparr>w_dst = abs_path ([''t''] @ [''e'', ''a'']), w_data = [1, 2], w_mode = file_mode 0x1A4\<rparr>]"
  using safeRelative_abs [OF sample_paths(2)] Join_abs [OF sample_paths(1) _ sample_paths(2)] sample_paths(3)
  by (simp add: WriteTemp_def sample_rplan_def sample_rfile_def new_rfile_def del: abs_path_simps)

lemma write_temp_confined_witness:
  "\<exists>f \<in> set (rp_Files sample_rplan). \<exists>cs. list_all plain cs \<and> rf_Path f = abs_path cs \<and> abs_path ([''t''] @ [''e'', ''a'']) = abs_path ([''t''] @ cs)
    \<and> [1, 2] = rf_Data f \<and> file_mode 0x1A4 AND NOT 0x1FF = 0"
  using write_temp_confined [OF sample_paths(1), of "hd (fst (WriteTemp (Some (abs_path [''t''])) (\<lambda>_. True) sample_rplan))" "\<lambda>_. True" sample_rplan]
  unfolding sample_temp by simp

lemma sample_target:
  "fst (WriteTarget Some (\<lambda>_. False) (\<lambda>_. True) sample_rplan (abs_path [''t'']) False)
    = [\<lparr>w_dst = Join (abs_path [''t'']) (Base (abs_path [''e'', ''a''])), w_data = [1, 2], w_mode = file_mode 0x1A4\<rparr>]"
proof -
  have "\<not> has_prefix (abs_path [''t'']) ''/var/lib''" by (simp add: has_prefix_def)
  then show ?thesis using sample_paths(3)
    by (simp add: WriteTarget_def sample_rplan_def sample_rfile_def new_rfile_def Let_def del: abs_path_simps)
qed

lemma write_target_confined_witness:
  "\<not> has_prefix (abs_path [''t'']) ''/var/lib'' \<and> plain (Base (abs_path [''e'', ''a'']))
    \<and> Join (abs_path [''t'']) (Base (abs_path [''e'', ''a''])) = abs_path ([''t''] @ [Base (abs_path [''e'', ''a''])])"
  using write_target_confined [OF _ sample_paths(1) _ sample_target] sample_rplan_def
  by (simp add: sample_rplan_def sample_rfile_def new_rfile_def del: abs_path_simps)

definition sample_mfile :: mfile where
  "sample_mfile = \<lparr>mf_Path = abs_path [''a''], mf_Mode = 0, mf_SHA256 = ''05'', mf_Where = ''onchain''\<rparr>"

definition sample_onchain :: entry where
  "sample_onchain = \<lparr>e_Path = abs_path [''a''], e_Mode = 0, e_Data = bytes ''x''\<rparr>"

lemma sample_restore:
  "restore_Build (\<lambda>_. [5]) (blank_manifest\<lparr>mn_Files := [sample_mfile]\<rparr>) [sample_onchain] []
    = Inr (projr (restore_Build (\<lambda>_. [5]) (blank_manifest\<lparr>mn_Files := [sample_mfile]\<rparr>) [sample_onchain] []))"
  using sample_paths(4) by (simp add: restore_Build_def sample_mfile_def sample_onchain_def Let_def split_def del: abs_path_simps)

lemma restore_complete_exact_witness:
  "set (map rf_Path (rp_Files (projr (restore_Build (\<lambda>_. [5]) (blank_manifest\<lparr>mn_Files := [sample_mfile]\<rparr>) [sample_onchain] [])))) = {''/a''}"
  using restore_complete_exact [OF sample_restore] by (simp add: sample_onchain_def)

end
