(* ===== verification/Ledger.thy ===== *)
theory Ledger
  imports Go_Strings Codec
begin

text \<open>
  \<^verbatim>\<open>internal/xrpl/client.go\<close>: the records the tool keeps of ledger data, the reading half of the client
  interface, and the parser of transaction JSON.  A JSON text is its syntax tree; the library's
  \<^verbatim>\<open>json.Unmarshal\<close> into maps, strings, numbers, booleans and structs is modelled on it.
\<close>

section \<open>JSON\<close>

text \<open>\<open>JNum\<close> is a number written as a plain integer, \<open>JReal m e\<close> any other, with the value \<open>m * 10 ^ e\<close>.\<close>

datatype json = JNull | JBool bool | JNum int | JReal int int | JStr string | JArr "json list" | JObj "(string \<times> json) list"

type_synonym jmap = "(string \<times> json) list"

text \<open>A later key overrides an earlier one.\<close>

definition jget :: "jmap \<Rightarrow> string \<Rightarrow> json option" where
  "jget m k = map_of (rev m) k"

definition as_str :: "json option \<Rightarrow> string" where
  "as_str j = (case j of Some (JStr s) \<Rightarrow> s | _ \<Rightarrow> [])"

definition as_u32 :: "json option \<Rightarrow> u32" where
  "as_u32 j = (case j of Some (JNum n) \<Rightarrow> if 0 \<le> n \<and> n < 2 ^ 32 then of_int n else 0 | _ \<Rightarrow> 0)"

definition as_bool :: "json option \<Rightarrow> bool" where
  "as_bool j = (case j of Some (JBool b) \<Rightarrow> b | _ \<Rightarrow> False)"

text \<open>\<^verbatim>\<open>strings.EqualFold\<close>, also the matching of struct fields; \<open>uni\<close> answers for strings with a byte outside ASCII.\<close>

definition equal_fold :: "(string \<Rightarrow> string \<Rightarrow> bool) \<Rightarrow> string \<Rightarrow> string \<Rightarrow> bool" where
  "equal_fold uni s t =
     (if list_all is_ascii s \<and> list_all is_ascii t then map ascii_lower s = map ascii_lower t else uni s t)"

text \<open>
  \<^verbatim>\<open>hex.DecodeString\<close> with its error dropped: the bytes decoded before the first fault.
\<close>

fun hex_prefix :: "string \<Rightarrow> byte list" where
  "hex_prefix (c # d # r) =
     (case (from_hex_char c, from_hex_char d) of
        (Some h, Some l) \<Rightarrow> of_nat (16 * h + l) # hex_prefix r
      | _ \<Rightarrow> [])"
| "hex_prefix _ = []"

section \<open>Records\<close>

record tx_record =
  tr_Hash :: string
  tr_LedgerIndex :: u32
  tr_Validated :: bool
  tr_Result :: string
  tr_Account :: string
  tr_TxType :: string
  tr_Sequence :: u32
  tr_Memos :: "memo list"
  tr_Raw :: json

record range =
  rg_Min :: int
  rg_Max :: int

record account_state =
  as_Sequence :: u32
  as_BalanceDrops :: u64

record server_state =
  ss_ValidatedLedger :: u32
  ss_CompleteLedgers :: string
  ss_BaseFeeDrops :: u64
  ss_OpenLedgerFee :: u64

text \<open>The errors of a client: \<^verbatim>\<open>ErrNotFound\<close>, and everything else.\<close>

datatype client_error = ErrNotFound | ClientFailed string

text \<open>The reading methods of \<^verbatim>\<open>Client\<close>, at one moment.\<close>

record chain_reader =
  rd_Tx :: "string \<Rightarrow> client_error + tx_record"
  rd_AccountTx :: "string \<Rightarrow> client_error + (tx_record list \<times> range)"
  rd_LedgerEntryDID :: "string \<Rightarrow> client_error + byte list"

section \<open>Parsing transaction JSON\<close>

record memo_json =
  mj_Type :: string
  mj_Data :: string
  mj_Format :: string

text \<open>
  Decoding into a struct goes through the keys in order.  A value of the wrong type leaves the field and
  makes the whole call an error, here \<open>None\<close>; \<^verbatim>\<open>null\<close> leaves the field without an error.
\<close>

definition set_memo_field :: "(string \<Rightarrow> string \<Rightarrow> bool) \<Rightarrow> string \<times> json \<Rightarrow> memo_json option \<Rightarrow> memo_json option" where
  "set_memo_field uni kv acc =
     (case acc of
        None \<Rightarrow> None
      | Some m \<Rightarrow>
          let known = list_ex (equal_fold uni (fst kv)) [''MemoType'', ''MemoData'', ''MemoFormat'']
          in case snd kv of
               JStr s \<Rightarrow>
                 if equal_fold uni (fst kv) ''MemoType'' then Some (m\<lparr>mj_Type := s\<rparr>)
                 else if equal_fold uni (fst kv) ''MemoData'' then Some (m\<lparr>mj_Data := s\<rparr>)
                 else if equal_fold uni (fst kv) ''MemoFormat'' then Some (m\<lparr>mj_Format := s\<rparr>)
                 else Some m
             | JNull \<Rightarrow> Some m
             | _ \<Rightarrow> if known then None else Some m)"

definition set_memo :: "(string \<Rightarrow> string \<Rightarrow> bool) \<Rightarrow> string \<times> json \<Rightarrow> memo_json option \<Rightarrow> memo_json option" where
  "set_memo uni kv acc =
     (if \<not> equal_fold uni (fst kv) ''Memo'' then acc
      else case snd kv of
             JObj kvs \<Rightarrow> fold (set_memo_field uni) kvs acc
           | JNull \<Rightarrow> acc
           | _ \<Rightarrow> None)"

definition empty_memo_json :: memo_json where
  "empty_memo_json = \<lparr>mj_Type = [], mj_Data = [], mj_Format = []\<rparr>"

definition memo_element :: "(string \<Rightarrow> string \<Rightarrow> bool) \<Rightarrow> json \<Rightarrow> memo_json option" where
  "memo_element uni j =
     (case j of
        JObj kvs \<Rightarrow> fold (set_memo uni) kvs (Some empty_memo_json)
      | JNull \<Rightarrow> Some empty_memo_json
      | _ \<Rightarrow> None)"

definition memo_list :: "(string \<Rightarrow> string \<Rightarrow> bool) \<Rightarrow> json \<Rightarrow> memo_json list option" where
  "memo_list uni j = (case j of JArr es \<Rightarrow> those (map (memo_element uni) es) | JNull \<Rightarrow> Some [] | _ \<Rightarrow> None)"

definition parse_memos :: "(string \<Rightarrow> string \<Rightarrow> bool) \<Rightarrow> json option \<Rightarrow> memo list" where
  "parse_memos uni j =
     (case j of
        None \<Rightarrow> []
      | Some ms \<Rightarrow>
          (case memo_list uni ms of
             None \<Rightarrow> []
           | Some l \<Rightarrow> map (\<lambda>e. \<lparr>memo_Type = hex_prefix (mj_Type e), memo_Data = hex_prefix (mj_Data e), memo_Format = hex_prefix (mj_Format e)\<rparr>) l))"

definition meta_result :: "(string \<Rightarrow> string \<Rightarrow> bool) \<Rightarrow> json option \<Rightarrow> string" where
  "meta_result uni meta =
     (case meta of
        Some (JObj kvs) \<Rightarrow>
          fold (\<lambda>(k, v) acc. if equal_fold uni k ''TransactionResult'' then (case v of JStr s \<Rightarrow> s | _ \<Rightarrow> acc) else acc) kvs []
      | _ \<Rightarrow> [])"

text \<open>
  The maps \<^verbatim>\<open>top\<close> and \<^verbatim>\<open>body\<close>.  \<^verbatim>\<open>body\<close> starts as the same map as \<^verbatim>\<open>top\<close>, and decoding an object into a map
  that is not nil adds to it, so the fields of \<^verbatim>\<open>tx_json\<close> end up in both; \<^verbatim>\<open>null\<close> makes \<^verbatim>\<open>body\<close> nil.
\<close>

definition top_and_body :: "json \<Rightarrow> (jmap \<times> jmap) option" where
  "top_and_body raw =
     (let split = (\<lambda>outer. case jget outer ''tx_json'' of
                     None \<Rightarrow> Some (outer, outer)
                   | Some (JObj inner) \<Rightarrow> Some (outer @ inner, outer @ inner)
                   | Some JNull \<Rightarrow> Some (outer, [])
                   | Some _ \<Rightarrow> None)
      in case raw of JObj outer \<Rightarrow> split outer | JNull \<Rightarrow> split [] | _ \<Rightarrow> None)"

definition ParseTxJSON :: "(string \<Rightarrow> string \<Rightarrow> bool) \<Rightarrow> json \<Rightarrow> json option \<Rightarrow> tx_record option" where
  "ParseTxJSON uni raw meta =
     (case top_and_body raw of
        None \<Rightarrow> None
      | Some (outer, body) \<Rightarrow>
          let hash = as_str (jget outer ''hash'');
              hash = (if hash = [] then as_str (jget body ''hash'') else hash);
              lgr = as_u32 (jget outer ''ledger_index'');
              lgr = (if lgr = 0 then as_u32 (jget body ''ledger_index'') else lgr);
              meta = (if meta = None then jget outer ''meta'' else meta)
          in Some \<lparr>tr_Hash = hash, tr_LedgerIndex = lgr, tr_Validated = as_bool (jget outer ''validated''),
               tr_Result = meta_result uni meta, tr_Account = as_str (jget body ''Account''),
               tr_TxType = as_str (jget body ''TransactionType''), tr_Sequence = as_u32 (jget body ''Sequence''),
               tr_Memos = parse_memos uni (jget body ''Memos''), tr_Raw = raw\<rparr>)"

text \<open>Upper-case hexadecimal, as the JSON API writes it.\<close>

definition upper_hex :: "byte list \<Rightarrow> string" where
  "upper_hex b = map ascii_upper (hex_encode b)"

definition memo_to_json :: "memo \<Rightarrow> json" where
  "memo_to_json m = JObj [(''Memo'', JObj ([(''MemoType'', JStr (upper_hex (memo_Type m))), (''MemoData'', JStr (upper_hex (memo_Data m)))]
     @ (if memo_Format m \<noteq> [] then [(''MemoFormat'', JStr (upper_hex (memo_Format m)))] else [])))]"

definition MemosToJSON :: "memo list \<Rightarrow> json" where
  "MemosToJSON memos = JArr (map memo_to_json memos)"

section \<open>Memos read back\<close>

lemma from_hex_upper: "n < 16 \<Longrightarrow> from_hex_char (ascii_upper (hex_char n)) = Some n"
proof -
  have "list_all (\<lambda>n. from_hex_char (ascii_upper (hex_char n)) = Some n) [0..<16]"
    by (simp add: upt_rec hex_char_def hexdigits_def ascii_upper_def from_hex_char_def)
  then show "n < 16 \<Longrightarrow> ?thesis" by (simp add: list_all_iff)
qed

lemma hex_prefix_upper [simp]: "hex_prefix (upper_hex b) = b"
proof (induction b)
  case (Cons x b)
  have "unat x < 256" by (rule order_less_le_trans [OF unsigned_less]) simp
  then have "unat x div 16 < 16" "unat x mod 16 < 16" by auto
  moreover have "16 * (unat x div 16) + unat x mod 16 = unat x" by simp
  ultimately show ?case using Cons by (simp add: upper_hex_def hex_encode_def from_hex_upper del: of_nat_add of_nat_mult)
qed (simp add: upper_hex_def hex_encode_def)

lemma memo_field_names:
  "equal_fold uni ''Memo'' ''Memo''" "equal_fold uni ''MemoType'' ''MemoType''"
  "\<not> equal_fold uni ''MemoData'' ''MemoType''" "equal_fold uni ''MemoData'' ''MemoData''"
  "\<not> equal_fold uni ''MemoFormat'' ''MemoType''" "\<not> equal_fold uni ''MemoFormat'' ''MemoData''" "equal_fold uni ''MemoFormat'' ''MemoFormat''"
  by (simp_all add: equal_fold_def is_ascii_def ascii_lower_def)

lemma memo_element_json:
  "memo_element uni (memo_to_json m) = Some \<lparr>mj_Type = upper_hex (memo_Type m), mj_Data = upper_hex (memo_Data m), mj_Format = upper_hex (memo_Format m)\<rparr>"
  using memo_field_names [of uni]
  by (simp add: memo_element_def memo_to_json_def set_memo_def set_memo_field_def empty_memo_json_def upper_hex_def hex_encode_def)

lemma parse_memos_json: "parse_memos uni (Some (MemosToJSON ms)) = ms"
proof -
  have "those (map (memo_element uni) (map memo_to_json ms)) =
      Some (map (\<lambda>m. \<lparr>mj_Type = upper_hex (memo_Type m), mj_Data = upper_hex (memo_Data m), mj_Format = upper_hex (memo_Format m)\<rparr>) ms)"
    by (induction ms) (simp_all add: memo_element_json)
  then show ?thesis by (simp add: parse_memos_def memo_list_def MemosToJSON_def map_idI)
qed

end
