(* ===== verification/Discover.thy ===== *)
theory Discover
  imports Ledger Chunk Anchor Manifest "HOL-Library.AList"
begin

text \<open>
  \<^verbatim>\<open>internal/discover/discover.go\<close>: finding and authenticating the backups of an account, fetching the chunks
  of one, and opening its bundle.  The ledger is read through a \<^typ>\<open>chain_reader\<close>.  Go's maps are association
  lists with one pair per key; a map that is ranged over is kept in the order of insertion.
\<close>

section \<open>Primitives and keys\<close>

text \<open>The functions of Go's libraries that the packages above the primitives call.\<close>

record prims =
  pm_gcm :: gcm
  pm_hkdf :: hkdf_fn
  pm_hmac :: hmac_fn
  pm_sha256 :: "byte list \<Rightarrow> byte list"
  pm_deflate :: "byte list \<Rightarrow> byte list"
  pm_inflate :: "byte list \<Rightarrow> byte list option"
  pm_to_json :: "manifest \<Rightarrow> byte list"
  pm_of_json :: "byte list \<Rightarrow> manifest option"
  pm_upper :: "string \<Rightarrow> string"

type_synonym keys = "u32 \<Rightarrow> byte list option"

definition RootKeys :: "prims \<Rightarrow> byte list \<Rightarrow> keys" where
  "RootKeys pm root e = Some (DeriveEpochKey (pm_hkdf pm) root e)"

definition FileKeys :: "u32 \<Rightarrow> byte list \<Rightarrow> keys" where
  "FileKeys E key e = (if e \<noteq> E then None else Some key)"

text \<open>\<^verbatim>\<open>cachedKeys.Epoch\<close>: the answer and the cache after it.\<close>

definition cached_Epoch :: "keys \<Rightarrow> (u32 \<rightharpoonup> byte list option) \<Rightarrow> u32 \<Rightarrow> byte list option \<times> (u32 \<rightharpoonup> byte list option)" where
  "cached_Epoch k m e = (case m e of Some v \<Rightarrow> (v, m) | None \<Rightarrow> (k e, m(e \<mapsto> k e)))"

text \<open>A cache that only holds answers of \<open>k\<close> keeps doing so, so the search below asks \<open>k\<close> itself.\<close>

lemma cached_Epoch_transparent:
  assumes "\<And>e v. m e = Some v \<Longrightarrow> v = k e" "cached_Epoch k m e = (r, m')"
  shows "r = k e \<and> (\<forall>f v. m' f = Some v \<longrightarrow> v = k f)"
proof (cases "m e")
  case None
  then show ?thesis using assms(2) assms(1) by (auto simp: cached_Epoch_def split: if_splits)
next
  case (Some v)
  then show ?thesis using assms(2) assms(1) by (auto simp: cached_Epoch_def)
qed

section \<open>Candidates and results\<close>

record candidate =
  cd_Manifest :: manifest
  cd_BackupID :: "byte list"
  cd_Epoch :: u32
  cd_TxHash :: string
  cd_Ledger :: u32
  cd_Plain :: "byte list"
  cd_FromAnchor :: bool

datatype warning =
    AnchorMacBad | NotAnAnchorEntry | PartsMissing "byte list" nat u16 | Oversized "byte list" u16
  | JunkForAnchored "byte list" | AnchorDisagrees u32 u32 u32 u32 | PossibleRollback u32 u32
  | AnchoredNotFound anchor range | NoneAuthenticate nat | LandedAfter nat u32 u32

record discovery =
  rs_Account :: string
  rs_Range :: range
  rs_Anchor :: "anchor option"
  rs_AnchorOK :: bool
  rs_Candidates :: "candidate list"
  rs_Latest :: "candidate option"
  rs_Warnings :: "warning list"
  rs_Rejected :: nat
  rs_RejectedAfter :: nat
  rs_Conflict :: "(candidate \<times> candidate) option"
  rs_AnchorMissing :: "(anchor \<times> range \<times> candidate) option"

datatype discover_error =
    AnchorReadFailed client_error | AccountTxFailed string client_error
  | IsTombstone | MissingChunk int nat string range | NetworkError int client_error | ChunkHashMismatch int
  | ChunkFailed int crypto_error | ChunkNotCarried string int string | UnpackFailed container_error | ContainerHashMismatch
  | BundleFailed crypto_error | BundleOfOther "byte list" string | BundleFileAltered | BundlePlainMismatch

definition newerThanAnchor :: "manifest \<Rightarrow> anchor \<Rightarrow> bool" where
  "newerThanAnchor m a \<longleftrightarrow> mn_Epoch m > an_Epoch a \<or> mn_Epoch m = an_Epoch a \<and> mn_Seq m > an_Seq a"

definition maxEpochProbe :: int where "maxEpochProbe = 64"

section \<open>Scan\<close>

record memo_part =
  mp_ct :: "byte list"
  mp_tx :: string
  mp_ledger :: u32

record part_set =
  ps_total :: u16
  ps_parts :: "(u16 \<times> memo_part list) list"

type_synonym set_key = "byte list \<times> byte list"

record scan_state =
  sc_sets :: "(set_key \<times> part_set) list"
  sc_oversized :: "(set_key \<times> u16) list"

definition parts_at :: "part_set \<Rightarrow> u16 \<Rightarrow> memo_part list" where
  "parts_at ps i = (case map_of (ps_parts ps) i of None \<Rightarrow> [] | Some l \<Rightarrow> l)"

definition add_part :: "u16 \<Rightarrow> memo_part \<Rightarrow> part_set \<Rightarrow> part_set" where
  "add_part i p ps = ps\<lparr>ps_parts := AList.update i (parts_at ps i @ [p]) (ps_parts ps)\<rparr>"

definition lastLedger :: "part_set \<Rightarrow> u32" where
  "lastLedger ps = fold (\<lambda>p l. if mp_ledger p > l then mp_ledger p else l) (concat (map snd (ps_parts ps))) 0"

definition set_for :: "payload \<Rightarrow> scan_state \<Rightarrow> part_set" where
  "set_for p sc =
     (case map_of (sc_sets sc) (pl_BackupID p, pl_Nonce p) of
        None \<Rightarrow> \<lparr>ps_total = pl_Total p, ps_parts = []\<rparr>
      | Some ps \<Rightarrow> ps)"

definition scan_payload :: "tx_record \<Rightarrow> payload \<Rightarrow> scan_state \<Rightarrow> scan_state" where
  "scan_payload t p sc =
     (let k = (pl_BackupID p, pl_Nonce p) in
      if unat (pl_Total p) > MaxManifestParts
      then sc\<lparr>sc_oversized := AList.update k (pl_Total p) (sc_oversized sc)\<rparr>
      else let ps = set_for p sc in
           sc\<lparr>sc_sets := AList.update k
                (if pl_Total p \<noteq> ps_total ps then ps
                 else add_part (pl_Index p) \<lparr>mp_ct = pl_Ciphertext p, mp_tx = tr_Hash t, mp_ledger = tr_LedgerIndex t\<rparr> ps)
                (sc_sets sc)\<rparr>)"

text \<open>The manifest payloads of the account's own successful transactions, in the order of the history.\<close>

definition manifest_payloads :: "string \<Rightarrow> tx_record list \<Rightarrow> (tx_record \<times> payload) list" where
  "manifest_payloads account txs =
     [(t, p). t \<leftarrow> txs, tr_Account t = account \<and> tr_Result t = ''tesSUCCESS'',
       p \<leftarrow> List.map_filter chunk_Decode (tr_Memos t), pl_Type p = TypeManifest]"

definition scan :: "string \<Rightarrow> tx_record list \<Rightarrow> scan_state" where
  "scan account txs =
     fold (\<lambda>(t, p). scan_payload t p) (manifest_payloads account txs) \<lparr>sc_sets = [], sc_oversized = []\<rparr>"

section \<open>Opening manifests\<close>

text \<open>The first ciphertext seen for an index that opens, with the part it came from.\<close>

fun open_part :: "prims \<Rightarrow> byte list \<Rightarrow> byte list \<Rightarrow> byte list \<Rightarrow> u16 \<Rightarrow> u16 \<Rightarrow> memo_part list \<Rightarrow> (byte list \<times> memo_part) option" where
  "open_part pm kb bid nonce i tot [] = None"
| "open_part pm kb bid nonce i tot (c # cs) =
     (case OpenManifest (pm_gcm pm) kb bid nonce i tot (mp_ct c) of
        Inl _ \<Rightarrow> open_part pm kb bid nonce i tot cs
      | Inr p \<Rightarrow> Some (p, c))"

definition open_parts :: "prims \<Rightarrow> byte list \<Rightarrow> byte list \<Rightarrow> byte list \<Rightarrow> part_set \<Rightarrow> (byte list \<times> memo_part) list option" where
  "open_parts pm kb bid nonce ps =
     those (map (\<lambda>i. open_part pm kb bid nonce (of_nat i) (ps_total ps) (parts_at ps (of_nat i))) [0..<unat (ps_total ps)])"

definition no_part :: memo_part where
  "no_part = \<lparr>mp_ct = [], mp_tx = [], mp_ledger = 0\<rparr>"

definition open_epoch :: "prims \<Rightarrow> keys \<Rightarrow> byte list \<Rightarrow> byte list \<Rightarrow> part_set \<Rightarrow> u32 \<Rightarrow> candidate option" where
  "open_epoch pm keys bid nonce ps e =
     (case keys e of
        None \<Rightarrow> None
      | Some k \<Rightarrow>
          (case open_parts pm (BackupKey (pm_hkdf pm) k bid) bid nonce ps of
             None \<Rightarrow> None
           | Some opened \<Rightarrow>
               let plain = concat (map fst opened);
                   first = (case opened of [] \<Rightarrow> no_part | (_, c) # _ \<Rightarrow> c)
               in case Unmarshal (pm_of_json pm) plain of
                    Inl _ \<Rightarrow> None
                  | Inr m \<Rightarrow>
                      if mn_BackupID m \<noteq> hex_encode bid \<or> mn_Epoch m \<noteq> e then None
                      else Some \<lparr>cd_Manifest = m, cd_BackupID = bid, cd_Epoch = e, cd_TxHash = mp_tx first,
                                 cd_Ledger = mp_ledger first, cd_Plain = plain, cd_FromAnchor = False\<rparr>))"

fun openManifest :: "prims \<Rightarrow> keys \<Rightarrow> byte list \<Rightarrow> byte list \<Rightarrow> part_set \<Rightarrow> u32 list \<Rightarrow> candidate option" where
  "openManifest pm keys bid nonce ps [] = None"
| "openManifest pm keys bid nonce ps (e # es) =
     (case open_epoch pm keys bid nonce ps e of
        Some c \<Rightarrow> Some c
      | None \<Rightarrow> openManifest pm keys bid nonce ps es)"

definition probeOrder :: "u32 \<Rightarrow> u32 \<Rightarrow> u32 list" where
  "probeOrder hint floor =
     (let floor = (if floor > hint then hint else floor) in
      map of_int (rev [max 0 (uint floor - maxEpochProbe + 1)..uint hint])
      @ map of_int [uint hint + 1..min (uint hint + maxEpochProbe) 0xFFFFFFFF])"

text \<open>One pass over part sets: what opens, in order, and what stays closed.\<close>

fun try_sets :: "prims \<Rightarrow> keys \<Rightarrow> u32 list \<Rightarrow> (set_key \<times> part_set) list \<Rightarrow> candidate list \<times> (set_key \<times> part_set) list" where
  "try_sets pm keys epochs [] = ([], [])"
| "try_sets pm keys epochs ((k, ps) # sets) =
     (let (cands, still) = try_sets pm keys epochs sets in
      case openManifest pm keys (fst k) (snd k) ps epochs of
        Some c \<Rightarrow> (c # cands, still)
      | None \<Rightarrow> (cands, (k, ps) # still))"

definition complete_set :: "part_set \<Rightarrow> bool" where
  "complete_set ps \<longleftrightarrow> unat (ps_total ps) = length (ps_parts ps)"

definition parts_warnings :: "(set_key \<times> part_set) list \<Rightarrow> warning list" where
  "parts_warnings sets =
     map (\<lambda>(k, ps). PartsMissing (take 8 (fst k)) (length (ps_parts ps)) (ps_total ps))
       (filter (\<lambda>(k, ps). \<not> complete_set ps) sets)"

definition top_epoch :: "u32 \<Rightarrow> candidate list \<Rightarrow> int" where
  "top_epoch hint cands = fold (\<lambda>c t. if uint (cd_Epoch c) > t then uint (cd_Epoch c) else t) cands (uint hint)"

definition next_upper :: "u32 \<Rightarrow> candidate list \<Rightarrow> int" where
  "next_upper hint cands = min (top_epoch hint cands + maxEpochProbe) 0xFFFFFFFF"

text \<open>The search upwards, one chain of rotations at a time.\<close>

function search_up ::
    "prims \<Rightarrow> keys \<Rightarrow> u32 \<Rightarrow> int \<Rightarrow> candidate list \<Rightarrow> (set_key \<times> part_set) list \<Rightarrow> candidate list \<times> (set_key \<times> part_set) list" where
  "search_up pm keys hint upper cands pending =
     (if pending = [] then (cands, pending)
      else let nxt = next_upper hint cands in
        if nxt \<le> upper then (cands, pending)
        else let (found, still) = try_sets pm keys (map of_int [upper + 1..nxt]) pending
             in search_up pm keys hint nxt (cands @ found) still)"
  by pat_completeness auto
termination
  by (relation "measure (\<lambda>(pm, keys, hint, upper, cands, pending). nat (0xFFFFFFFF - upper))")
     (auto simp: next_upper_def)

declare search_up.simps [simp del]

section \<open>Choosing\<close>

text \<open>\<^verbatim>\<open>sort.SliceStable\<close>.\<close>

fun insert_stable :: "('a \<Rightarrow> 'a \<Rightarrow> bool) \<Rightarrow> 'a \<Rightarrow> 'a list \<Rightarrow> 'a list" where
  "insert_stable lt x [] = [x]"
| "insert_stable lt x (y # ys) = (if lt y x then y # insert_stable lt x ys else x # y # ys)"

definition sort_stable :: "('a \<Rightarrow> 'a \<Rightarrow> bool) \<Rightarrow> 'a list \<Rightarrow> 'a list" where
  "sort_stable lt xs = foldr (insert_stable lt) xs []"

definition candidate_before :: "candidate \<Rightarrow> candidate \<Rightarrow> bool" where
  "candidate_before a b =
     (if mn_Epoch (cd_Manifest a) \<noteq> mn_Epoch (cd_Manifest b) \<or> mn_Seq (cd_Manifest a) \<noteq> mn_Seq (cd_Manifest b)
      then Newer (cd_Manifest a) (cd_Manifest b)
      else cd_Ledger a > cd_Ledger b)"

definition uniq :: "candidate list \<Rightarrow> candidate list" where
  "uniq cands = foldr (\<lambda>c u. if cd_BackupID c \<in> cd_BackupID ` set u then u else c # u) cands []"

text \<open>The loop that holds the anchor against the manifest it names.\<close>

fun check_anchor :: "anchor \<Rightarrow> candidate list \<Rightarrow> bool \<times> candidate list \<times> warning list" where
  "check_anchor a [] = (True, [], [])"
| "check_anchor a (c # cs) =
     (if cd_BackupID c \<noteq> an_BackupID a
      then let (ok, cs', w) = check_anchor a cs in (ok, c # cs', w)
      else if mn_Epoch (cd_Manifest c) \<noteq> an_Epoch a \<or> mn_Seq (cd_Manifest c) \<noteq> an_Seq a
      then (False, c # cs, [AnchorDisagrees (an_Epoch a) (an_Seq a) (mn_Epoch (cd_Manifest c)) (mn_Seq (cd_Manifest c))])
      else let (ok, cs', w) = check_anchor a cs in (ok, c\<lparr>cd_FromAnchor := True\<rparr> # cs', w))"

definition same_place :: "candidate \<Rightarrow> candidate \<Rightarrow> bool" where
  "same_place a b \<longleftrightarrow> mn_Epoch (cd_Manifest a) = mn_Epoch (cd_Manifest b) \<and> mn_Seq (cd_Manifest a) = mn_Seq (cd_Manifest b)"

fun conflict_of :: "candidate list \<Rightarrow> (candidate \<times> candidate) option" where
  "conflict_of (a # b # cs) = (if same_place a b then Some (a, b) else None)"
| "conflict_of cs = None"

definition latest_of :: "candidate list \<Rightarrow> candidate option" where
  "latest_of cs = (case cs of [] \<Rightarrow> None | a # _ \<Rightarrow> if conflict_of cs = None then Some a else None)"

text \<open>
  The end of \<^verbatim>\<open>Run\<close>: \<open>anc\<close> is the anchor when it is still trusted, \<open>lat\<close> the selected backup.
\<close>

definition anchor_missing :: "anchor option \<Rightarrow> range \<Rightarrow> candidate option \<Rightarrow> (anchor \<times> range \<times> candidate) option" where
  "anchor_missing anc rng lat =
     (case (anc, lat) of
        (Some a, Some c) \<Rightarrow> if \<not> cd_FromAnchor c \<and> \<not> newerThanAnchor (cd_Manifest c) a then Some (a, rng, c) else None
      | _ \<Rightarrow> None)"

definition rollback_warnings :: "anchor option \<Rightarrow> candidate option \<Rightarrow> warning list" where
  "rollback_warnings anc lat =
     (case (anc, lat) of
        (Some a, Some c) \<Rightarrow>
          if \<not> cd_FromAnchor c \<and> newerThanAnchor (cd_Manifest c) a then [PossibleRollback (an_Seq a) (mn_Seq (cd_Manifest c))] else []
      | _ \<Rightarrow> [])"

definition absent_warnings :: "anchor option \<Rightarrow> range \<Rightarrow> candidate option \<Rightarrow> bool \<Rightarrow> warning list" where
  "absent_warnings anc rng lat conflict =
     (case (anc, lat) of (Some a, None) \<Rightarrow> if conflict then [] else [AnchoredNotFound a rng] | _ \<Rightarrow> [])"

definition rejected_after :: "candidate option \<Rightarrow> u32 list \<Rightarrow> nat" where
  "rejected_after lat ledgers =
     (case lat of
        None \<Rightarrow> 0
      | Some c \<Rightarrow> length (filter (\<lambda>l. l = 0 \<or> cd_Ledger c = 0 \<or> l > cd_Ledger c) ledgers))"

definition after_warnings :: "candidate option \<Rightarrow> nat \<Rightarrow> warning list" where
  "after_warnings lat n =
     (case lat of
        Some c \<Rightarrow> if n > 0 then [LandedAfter n (mn_Epoch (cd_Manifest c)) (mn_Seq (cd_Manifest c))] else []
      | None \<Rightarrow> [])"

section \<open>Run\<close>

text \<open>Reading the anchor: the record, whether its MAC verifies, and the warnings.\<close>

definition read_anchor ::
    "prims \<Rightarrow> chain_reader \<Rightarrow> keys \<Rightarrow> string \<Rightarrow> discover_error + (anchor option \<times> bool \<times> warning list)" where
  "read_anchor pm rd keys account =
     (case rd_LedgerEntryDID rd account of
        Inl e \<Rightarrow> if e = ErrNotFound then Inr (None, False, []) else Inl (AnchorReadFailed e)
      | Inr data \<Rightarrow>
          (case anchor_Parse data of
             Inl _ \<Rightarrow> Inr (None, False, [NotAnAnchorEntry])
           | Inr rec \<Rightarrow>
               (case keys (an_Epoch rec) of
                  Some k \<Rightarrow>
                    if anchor_Verify (pm_hkdf pm) (pm_hmac pm) k data then Inr (Some rec, True, [])
                    else Inr (Some rec, False, [AnchorMacBad])
                | None \<Rightarrow> Inr (Some rec, False, [AnchorMacBad]))))"

definition pending_warnings :: "anchor option \<Rightarrow> (set_key \<times> part_set) list \<Rightarrow> warning list" where
  "pending_warnings anc pending =
     (case anc of
        None \<Rightarrow> []
      | Some a \<Rightarrow> map (\<lambda>(k, _). JunkForAnchored (take 8 (fst k))) (filter (\<lambda>(k, _). an_BackupID a = fst k) pending))"

text \<open>Everything the search of the history finds: the candidates as opened, and the sets that stay closed.\<close>

definition search_history ::
    "prims \<Rightarrow> keys \<Rightarrow> u32 \<Rightarrow> u32 \<Rightarrow> scan_state \<Rightarrow> candidate list \<times> (set_key \<times> part_set) list" where
  "search_history pm keys hint floor sc =
     (let (cands, pending) = try_sets pm keys (probeOrder hint floor) (filter (\<lambda>(k, ps). complete_set ps) (sc_sets sc))
      in search_up pm keys hint (uint hint + maxEpochProbe) cands pending)"

definition start_epoch :: "u32 \<Rightarrow> anchor option \<Rightarrow> bool \<Rightarrow> u32" where
  "start_epoch hint anc ok = (case anc of Some a \<Rightarrow> if ok \<and> an_Epoch a > hint then an_Epoch a else hint | None \<Rightarrow> hint)"

definition trusted :: "anchor option \<Rightarrow> bool \<Rightarrow> anchor option" where
  "trusted anc ok = (if ok then anc else None)"

definition anchor_step :: "anchor option \<Rightarrow> bool \<Rightarrow> candidate list \<Rightarrow> bool \<times> candidate list \<times> warning list" where
  "anchor_step anc ok cands = (case trusted anc ok of Some a \<Rightarrow> check_anchor a cands | None \<Rightarrow> (ok, cands, []))"

definition discover_Run :: "prims \<Rightarrow> chain_reader \<Rightarrow> keys \<Rightarrow> string \<Rightarrow> u32 \<Rightarrow> discover_error + discovery" where
  "discover_Run pm rd keys account epochHint =
     and_then (read_anchor pm rd keys account) (\<lambda>(anc, ok, warns).
     case rd_AccountTx rd account of
       Inl e \<Rightarrow> Inl (AccountTxFailed account e)
     | Inr (txs, rng) \<Rightarrow>
         let sc = scan account txs;
             (opened, pending) = search_history pm keys (start_epoch epochHint anc ok) epochHint sc;
             (ok', cands, anchor_warns) = anchor_step anc ok (uniq (sort_stable candidate_before opened));
             conflict = conflict_of cands;
             lat = latest_of cands;
             rejected = length (sc_oversized sc) + length pending;
             after = rejected_after lat (map (\<lambda>(_, ps). lastLedger ps) pending)
         in Inr \<lparr>rs_Account = account, rs_Range = rng, rs_Anchor = anc, rs_AnchorOK = ok', rs_Candidates = cands,
              rs_Latest = lat,
              rs_Warnings = warns @ parts_warnings (sc_sets sc)
                @ map (\<lambda>(k, n). Oversized (take 8 (fst k)) n) (sc_oversized sc) @ pending_warnings (trusted anc ok) pending
                @ anchor_warns @ rollback_warnings (trusted anc ok') lat
                @ absent_warnings (trusted anc ok') rng lat (conflict \<noteq> None)
                @ (if rejected > 0 \<and> lat = None then [NoneAuthenticate rejected] else []) @ after_warnings lat after,
              rs_Rejected = rejected, rs_RejectedAfter = after, rs_Conflict = conflict,
              rs_AnchorMissing = anchor_missing (trusted anc ok') rng lat\<rparr>)"

section \<open>Fetch\<close>

text \<open>The index of the account scan by upper-case hash, the last transaction of a hash winning; a failed scan is an empty one.\<close>

definition scanned :: "prims \<Rightarrow> chain_reader \<Rightarrow> string \<Rightarrow> string \<Rightarrow> tx_record option" where
  "scanned pm rd account h =
     (case rd_AccountTx rd account of
        Inl _ \<Rightarrow> None
      | Inr (txs, _) \<Rightarrow> map_of (rev (map (\<lambda>t. (to_upper (pm_upper pm) (tr_Hash t), t)) txs)) h)"

definition fetch_record :: "prims \<Rightarrow> chain_reader \<Rightarrow> discovery \<Rightarrow> nat \<Rightarrow> mchunk \<Rightarrow> discover_error + tx_record" where
  "fetch_record pm rd res tot ch =
     (case rd_Tx rd (ch_TxHash ch) of
        Inr t \<Rightarrow> Inr t
      | Inl ErrNotFound \<Rightarrow>
          (case scanned pm rd (rs_Account res) (to_upper (pm_upper pm) (ch_TxHash ch)) of
             Some t \<Rightarrow> Inr t
           | None \<Rightarrow> Inl (MissingChunk (ch_Index ch) tot (rs_Account res) (rs_Range res)))
      | Inl e \<Rightarrow> Inl (NetworkError (ch_Index ch) e))"

text \<open>The payloads of a transaction that claim to be chunk \<open>i\<close> of backup \<open>bid\<close>.\<close>

definition chunk_payloads :: "byte list \<Rightarrow> int \<Rightarrow> memo list \<Rightarrow> payload list" where
  "chunk_payloads bid i memos =
     filter (\<lambda>p. pl_Type p = TypeChunk \<and> pl_BackupID p = bid \<and> uint (pl_Index p) = i) (List.map_filter chunk_Decode memos)"

definition open_payload :: "prims \<Rightarrow> byte list \<Rightarrow> byte list \<Rightarrow> u16 \<Rightarrow> mchunk \<Rightarrow> payload \<Rightarrow> discover_error + byte list" where
  "open_payload pm kb bid tot ch p =
     (if hex_encode (pm_sha256 pm (pl_Ciphertext p)) \<noteq> ch_SHA256 ch then Inl (ChunkHashMismatch (ch_Index ch))
      else case OpenChunk (pm_gcm pm) kb bid (pl_Index p) tot (pl_Ciphertext p) of
             Inl e \<Rightarrow> Inl (ChunkFailed (ch_Index ch) e)
           | Inr plain \<Rightarrow> Inr plain)"

definition fetch_chunk ::
    "prims \<Rightarrow> chain_reader \<Rightarrow> byte list \<Rightarrow> discovery \<Rightarrow> candidate \<Rightarrow> mchunk \<Rightarrow> discover_error + byte list" where
  "fetch_chunk pm rd kb res cand ch =
     (let n = length (mn_Chunks (cd_Manifest cand)); tot = of_nat n in
      and_then (fetch_record pm rd res (unat tot) ch) (\<lambda>t.
        let ps = chunk_payloads (cd_BackupID cand) (ch_Index ch) (tr_Memos t) in
        and_then (each_ok (open_payload pm kb (cd_BackupID cand) tot ch) ps) (\<lambda>plains.
          if ps = [] then Inl (ChunkNotCarried (ch_TxHash ch) (ch_Index ch) (mn_BackupID (cd_Manifest cand)))
          else Inr (concat plains))))"

text \<open>A key the source does not have is the zero array.\<close>

definition epoch_key :: "keys \<Rightarrow> u32 \<Rightarrow> byte list" where
  "epoch_key keys e = (case keys e of Some k \<Rightarrow> k | None \<Rightarrow> replicate KeyLen 0)"

definition unpack_checked :: "prims \<Rightarrow> string \<Rightarrow> discover_error \<Rightarrow> byte list \<Rightarrow> discover_error + entry list" where
  "unpack_checked pm wantHex mismatch packed =
     (case Unpack (pm_inflate pm) packed of
        Inl e \<Rightarrow> Inl (UnpackFailed e)
      | Inr raw \<Rightarrow>
          if hex_encode (pm_sha256 pm raw) \<noteq> wantHex then Inl mismatch
          else case Decode (pm_sha256 pm) raw of Inl e \<Rightarrow> Inl (UnpackFailed e) | Inr es \<Rightarrow> Inr es)"

definition Fetch :: "prims \<Rightarrow> chain_reader \<Rightarrow> keys \<Rightarrow> discovery \<Rightarrow> candidate \<Rightarrow> discover_error + entry list" where
  "Fetch pm rd keys res cand =
     (let m = cd_Manifest cand; kb = BackupKey (pm_hkdf pm) (epoch_key keys (cd_Epoch cand)) (cd_BackupID cand) in
      if mn_Tombstone m then Inl IsTombstone
      else and_then (each_ok (fetch_chunk pm rd kb res cand) (mn_Chunks m)) (\<lambda>plains.
        unpack_checked pm (mn_PlainSHA256 m) ContainerHashMismatch (concat plains)))"

definition discover_OpenBundle :: "prims \<Rightarrow> keys \<Rightarrow> candidate \<Rightarrow> byte list \<Rightarrow> discover_error + entry list" where
  "discover_OpenBundle pm keys cand stream =
     (case BundleID stream of
        Inl e \<Rightarrow> Inl (BundleFailed e)
      | Inr bid \<Rightarrow>
          if bid \<noteq> cd_BackupID cand then Inl (BundleOfOther bid (mn_BackupID (cd_Manifest cand)))
          else if hex_encode (pm_sha256 pm stream) \<noteq> mn_BundleCipherSHA256 (cd_Manifest cand) then Inl BundleFileAltered
          else case OpenBundle (pm_gcm pm) (BundleKey (pm_hkdf pm) (epoch_key keys (cd_Epoch cand)) (cd_BackupID cand))
                      (cd_BackupID cand) stream of
                 Inl e \<Rightarrow> Inl (BundleFailed e)
               | Inr packed \<Rightarrow> unpack_checked pm (mn_BundlePlainSHA256 (cd_Manifest cand)) BundlePlainMismatch packed)"

section \<open>The scan\<close>

abbreviation key_of :: "payload \<Rightarrow> set_key" where
  "key_of p \<equiv> (pl_BackupID p, pl_Nonce p)"

definition part_of :: "tx_record \<Rightarrow> payload \<Rightarrow> memo_part" where
  "part_of t p = \<lparr>mp_ct = pl_Ciphertext p, mp_tx = tr_Hash t, mp_ledger = tr_LedgerIndex t\<rparr>"

definition collect :: "tx_record \<times> payload \<Rightarrow> part_set \<Rightarrow> part_set" where
  "collect = (\<lambda>(t, p) ps. if pl_Total p \<noteq> ps_total ps then ps else add_part (pl_Index p) (part_of t p) ps)"

definition of_key :: "set_key \<Rightarrow> (tx_record \<times> payload) list \<Rightarrow> (tx_record \<times> payload) list" where
  "of_key k = filter (\<lambda>(t, p). key_of p = k \<and> unat (pl_Total p) \<le> MaxManifestParts)"

lemma of_key_simps:
  "of_key k [] = []"
  "of_key k (xs @ ys) = of_key k xs @ of_key k ys"
  "of_key k [(t, p)] = (if key_of p = k \<and> unat (pl_Total p) \<le> MaxManifestParts then [(t, p)] else [])"
  by (simp_all add: of_key_def)

text \<open>What the scan holds for a key: the payloads of the key that have the total of its first payload.\<close>

definition set_of :: "set_key \<Rightarrow> (tx_record \<times> payload) list \<Rightarrow> part_set option" where
  "set_of k hist =
     (case of_key k hist of
        [] \<Rightarrow> None
      | (t, p) # r \<Rightarrow> Some (fold collect ((t, p) # r) \<lparr>ps_total = pl_Total p, ps_parts = []\<rparr>))"

lemma set_of_snoc:
  "set_of k (hist @ [(t, p)]) =
     (if key_of p = k \<and> unat (pl_Total p) \<le> MaxManifestParts
      then Some (collect (t, p) (case set_of k hist of None \<Rightarrow> \<lparr>ps_total = pl_Total p, ps_parts = []\<rparr> | Some ps \<Rightarrow> ps))
      else set_of k hist)"
  by (auto simp: set_of_def of_key_simps split: list.splits)

definition scan_all :: "(tx_record \<times> payload) list \<Rightarrow> scan_state" where
  "scan_all hist = fold (\<lambda>(t, p). scan_payload t p) hist \<lparr>sc_sets = [], sc_oversized = []\<rparr>"

lemma scan_scan_all: "scan account txs = scan_all (manifest_payloads account txs)"
  by (simp add: scan_def scan_all_def)

lemma scan_payload_sets:
  "map_of (sc_sets (scan_payload t p sc)) k =
     (if key_of p = k \<and> unat (pl_Total p) \<le> MaxManifestParts then Some (collect (t, p) (set_for p sc))
      else map_of (sc_sets sc) k)"
  by (auto simp: scan_payload_def collect_def part_of_def update_conv' Let_def)

lemma scan_lookup: "map_of (sc_sets (scan_all hist)) k = set_of k hist"
proof (induction hist rule: rev_induct)
  case (snoc x hist)
  obtain t p where x: "x = (t, p)" by (cases x)
  have "scan_all (hist @ [x]) = scan_payload t p (scan_all hist)" by (simp add: scan_all_def x)
  then show ?case using snoc by (auto simp: x set_of_snoc scan_payload_sets set_for_def split: option.splits)
qed (simp add: scan_all_def set_of_def of_key_def)

lemma scan_distinct: "distinct (map fst (sc_sets (scan_all hist)))"
proof (induction hist rule: rev_induct)
  case (snoc x hist)
  then show ?case by (cases x) (auto simp: scan_all_def scan_payload_def Let_def intro: distinct_update)
qed (simp add: scan_all_def)

lemma scan_sets_iff: "(k, ps) \<in> set (sc_sets (scan_all hist)) \<longleftrightarrow> set_of k hist = Some ps"
  using map_of_eq_Some_iff [OF scan_distinct [of hist]] by (simp add: scan_lookup)

lemma collect_total [simp]: "ps_total (collect x ps) = ps_total ps" "ps_total (fold collect l ps) = ps_total ps"
proof -
  show t: "ps_total (collect x ps) = ps_total ps" for x ps by (cases x) (simp add: collect_def add_part_def)
  show "ps_total (fold collect l ps) = ps_total ps" by (induction l arbitrary: ps) (simp_all add: t)
qed

lemma parts_at_add_part: "parts_at (add_part i p ps) j = parts_at ps j @ (if i = j then [p] else [])"
  by (auto simp: parts_at_def add_part_def update_conv')

lemma parts_at_fold:
  "parts_at (fold collect l ps) i =
     parts_at ps i @ map (\<lambda>(t, p). part_of t p) (filter (\<lambda>(t, p). pl_Total p = ps_total ps \<and> pl_Index p = i) l)"
proof (induction l arbitrary: ps)
  case (Cons x l)
  obtain t p where x: "x = (t, p)" by (cases x)
  show ?case
    using Cons [of "collect x ps"] by (simp add: x) (simp add: collect_def parts_at_add_part)
qed simp

definition parts_ok :: "part_set \<Rightarrow> bool" where
  "parts_ok ps \<longleftrightarrow> distinct (map fst (ps_parts ps)) \<and> (\<forall>(i, l) \<in> set (ps_parts ps). l \<noteq> [])"

lemma parts_ok_collect: "parts_ok ps \<Longrightarrow> parts_ok (collect x ps)"
proof (cases x)
  case (Pair t p)
  have "set (AList.update i l al) \<subseteq> insert (i, l) (set al)" for i :: u16 and l :: "memo_part list" and al
    by (induction al) auto
  then show "parts_ok ps \<Longrightarrow> ?thesis"
    by (fastforce simp: Pair collect_def parts_ok_def add_part_def intro: distinct_update)
qed

lemma parts_ok_fold: "parts_ok ps \<Longrightarrow> parts_ok (fold collect l ps)"
  by (induction l arbitrary: ps) (simp_all add: parts_ok_collect)

lemma parts_ok_keys:
  assumes "parts_ok ps"
  shows "fst ` set (ps_parts ps) = {i. parts_at ps i \<noteq> []}" "card {i. parts_at ps i \<noteq> []} = length (ps_parts ps)"
proof -
  have "parts_at ps i \<noteq> [] \<longleftrightarrow> i \<in> fst ` set (ps_parts ps)" for i
    using assms by (force simp: parts_at_def parts_ok_def dest: map_of_SomeD split: option.splits
        iff: map_of_eq_None_iff)
  then show e: "fst ` set (ps_parts ps) = {i. parts_at ps i \<noteq> []}" by blast
  have "card (set (map fst (ps_parts ps))) = length (ps_parts ps)"
    using assms distinct_card [of "map fst (ps_parts ps)"] by (simp add: parts_ok_def)
  then show "card {i. parts_at ps i \<noteq> []} = length (ps_parts ps)" by (simp add: e)
qed

lemma set_of_SomeD:
  assumes "set_of k hist = Some ps"
  obtains t p r where "of_key k hist = (t, p) # r" "ps_total ps = pl_Total p" "parts_ok ps"
    "\<forall>i. parts_at ps i = map (\<lambda>(t, p). part_of t p) (filter (\<lambda>(t, q). pl_Total q = pl_Total p \<and> pl_Index q = i) (of_key k hist))"
proof -
  obtain t p r where o: "of_key k hist = (t, p) # r" and ps: "ps = fold collect ((t, p) # r) \<lparr>ps_total = pl_Total p, ps_parts = []\<rparr>"
    using assms by (auto simp: set_of_def split: list.splits)
  show thesis
  proof (rule that [OF o])
    show "ps_total ps = pl_Total p" by (simp only: ps collect_total) simp
    show "parts_ok ps" unfolding ps by (rule parts_ok_fold) (simp add: parts_ok_def)
    show "\<forall>i. parts_at ps i = map (\<lambda>(t, p). part_of t p) (filter (\<lambda>(t, q). pl_Total q = pl_Total p \<and> pl_Index q = i) (of_key k hist))"
      unfolding ps o parts_at_fold by (simp add: parts_at_def)
  qed
qed

lemma chunk_Decode_Some:
  assumes "chunk_Decode m = Some p"
  shows "pl_Index p < pl_Total p \<and> length (pl_Nonce p) = ManifestNonceLen \<and> length (pl_BackupID p) = 16"
  using assms by (auto simp: chunk_Decode_def Let_def not_le headerLen_def ManifestNonceLen_def TagLen_def split: if_splits)

lemma manifest_payloads_ok:
  "(t, p) \<in> set (manifest_payloads account txs) \<longleftrightarrow>
     t \<in> set txs \<and> tr_Account t = account \<and> tr_Result t = ''tesSUCCESS'' \<and> pl_Type p = TypeManifest
     \<and> (\<exists>m \<in> set (tr_Memos t). chunk_Decode m = Some p)"
  by (auto simp: manifest_payloads_def set_map_filter split: if_splits)

section \<open>Every candidate is authentic\<close>

text \<open>
  The history carries \<open>pieces\<close> as a manifest of backup \<open>bid\<close>: each piece, sealed under \<open>kb\<close> at its own
  position, is the ciphertext of some manifest payload.
\<close>

definition carried :: "prims \<Rightarrow> byte list \<Rightarrow> (tx_record \<times> payload) list \<Rightarrow> byte list \<Rightarrow> byte list \<Rightarrow> byte list list \<Rightarrow> bool" where
  "carried pm kb hist bid nonce pieces \<longleftrightarrow>
     (\<forall>i < length pieces. \<exists>(t, p) \<in> set hist.
        key_of p = (bid, nonce) \<and> pl_Index p = of_nat i \<and> pl_Total p = of_nat (length pieces)
        \<and> SealManifest (pm_gcm pm) kb bid nonce (of_nat i) (of_nat (length pieces)) (pieces ! i) = Some (pl_Ciphertext p))"

definition authentic :: "prims \<Rightarrow> keys \<Rightarrow> (tx_record \<times> payload) list \<Rightarrow> candidate \<Rightarrow> bool" where
  "authentic pm keys hist c \<longleftrightarrow>
     (\<exists>k nonce pieces. keys (cd_Epoch c) = Some k
        \<and> carried pm (BackupKey (pm_hkdf pm) k (cd_BackupID c)) hist (cd_BackupID c) nonce pieces
        \<and> 0 < length pieces \<and> length pieces \<le> MaxManifestParts
        \<and> cd_Plain c = concat pieces \<and> Unmarshal (pm_of_json pm) (cd_Plain c) = Inr (cd_Manifest c)
        \<and> mn_BackupID (cd_Manifest c) = hex_encode (cd_BackupID c) \<and> mn_Epoch (cd_Manifest c) = cd_Epoch c)"

lemma authentic_from_anchor [simp]: "authentic pm keys hist (c\<lparr>cd_FromAnchor := b\<rparr>) = authentic pm keys hist c"
  by (simp add: authentic_def)

lemma OpenManifest_Inr:
  assumes "gcm_ok g"
  shows "OpenManifest g kb bid nonce i tot ct = Inr p \<longleftrightarrow> SealManifest g kb bid nonce i tot p = Some ct"
proof -
  have "Open g kb (manifestNonce nonce i) ct (chunkAAD domainManifest bid i tot) = Some p
      \<longleftrightarrow> ct = Seal g kb (manifestNonce nonce i) p (chunkAAD domainManifest bid i tot)"
    using assms by (simp add: gcm_ok_def)
  then show ?thesis
    by (cases "Open g kb (manifestNonce nonce i) ct (chunkAAD domainManifest bid i tot)")
       (auto simp: OpenManifest_def SealManifest_def open_or_auth_def)
qed

lemma open_part_Some:
  "open_part pm kb bid nonce i tot l = Some (p, c) \<Longrightarrow> c \<in> set l \<and> OpenManifest (pm_gcm pm) kb bid nonce i tot (mp_ct c) = Inr p"
  by (induction l) (auto split: sum.splits)

lemma those_Some: "those xs = Some ys \<longleftrightarrow> xs = map Some ys"
  by (induction xs arbitrary: ys) (auto split: option.splits)

lemma open_parts_Some:
  assumes "open_parts pm kb bid nonce ps = Some opened"
  shows "length opened = unat (ps_total ps)"
    "i < length opened \<Longrightarrow> open_part pm kb bid nonce (of_nat i) (ps_total ps) (parts_at ps (of_nat i)) = Some (opened ! i)"
proof -
  have e: "map (\<lambda>i. open_part pm kb bid nonce (of_nat i) (ps_total ps) (parts_at ps (of_nat i))) [0..<unat (ps_total ps)] = map Some opened"
    using assms by (simp add: open_parts_def those_Some)
  from arg_cong [OF this, of length] show l: "length opened = unat (ps_total ps)" by simp
  from arg_cong [OF e, of "\<lambda>l. l ! i"] l
  show "i < length opened \<Longrightarrow> open_part pm kb bid nonce (of_nat i) (ps_total ps) (parts_at ps (of_nat i)) = Some (opened ! i)"
    by simp
qed

lemma of_key_set: "(t, p) \<in> set (of_key k hist) \<longleftrightarrow> (t, p) \<in> set hist \<and> key_of p = k \<and> unat (pl_Total p) \<le> MaxManifestParts"
  by (auto simp: of_key_def)

definition history_ok :: "(tx_record \<times> payload) list \<Rightarrow> bool" where
  "history_ok hist \<longleftrightarrow> (\<forall>(t, p) \<in> set hist. pl_Index p < pl_Total p \<and> length (pl_Nonce p) = ManifestNonceLen)"

lemma history_ok_payloads: "history_ok (manifest_payloads account txs)"
  by (auto simp: history_ok_def manifest_payloads_ok dest: chunk_Decode_Some)

lemma set_of_parts:
  assumes "set_of (bid, nonce) hist = Some ps" "history_ok hist"
  shows "0 < unat (ps_total ps)" "unat (ps_total ps) \<le> MaxManifestParts"
    "c \<in> set (parts_at ps i) \<Longrightarrow> \<exists>(t, p) \<in> set hist. key_of p = (bid, nonce) \<and> pl_Index p = i \<and> pl_Total p = ps_total ps \<and> c = part_of t p"
proof -
  obtain t p r where o: "of_key (bid, nonce) hist = (t, p) # r" "ps_total ps = pl_Total p" and "parts_ok ps"
    and pa: "\<forall>i. parts_at ps i = map (\<lambda>(t, p). part_of t p) (filter (\<lambda>(t, q). pl_Total q = pl_Total p \<and> pl_Index q = i) (of_key (bid, nonce) hist))"
    by (rule set_of_SomeD [OF assms(1)])
  have p: "(t, p) \<in> set hist" "unat (pl_Total p) \<le> MaxManifestParts"
    using o(1) of_key_set [of t p "(bid, nonce)" hist] by auto
  then have "pl_Index p < pl_Total p" using assms(2) by (auto simp: history_ok_def)
  then have "pl_Total p \<noteq> 0" by (metis word_not_simps(1))
  then show "0 < unat (ps_total ps)" "unat (ps_total ps) \<le> MaxManifestParts"
    using p(2) by (simp_all add: o(2) unat_gt_0)
  show "c \<in> set (parts_at ps i) \<Longrightarrow> \<exists>(t, p) \<in> set hist. key_of p = (bid, nonce) \<and> pl_Index p = i \<and> pl_Total p = ps_total ps \<and> c = part_of t p"
    by (force simp: pa o(2) of_key_set)
qed

lemma open_epoch_SomeD:
  assumes "open_epoch pm keys bid nonce ps e = Some c"
  shows "\<exists>k opened m. keys e = Some k \<and> open_parts pm (BackupKey (pm_hkdf pm) k bid) bid nonce ps = Some opened
    \<and> Unmarshal (pm_of_json pm) (concat (map fst opened)) = Inr m \<and> mn_BackupID m = hex_encode bid \<and> mn_Epoch m = e
    \<and> cd_Manifest c = m \<and> cd_BackupID c = bid \<and> cd_Epoch c = e \<and> cd_Plain c = concat (map fst opened)"
proof -
  obtain k where k: "keys e = Some k" using assms by (cases "keys e") (simp_all add: open_epoch_def)
  obtain opened where o: "open_parts pm (BackupKey (pm_hkdf pm) k bid) bid nonce ps = Some opened"
    using assms k by (cases "open_parts pm (BackupKey (pm_hkdf pm) k bid) bid nonce ps") (simp_all add: open_epoch_def)
  obtain m where m: "Unmarshal (pm_of_json pm) (concat (map fst opened)) = Inr m"
    using assms k o by (cases "Unmarshal (pm_of_json pm) (concat (map fst opened))") (simp_all add: open_epoch_def Let_def)
  show ?thesis using assms k o m by (simp add: open_epoch_def Let_def split: if_splits) auto
qed

lemma open_epoch_authentic:
  assumes "gcm_ok (pm_gcm pm)" "set_of (bid, nonce) hist = Some ps" "history_ok hist"
    and "open_epoch pm keys bid nonce ps e = Some c"
  shows "authentic pm keys hist c \<and> cd_BackupID c = bid"
proof -
  from open_epoch_SomeD [OF assms(4)] obtain k opened m where k: "keys e = Some k"
    and op: "open_parts pm (BackupKey (pm_hkdf pm) k bid) bid nonce ps = Some opened"
    and m: "Unmarshal (pm_of_json pm) (concat (map fst opened)) = Inr m" "mn_BackupID m = hex_encode bid" "mn_Epoch m = e"
    and c: "cd_Manifest c = m" "cd_BackupID c = bid" "cd_Epoch c = e" "cd_Plain c = concat (map fst opened)"
    by blast
  note l = open_parts_Some(1) [OF op]
  have "carried pm (BackupKey (pm_hkdf pm) k bid) hist bid nonce (map fst opened)"
    unfolding carried_def
  proof (intro allI impI)
    fix i assume i: "i < length (map fst opened)"
    obtain p q where pq: "opened ! i = (p, q)" by (cases "opened ! i")
    have t: "of_nat (length (map fst opened)) = ps_total ps" by (simp add: l)
    have o: "q \<in> set (parts_at ps (of_nat i))" "OpenManifest (pm_gcm pm) (BackupKey (pm_hkdf pm) k bid) bid nonce (of_nat i) (ps_total ps) (mp_ct q) = Inr p"
      using open_part_Some [OF open_parts_Some(2) [OF op, of i, unfolded pq]] i by simp_all
    from set_of_parts(3) [OF assms(2,3) o(1)] o(2)
    show "\<exists>(t, p) \<in> set hist. key_of p = (bid, nonce) \<and> pl_Index p = of_nat i \<and> pl_Total p = of_nat (length (map fst opened))
        \<and> SealManifest (pm_gcm pm) (BackupKey (pm_hkdf pm) k bid) bid nonce (of_nat i) (of_nat (length (map fst opened))) (map fst opened ! i) = Some (pl_Ciphertext p)"
      unfolding OpenManifest_Inr [OF assms(1)] t using i pq by (force simp: part_of_def)
  qed
  then show ?thesis
    using k m c l set_of_parts(1,2) [OF assms(2,3)] by (auto simp: authentic_def intro!: exI [of _ "map fst opened"])
qed

lemma openManifest_Some: "openManifest pm keys bid nonce ps es = Some c \<Longrightarrow> \<exists>e \<in> set es. open_epoch pm keys bid nonce ps e = Some c"
  by (induction es) (auto split: option.splits)

lemma openManifest_None: "openManifest pm keys bid nonce ps es = None \<longleftrightarrow> (\<forall>e \<in> set es. open_epoch pm keys bid nonce ps e = None)"
  by (induction es) (auto split: option.splits)

lemma try_sets_snd: "set (snd (try_sets pm keys es sets)) \<subseteq> set sets"
  by (induction pm keys es sets rule: try_sets.induct) (auto simp: Let_def split: prod.splits option.splits)

lemma try_sets_fst:
  "set (fst (try_sets pm keys es sets)) = {c. \<exists>x \<in> set sets. openManifest pm keys (fst (fst x)) (snd (fst x)) (snd x) es = Some c}"
  by (induction pm keys es sets rule: try_sets.induct) (auto simp: Let_def split: prod.splits option.splits)

text \<open>What holds of every candidate a part set can open to holds of everything the upward search returns.\<close>

lemma search_up_all:
  assumes "\<And>bid nonce ps e c. ((bid, nonce), ps) \<in> set pending \<Longrightarrow> open_epoch pm keys bid nonce ps e = Some c \<Longrightarrow> P c"
    and "list_all P cands"
  shows "list_all P (fst (search_up pm keys hint upper cands pending)) \<and> set cands \<subseteq> set (fst (search_up pm keys hint upper cands pending))
    \<and> set (snd (search_up pm keys hint upper cands pending)) \<subseteq> set pending"
  using assms
proof (induction pm keys hint upper cands pending rule: search_up.induct)
  case (1 pm keys hint upper cands pending)
  define nxt where "nxt = next_upper hint cands"
  define ts where "ts = try_sets pm keys (map of_int [upper + 1..nxt]) pending"
  show ?case
  proof (cases "pending = [] \<or> nxt \<le> upper")
    case True
    then show ?thesis using "1.prems" by (auto simp: search_up.simps nxt_def)
  next
    case False
    have s: "search_up pm keys hint upper cands pending = search_up pm keys hint nxt (cands @ fst ts) (snd ts)"
      using False by (subst search_up.simps) (simp add: nxt_def ts_def Let_def split: prod.splits)
    have f: "list_all P (fst ts)"
      using "1.prems"(1) openManifest_Some by (fastforce simp: ts_def list_all_iff try_sets_fst)
    have sub: "set (snd ts) \<subseteq> set pending" by (simp add: ts_def try_sets_snd)
    have pend: "((bid, nonce), ps) \<in> set (snd ts) \<Longrightarrow> open_epoch pm keys bid nonce ps e = Some c \<Longrightarrow> P c" for bid nonce ps e c
      using "1.prems"(1) sub by blast
    have "list_all P (fst (search_up pm keys hint nxt (cands @ fst ts) (snd ts)))
      \<and> set (cands @ fst ts) \<subseteq> set (fst (search_up pm keys hint nxt (cands @ fst ts) (snd ts)))
      \<and> set (snd (search_up pm keys hint nxt (cands @ fst ts) (snd ts))) \<subseteq> set (snd ts)"
    proof (rule "1.IH" [OF _ nxt_def _ _ refl])
      show "(fst ts, snd ts) = try_sets pm keys (map word_of_int [upper + 1..nxt]) pending" by (simp add: ts_def)
    qed (use False f "1.prems"(2) pend in auto)
    then show ?thesis unfolding s using sub by auto
  qed
qed

lemma search_history_all:
  assumes "\<And>bid nonce ps e c. ((bid, nonce), ps) \<in> set (sc_sets sc) \<Longrightarrow> open_epoch pm keys bid nonce ps e = Some c \<Longrightarrow> P c"
  shows "list_all P (fst (search_history pm keys hint floor sc))"
proof -
  define ts where "ts = try_sets pm keys (probeOrder hint floor) (filter (\<lambda>(k, ps). complete_set ps) (sc_sets sc))"
  have "search_history pm keys hint floor sc = search_up pm keys hint (uint hint + maxEpochProbe) (fst ts) (snd ts)"
    by (simp add: search_history_def ts_def split: prod.splits)
  moreover have "list_all P (fst ts)"
    using assms openManifest_Some by (fastforce simp: ts_def list_all_iff try_sets_fst)
  moreover have sub: "set (snd ts) \<subseteq> set (sc_sets sc)" using try_sets_snd by (fastforce simp: ts_def)
  moreover have "((bid, nonce), ps) \<in> set (snd ts) \<Longrightarrow> open_epoch pm keys bid nonce ps e = Some c \<Longrightarrow> P c" for bid nonce ps e c
    using assms sub by blast
  ultimately show ?thesis using search_up_all [of "snd ts" pm keys P "fst ts"] by metis
qed

section \<open>Order, duplicates and the anchor\<close>

lemma set_insert_stable [simp]: "set (insert_stable lt x ys) = insert x (set ys)"
  by (induction ys) auto

lemma set_sort_stable [simp]: "set (sort_stable lt xs) = set xs"
  by (induction xs) (auto simp: sort_stable_def)

lemma sorted_insert_stable:
  assumes "\<And>a b. lt a b \<Longrightarrow> \<not> lt b a" "\<And>a b c. \<not> lt b a \<Longrightarrow> \<not> lt c b \<Longrightarrow> \<not> lt c a"
    and "sorted_wrt (\<lambda>a b. \<not> lt b a) ys"
  shows "sorted_wrt (\<lambda>a b. \<not> lt b a) (insert_stable lt x ys)"
  using assms(3)
proof (induction ys)
  case (Cons y ys)
  show ?case
  proof (cases "lt y x")
    case True
    then have "\<not> lt x y" by (rule assms(1))
    then show ?thesis using True Cons by simp
  next
    case False
    have "\<not> lt z x" if "z \<in> set ys" for z by (rule assms(2) [OF False]) (use Cons.prems that in simp)
    then show ?thesis using False Cons.prems by simp
  qed
qed simp

lemma sorted_sort_stable:
  assumes "\<And>a b. lt a b \<Longrightarrow> \<not> lt b a" "\<And>a b c. \<not> lt b a \<Longrightarrow> \<not> lt c b \<Longrightarrow> \<not> lt c a"
  shows "sorted_wrt (\<lambda>a b. \<not> lt b a) (sort_stable lt xs)"
proof (induction xs)
  case (Cons x xs)
  have "sort_stable lt (x # xs) = insert_stable lt x (sort_stable lt xs)" by (simp add: sort_stable_def)
  then show ?case using sorted_insert_stable [OF assms Cons] by simp
qed (simp add: sort_stable_def)

text \<open>The order of the candidates, as an order on numbers.\<close>

definition place :: "candidate \<Rightarrow> nat \<times> nat" where
  "place c = (unat (mn_Epoch (cd_Manifest c)), unat (mn_Seq (cd_Manifest c)))"

lemma place_Newer: "Newer (cd_Manifest a) (cd_Manifest b) \<longleftrightarrow> fst (place b) < fst (place a) \<or> fst (place a) = fst (place b) \<and> snd (place b) < snd (place a)"
  by (simp add: Newer_iff place_def word_less_nat_alt word_unat_eq_iff)

lemma place_same: "same_place a b \<longleftrightarrow> place a = place b"
  by (simp add: same_place_def place_def word_unat_eq_iff)

lemma candidate_before_place:
  "candidate_before a b \<longleftrightarrow> Newer (cd_Manifest a) (cd_Manifest b) \<or> same_place a b \<and> unat (cd_Ledger b) < unat (cd_Ledger a)"
  by (auto simp: candidate_before_def same_place_def Newer_iff word_less_nat_alt)

lemmas place_simps = candidate_before_place place_Newer place_same prod_eq_iff

lemma sorted_candidates: "sorted_wrt (\<lambda>a b. \<not> candidate_before b a) (sort_stable candidate_before cs)"
  by (rule sorted_sort_stable) (auto simp: place_simps)

lemma uniq_set: "set (uniq cs) \<subseteq> set cs"
  by (induction cs) (auto simp: uniq_def)

lemma uniq_ids: "cd_BackupID ` set (uniq cs) = cd_BackupID ` set cs"
  by (induction cs) (auto simp: uniq_def)

lemma uniq_distinct: "distinct (map cd_BackupID (uniq cs))"
  by (induction cs) (auto simp: uniq_def)

lemma uniq_sorted: "sorted_wrt R cs \<Longrightarrow> sorted_wrt R (uniq cs)"
proof (induction cs)
  case (Cons c cs)
  have u: "uniq (c # cs) = (if cd_BackupID c \<in> cd_BackupID ` set (uniq cs) then uniq cs else c # uniq cs)"
    by (simp add: uniq_def)
  show ?case using Cons uniq_set [of cs] unfolding u by auto
qed (simp add: uniq_def)

text \<open>Holding the anchor against the candidates only sets a flag.\<close>

definition flagged :: "candidate \<Rightarrow> candidate \<Rightarrow> bool" where
  "flagged c d \<longleftrightarrow> d = c \<or> d = c\<lparr>cd_FromAnchor := True\<rparr>"

lemma check_anchor_flags: "list_all2 flagged cs (fst (snd (check_anchor a cs)))"
  by (induction cs) (auto simp: flagged_def Let_def list.rel_refl split: prod.splits)

lemma anchor_step_flags: "list_all2 flagged cs (fst (snd (anchor_step anc ok cs)))"
  by (auto simp: anchor_step_def check_anchor_flags flagged_def list.rel_refl split: option.splits)

lemma flagged_map:
  assumes "list_all2 flagged cs ds" "\<And>c b. f (c\<lparr>cd_FromAnchor := b\<rparr>) = f c"
  shows "map f ds = map f cs"
  using assms by (induction rule: list_all2_induct) (auto simp: flagged_def)

lemma flagged_sorted:
  assumes "list_all2 flagged cs ds" "sorted_wrt (\<lambda>a b. \<not> candidate_before b a) cs"
  shows "sorted_wrt (\<lambda>a b. \<not> candidate_before b a) ds"
proof -
  have b: "candidate_before c d = candidate_before c' d'" if "flagged c c'" "flagged d d'" for c c' d d'
    using that by (auto simp: flagged_def candidate_before_def)
  have "length cs = length ds" using assms(1) by (rule list_all2_lengthD)
  then show ?thesis
    using assms(2) b [OF list_all2_nthD [OF assms(1)] list_all2_nthD [OF assms(1)]]
    by (simp add: sorted_wrt_iff_nth_less)
qed

definition chosen :: "anchor option \<Rightarrow> bool \<Rightarrow> candidate list \<Rightarrow> candidate list" where
  "chosen anc ok opened = fst (snd (anchor_step anc ok (uniq (sort_stable candidate_before opened))))"

lemma chosen_sorted: "sorted_wrt (\<lambda>a b. \<not> candidate_before b a) (chosen anc ok opened)"
  unfolding chosen_def by (rule flagged_sorted [OF anchor_step_flags uniq_sorted [OF sorted_candidates]])

lemma chosen_ids: "map cd_BackupID (chosen anc ok opened) = map cd_BackupID (uniq (sort_stable candidate_before opened))"
  unfolding chosen_def by (rule flagged_map [OF anchor_step_flags]) simp

lemma chosen_distinct: "distinct (map cd_BackupID (chosen anc ok opened))"
  by (simp add: chosen_ids uniq_distinct)

lemma chosen_all:
  assumes "list_all P opened" "\<And>c b. P (c\<lparr>cd_FromAnchor := b\<rparr>) = P c"
  shows "list_all P (chosen anc ok opened)"
proof -
  have "map P (chosen anc ok opened) = map P (uniq (sort_stable candidate_before opened))"
    unfolding chosen_def by (rule flagged_map [OF anchor_step_flags assms(2)])
  moreover have "list_all P (uniq (sort_stable candidate_before opened))"
    using assms(1) uniq_set [of "sort_stable candidate_before opened"] by (auto simp: list_all_iff)
  moreover have e: "list_all P l \<longleftrightarrow> list_all id (map P l)" for l by (simp add: list_all_iff)
  ultimately show ?thesis by (simp add: e)
qed

lemma discover_Run_Inr:
  assumes "discover_Run pm rd keys account hint = Inr res"
  obtains anc ok w txs rng where "read_anchor pm rd keys account = Inr (anc, ok, w)" "rd_AccountTx rd account = Inr (txs, rng)"
    "rs_Candidates res = chosen anc ok (fst (search_history pm keys (start_epoch hint anc ok) hint (scan account txs)))"
    "rs_Conflict res = conflict_of (rs_Candidates res)" "rs_Latest res = latest_of (rs_Candidates res)"
proof -
  obtain anc ok w where a: "read_anchor pm rd keys account = Inr (anc, ok, w)"
    using assms by (cases "read_anchor pm rd keys account") (auto simp: discover_Run_def)
  obtain txs rng where t: "rd_AccountTx rd account = Inr (txs, rng)"
    using assms a by (cases "rd_AccountTx rd account") (auto simp: discover_Run_def)
  obtain opened pending where o: "search_history pm keys (start_epoch hint anc ok) hint (scan account txs) = (opened, pending)"
    by (cases "search_history pm keys (start_epoch hint anc ok) hint (scan account txs)")
  obtain ok' cands aw where c: "anchor_step anc ok (uniq (sort_stable candidate_before opened)) = (ok', cands, aw)"
    by (metis surj_pair)
  have "rs_Candidates res = cands \<and> rs_Conflict res = conflict_of cands \<and> rs_Latest res = latest_of cands"
    using assms [symmetric] unfolding discover_Run_def a t and_then_simps prod.case sum.case Let_def o c
    by (simp only: sum.inject discovery.simps)
  then show thesis by (intro that [OF a t]) (simp_all add: chosen_def o c)
qed

lemma run_authentic:
  assumes "gcm_ok (pm_gcm pm)" "discover_Run pm rd keys account hint = Inr res"
  shows "\<exists>txs rng. rd_AccountTx rd account = Inr (txs, rng)
    \<and> list_all (authentic pm keys (manifest_payloads account txs)) (rs_Candidates res)"
proof (rule discover_Run_Inr [OF assms(2)])
  fix anc ok w txs rng
  let ?opened = "fst (search_history pm keys (start_epoch hint anc ok) hint (scan account txs))"
  assume t: "rd_AccountTx rd account = Inr (txs, rng)" and c: "rs_Candidates res = chosen anc ok ?opened"
  have "list_all (authentic pm keys (manifest_payloads account txs)) ?opened"
    using open_epoch_authentic [OF assms(1) _ history_ok_payloads]
    by (intro search_history_all) (simp add: scan_scan_all scan_sets_iff)
  then show ?thesis using t by (simp add: c chosen_all)
qed

text \<open>
  C5.  Discovery never reports a backup that was not sealed by a holder of the key: every candidate is a
  manifest whose parts, sealed under the backup key of its own epoch and at their own positions, were all
  published by successful transactions of the account itself, and it names its own backup and epoch.
\<close>
theorem candidates_authentic:
  assumes "gcm_ok (pm_gcm pm)" "discover_Run pm rd keys account hint = Inr res"
  shows "\<exists>txs rng. rd_AccountTx rd account = Inr (txs, rng)
    \<and> list_all (authentic pm keys (manifest_payloads account txs)) (rs_Candidates res)"
  using assms by (rule run_authentic)

lemma head_newest:
  assumes "sorted_wrt (\<lambda>a b. \<not> candidate_before b a) (a # cs)" "conflict_of (a # cs) = None" "d \<in> set cs"
  shows "Newer (cd_Manifest a) (cd_Manifest d)"
proof -
  obtain b r where cs: "cs = b # r" using assms(3) by (cases cs) auto
  have "\<not> same_place a b" using assms(2) by (simp add: cs split: if_splits)
  moreover have "\<not> candidate_before b a" "\<not> candidate_before d a" "d = b \<or> \<not> candidate_before d b"
    using assms(1,3) by (auto simp: cs)
  ultimately show ?thesis unfolding place_simps by (elim disjE) (hypsubst, presburger, presburger)
qed

lemma run_newest:
  assumes "discover_Run pm rd keys account hint = Inr res"
  shows "distinct (map cd_BackupID (rs_Candidates res))
    \<and> (case rs_Latest res of
         Some c \<Rightarrow> rs_Conflict res = None \<and> c \<in> set (rs_Candidates res)
           \<and> (\<forall>d \<in> set (rs_Candidates res) - {c}. Newer (cd_Manifest c) (cd_Manifest d))
       | None \<Rightarrow> rs_Candidates res = []
           \<or> (\<exists>a b. rs_Conflict res = Some (a, b) \<and> {a, b} \<subseteq> set (rs_Candidates res) \<and> cd_BackupID a \<noteq> cd_BackupID b
               \<and> same_place a b \<and> list_all (\<lambda>d. \<not> Newer (cd_Manifest d) (cd_Manifest a)) (rs_Candidates res)))"
proof (rule discover_Run_Inr [OF assms])
  fix anc ok w txs rng
  assume c: "rs_Candidates res = chosen anc ok (fst (search_history pm keys (start_epoch hint anc ok) hint (scan account txs)))"
    and r: "rs_Conflict res = conflict_of (rs_Candidates res)" "rs_Latest res = latest_of (rs_Candidates res)"
  have s: "sorted_wrt (\<lambda>a b. \<not> candidate_before b a) (rs_Candidates res)" and d: "distinct (map cd_BackupID (rs_Candidates res))"
    unfolding c by (rule chosen_sorted, rule chosen_distinct)
  show ?thesis
  proof (cases "rs_Candidates res")
    case Nil
    then show ?thesis by (simp add: r latest_of_def)
  next
    case (Cons a cs)
    show ?thesis
    proof (cases "conflict_of (a # cs)")
      case None
      have "\<forall>d \<in> set cs. Newer (cd_Manifest a) (cd_Manifest d)"
        by (intro ballI head_newest [OF s [unfolded Cons] None])
      then show ?thesis using None d unfolding r Cons by (simp add: latest_of_def)
    next
      case (Some x)
      then obtain b rest where cs: "cs = b # rest" "x = (a, b)" "same_place a b" by (cases cs) (auto split: if_splits)
      moreover have "\<not> Newer (cd_Manifest e) (cd_Manifest a)" if "e \<in> set (a # cs)" for e
        using that s by (auto simp: Cons place_simps)
      ultimately show ?thesis using Some d by (auto simp: r Cons latest_of_def list_all_iff)
    qed
  qed
qed

text \<open>
  C4.  Discovery picks the newest backup or none: a selected backup is a candidate that supersedes every
  other candidate; nothing is selected only when there is no candidate, or when two different backups share
  the newest epoch and sequence, which are then reported.  No backup is listed twice.
\<close>
theorem latest_is_newest:
  assumes "discover_Run pm rd keys account hint = Inr res"
  shows "distinct (map cd_BackupID (rs_Candidates res))
    \<and> (case rs_Latest res of
         Some c \<Rightarrow> rs_Conflict res = None \<and> c \<in> set (rs_Candidates res)
           \<and> (\<forall>d \<in> set (rs_Candidates res) - {c}. Newer (cd_Manifest c) (cd_Manifest d))
       | None \<Rightarrow> rs_Candidates res = []
           \<or> (\<exists>a b. rs_Conflict res = Some (a, b) \<and> {a, b} \<subseteq> set (rs_Candidates res) \<and> cd_BackupID a \<noteq> cd_BackupID b
               \<and> same_place a b \<and> list_all (\<lambda>d. \<not> Newer (cd_Manifest d) (cd_Manifest a)) (rs_Candidates res)))"
  using assms by (rule run_newest)

section \<open>A published backup is found\<close>

definition first_total :: "set_key \<Rightarrow> (tx_record \<times> payload) list \<Rightarrow> u16 option" where
  "first_total k hist = map_option (\<lambda>(t, p). pl_Total p) (find (\<lambda>(t, p). key_of p = k) hist)"

text \<open>Whatever in the history opens as a part of this manifest is that part: the key is not in other hands.\<close>

definition only_sealed :: "prims \<Rightarrow> byte list \<Rightarrow> (tx_record \<times> payload) list \<Rightarrow> byte list \<Rightarrow> byte list \<Rightarrow> byte list list \<Rightarrow> bool" where
  "only_sealed pm kb hist bid nonce pieces \<longleftrightarrow>
     (\<forall>(t, p) \<in> set hist. key_of p = (bid, nonce) \<longrightarrow>
        (\<forall>x. OpenManifest (pm_gcm pm) kb bid nonce (pl_Index p) (of_nat (length pieces)) (pl_Ciphertext p) = Inr x
               \<longrightarrow> x = pieces ! unat (pl_Index p)))"

lemma find_filter: "find P xs = (case filter P xs of [] \<Rightarrow> None | x # _ \<Rightarrow> Some x)"
  by (induction xs) auto

lemma of_key_first:
  assumes "first_total k hist = Some n" "unat n \<le> MaxManifestParts"
  obtains t p r where "of_key k hist = (t, p) # r" "pl_Total p = n"
proof -
  obtain t p r where f: "filter (\<lambda>(t, p). key_of p = k) hist = (t, p) # r" "pl_Total p = n"
    using assms(1) by (auto simp: first_total_def find_filter split: list.splits)
  have "of_key k hist = filter (\<lambda>(t, p). unat (pl_Total p) \<le> MaxManifestParts) (filter (\<lambda>(t, p). key_of p = k) hist)"
    by (simp add: of_key_def case_prod_unfold conj_commute)
  then show thesis using that f assms(2) by simp
qed

lemma card_below: "card {i :: u16. i < n} = unat n"
proof -
  have "unat ` {i :: u16. i < n} = {..<unat n}"
  proof (intro equalityI subsetI)
    fix m assume m: "m \<in> {..<unat n}"
    then have "m < 2 ^ 16" using unsigned_less [of n, where 'a = nat] by simp
    then have "unat (of_nat m :: u16) = m" by (simp add: unat_of_nat_len)
    then show "m \<in> unat ` {i :: u16. i < n}" using m by (metis (mono_tags, lifting) image_eqI lessThan_iff mem_Collect_eq word_less_nat_alt)
  qed (auto simp: word_less_nat_alt)
  moreover have "inj_on unat {i :: u16. i < n}" by (rule inj_onI) (simp add: word_unat_eq_iff)
  ultimately show ?thesis by (metis card_image card_lessThan)
qed

lemma set_of_published:
  assumes h: "history_ok hist" and car: "carried pm kb hist bid nonce pieces"
    and n: "length pieces \<le> MaxManifestParts" and f: "first_total (bid, nonce) hist = Some (of_nat (length pieces))"
  obtains ps where "set_of (bid, nonce) hist = Some ps" "ps_total ps = of_nat (length pieces)" "complete_set ps"
    "\<forall>i < length pieces. \<exists>c \<in> set (parts_at ps (of_nat i)).
       SealManifest (pm_gcm pm) kb bid nonce (of_nat i) (of_nat (length pieces)) (pieces ! i) = Some (mp_ct c)"
proof -
  let ?n = "of_nat (length pieces) :: u16"
  have un: "unat ?n = length pieces" using n by (simp add: MaxManifestParts_def unat_of_nat_len)
  obtain t p r where o: "of_key (bid, nonce) hist = (t, p) # r" "pl_Total p = ?n" by (rule of_key_first [OF f]) (simp add: un n)
  then obtain ps where ps: "set_of (bid, nonce) hist = Some ps" by (simp add: set_of_def)
  obtain t' p' r' where o': "of_key (bid, nonce) hist = (t', p') # r'" "ps_total ps = pl_Total p'" and ok: "parts_ok ps"
    and pa: "\<forall>i. parts_at ps i = map (\<lambda>(t, p). part_of t p) (filter (\<lambda>(t, q). pl_Total q = pl_Total p' \<and> pl_Index q = i) (of_key (bid, nonce) hist))"
    by (rule set_of_SomeD [OF ps])
  have tot: "ps_total ps = ?n" and p': "pl_Total p' = ?n" using o o' by auto
  have parts: "\<exists>c \<in> set (parts_at ps (of_nat i)). SealManifest (pm_gcm pm) kb bid nonce (of_nat i) ?n (pieces ! i) = Some (mp_ct c)"
    if "i < length pieces" for i
  proof -
    from car that obtain t q where q: "(t, q) \<in> set hist" "key_of q = (bid, nonce)" "pl_Index q = of_nat i" "pl_Total q = ?n"
      "SealManifest (pm_gcm pm) kb bid nonce (of_nat i) ?n (pieces ! i) = Some (pl_Ciphertext q)"
      by (fastforce simp: carried_def)
    then have "(t, q) \<in> set (of_key (bid, nonce) hist)" using n by (simp add: of_key_set un)
    then have "part_of t q \<in> set (parts_at ps (of_nat i))" using q by (force simp: pa p')
    then show ?thesis using q(5) by (force simp: part_of_def)
  qed
  have "{i. parts_at ps i \<noteq> []} = {i. i < ?n}"
  proof (intro equalityI subsetI CollectI; elim CollectE)
    fix i assume "parts_at ps i \<noteq> []"
    then obtain c where "c \<in> set (parts_at ps i)" by (cases "parts_at ps i") auto
    from set_of_parts(3) [OF ps h this] h show "i < ?n" by (auto simp: history_ok_def tot)
  next
    fix i assume "i < ?n"
    then have "unat i < length pieces" by (metis un word_less_nat_alt)
    from parts [OF this] show "parts_at ps i \<noteq> []" by auto
  qed
  then have "complete_set ps" using parts_ok_keys(2) [OF ok] card_below [of ?n] by (simp add: complete_set_def tot)
  then show thesis using that ps tot parts by blast
qed

lemma open_part_only:
  assumes "\<exists>c \<in> set l. OpenManifest (pm_gcm pm) kb bid nonce i tot (mp_ct c) = Inr x"
    and "\<forall>c \<in> set l. \<forall>y. OpenManifest (pm_gcm pm) kb bid nonce i tot (mp_ct c) = Inr y \<longrightarrow> y = x"
  shows "map_option fst (open_part pm kb bid nonce i tot l) = Some x"
  using assms by (induction l) (auto split: sum.splits)

lemma open_parts_published:
  assumes g: "gcm_ok (pm_gcm pm)" and h: "history_ok hist" and car: "carried pm kb hist bid nonce pieces"
    and n: "length pieces \<le> MaxManifestParts" and sealed: "only_sealed pm kb hist bid nonce pieces"
    and ps: "set_of (bid, nonce) hist = Some ps" "ps_total ps = of_nat (length pieces)"
    and parts: "\<forall>i < length pieces. \<exists>c \<in> set (parts_at ps (of_nat i)).
       SealManifest (pm_gcm pm) kb bid nonce (of_nat i) (of_nat (length pieces)) (pieces ! i) = Some (mp_ct c)"
  shows "\<exists>opened. open_parts pm kb bid nonce ps = Some opened \<and> map fst opened = pieces"
proof -
  let ?n = "of_nat (length pieces) :: u16"
  let ?o = "\<lambda>i. open_part pm kb bid nonce (of_nat i) ?n (parts_at ps (of_nat i))"
  have un: "unat ?n = length pieces" using n by (simp add: MaxManifestParts_def unat_of_nat_len)
  have o: "map_option fst (?o i) = Some (pieces ! i)" if i: "i < length pieces" for i
  proof (rule open_part_only)
    have ui: "unat (of_nat i :: u16) = i" using n i by (simp add: MaxManifestParts_def unat_of_nat_len)
    show "\<exists>c \<in> set (parts_at ps (of_nat i)). OpenManifest (pm_gcm pm) kb bid nonce (of_nat i) ?n (mp_ct c) = Inr (pieces ! i)"
      using parts i by (simp add: OpenManifest_Inr [OF g])
    show "\<forall>c \<in> set (parts_at ps (of_nat i)). \<forall>y. OpenManifest (pm_gcm pm) kb bid nonce (of_nat i) ?n (mp_ct c) = Inr y \<longrightarrow> y = pieces ! i"
      using set_of_parts(3) [OF ps(1) h] sealed ui by (fastforce simp: only_sealed_def part_of_def)
  qed
  define opened where "opened = map (the \<circ> ?o) [0..<length pieces]"
  have l: "length opened = length pieces" by (simp add: opened_def)
  have e: "?o i = Some (opened ! i)" if "i < length pieces" for i using o [OF that] that by (auto simp: opened_def)
  have "map ?o [0..<length pieces] = map Some opened"
  proof (rule nth_equalityI)
    show "map ?o [0..<length pieces] ! i = map Some opened ! i" if "i < length (map ?o [0..<length pieces])" for i
      using that by (simp add: e l)
  qed (simp add: l)
  moreover have "map fst opened = pieces"
  proof (rule nth_equalityI)
    fix i assume "i < length (map fst opened)"
    then have i: "i < length pieces" by (simp add: l)
    show "map fst opened ! i = pieces ! i" using o [OF i] i unfolding e [OF i] by (simp add: l)
  qed (simp add: l)
  ultimately show ?thesis by (intro exI [of _ opened]) (simp add: open_parts_def those_Some ps(2) un)
qed

lemma probeOrder_set:
  assumes "uint floor - maxEpochProbe < uint e" "uint e \<le> uint hint + maxEpochProbe" "floor \<le> hint"
  shows "e \<in> set (probeOrder hint floor)"
proof -
  have e: "0 \<le> uint e" "uint e \<le> 0xFFFFFFFF" using uint_lt2p [of e] by simp_all
  have "uint e \<in> {max 0 (uint floor - maxEpochProbe + 1)..uint hint} \<union> {uint hint + 1..min (uint hint + maxEpochProbe) 0xFFFFFFFF}"
    using assms e by (auto simp: word_le_def)
  then have "(of_int (uint e) :: u32) \<in> of_int ` ({max 0 (uint floor - maxEpochProbe + 1)..uint hint} \<union> {uint hint + 1..min (uint hint + maxEpochProbe) 0xFFFFFFFF})"
    by (rule imageI)
  then show ?thesis using assms(3) by (auto simp: probeOrder_def Let_def image_Un)
qed

lemma start_epoch_ge: "hint \<le> start_epoch hint anc ok"
  by (auto simp: start_epoch_def split: option.splits)

lemma openManifest_hit:
  assumes "open_epoch pm keys bid nonce ps e = Some c" "e \<in> set es"
  shows "\<exists>d. openManifest pm keys bid nonce ps es = Some d \<and> cd_BackupID d = bid"
proof -
  obtain d where d: "openManifest pm keys bid nonce ps es = Some d"
    using assms openManifest_None [of pm keys bid nonce ps es] by force
  from openManifest_Some [OF d] show ?thesis using d open_epoch_SomeD by blast
qed

lemma search_history_finds:
  assumes "((bid, nonce), ps) \<in> set (sc_sets sc)" "complete_set ps" "open_epoch pm keys bid nonce ps e = Some c"
    and "e \<in> set (probeOrder hint floor)"
  shows "bid \<in> cd_BackupID ` set (fst (search_history pm keys hint floor sc))"
proof -
  define ts where "ts = try_sets pm keys (probeOrder hint floor) (filter (\<lambda>(k, ps). complete_set ps) (sc_sets sc))"
  obtain d where "openManifest pm keys bid nonce ps (probeOrder hint floor) = Some d" "cd_BackupID d = bid"
    using openManifest_hit [OF assms(3,4)] by blast
  then have "d \<in> set (fst ts)" "cd_BackupID d = bid" using assms(1,2) by (force simp: ts_def try_sets_fst)+
  moreover have "set (fst ts) \<subseteq> set (fst (search_up pm keys hint (uint hint + maxEpochProbe) (fst ts) (snd ts)))"
    using search_up_all [of "snd ts" pm keys "\<lambda>_. True" "fst ts"] by (simp add: list_all_iff)
  moreover have "search_history pm keys hint floor sc = search_up pm keys hint (uint hint + maxEpochProbe) (fst ts) (snd ts)"
    by (simp add: search_history_def ts_def split: prod.splits)
  ultimately show ?thesis by force
qed

lemma chosen_image: "cd_BackupID ` set (chosen anc ok opened) = cd_BackupID ` set opened"
  using arg_cong [OF chosen_ids [of anc ok opened], of set] uniq_ids [of "sort_stable candidate_before opened"] by simp

lemma discover_Run_ok:
  assumes "read_anchor pm rd keys account = Inr (anc, ok, w)" "rd_AccountTx rd account = Inr (txs, rng)"
  shows "\<exists>res. discover_Run pm rd keys account hint = Inr res \<and>
    rs_Candidates res = chosen anc ok (fst (search_history pm keys (start_epoch hint anc ok) hint (scan account txs)))"
proof -
  obtain opened pending where o: "search_history pm keys (start_epoch hint anc ok) hint (scan account txs) = (opened, pending)"
    by (cases "search_history pm keys (start_epoch hint anc ok) hint (scan account txs)")
  obtain ok' cands aw where c: "anchor_step anc ok (uniq (sort_stable candidate_before opened)) = (ok', cands, aw)"
    by (metis surj_pair)
  show ?thesis unfolding discover_Run_def assms and_then_simps prod.case sum.case Let_def o c chosen_def
    by (simp add: c)
qed

lemma published_found:
  assumes "gcm_ok (pm_gcm pm)" "read_anchor pm rd keys account = Inr (anc, ok, w)" "rd_AccountTx rd account = Inr (txs, rng)"
    and "keys e = Some k" "uint hint - maxEpochProbe < uint e" "uint e \<le> uint hint + maxEpochProbe"
    and "carried pm (BackupKey (pm_hkdf pm) k bid) (manifest_payloads account txs) bid nonce pieces"
    and "length pieces \<le> MaxManifestParts"
    and "first_total (bid, nonce) (manifest_payloads account txs) = Some (of_nat (length pieces))"
    and "only_sealed pm (BackupKey (pm_hkdf pm) k bid) (manifest_payloads account txs) bid nonce pieces"
    and "Unmarshal (pm_of_json pm) (concat pieces) = Inr m" "mn_BackupID m = hex_encode bid" "mn_Epoch m = e"
  shows "\<exists>res. discover_Run pm rd keys account hint = Inr res \<and> bid \<in> cd_BackupID ` set (rs_Candidates res)"
proof -
  obtain res where res: "discover_Run pm rd keys account hint = Inr res"
    "rs_Candidates res = chosen anc ok (fst (search_history pm keys (start_epoch hint anc ok) hint (scan account txs)))"
    using discover_Run_ok [OF assms(2,3)] by blast
  obtain ps where ps: "set_of (bid, nonce) (manifest_payloads account txs) = Some ps" "ps_total ps = of_nat (length pieces)" "complete_set ps"
    "\<forall>i < length pieces. \<exists>c \<in> set (parts_at ps (of_nat i)).
       SealManifest (pm_gcm pm) (BackupKey (pm_hkdf pm) k bid) bid nonce (of_nat i) (of_nat (length pieces)) (pieces ! i) = Some (mp_ct c)"
    by (rule set_of_published [OF history_ok_payloads assms(7,8,9)])
  obtain opened where "open_parts pm (BackupKey (pm_hkdf pm) k bid) bid nonce ps = Some opened" "map fst opened = pieces"
    using open_parts_published [OF assms(1) history_ok_payloads assms(7,8,10) ps(1,2,4)] by blast
  then have "\<exists>c. open_epoch pm keys bid nonce ps e = Some c" using assms(4,11-13) by (simp add: open_epoch_def Let_def)
  moreover have "((bid, nonce), ps) \<in> set (sc_sets (scan account txs))" using ps(1) by (simp add: scan_scan_all scan_sets_iff)
  moreover have "e \<in> set (probeOrder (start_epoch hint anc ok) hint)"
    using assms(5,6) start_epoch_ge [of hint anc ok] by (intro probeOrder_set) (auto simp: word_le_def)
  ultimately have "bid \<in> cd_BackupID ` set (rs_Candidates res)"
    using search_history_finds [OF _ ps(3)] by (auto simp only: res(2) chosen_image)
  then show ?thesis using res(1) by blast
qed

text \<open>
  Junk cannot hide a backup: when every part of a manifest sealed under the key of epoch \<open>e\<close> has been
  published, the first payload with its id and nonce has its number of parts, and nothing else under that key
  is in the history, then discovery succeeds and lists the backup, whatever other memos the account
  published, if \<open>e\<close> is less than 64 below or at most 64 above the starting epoch.
\<close>
theorem published_backup_found:
  assumes "gcm_ok (pm_gcm pm)" "read_anchor pm rd keys account = Inr (anc, ok, w)" "rd_AccountTx rd account = Inr (txs, rng)"
    and "keys e = Some k" "uint hint - maxEpochProbe < uint e" "uint e \<le> uint hint + maxEpochProbe"
    and "carried pm (BackupKey (pm_hkdf pm) k bid) (manifest_payloads account txs) bid nonce pieces"
    and "length pieces \<le> MaxManifestParts"
    and "first_total (bid, nonce) (manifest_payloads account txs) = Some (of_nat (length pieces))"
    and "only_sealed pm (BackupKey (pm_hkdf pm) k bid) (manifest_payloads account txs) bid nonce pieces"
    and "Unmarshal (pm_of_json pm) (concat pieces) = Inr m" "mn_BackupID m = hex_encode bid" "mn_Epoch m = e"
  shows "\<exists>res. discover_Run pm rd keys account hint = Inr res \<and> bid \<in> cd_BackupID ` set (rs_Candidates res)"
  using assms by (rule published_found)

section \<open>What is fetched is what the manifest commits to\<close>

lemma unpack_checked_Inr:
  assumes "unpack_checked pm want err packed = Inr es"
  shows "\<exists>raw. Unpack (pm_inflate pm) packed = Inr raw \<and> hex_encode (pm_sha256 pm raw) = want \<and> Decode (pm_sha256 pm) raw = Inr es"
  using assms by (auto simp: unpack_checked_def split: sum.splits if_splits)

text \<open>The archive of given entries, as \<^verbatim>\<open>container.Encode\<close> lays it out.\<close>

definition archive :: "(byte list \<Rightarrow> byte list) \<Rightarrow> entry list \<Rightarrow> byte list" where
  "archive sha256 es = magic @ be32 (of_nat (length es)) @ concat (map (entry_bytes sha256) es)"

lemma unpack_checked_archive:
  assumes "unpack_checked pm want err packed = Inr es"
  shows "hex_encode (pm_sha256 pm (archive (pm_sha256 pm) es)) = want \<and> Decode (pm_sha256 pm) (archive (pm_sha256 pm) es) = Inr es"
  using unpack_checked_Inr [OF assms] Decode_sound by (fastforce simp: archive_def)

text \<open>
  C30.  Whatever server or file it comes from, what is returned is what the authenticated manifest commits
  to: the archive of the fetched entries has the digest the manifest records for the on-chain part, that of
  the opened entries the digest it records for the bundle, and the bundle file itself its cipher digest.
\<close>
theorem fetched_content_committed:
  "(Fetch pm rd keys res cand = Inr es \<longrightarrow>
      hex_encode (pm_sha256 pm (archive (pm_sha256 pm) es)) = mn_PlainSHA256 (cd_Manifest cand)
      \<and> Decode (pm_sha256 pm) (archive (pm_sha256 pm) es) = Inr es \<and> \<not> mn_Tombstone (cd_Manifest cand))
   \<and> (discover_OpenBundle pm keys cand stream = Inr fs \<longrightarrow>
      hex_encode (pm_sha256 pm (archive (pm_sha256 pm) fs)) = mn_BundlePlainSHA256 (cd_Manifest cand)
      \<and> Decode (pm_sha256 pm) (archive (pm_sha256 pm) fs) = Inr fs
      \<and> hex_encode (pm_sha256 pm stream) = mn_BundleCipherSHA256 (cd_Manifest cand))"
proof (intro conjI impI; (elim conjE)?)
  assume f: "Fetch pm rd keys res cand = Inr es"
  show "\<not> mn_Tombstone (cd_Manifest cand)" using f by (auto simp: Fetch_def Let_def)
  obtain packed where "unpack_checked pm (mn_PlainSHA256 (cd_Manifest cand)) ContainerHashMismatch packed = Inr es"
    using f by (auto simp: Fetch_def Let_def and_then_Inr split: if_splits)
  from unpack_checked_archive [OF this]
  show "hex_encode (pm_sha256 pm (archive (pm_sha256 pm) es)) = mn_PlainSHA256 (cd_Manifest cand)"
    "Decode (pm_sha256 pm) (archive (pm_sha256 pm) es) = Inr es" by simp_all
next
  assume "discover_OpenBundle pm keys cand stream = Inr fs"
  then obtain packed where u: "unpack_checked pm (mn_BundlePlainSHA256 (cd_Manifest cand)) BundlePlainMismatch packed = Inr fs"
    and h: "hex_encode (pm_sha256 pm stream) = mn_BundleCipherSHA256 (cd_Manifest cand)"
    by (auto simp: discover_OpenBundle_def split: if_splits sum.splits)
  show "hex_encode (pm_sha256 pm stream) = mn_BundleCipherSHA256 (cd_Manifest cand)" by (rule h)
  from unpack_checked_archive [OF u]
  show "hex_encode (pm_sha256 pm (archive (pm_sha256 pm) fs)) = mn_BundlePlainSHA256 (cd_Manifest cand)"
    "Decode (pm_sha256 pm) (archive (pm_sha256 pm) fs) = Inr fs" by simp_all
qed

section \<open>A small ledger\<close>

definition sample_prims :: prims where
  "sample_prims = \<lparr>pm_gcm = toy_gcm, pm_hkdf = \<lambda>_ _ _ _. [], pm_hmac = \<lambda>_ _. replicate 32 9, pm_sha256 = sample_sha,
     pm_deflate = id, pm_inflate = Some, pm_to_json = \<lambda>_. replicate 200 7,
     pm_of_json = \<lambda>_. Some (blank_manifest\<lparr>mn_V := 1, mn_Epoch := 3, mn_Seq := 1, mn_BackupID := hex_encode (replicate 16 1)\<rparr>),
     pm_upper = id\<rparr>"

definition sample_payload :: payload where
  "sample_payload = \<lparr>pl_Type = TypeManifest, pl_BackupID = replicate 16 1, pl_Index = 0, pl_Total = 1,
     pl_Nonce = replicate 10 3, pl_Ciphertext = replicate 200 7 @ replicate 16 0\<rparr>"

definition sample_tx :: tx_record where
  "sample_tx = \<lparr>tr_Hash = ''AA'', tr_LedgerIndex = 9, tr_Validated = True, tr_Result = ''tesSUCCESS'', tr_Account = ''r'',
     tr_TxType = ''AccountSet'', tr_Sequence = 1,
     tr_Memos = [\<lparr>memo_Type = bytes TypeManifest,
       memo_Data = chunk_data (replicate 16 1) 0 1 (replicate 10 3) (replicate 200 7 @ replicate 16 0), memo_Format = []\<rparr>],
     tr_Raw = JNull\<rparr>"

definition sample_reader :: chain_reader where
  "sample_reader = \<lparr>rd_Tx = \<lambda>_. Inl ErrNotFound, rd_AccountTx = \<lambda>_. Inr ([sample_tx], \<lparr>rg_Min = 1, rg_Max = 9\<rparr>),
     rd_LedgerEntryDID = \<lambda>_. Inl ErrNotFound\<rparr>"

lemma sample_history: "manifest_payloads ''r'' [sample_tx] = [(sample_tx, sample_payload)]"
proof -
  have "List.map_filter chunk_Decode (tr_Memos sample_tx) = [sample_payload]"
    using decode_chunk_data [of "replicate 16 1" TypeManifest "replicate 10 3" 0 1 "replicate 200 7 @ replicate 16 0"]
    by (simp add: sample_tx_def sample_payload_def map_filter_simps TagLen_def)
  then show ?thesis by (simp add: manifest_payloads_def) (simp add: sample_tx_def sample_payload_def)
qed

lemma sample_published:
  "gcm_ok (pm_gcm sample_prims)" "read_anchor sample_prims sample_reader (FileKeys 3 k) ''r'' = Inr (None, False, [])"
  "rd_AccountTx sample_reader ''r'' = Inr ([sample_tx], \<lparr>rg_Min = 1, rg_Max = 9\<rparr>)" "FileKeys 3 k 3 = Some k"
  "carried sample_prims kb (manifest_payloads ''r'' [sample_tx]) (replicate 16 1) (replicate 10 3) [replicate 200 7]"
  "first_total (replicate 16 1, replicate 10 3) (manifest_payloads ''r'' [sample_tx]) = Some (of_nat (length [replicate 200 7]))"
  "only_sealed sample_prims kb (manifest_payloads ''r'' [sample_tx]) (replicate 16 1) (replicate 10 3) [replicate 200 7]"
  "Unmarshal (pm_of_json sample_prims) (concat [replicate 200 7]) =
     Inr (blank_manifest\<lparr>mn_V := 1, mn_Epoch := 3, mn_Seq := 1, mn_BackupID := hex_encode (replicate 16 1)\<rparr>)"
  using toy_gcm_ok
  by (simp_all add: sample_prims_def read_anchor_def sample_reader_def FileKeys_def sample_history carried_def
      first_total_def only_sealed_def sample_payload_def SealManifest_def OpenManifest_def toy_gcm_def ManifestNonceLen_def
      open_or_auth_def Unmarshal_def manifest_Version_def blank_manifest_def)

lemma published_backup_found_witness:
  "\<exists>res. discover_Run sample_prims sample_reader (FileKeys 3 [5]) ''r'' 3 = Inr res \<and> replicate 16 1 \<in> cd_BackupID ` set (rs_Candidates res)"
  by (rule published_backup_found [OF sample_published(1-4) _ _ sample_published(5) _ sample_published(6-8)])
     (simp_all add: maxEpochProbe_def MaxManifestParts_def blank_manifest_def)

lemma sample_found:
  obtains res c where "discover_Run sample_prims sample_reader (FileKeys 3 [5]) ''r'' 3 = Inr res" "c \<in> set (rs_Candidates res)"
    "cd_BackupID c = replicate 16 1"
proof -
  have "\<exists>res. discover_Run sample_prims sample_reader (FileKeys 3 [5]) ''r'' 3 = Inr res \<and> replicate 16 1 \<in> cd_BackupID ` set (rs_Candidates res)"
    by (rule published_found [OF sample_published(1-4) _ _ sample_published(5) _ sample_published(6-8)])
       (simp_all add: maxEpochProbe_def MaxManifestParts_def blank_manifest_def)
  then show thesis using that by force
qed

lemma candidates_authentic_witness:
  "\<exists>c. authentic sample_prims (FileKeys 3 [5]) [(sample_tx, sample_payload)] c \<and> cd_BackupID c = replicate 16 1"
proof -
  obtain res c where res: "discover_Run sample_prims sample_reader (FileKeys 3 [5]) ''r'' 3 = Inr res" "c \<in> set (rs_Candidates res)"
    "cd_BackupID c = replicate 16 1" by (rule sample_found)
  from candidates_authentic [OF sample_published(1) res(1)] show ?thesis
    using res(2,3) sample_history by (auto simp: sample_published(3) list_all_iff)
qed

lemma latest_is_newest_witness:
  "\<exists>res. discover_Run sample_prims sample_reader (FileKeys 3 [5]) ''r'' 3 = Inr res
     \<and> rs_Candidates res \<noteq> [] \<and> distinct (map cd_BackupID (rs_Candidates res))"
proof -
  obtain res c where res: "discover_Run sample_prims sample_reader (FileKeys 3 [5]) ''r'' 3 = Inr res" "c \<in> set (rs_Candidates res)"
    by (rule sample_found)
  then show ?thesis using latest_is_newest [OF res(1)] by (auto intro!: exI [of _ res])
qed

end
