(* ===== verification/Digits.thy ===== *)
theory Digits
  imports Prelude
begin

text \<open>
  Positional notation, most significant digit first: the arithmetic behind the base 32 shares, the
  recovery words (base 2048) and the base 58 addresses.  \<open>digits b n v\<close> are the \<open>n\<close> lowest digits of
  \<open>v\<close> and \<open>value_of\<close> is the Horner fold the programs run over a \<^verbatim>\<open>big.Int\<close>.
\<close>

primrec digits :: "nat \<Rightarrow> nat \<Rightarrow> nat \<Rightarrow> nat list" where
  "digits b 0 v = []"
| "digits b (Suc n) v = digits b n (v div b) @ [v mod b]"

definition value_of :: "nat \<Rightarrow> nat list \<Rightarrow> nat" where
  "value_of b ds = fold (\<lambda>d acc. acc * b + d) ds 0"

lemma length_digits [simp]: "length (digits b n v) = n"
  by (induction n arbitrary: v) simp_all

lemma value_of_simps [simp]: "value_of b [] = 0" "value_of b (ds @ [d]) = value_of b ds * b + d"
  by (simp_all add: value_of_def)

lemma digits_less: "0 < b \<Longrightarrow> d \<in> set (digits b n v) \<Longrightarrow> d < b"
  by (induction n arbitrary: v) auto

lemma value_of_append: "value_of b (xs @ ys) = value_of b xs * b ^ length ys + value_of b ys"
proof (induction ys rule: rev_induct)
  case (snoc y ys)
  have "value_of b (xs @ ys @ [y]) = value_of b ((xs @ ys) @ [y])" by simp
  also have "\<dots> = value_of b (xs @ ys) * b + y" by (rule value_of_simps)
  finally show ?case using snoc by (simp add: algebra_simps)
qed simp

lemma value_of_less: "list_all (\<lambda>d. d < b) ds \<Longrightarrow> value_of b ds < b ^ length ds"
proof (induction ds rule: rev_induct)
  case (snoc d ds)
  then have "Suc (value_of b ds) \<le> b ^ length ds" and d: "d < b" by auto
  from mult_le_mono1 [OF this(1), of b] d show ?case by (simp add: mult.commute)
qed simp

lemma value_of_zeros [simp]: "value_of b (replicate n 0) = 0"
  by (induction n) (simp_all add: value_of_append [of b "[_]", simplified] value_of_def)

lemma digits_value_of: "list_all (\<lambda>d. d < b) ds \<Longrightarrow> length ds = n \<Longrightarrow> digits b n (value_of b ds) = ds"
proof (induction ds arbitrary: n rule: rev_induct)
  case (snoc d ds)
  then show ?case by (cases n) auto
qed simp

lemma value_of_digits: "value_of b (digits b n v) = v mod b ^ n"
proof (induction n arbitrary: v)
  case (Suc n)
  then show ?case by (simp add: mod_mult2_eq mult.commute add.commute)
qed simp

lemma digits_trailing: "v mod b ^ k = 0 \<Longrightarrow> digits b (n + k) v = digits b n (v div b ^ k) @ replicate k 0"
proof (induction k arbitrary: v)
  case (Suc k)
  have "v mod b = 0" "(v div b) mod b ^ k = 0" using Suc.prems by (auto simp: mod_mult2_eq)
  then show ?case using Suc.IH [of "v div b"]
    by (simp add: div_mult2_eq replicate_append_same [symmetric] del: replicate_Suc) (metis replicate_Suc replicate_append_same)
qed simp

lemma digits_inject:
  "0 < b \<Longrightarrow> digits b n v = digits b n w \<longleftrightarrow> v mod b ^ n = w mod b ^ n"
  by (metis digits_value_of digits_less length_digits list_all_iff value_of_digits mod_mod_trivial)

text \<open>A list of symbols that starts with \<open>c\<close> stands for digits that start with the one digit \<open>v\<close> of \<open>c\<close>.\<close>

lemma ex_digit_Cons:
  assumes "\<And>d. P d \<and> f d = c \<longleftrightarrow> d = v"
  shows "(\<exists>ds. map f ds = c # cs \<and> list_all P ds \<and> Q ds) \<longleftrightarrow> (\<exists>ds. map f ds = cs \<and> list_all P ds \<and> Q (v # ds))"
    (is "(\<exists>ds. ?L ds) \<longleftrightarrow> (\<exists>ds. ?R ds)")
proof
  assume "\<exists>ds. ?L ds"
  then obtain d ds where "map f (d # ds) = c # cs" "list_all P (d # ds)" "Q (d # ds)" by (auto simp: map_eq_Cons_conv)
  moreover from this assms [of d] have "d = v" by simp
  ultimately show "\<exists>ds. ?R ds" by auto
next
  assume "\<exists>ds. ?R ds"
  then obtain ds where "?R ds" by blast
  then show "\<exists>ds. ?L ds" using assms [of v] by (intro exI [of _ "v # ds"]) simp
qed

section \<open>Minimal notation\<close>

text \<open>The digits of a number with no leading zero; zero has none.\<close>

function min_digits :: "nat \<Rightarrow> nat \<Rightarrow> nat list" where
  "min_digits b v = (if v = 0 \<or> b < 2 then [] else min_digits b (v div b) @ [v mod b])"
  by pat_completeness auto
termination by (relation "measure snd") auto

declare min_digits.simps [simp del]

lemma min_digits_0 [simp]: "min_digits b 0 = []"
  by (simp add: min_digits.simps)

lemma min_digits_step: "0 < v \<Longrightarrow> 2 \<le> b \<Longrightarrow> min_digits b v = min_digits b (v div b) @ [v mod b]"
  by (subst min_digits.simps) simp

lemma min_digits_less: "2 \<le> b \<Longrightarrow> list_all (\<lambda>d. d < b) (min_digits b v)"
proof (induction b v rule: min_digits.induct)
  case (1 b v)
  then show ?case by (cases "v = 0") (simp_all add: min_digits_step)
qed

lemma value_of_min_digits: "2 \<le> b \<Longrightarrow> value_of b (min_digits b v) = v"
proof (induction b v rule: min_digits.induct)
  case (1 b v)
  then show ?case by (cases "v = 0") (simp_all add: min_digits_step)
qed

lemma value_of_pos: "2 \<le> b \<Longrightarrow> ds \<noteq> [] \<Longrightarrow> hd ds \<noteq> 0 \<Longrightarrow> 0 < value_of b ds"
proof (induction ds rule: rev_induct)
  case (snoc d ds)
  then show ?case by (cases "ds = []") (auto simp: value_of_def)
qed simp

lemma min_digits_value_of:
  "2 \<le> b \<Longrightarrow> list_all (\<lambda>d. d < b) ds \<Longrightarrow> ds = [] \<or> hd ds \<noteq> 0 \<Longrightarrow> min_digits b (value_of b ds) = ds"
proof (induction ds rule: rev_induct)
  case (snoc d ds)
  have "0 < value_of b (ds @ [d])" using value_of_pos snoc.prems by blast
  moreover have "ds = [] \<or> hd ds \<noteq> 0" using snoc.prems(3) by (cases ds) auto
  ultimately show ?case using snoc by (simp add: min_digits_step)
qed simp

lemma hd_min_digits: "2 \<le> b \<Longrightarrow> 0 < v \<Longrightarrow> min_digits b v \<noteq> [] \<and> hd (min_digits b v) \<noteq> 0"
proof (induction b v rule: min_digits.induct)
  case (1 b v)
  have v: "min_digits b v = min_digits b (v div b) @ [v mod b]" using "1.prems" by (intro min_digits_step)
  show ?case
  proof (cases "v < b")
    case True
    then show ?thesis using "1.prems" unfolding v by simp
  next
    case False
    then have "0 < v div b" using "1.prems" by (simp add: div_greater_zero_iff)
    then show ?thesis using 1 unfolding v by simp
  qed
qed

lemma value_of_drop_zeros: "value_of b (dropWhile (\<lambda>d. d = 0) ds) = value_of b ds"
proof -
  have "takeWhile (\<lambda>d. d = 0) ds = replicate (length (takeWhile (\<lambda>d. d = 0) ds)) 0"
    by (induction ds) simp_all
  then have "value_of b (takeWhile (\<lambda>d. d = 0) ds) = 0" by (metis value_of_zeros)
  then show ?thesis using value_of_append [of b "takeWhile (\<lambda>d. d = 0) ds" "dropWhile (\<lambda>d. d = 0) ds"] by simp
qed

lemma min_digits_drop_zeros:
  assumes "2 \<le> b" "list_all (\<lambda>d. d < b) ds"
  shows "min_digits b (value_of b ds) = dropWhile (\<lambda>d. d = 0) ds"
proof -
  let ?r = "dropWhile (\<lambda>d. d = 0) ds"
  have "list_all (\<lambda>d. d < b) ?r" using assms(2) by (auto simp: list_all_iff dest: set_dropWhileD)
  moreover have "?r = [] \<or> hd ?r \<noteq> 0" using hd_dropWhile [of "\<lambda>d. d = 0" ds] by blast
  ultimately show ?thesis using min_digits_value_of [OF assms(1), of ?r] value_of_drop_zeros [of b ds] by simp
qed

end
