(* ===== verification/Base58.thy ===== *)
theory Base58
  imports Digits Crypto
begin

text \<open>
  The base 58 coding of addresses, node keys and seeds (\<^verbatim>\<open>internal/xrpl/sign/base58.go\<close>) and the key
  operations on top of it (\<^verbatim>\<open>internal/xrpl/sign/keys.go\<close>).  SHA-256, SHA-512 and Ed25519 are parameters,
  \<^verbatim>\<open>big.Int\<close> is \<open>nat\<close>.
\<close>

section \<open>Base 58\<close>

definition alphabet :: string where
  "alphabet = ''rpshnaf39wBUDNEGHJKLM4PQRST7VWXYZ2bcdeCg65jkm8oFqi1tuvAxyz''"

definition prefixAccountID :: "byte list" where "prefixAccountID = [0x00]"
definition prefixNodePublic :: "byte list" where "prefixNodePublic = [0x1C]"
definition prefixSeedEd25519 :: "byte list" where "prefixSeedEd25519 = [0x01, 0xE1, 0x4B]"

text \<open>The table \<^verbatim>\<open>decodeMap\<close>: the position of a byte in the alphabet, \<open>None\<close> for \<open>-1\<close>.\<close>

definition decodeMap :: "char \<Rightarrow> nat option" where
  "decodeMap c = (let n = length (takeWhile (\<lambda>d. d \<noteq> c) alphabet) in if n < length alphabet then Some n else None)"

text \<open>The division loop appends digits from the low end, so its result is reversed at the end.\<close>

function divmod_loop :: "nat \<Rightarrow> string" where
  "divmod_loop x = (if 0 < x then alphabet ! (x mod 58) # divmod_loop (x div 58) else [])"
  by pat_completeness auto
termination by (relation "measure (\<lambda>x. x)") auto

declare divmod_loop.simps [simp del]

definition encodeBase58 :: "byte list \<Rightarrow> string" where
  "encodeBase58 b =
     (let out = divmod_loop (value_of 256 (map unat b));
          out = out @ map (\<lambda>_. alphabet ! 0) (takeWhile (\<lambda>c. c = 0) b)
      in rev out)"

fun horner58 :: "nat \<Rightarrow> string \<Rightarrow> nat option" where
  "horner58 x [] = Some x"
| "horner58 x (c # s) = (case decodeMap c of None \<Rightarrow> None | Some v \<Rightarrow> horner58 (x * 58 + v) s)"

definition decodeBase58 :: "string \<Rightarrow> byte list option" where
  "decodeBase58 s =
     (case horner58 0 s of
        None \<Rightarrow> None
      | Some x \<Rightarrow>
          let out = map of_nat (min_digits 256 x); zeros = length (takeWhile (\<lambda>c. c = alphabet ! 0) s)
          in Some (replicate zeros 0 @ out))"

datatype base58_error = InvalidCharacter | Base58Length | Base58Prefix | Base58Checksum

definition checksum :: "(byte list \<Rightarrow> byte list) \<Rightarrow> byte list \<Rightarrow> byte list" where
  "checksum sha256 payload = take 4 (sha256 (sha256 payload))"

definition EncodeBase58Check :: "(byte list \<Rightarrow> byte list) \<Rightarrow> byte list \<Rightarrow> byte list \<Rightarrow> string" where
  "EncodeBase58Check sha256 prefix payload =
     (let buf = prefix @ payload in encodeBase58 (buf @ checksum sha256 buf))"

definition DecodeBase58Check ::
    "(byte list \<Rightarrow> byte list) \<Rightarrow> string \<Rightarrow> byte list \<Rightarrow> nat \<Rightarrow> base58_error + byte list" where
  "DecodeBase58Check sha256 s prefix payloadLen =
     (case decodeBase58 s of
        None \<Rightarrow> Inl InvalidCharacter
      | Some raw \<Rightarrow>
          let n = length prefix; body = take (n + payloadLen) raw
          in if length raw \<noteq> n + payloadLen + 4 then Inl Base58Length
             else if take n raw \<noteq> prefix then Inl Base58Prefix
             else if checksum sha256 body \<noteq> drop (n + payloadLen) raw then Inl Base58Checksum
             else Inr (take payloadLen (drop n raw)))"

section \<open>Keys\<close>

definition SeedLen :: nat where "SeedLen = 16"

text \<open>The Ed25519 functions of the standard library.\<close>

record ed25519 =
  ed_public :: "byte list \<Rightarrow> byte list"
  ed_sign :: "byte list \<Rightarrow> byte list \<Rightarrow> byte list"
  ed_verify :: "byte list \<Rightarrow> byte list \<Rightarrow> byte list \<Rightarrow> bool"

record sign_key =
  k_seed :: "byte list"
  k_priv :: "byte list"

datatype sign_error = SeedLength | BadSeed base58_error | BadAddress string | BadNodePublic string

definition KeyFromSeed :: "(byte list \<Rightarrow> byte list) \<Rightarrow> byte list \<Rightarrow> sign_error + sign_key" where
  "KeyFromSeed sha512 seed =
     (if length seed \<noteq> SeedLen then Inl SeedLength
      else Inr \<lparr>k_seed = seed, k_priv = take 32 (sha512 seed)\<rparr>)"

definition KeyFromFamilySeed ::
    "(byte list \<Rightarrow> byte list) \<Rightarrow> (byte list \<Rightarrow> byte list) \<Rightarrow> string \<Rightarrow> sign_error + sign_key" where
  "KeyFromFamilySeed sha256 sha512 s =
     (case DecodeBase58Check sha256 s prefixSeedEd25519 SeedLen of
        Inl e \<Rightarrow> Inl (BadSeed e)
      | Inr seed \<Rightarrow> KeyFromSeed sha512 seed)"

definition FamilySeed :: "(byte list \<Rightarrow> byte list) \<Rightarrow> sign_key \<Rightarrow> string" where
  "FamilySeed sha256 k = EncodeBase58Check sha256 prefixSeedEd25519 (k_seed k)"

definition PublicKey :: "ed25519 \<Rightarrow> sign_key \<Rightarrow> byte list" where
  "PublicKey ed k = 0xED # ed_public ed (k_priv k)"

definition AccountIDFromPublicKey ::
    "(byte list \<Rightarrow> byte list) \<Rightarrow> (byte list \<Rightarrow> byte list) \<Rightarrow> byte list \<Rightarrow> byte list" where
  "AccountIDFromPublicKey sha256 ripemd pub = ripemd (sha256 pub)"

definition EncodeAddress :: "(byte list \<Rightarrow> byte list) \<Rightarrow> byte list \<Rightarrow> string" where
  "EncodeAddress sha256 i = EncodeBase58Check sha256 prefixAccountID i"

definition DecodeAddress :: "(byte list \<Rightarrow> byte list) \<Rightarrow> string \<Rightarrow> sign_error + byte list" where
  "DecodeAddress sha256 addr =
     (case DecodeBase58Check sha256 addr prefixAccountID 20 of Inl _ \<Rightarrow> Inl (BadAddress addr) | Inr i \<Rightarrow> Inr i)"

definition EncodeNodePublic :: "(byte list \<Rightarrow> byte list) \<Rightarrow> byte list \<Rightarrow> string" where
  "EncodeNodePublic sha256 pub = EncodeBase58Check sha256 prefixNodePublic pub"

definition DecodeNodePublic :: "(byte list \<Rightarrow> byte list) \<Rightarrow> string \<Rightarrow> sign_error + byte list" where
  "DecodeNodePublic sha256 s =
     (case DecodeBase58Check sha256 s prefixNodePublic 33 of Inl _ \<Rightarrow> Inl (BadNodePublic s) | Inr p \<Rightarrow> Inr p)"

definition VerifyEd25519 :: "ed25519 \<Rightarrow> byte list \<Rightarrow> byte list \<Rightarrow> byte list \<Rightarrow> bool" where
  "VerifyEd25519 ed pub33 msg sig \<longleftrightarrow>
     length pub33 = 33 \<and> hd pub33 = 0xED \<and> ed_verify ed (tl pub33) msg sig"

section \<open>The coding is a bijection\<close>

lemma length_alphabet [simp]: "length alphabet = 58"
  by (simp add: alphabet_def)

lemma decodeMap_iff: "decodeMap c = Some v \<longleftrightarrow> v < 58 \<and> alphabet ! v = c"
proof -
  have a: "list_all (\<lambda>v. decodeMap (alphabet ! v) = Some v) [0..<58]" by code_simp
  have "v < 58 \<and> alphabet ! v = c" if "decodeMap c = Some v"
  proof -
    have v: "v < 58" "v = length (takeWhile (\<lambda>d. d \<noteq> c) alphabet)"
      using that by (auto simp: decodeMap_def Let_def split: if_splits)
    then show ?thesis using nth_length_takeWhile [of "\<lambda>d. d \<noteq> c" alphabet] by simp
  qed
  then show ?thesis using a by (auto simp: list_all_iff)
qed

lemma divmod_loop_digits: "rev (divmod_loop x) = map (nth alphabet) (min_digits 58 x)"
proof (induction x rule: divmod_loop.induct)
  case (1 x)
  then show ?case by (subst divmod_loop.simps) (cases "x = 0"; simp add: min_digits_step)
qed

lemma horner58_iff:
  "horner58 (value_of 58 acc) s = Some x \<longleftrightarrow>
    (\<exists>ds. map (nth alphabet) ds = s \<and> list_all (\<lambda>d. d < 58) ds \<and> x = value_of 58 (acc @ ds))"
proof (induction s arbitrary: acc)
  case (Cons c s)
  show ?case
  proof (cases "decodeMap c")
    case None
    then have "\<forall>d < 58. alphabet ! d \<noteq> c" using decodeMap_iff [of c] by simp
    then show ?thesis using None by (auto simp: map_eq_Cons_conv)
  next
    case (Some v)
    have "horner58 (value_of 58 acc) (c # s) = horner58 (value_of 58 (acc @ [v])) s" using Some by simp
    moreover have "d < 58 \<and> alphabet ! d = c \<longleftrightarrow> d = v" for d using Some decodeMap_iff [of c d] by auto
    ultimately show ?thesis using Cons.IH [of "acc @ [v]"] by (simp add: ex_digit_Cons del: value_of_simps)
  qed
qed auto

text \<open>Leading zeros keep their count, and what follows them is minimal, in both bases.\<close>

lemma zeros_split: "xs = replicate (length (takeWhile (\<lambda>d. d = 0) xs)) 0 @ dropWhile (\<lambda>d. d = 0) (xs :: 'a :: zero list)"
  by (induction xs) simp_all

lemma takeWhile_map_inj: "(\<And>x. x \<in> set xs \<Longrightarrow> P (f x) \<longleftrightarrow> Q x) \<Longrightarrow> length (takeWhile P (map f xs)) = length (takeWhile Q xs)"
  by (induction xs) simp_all

lemma alphabet_zero: "d < 58 \<Longrightarrow> alphabet ! d = alphabet ! 0 \<longleftrightarrow> d = 0"
  using decodeMap_iff [of "alphabet ! 0" d] decodeMap_iff [of "alphabet ! 0" 0] by auto

lemma bytes_less: "list_all (\<lambda>d. d < 256) (map unat (b :: byte list))"
  by (auto simp: list_all_iff intro: order_less_le_trans [OF unsigned_less])

lemma encodeBase58_digits:
  "encodeBase58 b = map (nth alphabet)
     (replicate (length (takeWhile (\<lambda>c. c = 0) b)) 0 @ min_digits 58 (value_of 256 (map unat b)))"
  by (simp add: encodeBase58_def Let_def divmod_loop_digits map_replicate_const rev_map [symmetric])

lemma decode_encode_base58: "decodeBase58 (encodeBase58 b) = Some b"
proof -
  let ?z = "length (takeWhile (\<lambda>c. c = 0) b)" and ?x = "value_of 256 (map unat b)"
  let ?ds = "replicate ?z 0 @ min_digits 58 ?x"
  have lt: "list_all (\<lambda>d. d < 58) ?ds" using min_digits_less [of 58 ?x] by (auto simp: list_all_iff)
  have x: "horner58 0 (encodeBase58 b) = Some ?x"
    using horner58_iff [of "[]" "encodeBase58 b" ?x] lt value_of_min_digits [of 58 ?x]
    by (auto simp: encodeBase58_digits value_of_append simp del: map_append intro!: exI [of _ ?ds])
  have "length (takeWhile (\<lambda>c. c = alphabet ! 0) (encodeBase58 b)) = length (takeWhile (\<lambda>d. d = 0) ?ds)"
    unfolding encodeBase58_digits by (rule takeWhile_map_inj) (use lt alphabet_zero in \<open>auto simp: list_all_iff\<close>)
  also have "\<dots> = ?z"
    using hd_min_digits [of 58 ?x] by (cases "?x = 0"; cases "min_digits 58 ?x") (simp_all add: takeWhile_append)
  finally have z: "length (takeWhile (\<lambda>c. c = alphabet ! 0) (encodeBase58 b)) = ?z" .
  have "map of_nat (min_digits 256 ?x) = dropWhile (\<lambda>c. c = 0) b"
    unfolding min_digits_drop_zeros [OF _ bytes_less, simplified]
    by (simp add: dropWhile_map comp_def unat_eq_0)
  then show ?thesis using x z zeros_split [of b] by (simp add: decodeBase58_def Let_def)
qed

lemma encode_decode_base58: "decodeBase58 s = Some b \<Longrightarrow> encodeBase58 b = s"
proof -
  assume "decodeBase58 s = Some b"
  then obtain x where x: "horner58 0 s = Some x"
    and b: "b = replicate (length (takeWhile (\<lambda>c. c = alphabet ! 0) s)) 0 @ map of_nat (min_digits 256 x)"
    by (auto simp: decodeBase58_def Let_def split: option.splits)
  obtain ds where ds: "s = map (nth alphabet) ds" "list_all (\<lambda>d. d < 58) ds" "x = value_of 58 ds"
    using x horner58_iff [of "[]" s x] by auto
  let ?z = "length (takeWhile (\<lambda>d. d = 0) ds)"
  have z: "length (takeWhile (\<lambda>c. c = alphabet ! 0) s) = ?z"
    unfolding ds(1) by (rule takeWhile_map_inj) (use ds(2) alphabet_zero in \<open>auto simp: list_all_iff\<close>)
  have lt: "d < 256" if "d \<in> set (min_digits 256 x)" for d using min_digits_less [of 256 x] that by (auto simp: list_all_iff)
  have u: "map (unat \<circ> (of_nat :: nat \<Rightarrow> byte)) (min_digits 256 x) = min_digits 256 x"
    by (rule map_idI) (simp add: lt unat_of_nat)
  have "length (takeWhile (\<lambda>c. c = 0) (map (of_nat :: nat \<Rightarrow> byte) (min_digits 256 x))) = 0"
  proof (cases "min_digits 256 x")
    case (Cons d rest)
    moreover have "d \<noteq> 0" using hd_min_digits [of 256 x] Cons by (cases "x = 0") auto
    moreover have "d < 256" using lt Cons by simp
    ultimately show ?thesis by (simp add: word_unat_eq_iff unat_of_nat)
  qed simp
  then have "length (takeWhile (\<lambda>c. c = 0) b) = ?z" unfolding b z by (simp add: takeWhile_append)
  moreover have "value_of 256 (map unat b) = x" unfolding b using u by (simp add: value_of_append value_of_min_digits)
  ultimately show ?thesis
    using zeros_split [of ds] min_digits_drop_zeros [of 58 ds] ds by (simp add: encodeBase58_digits)
qed

lemma length_checksum: "(\<And>x. length (sha256 x) = 32) \<Longrightarrow> length (checksum sha256 p) = 4"
  by (simp add: checksum_def)

lemma decode_check_iff:
  assumes "\<And>x. length (sha256 x) = 32"
  shows "DecodeBase58Check sha256 s prefix n = Inr p \<longleftrightarrow> length p = n \<and> s = EncodeBase58Check sha256 prefix p"
proof
  assume "DecodeBase58Check sha256 s prefix n = Inr p"
  then obtain raw where raw: "decodeBase58 s = Some raw" "length raw = length prefix + n + 4" "take (length prefix) raw = prefix"
    and c: "checksum sha256 (take (length prefix + n) raw) = drop (length prefix + n) raw" and p: "p = take n (drop (length prefix) raw)"
    by (auto simp: DecodeBase58Check_def Let_def split: option.splits if_splits)
  have "take (length prefix + n) raw = prefix @ p" using raw(3) p by (simp add: take_add)
  then have "raw = (prefix @ p) @ checksum sha256 (prefix @ p)" using c by (metis append_take_drop_id)
  then show "length p = n \<and> s = EncodeBase58Check sha256 prefix p"
    using encode_decode_base58 [OF raw(1)] raw(2) p by (simp add: EncodeBase58Check_def Let_def)
next
  assume "length p = n \<and> s = EncodeBase58Check sha256 prefix p"
  then show "DecodeBase58Check sha256 s prefix n = Inr p"
    using length_checksum [of sha256, OF assms]
    by (auto simp: DecodeBase58Check_def EncodeBase58Check_def Let_def decode_encode_base58)
qed

text \<open>
  An address, node key or seed text is accepted for a payload exactly when it is the encoding of that
  payload under that prefix: decoding undoes encoding, and no second text decodes to the same payload.
\<close>

theorem base58_check_exact:
  assumes "\<And>x. length (sha256 x) = 32"
  shows "DecodeBase58Check sha256 s prefix n = Inr p \<longleftrightarrow> length p = n \<and> s = EncodeBase58Check sha256 prefix p"
  using assms by (rule decode_check_iff)

lemma base58_check_exact_witness:
  "DecodeBase58Check (\<lambda>x. replicate 32 (of_nat (length x)))
     (EncodeBase58Check (\<lambda>x. replicate 32 (of_nat (length x))) prefixAccountID (replicate 20 5)) prefixAccountID 20
   = Inr (replicate 20 5)"
  using base58_check_exact [of "\<lambda>x. replicate 32 (of_nat (length x))" _ prefixAccountID 20 "replicate 20 5"] by simp

lemma decode_encode_check:
  "(\<And>x. length (sha256 x) = 32) \<Longrightarrow> length p = n \<Longrightarrow>
    DecodeBase58Check sha256 (EncodeBase58Check sha256 prefix p) prefix n = Inr p"
  using length_checksum [of sha256]
  by (auto simp: DecodeBase58Check_def EncodeBase58Check_def Let_def decode_encode_base58)

text \<open>The wrappers inherit the round trip, and addresses of different accounts differ.\<close>

lemma decode_encode_address:
  "(\<And>x. length (sha256 x) = 32) \<Longrightarrow> length i = 20 \<Longrightarrow> DecodeAddress sha256 (EncodeAddress sha256 i) = Inr i"
  by (simp add: DecodeAddress_def EncodeAddress_def decode_encode_check)

lemma decode_encode_node:
  "(\<And>x. length (sha256 x) = 32) \<Longrightarrow> length p = 33 \<Longrightarrow> DecodeNodePublic sha256 (EncodeNodePublic sha256 p) = Inr p"
  by (simp add: DecodeNodePublic_def EncodeNodePublic_def decode_encode_check)

lemma family_seed_key:
  "(\<And>x. length (sha256 x) = 32) \<Longrightarrow> KeyFromSeed sha512 seed = Inr k \<Longrightarrow>
    KeyFromFamilySeed sha256 sha512 (FamilySeed sha256 k) = Inr k"
  by (auto simp: KeyFromFamilySeed_def FamilySeed_def KeyFromSeed_def decode_encode_check split: if_splits)

lemma encode_address_inject:
  assumes "\<And>x. length (sha256 x) = 32" "length i = 20" "length j = 20"
  shows "EncodeAddress sha256 i = EncodeAddress sha256 j \<longleftrightarrow> i = j"
  by (metis assms decode_encode_address sum.inject(2))

end
