(* ===== verification/Pubattest.thy ===== *)
theory Pubattest
  imports Ledger Base58
begin

text \<open>
  \<^verbatim>\<open>internal/pubattest\<close>: the public attestation memo of a backup, the delegation of the validator key to an
  attestation key, and the judgement of an account's newest attestation.  SHA-256, Ed25519 and
  \<^verbatim>\<open>strings.ToLower\<close> outside ASCII are parameters.
\<close>

section \<open>Memos\<close>

definition AttestMemoType :: string where "AttestMemoType = ''xrplbak/v1/a''"
definition DelegationMemoType :: string where "DelegationMemoType = ''xrplbak/v1/d''"
definition pa_Version :: byte where "pa_Version = 1"
definition VersionDelegated :: byte where "VersionDelegated = 2"
definition AlgEd25519 :: byte where "AlgEd25519 = 1"
definition vpkLen :: nat where "vpkLen = 33"
definition sigLen :: nat where "sigLen = 64"
definition memoLen :: nat where "memoLen = 1 + vpkLen + 4 + 4 + 16 + sigLen"
definition v2MemoLen :: nat where "v2MemoLen = 1 + vpkLen + 4 + 4 + 4 + 16 + sigLen"
definition delegationLen :: nat where "delegationLen = 1 + vpkLen + 1 + 32 + 4 + sigLen"

lemmas pa_lens = vpkLen_def sigLen_def memoLen_def v2MemoLen_def delegationLen_def

record attest =
  pa_RecVersion :: byte
  pa_DSeq :: u32
  pa_VPK :: "byte list"
  pa_Epoch :: u32
  pa_Seq :: u32
  pa_BackupID :: "byte list"
  pa_Sig :: "byte list"

record delegation =
  dg_VPK :: "byte list"
  dg_AttestPub :: "byte list"
  dg_DSeq :: u32
  dg_Sig :: "byte list"

datatype attest_error =
    BadValidatorKey sign_error | NeedsEd25519Key | BadBackupIDHex | BadSignatureHex | BadAttestPub | AttestMemoRejected codec_error

text \<open>\<^verbatim>\<open>strconv.FormatUint(uint64(v), 10)\<close>.\<close>

definition dec_u32 :: "u32 \<Rightarrow> string" where
  "dec_u32 v = dec_nat (unat v)"

definition SignString :: "(string \<Rightarrow> string) \<Rightarrow> string \<Rightarrow> string \<Rightarrow> u32 \<Rightarrow> u32 \<Rightarrow> string \<Rightarrow> string" where
  "SignString lo vpk account epoch seq backupID =
     ''xrplbak/v1/attest-public '' @ vpk @ '' '' @ account @ '' '' @ dec_u32 epoch @ '' '' @ dec_u32 seq @ '' '' @ to_lower lo backupID"

definition DelegationString :: "string \<Rightarrow> string \<Rightarrow> byte list \<Rightarrow> u32 \<Rightarrow> string" where
  "DelegationString vpk account attestPub dseq =
     ''xrplbak/v1/delegate '' @ vpk @ '' '' @ account @ '' ed25519 '' @ hex_encode attestPub @ '' '' @ dec_u32 dseq"

definition DelegatedSignString :: "(string \<Rightarrow> string) \<Rightarrow> string \<Rightarrow> string \<Rightarrow> u32 \<Rightarrow> u32 \<Rightarrow> u32 \<Rightarrow> string \<Rightarrow> string" where
  "DelegatedSignString lo vpk account dseq epoch seq backupID =
     ''xrplbak/v1/attest-delegated '' @ vpk @ '' '' @ account @ '' '' @ dec_u32 dseq @ '' '' @ dec_u32 epoch @ '' '' @ dec_u32 seq
     @ '' '' @ to_lower lo backupID"

definition hex_exactly :: "nat \<Rightarrow> string \<Rightarrow> byte list option" where
  "hex_exactly n s = (case hex_decode s of None \<Rightarrow> None | Some b \<Rightarrow> if length b \<noteq> n then None else Some b)"

definition edVPK :: "(byte list \<Rightarrow> byte list) \<Rightarrow> string \<Rightarrow> attest_error + byte list" where
  "edVPK sha256 vpkNodePublic =
     (case DecodeNodePublic sha256 vpkNodePublic of
        Inl e \<Rightarrow> Inl (BadValidatorKey e)
      | Inr vpk \<Rightarrow> if length vpk \<noteq> vpkLen \<or> vpk ! 0 \<noteq> 0xED then Inl NeedsEd25519Key else Inr vpk)"

definition attest_data :: "byte list \<Rightarrow> u32 \<Rightarrow> u32 \<Rightarrow> byte list \<Rightarrow> byte list \<Rightarrow> byte list" where
  "attest_data vpk epoch seq i sig = [pa_Version] @ vpk @ be32 epoch @ be32 seq @ i @ sig"

definition attest_Memo :: "(byte list \<Rightarrow> byte list) \<Rightarrow> string \<Rightarrow> u32 \<Rightarrow> u32 \<Rightarrow> string \<Rightarrow> string \<Rightarrow> attest_error + memo" where
  "attest_Memo sha256 vpkNodePublic epoch seq backupID sigHex =
     and_then (edVPK sha256 vpkNodePublic) (\<lambda>vpk.
       case hex_exactly 16 backupID of
         None \<Rightarrow> Inl BadBackupIDHex
       | Some i \<Rightarrow>
           (case hex_exactly sigLen sigHex of
              None \<Rightarrow> Inl BadSignatureHex
            | Some sig \<Rightarrow>
                let m = \<lparr>memo_Type = bytes AttestMemoType, memo_Data = attest_data vpk epoch seq i sig, memo_Format = []\<rparr> in
                (case SerializeMemos [m] of Inl e \<Rightarrow> Inl (AttestMemoRejected e) | Inr _ \<Rightarrow> Inr m)))"

definition attest_Decode :: "memo \<Rightarrow> attest option" where
  "attest_Decode m =
     (let d = memo_Data m; v = d ! 0; vpk = take vpkLen (drop 1 d);
          off = 1 + vpkLen + (if v = VersionDelegated then 4 else 0)
      in if str (memo_Type m) \<noteq> AttestMemoType then None
         else if \<not> (length d = memoLen \<and> v = pa_Version \<or> length d = v2MemoLen \<and> v = VersionDelegated) then None
         else if vpk ! 0 \<noteq> 0xED then None
         else Some \<lparr>pa_RecVersion = v,
                pa_DSeq = (if v = VersionDelegated then uint32_be (take 4 (drop (1 + vpkLen) d)) else 0),
                pa_VPK = vpk, pa_Epoch = uint32_be (take 4 (drop off d)), pa_Seq = uint32_be (take 4 (drop (off + 4) d)),
                pa_BackupID = take 16 (drop (off + 8) d), pa_Sig = take sigLen (drop (off + 24) d)\<rparr>)"

definition NodePublic :: "(byte list \<Rightarrow> byte list) \<Rightarrow> attest \<Rightarrow> string" where
  "NodePublic sha256 r = EncodeNodePublic sha256 (pa_VPK r)"

definition BackupIDHex :: "attest \<Rightarrow> string" where
  "BackupIDHex r = hex_encode (pa_BackupID r)"

definition attest_Verify :: "ed25519 \<Rightarrow> (byte list \<Rightarrow> byte list) \<Rightarrow> (string \<Rightarrow> string) \<Rightarrow> attest \<Rightarrow> string \<Rightarrow> bool" where
  "attest_Verify ed sha256 lo r account \<longleftrightarrow>
     pa_RecVersion r = pa_Version
     \<and> VerifyEd25519 ed (pa_VPK r) (bytes (SignString lo (NodePublic sha256 r) account (pa_Epoch r) (pa_Seq r) (hex_encode (pa_BackupID r)))) (pa_Sig r)"

definition attest_Check ::
    "ed25519 \<Rightarrow> (byte list \<Rightarrow> byte list) \<Rightarrow> (string \<Rightarrow> string) \<Rightarrow> string \<Rightarrow> string \<Rightarrow> u32 \<Rightarrow> u32 \<Rightarrow> string \<Rightarrow> string \<Rightarrow> bool" where
  "attest_Check ed sha256 lo vpkNodePublic account epoch seq backupID sigHex =
     (case DecodeNodePublic sha256 vpkNodePublic of
        Inl _ \<Rightarrow> False
      | Inr vpk \<Rightarrow>
          (case hex_exactly sigLen sigHex of
             None \<Rightarrow> False
           | Some sig \<Rightarrow> VerifyEd25519 ed vpk (bytes (SignString lo vpkNodePublic account epoch seq backupID)) sig))"

section \<open>Delegation\<close>

definition CheckDelegation :: "ed25519 \<Rightarrow> (byte list \<Rightarrow> byte list) \<Rightarrow> string \<Rightarrow> string \<Rightarrow> byte list \<Rightarrow> u32 \<Rightarrow> string \<Rightarrow> bool" where
  "CheckDelegation ed sha256 vpkNodePublic account attestPub dseq sigHex =
     (case edVPK sha256 vpkNodePublic of
        Inl _ \<Rightarrow> False
      | Inr vpk \<Rightarrow>
          (case hex_exactly sigLen sigHex of
             None \<Rightarrow> False
           | Some sig \<Rightarrow> VerifyEd25519 ed vpk (bytes (DelegationString vpkNodePublic account attestPub dseq)) sig))"

definition delegation_data :: "byte list \<Rightarrow> byte list \<Rightarrow> u32 \<Rightarrow> byte list \<Rightarrow> byte list" where
  "delegation_data vpk attestPub dseq sig = [1] @ vpk @ [AlgEd25519] @ attestPub @ be32 dseq @ sig"

definition DelegationMemo :: "(byte list \<Rightarrow> byte list) \<Rightarrow> string \<Rightarrow> byte list \<Rightarrow> u32 \<Rightarrow> string \<Rightarrow> attest_error + memo" where
  "DelegationMemo sha256 vpkNodePublic attestPub dseq sigHex =
     and_then (edVPK sha256 vpkNodePublic) (\<lambda>vpk.
       if length attestPub \<noteq> 32 then Inl BadAttestPub
       else case hex_exactly sigLen sigHex of
              None \<Rightarrow> Inl BadSignatureHex
            | Some sig \<Rightarrow>
                Inr \<lparr>memo_Type = bytes DelegationMemoType, memo_Data = delegation_data vpk attestPub dseq sig, memo_Format = []\<rparr>)"

definition DecodeDelegation :: "memo \<Rightarrow> delegation option" where
  "DecodeDelegation m =
     (let d = memo_Data m; vpk = take vpkLen (drop 1 d) in
      if str (memo_Type m) \<noteq> DelegationMemoType \<or> length d \<noteq> delegationLen \<or> d ! 0 \<noteq> 1 then None
      else if vpk ! 0 \<noteq> 0xED \<or> d ! (1 + vpkLen) \<noteq> AlgEd25519 then None
      else Some \<lparr>dg_VPK = vpk, dg_AttestPub = take 32 (drop (2 + vpkLen) d),
             dg_DSeq = uint32_be (take 4 (drop (34 + vpkLen) d)), dg_Sig = drop (38 + vpkLen) d\<rparr>)"

definition delegation_Verify :: "ed25519 \<Rightarrow> (byte list \<Rightarrow> byte list) \<Rightarrow> delegation \<Rightarrow> string \<Rightarrow> bool" where
  "delegation_Verify ed sha256 d account \<longleftrightarrow>
     VerifyEd25519 ed (dg_VPK d) (bytes (DelegationString (EncodeNodePublic sha256 (dg_VPK d)) account (dg_AttestPub d) (dg_DSeq d))) (dg_Sig d)"

definition delegated_data :: "byte list \<Rightarrow> u32 \<Rightarrow> u32 \<Rightarrow> u32 \<Rightarrow> byte list \<Rightarrow> byte list \<Rightarrow> byte list" where
  "delegated_data vpk dseq epoch seq i sig = [VersionDelegated] @ vpk @ be32 dseq @ be32 epoch @ be32 seq @ i @ sig"

definition DelegatedMemo ::
    "ed25519 \<Rightarrow> (byte list \<Rightarrow> byte list) \<Rightarrow> (string \<Rightarrow> string) \<Rightarrow> string \<Rightarrow> string \<Rightarrow> byte list \<Rightarrow> u32 \<Rightarrow> u32 \<Rightarrow> u32 \<Rightarrow> string \<Rightarrow> attest_error + memo" where
  "DelegatedMemo ed sha256 lo vpkNodePublic account attestPriv dseq epoch seq backupID =
     and_then (edVPK sha256 vpkNodePublic) (\<lambda>vpk.
       case hex_exactly 16 backupID of
         None \<Rightarrow> Inl BadBackupIDHex
       | Some i \<Rightarrow>
           let sig = ed_sign ed attestPriv (bytes (DelegatedSignString lo vpkNodePublic account dseq epoch seq backupID))
           in Inr \<lparr>memo_Type = bytes AttestMemoType, memo_Data = delegated_data vpk dseq epoch seq i sig, memo_Format = []\<rparr>)"

section \<open>Evaluate\<close>

datatype reason = MasterSignatureBad | KeyReplaced u32 u32 u32 | NoDelegationBefore | DelegatedSignatureBad

datatype status = NoAttestation | ValidAttestation | InvalidAttestation reason

record placed =
  pc_d :: delegation
  pc_ledger :: u32
  pc_order :: nat

record finding =
  fi_Status :: status
  fi_Record :: "attest option"
  fi_Ledger :: u32
  fi_Delegated :: "placed option"

text \<open>The state of the loop over the memos; \<open>ev_att\<close> is the newest attestation with its ledger and order.\<close>

record eval_state =
  ev_dels :: "placed list"
  ev_att :: "(attest \<times> nat) option"
  ev_attLedger :: u32
  ev_order :: nat

definition eval_memo :: "ed25519 \<Rightarrow> (byte list \<Rightarrow> byte list) \<Rightarrow> string \<Rightarrow> u32 \<times> memo \<Rightarrow> eval_state \<Rightarrow> eval_state" where
  "eval_memo ed sha256 account lm s =
     (let s = s\<lparr>ev_order := Suc (ev_order s)\<rparr> in
      case DecodeDelegation (snd lm) of
        Some d \<Rightarrow>
          if delegation_Verify ed sha256 d account
          then s\<lparr>ev_dels := ev_dels s @ [\<lparr>pc_d = d, pc_ledger = fst lm, pc_order = ev_order s\<rparr>]\<rparr> else s
      | None \<Rightarrow>
          (case attest_Decode (snd lm) of
             Some r \<Rightarrow> if fst lm \<ge> ev_attLedger s then s\<lparr>ev_att := Some (r, ev_order s), ev_attLedger := fst lm\<rparr> else s
           | None \<Rightarrow> s))"

text \<open>The memos of the account's own successful transactions, with the ledger of each, in order.\<close>

definition account_memos :: "string \<Rightarrow> tx_record list \<Rightarrow> (u32 \<times> memo) list" where
  "account_memos account txs =
     [(tr_LedgerIndex t, m). t \<leftarrow> txs, tr_Account t = account \<and> tr_Result t = ''tesSUCCESS'', m \<leftarrow> tr_Memos t]"

definition eval_start :: eval_state where
  "eval_start = \<lparr>ev_dels = [], ev_att = None, ev_attLedger = 0, ev_order = 0\<rparr>"

text \<open>The loop over the delegations: the key was replaced, or the last delegation that matches.\<close>

fun match_delegation :: "attest \<Rightarrow> nat \<Rightarrow> placed option \<Rightarrow> placed list \<Rightarrow> reason + placed option" where
  "match_delegation att attOrder found [] = Inr found"
| "match_delegation att attOrder found (p # ps) =
     (if dg_VPK (pc_d p) \<noteq> pa_VPK att \<or> pc_order p > attOrder then match_delegation att attOrder found ps
      else let found = (if dg_DSeq (pc_d p) = pa_DSeq att then Some p else found) in
        if dg_DSeq (pc_d p) > pa_DSeq att \<and> pc_order p < attOrder
        then Inl (KeyReplaced (pa_DSeq att) (dg_DSeq (pc_d p)) (pc_ledger p))
        else match_delegation att attOrder found ps)"

definition judge :: "ed25519 \<Rightarrow> (byte list \<Rightarrow> byte list) \<Rightarrow> (string \<Rightarrow> string) \<Rightarrow> string \<Rightarrow> placed list \<Rightarrow> attest \<Rightarrow> nat \<Rightarrow> reason + placed option" where
  "judge ed sha256 lo account dels att attOrder =
     (if pa_RecVersion att \<noteq> VersionDelegated
      then (if attest_Verify ed sha256 lo att account then Inr None else Inl MasterSignatureBad)
      else and_then (match_delegation att attOrder None dels) (\<lambda>found.
        case found of
          None \<Rightarrow> Inl NoDelegationBefore
        | Some p \<Rightarrow>
            if \<not> ed_verify ed (dg_AttestPub (pc_d p))
                 (bytes (DelegatedSignString lo (NodePublic sha256 att) account (pa_DSeq att) (pa_Epoch att) (pa_Seq att) (BackupIDHex att)))
                 (pa_Sig att)
            then Inl DelegatedSignatureBad
            else Inr (Some p)))"

definition Evaluate :: "ed25519 \<Rightarrow> (byte list \<Rightarrow> byte list) \<Rightarrow> (string \<Rightarrow> string) \<Rightarrow> tx_record list \<Rightarrow> string \<Rightarrow> finding" where
  "Evaluate ed sha256 lo txs account =
     (let s = fold (eval_memo ed sha256 account) (account_memos account txs) eval_start in
      case ev_att s of
        None \<Rightarrow> \<lparr>fi_Status = NoAttestation, fi_Record = None, fi_Ledger = 0, fi_Delegated = None\<rparr>
      | Some (att, attOrder) \<Rightarrow>
          (case judge ed sha256 lo account (ev_dels s) att attOrder of
             Inl why \<Rightarrow> \<lparr>fi_Status = InvalidAttestation why, fi_Record = Some att, fi_Ledger = ev_attLedger s, fi_Delegated = None\<rparr>
           | Inr del \<Rightarrow> \<lparr>fi_Status = ValidAttestation, fi_Record = Some att, fi_Ledger = ev_attLedger s, fi_Delegated = del\<rparr>))"

section \<open>What a verdict means\<close>

text \<open>The delegation a memo carries, when the master key signed it for this account.\<close>

definition signed_delegation :: "ed25519 \<Rightarrow> (byte list \<Rightarrow> byte list) \<Rightarrow> string \<Rightarrow> u32 \<times> memo \<Rightarrow> delegation option" where
  "signed_delegation ed sha256 account x =
     (case DecodeDelegation (snd x) of Some d \<Rightarrow> if delegation_Verify ed sha256 d account then Some d else None | None \<Rightarrow> None)"

fun placed_from :: "(u32 \<times> memo \<Rightarrow> delegation option) \<Rightarrow> nat \<Rightarrow> (u32 \<times> memo) list \<Rightarrow> placed list" where
  "placed_from del n [] = []"
| "placed_from del n (x # xs) =
     (case del x of Some d \<Rightarrow> [\<lparr>pc_d = d, pc_ledger = fst x, pc_order = Suc n\<rparr>] | None \<Rightarrow> []) @ placed_from del (Suc n) xs"

lemma placed_from_orders: "p \<in> set (placed_from del n xs) \<Longrightarrow> n < pc_order p \<and> pc_order p \<le> n + length xs"
  by (induction del n xs rule: placed_from.induct) (auto split: option.splits)

lemma placed_from_dels: "map pc_d (placed_from del n xs) = List.map_filter del xs"
  by (induction del n xs rule: placed_from.induct) (auto simp: map_filter_simps split: option.splits)

lemma memo_types: "DecodeDelegation m = Some d \<Longrightarrow> attest_Decode m = None"
  by (auto simp: DecodeDelegation_def attest_Decode_def DelegationMemoType_def AttestMemoType_def Let_def split: if_splits)

lemma eval_memo_dels:
  "ev_dels (eval_memo ed sha256 account x s) =
     ev_dels s @ (case signed_delegation ed sha256 account x of Some d \<Rightarrow> [\<lparr>pc_d = d, pc_ledger = fst x, pc_order = Suc (ev_order s)\<rparr>] | None \<Rightarrow> [])"
  "ev_order (eval_memo ed sha256 account x s) = Suc (ev_order s)"
  by (auto simp: eval_memo_def signed_delegation_def Let_def split: option.splits)

lemma eval_memo_att:
  "ev_att (eval_memo ed sha256 account x s) =
     (case attest_Decode (snd x) of Some r \<Rightarrow> if fst x \<ge> ev_attLedger s then Some (r, Suc (ev_order s)) else ev_att s | None \<Rightarrow> ev_att s)"
  "ev_attLedger (eval_memo ed sha256 account x s) =
     (if attest_Decode (snd x) \<noteq> None \<and> fst x \<ge> ev_attLedger s then fst x else ev_attLedger s)"
  by (auto simp: eval_memo_def Let_def memo_types split: option.splits)

lemma fold_dels:
  "ev_dels (fold (eval_memo ed sha256 account) xs s) = ev_dels s @ placed_from (signed_delegation ed sha256 account) (ev_order s) xs"
  "ev_order (fold (eval_memo ed sha256 account) xs s) = ev_order s + length xs"
  by (induction xs arbitrary: s) (simp_all add: eval_memo_dels)

lemma fold_att_before:
  assumes "\<forall>x \<in> set xs. attest_Decode (snd x) \<noteq> None \<longrightarrow> fst x \<le> l" "ev_attLedger s \<le> l"
  shows "ev_attLedger (fold (eval_memo ed sha256 account) xs s) \<le> l"
  using assms by (induction xs arbitrary: s) (simp_all add: eval_memo_att)

lemma fold_att_after:
  assumes "\<forall>x \<in> set xs. attest_Decode (snd x) \<noteq> None \<longrightarrow> fst x < ev_attLedger s"
  shows "ev_att (fold (eval_memo ed sha256 account) xs s) = ev_att s \<and> ev_attLedger (fold (eval_memo ed sha256 account) xs s) = ev_attLedger s"
  using assms
proof (induction xs arbitrary: s)
  case (Cons x xs)
  have "attest_Decode (snd x) \<noteq> None \<longrightarrow> \<not> ev_attLedger s \<le> fst x" using Cons.prems by auto
  then have "ev_att (eval_memo ed sha256 account x s) = ev_att s" "ev_attLedger (eval_memo ed sha256 account x s) = ev_attLedger s"
    by (auto simp: eval_memo_att split: option.splits)
  then show ?case using Cons by simp
qed simp

lemma match_later:
  "\<forall>p \<in> set qs. pc_order p > n \<Longrightarrow> match_delegation att n found (ps @ qs) = match_delegation att n found ps"
  by (induction ps arbitrary: found) (induction qs, auto simp: Let_def)

definition matching :: "attest \<Rightarrow> delegation \<Rightarrow> bool" where
  "matching r d \<longleftrightarrow> dg_VPK d = pa_VPK r \<and> dg_DSeq d = pa_DSeq r"

lemma match_before:
  assumes "\<forall>p \<in> set ps. pc_order p < n"
  shows "case match_delegation att n found ps of
      Inl _ \<Rightarrow> \<exists>p \<in> set ps. dg_VPK (pc_d p) = pa_VPK att \<and> pa_DSeq att < dg_DSeq (pc_d p)
    | Inr res \<Rightarrow> (\<forall>p \<in> set ps. dg_VPK (pc_d p) = pa_VPK att \<longrightarrow> dg_DSeq (pc_d p) \<le> pa_DSeq att)
        \<and> map_option pc_d res = (if filter (matching att) (map pc_d ps) = [] then map_option pc_d found else Some (last (filter (matching att) (map pc_d ps))))"
  using assms
proof (induction ps arbitrary: found)
  case (Cons p ps)
  let ?f = "if matching att (pc_d p) then Some p else found"
  note IH = Cons.IH [of ?f]
  show ?case
  proof (cases "dg_VPK (pc_d p) = pa_VPK att \<and> pa_DSeq att < dg_DSeq (pc_d p)")
    case True
    then show ?thesis using Cons.prems by (auto simp: Let_def)
  next
    case False
    then have "match_delegation att n found (p # ps) = match_delegation att n ?f ps" using Cons.prems by (auto simp: Let_def matching_def)
    then show ?thesis using IH Cons.prems False
      by (cases "match_delegation att n ?f ps"; cases "matching att (pc_d p)") (auto simp: not_less)
  qed
qed simp

text \<open>The rule of the package comment, for an attestation \<open>r\<close> published after the memos \<open>pre\<close>.\<close>

definition vouched :: "ed25519 \<Rightarrow> (byte list \<Rightarrow> byte list) \<Rightarrow> (string \<Rightarrow> string) \<Rightarrow> string \<Rightarrow> (u32 \<times> memo) list \<Rightarrow> attest \<Rightarrow> bool" where
  "vouched ed sha256 lo account pre r =
     (if pa_RecVersion r \<noteq> VersionDelegated then attest_Verify ed sha256 lo r account
      else let ds = List.map_filter (signed_delegation ed sha256 account) pre in
        list_all (\<lambda>d. dg_VPK d = pa_VPK r \<longrightarrow> dg_DSeq d \<le> pa_DSeq r) ds
        \<and> filter (matching r) ds \<noteq> []
        \<and> ed_verify ed (dg_AttestPub (last (filter (matching r) ds)))
             (bytes (DelegatedSignString lo (NodePublic sha256 r) account (pa_DSeq r) (pa_Epoch r) (pa_Seq r) (BackupIDHex r))) (pa_Sig r))"

lemma judge_vouched:
  assumes "\<forall>p \<in> set ps. pc_order p < n" "\<forall>p \<in> set qs. pc_order p > n"
    and "map pc_d ps = List.map_filter (signed_delegation ed sha256 account) pre"
  shows "(\<exists>d. judge ed sha256 lo account (ps @ qs) att n = Inr d) \<longleftrightarrow> vouched ed sha256 lo account pre att"
proof (cases "pa_RecVersion att \<noteq> VersionDelegated")
  case False
  have l: "list_all (\<lambda>d. dg_VPK d = pa_VPK att \<longrightarrow> dg_DSeq d \<le> pa_DSeq att) (List.map_filter (signed_delegation ed sha256 account) pre)
      \<longleftrightarrow> (\<forall>p \<in> set ps. dg_VPK (pc_d p) = pa_VPK att \<longrightarrow> dg_DSeq (pc_d p) \<le> pa_DSeq att)"
    by (simp add: assms(3) [symmetric] list_all_iff)
  show ?thesis
  proof (cases "match_delegation att n None ps")
    case (Inl why)
    then have "\<exists>p \<in> set ps. dg_VPK (pc_d p) = pa_VPK att \<and> pa_DSeq att < dg_DSeq (pc_d p)"
      using match_before [OF assms(1), of att None] by simp
    then show ?thesis using False Inl l by (auto simp: judge_def vouched_def match_later [OF assms(2)] Let_def not_less [symmetric])
  next
    case (Inr res)
    then have r: "\<forall>p \<in> set ps. dg_VPK (pc_d p) = pa_VPK att \<longrightarrow> dg_DSeq (pc_d p) \<le> pa_DSeq att"
      "map_option pc_d res = (if filter (matching att) (map pc_d ps) = [] then None else Some (last (filter (matching att) (map pc_d ps))))"
      using match_before [OF assms(1), of att None] by simp_all
    then show ?thesis using False Inr l unfolding assms(3)
      by (cases res) (simp_all add: judge_def vouched_def match_later [OF assms(2)] Let_def split: if_splits)
  qed
qed (auto simp: judge_def vouched_def)


section \<open>What is published verifies\<close>

lemma from_hex_lower:
  assumes "from_hex_char c = Some n"
  shows "n < 16 \<and> ascii_lower c = hex_char n \<and> is_ascii c"
proof -
  define k :: nat where "k = of_char c"
  have c: "c = char_of k" by (simp add: k_def)
  have "48 \<le> k \<and> k < 58 \<or> 65 \<le> k \<and> k < 71 \<or> 97 \<le> k \<and> k < 103"
    using assms by (auto simp: from_hex_char_def k_def Let_def split: if_splits)
  then have "k \<in> set ([48..<58] @ [65..<71] @ [97..<103])" unfolding set_append set_upt by auto
  moreover have "list_all (\<lambda>k. \<forall>n. from_hex_char (char_of k) = Some n \<longrightarrow> n < 16 \<and> ascii_lower (char_of k) = hex_char n \<and> is_ascii (char_of k))
      ([48..<58] @ [65..<71] @ [97..<103])"
    by (simp add: upt_rec from_hex_char_def ascii_lower_def hex_char_def hexdigits_def is_ascii_def char_of_def)
  ultimately show ?thesis using assms unfolding c list_all_iff by blast
qed

lemma hex_decode_lower: "hex_decode s = Some b \<Longrightarrow> map ascii_lower s = hex_encode b \<and> list_all is_ascii s"
proof (induction s arbitrary: b rule: hex_decode.induct)
  case (3 c d r)
  then obtain h l bs where h: "from_hex_char c = Some h" "from_hex_char d = Some l" "hex_decode r = Some bs" "b = of_nat (16 * h + l) # bs"
    by (auto split: option.splits)
  note f = from_hex_lower [OF h(1)] from_hex_lower [OF h(2)]
  then have "16 * h + l < 2 ^ LENGTH(8)" by simp
  then have "unat (of_nat (16 * h + l) :: byte) = 16 * h + l" by (rule unat_of_nat_len)
  then show ?case using 3 h f by (simp add: hex_encode_def del: of_nat_add of_nat_mult)
qed (simp_all add: hex_encode_def)

lemma hex_exactly_Some: "hex_exactly n s = Some b \<longleftrightarrow> hex_decode s = Some b \<and> length b = n"
  by (auto simp: hex_exactly_def split: option.splits)

lemma edVPK_Inr:
  assumes "\<And>x. length (sha256 x) = 32" "edVPK sha256 v = Inr vpk"
  shows "length vpk = 33 \<and> vpk ! 0 = 0xED \<and> v = EncodeNodePublic sha256 vpk \<and> DecodeNodePublic sha256 v = Inr vpk"
proof -
  have d: "DecodeNodePublic sha256 v = Inr vpk" "length vpk = 33" "vpk ! 0 = 0xED"
    using assms(2) by (auto simp: edVPK_def vpkLen_def split: sum.splits if_splits)
  then have "DecodeBase58Check sha256 v prefixNodePublic 33 = Inr vpk" by (simp add: DecodeNodePublic_def split: sum.splits)
  then show ?thesis using d decode_check_iff [of sha256, OF assms(1)] by (simp add: EncodeNodePublic_def)
qed

lemma attest_Decode_data:
  assumes "length vpk = 33" "vpk ! 0 = 0xED" "length i = 16" "length sig = 64"
  shows "attest_Decode \<lparr>memo_Type = bytes AttestMemoType, memo_Data = attest_data vpk epoch seq i sig, memo_Format = []\<rparr> =
    Some \<lparr>pa_RecVersion = 1, pa_DSeq = 0, pa_VPK = vpk, pa_Epoch = epoch, pa_Seq = seq, pa_BackupID = i, pa_Sig = sig\<rparr>"
  using assms by (simp add: attest_Decode_def attest_data_def pa_lens pa_Version_def VersionDelegated_def Let_def)

text \<open>
  An attestation that passed the check before publishing is accepted by anyone who reads it: the memo
  built for a signature that checks decodes to a record with the given key, epoch, sequence and backup id,
  and verifies for the account, however the backup id was spelled.
\<close>
theorem checked_attestation_verifies:
  assumes "\<And>x. length (sha256 x) = 32"
    and "attest_Memo sha256 vpk epoch seq backupID sigHex = Inr m" "attest_Check ed sha256 lo vpk account epoch seq backupID sigHex"
  shows "\<exists>r. attest_Decode m = Some r \<and> attest_Verify ed sha256 lo r account \<and> NodePublic sha256 r = vpk
    \<and> pa_Epoch r = epoch \<and> pa_Seq r = seq \<and> BackupIDHex r = map ascii_lower backupID"
proof -
  obtain key i sig where v: "edVPK sha256 vpk = Inr key" "hex_exactly 16 backupID = Some i" "hex_exactly 64 sigHex = Some sig"
    and m: "m = \<lparr>memo_Type = bytes AttestMemoType, memo_Data = attest_data key epoch seq i sig, memo_Format = []\<rparr>"
    using assms(2) by (cases "edVPK sha256 vpk"; cases "hex_exactly 16 backupID"; cases "hex_exactly 64 sigHex")
      (auto simp: attest_Memo_def Let_def sigLen_def split: sum.splits)
  note k = edVPK_Inr [OF assms(1) v(1)]
  have dk: "DecodeNodePublic sha256 vpk = Inr key" using k by blast
  have i: "hex_decode backupID = Some i" "length i = 16" "length sig = 64" using v(2,3) by (auto simp: hex_exactly_Some)
  have lower: "to_lower lo backupID = hex_encode i" "to_lower lo (hex_encode i) = hex_encode i" "map ascii_lower backupID = hex_encode i"
    using hex_decode_lower [OF i(1)] hex_decode_lower [OF hex_decode_encode, of i] by (simp_all add: to_lower_def)
  have "VerifyEd25519 ed key (bytes (SignString lo vpk account epoch seq (hex_encode i))) sig"
    using assms(3) v(3) unfolding attest_Check_def sigLen_def dk sum.case SignString_def lower by simp
  then show ?thesis
    using attest_Decode_data [of key i sig epoch seq] k i lower
    by (auto simp: m attest_Verify_def NodePublic_def BackupIDHex_def pa_Version_def)
qed

section \<open>Examples\<close>

definition sample_vpk :: "byte list" where "sample_vpk = 0xED # replicate 32 1"

definition sample_attest :: memo where
  "sample_attest = \<lparr>memo_Type = bytes AttestMemoType, memo_Data = attest_data sample_vpk 1 2 (replicate 16 3) (replicate 64 4), memo_Format = []\<rparr>"

definition sample_attest_tx :: tx_record where
  "sample_attest_tx = \<lparr>tr_Hash = ''AA'', tr_LedgerIndex = 9, tr_Validated = True, tr_Result = ''tesSUCCESS'', tr_Account = ''r'',
     tr_TxType = ''DIDSet'', tr_Sequence = 1, tr_Memos = [sample_attest], tr_Raw = JNull\<rparr>"

definition yes_ed :: ed25519 where
  "yes_ed = \<lparr>ed_public = \<lambda>_. replicate 32 1, ed_sign = \<lambda>_ _. replicate 64 4, ed_verify = \<lambda>_ _ _. True\<rparr>"

lemma sample_attest_decodes:
  "attest_Decode sample_attest = Some \<lparr>pa_RecVersion = 1, pa_DSeq = 0, pa_VPK = sample_vpk, pa_Epoch = 1, pa_Seq = 2,
     pa_BackupID = replicate 16 3, pa_Sig = replicate 64 4\<rparr>"
  unfolding sample_attest_def by (rule attest_Decode_data) (simp_all add: sample_vpk_def)


lemma checked_attestation_verifies_witness:
  "\<exists>m r. attest_Memo (\<lambda>_. replicate 32 1) (EncodeNodePublic (\<lambda>_. replicate 32 1) sample_vpk) 1 2 (hex_encode (replicate 16 3)) (hex_encode (replicate 64 4)) = Inr m
     \<and> attest_Decode m = Some r \<and> pa_Epoch r = 1"
proof -
  let ?v = "EncodeNodePublic (\<lambda>_. replicate 32 1) sample_vpk"
  have d: "DecodeNodePublic (\<lambda>_. replicate 32 1) ?v = Inr sample_vpk" by (rule decode_encode_node) (simp_all add: sample_vpk_def)
  have "SerializeMemos [sample_attest] = Inr (projr (SerializeMemos [sample_attest]))"
    by (simp add: SerializeMemos_def sample_attest_def MaxMemosSerialized_def memo_bytes_def opt_vl_def appendVL_def vl_prefix_def
        appendHeader_def attest_data_def sample_vpk_def AttestMemoType_def)
  then obtain b where b: "SerializeMemos [sample_attest] = Inr b" by blast
  have m: "attest_Memo (\<lambda>_. replicate 32 1) ?v 1 2 (hex_encode (replicate 16 3)) (hex_encode (replicate 64 4)) = Inr sample_attest"
    using d b by (simp add: attest_Memo_def edVPK_def hex_exactly_def pa_lens) (simp add: sample_vpk_def sample_attest_def Let_def)
  have "attest_Check yes_ed (\<lambda>_. replicate 32 1) id ?v ''r'' 1 2 (hex_encode (replicate 16 3)) (hex_encode (replicate 64 4))"
    using d by (simp add: attest_Check_def hex_exactly_def pa_lens VerifyEd25519_def yes_ed_def) (simp add: sample_vpk_def)
  from checked_attestation_verifies [OF _ m this] m show ?thesis by auto
qed

end
