(* ===== verification/Backup.thy ===== *)
theory Backup
  imports Restore Discover Pubattest
begin

text \<open>
  \<^verbatim>\<open>internal/backup/backup.go\<close>, the part without a network: reading, redacting, encoding and encrypting the
  operator's files into a plan, and sealing the finished manifest into memos.  The file system is a record of
  \<^verbatim>\<open>filepath.Abs\<close>, \<^verbatim>\<open>os.Lstat\<close> and \<^verbatim>\<open>os.ReadFile\<close>.
\<close>

section \<open>Options and plan\<close>

record file_stat =
  st_Symlink :: bool
  st_Regular :: bool
  st_Perm :: u32

record file_system =
  fs_Abs :: "string \<Rightarrow> string option"
  fs_Lstat :: "string \<Rightarrow> file_stat option"
  fs_Read :: "string \<Rightarrow> byte list option"

text \<open>\<open>bo_Created\<close> is the time of the run, formatted; \<open>bo_Tool\<close> is \<^verbatim>\<open>ToolVersion\<close>.\<close>

record backup_options =
  bo_ConfigPath :: string
  bo_ValidatorsPath :: string
  bo_Includes :: "string list"
  bo_Key :: "keyfile option"
  bo_Created :: string
  bo_Tool :: string
  bo_Tombstone :: bool
  bo_Redact :: options
  bo_Seq :: u32
  bo_Supersedes :: string
  bo_VPKSHA256 :: string
  bo_AttestPublicVPK :: string

record plan =
  bp_BackupID :: "byte list"
  bp_Manifest :: manifest
  bp_Chunks :: "byte list list"
  bp_ChunkMemos :: "memo list"
  bp_Bundle :: "byte list"
  bp_Moves :: "move list"
  bp_Role :: string
  bp_OnChainTxt :: "(string \<times> string) list"
  bp_AttestText :: string
  bp_AttestPublicText :: string
  bp_ManifestParts :: nat

datatype backup_error =
    NoKeyFile | CannotRead string | IsSymlink string | NotRegular string | RedactRefused string refused
  | TombstoneWithIncludes | MasterKeyFile string | KeyMaterial string | NamedTwice string
  | ContainerFailed container_error | SplitFailed chunk_error | TooManyChunks nat | MemoFailed chunk_error | TooManyParts nat

section \<open>Reading files\<close>

definition readFile :: "file_system \<Rightarrow> string \<Rightarrow> backup_error + (byte list \<times> u32 \<times> string)" where
  "readFile fs path =
     (case fs_Abs fs path of
        None \<Rightarrow> Inl (CannotRead path)
      | Some p \<Rightarrow>
          (case fs_Lstat fs p of
             None \<Rightarrow> Inl (CannotRead p)
           | Some st \<Rightarrow>
               if st_Symlink st then Inl (IsSymlink p)
               else if \<not> st_Regular st then Inl (NotRegular p)
               else (case fs_Read fs p of None \<Rightarrow> Inl (CannotRead p) | Some b \<Rightarrow> Inr (b, st_Perm st, p))))"

definition refuseSecrets :: "(string \<Rightarrow> string) \<Rightarrow> string \<Rightarrow> byte list \<Rightarrow> backup_error option" where
  "refuseSecrets lo path raw =
     (let base = to_lower lo (Base path); low = to_lower lo (str raw) in
      if base = ''validator-keys.json'' \<or> base = ''wallet.db'' \<or> has_suffix base ''.pem'' \<or> has_suffix base ''.key''
      then Some (MasterKeyFile path)
      else if contains low ''secret_key'' \<or> contains low ''-----begin'' then Some (KeyMaterial path)
      else None)"

section \<open>Build\<close>

record build_state =
  bs_on :: "entry list"
  bs_bundle :: "entry list"
  bs_files :: "mfile list"
  bs_moves :: "move list"
  bs_role :: string
  bs_txt :: "(string \<times> string) list"

definition listed_file :: "prims \<Rightarrow> string \<Rightarrow> u32 \<Rightarrow> byte list \<Rightarrow> string \<Rightarrow> mfile" where
  "listed_file pm path mode raw stored = \<lparr>mf_Path = path, mf_Mode = mode, mf_SHA256 = hex_encode (pm_sha256 pm raw), mf_Where = stored\<rparr>"

definition addSplit ::
    "prims \<Rightarrow> (string \<Rightarrow> string) \<Rightarrow> file_system \<Rightarrow> options \<Rightarrow> string \<Rightarrow> build_state \<Rightarrow> backup_error + build_state" where
  "addSplit pm lo fs opt path s =
     and_then (readFile fs path) (\<lambda>(raw, mode, path).
       case Split lo (Parse (str raw)) opt of
         Inl e \<Rightarrow> Inl (RedactRefused path e)
       | Inr res \<Rightarrow>
           let on = Render (r_onchain res); moved = f_lines (r_bundle res) \<noteq> [] in
           Inr \<lparr>bs_on = bs_on s @ [\<lparr>e_Path = path, e_Mode = mode, e_Data = bytes on\<rparr>],
                bs_bundle = bs_bundle s
                  @ (if moved then [\<lparr>e_Path = path, e_Mode = mode, e_Data = bytes (Render (r_bundle res))\<rparr>] else []),
                bs_files = bs_files s @ [listed_file pm path mode raw (if moved then ''onchain+bundle'' else ''onchain'')],
                bs_moves = bs_moves s @ map (\<lambda>mv. mv\<lparr>m_file := path\<rparr>) (r_moves res),
                bs_role = (if r_role res = ''validator'' then ''validator'' else bs_role s),
                bs_txt = AList.update path on (bs_txt s)\<rparr>)"

definition add_include :: "prims \<Rightarrow> (string \<Rightarrow> string) \<Rightarrow> file_system \<Rightarrow> string \<Rightarrow> build_state \<Rightarrow> backup_error + build_state" where
  "add_include pm lo fs inc s =
     and_then (readFile fs inc) (\<lambda>(raw, mode, inc).
       case refuseSecrets lo inc raw of
         Some e \<Rightarrow> Inl e
       | None \<Rightarrow>
           Inr (s\<lparr>bs_bundle := bs_bundle s @ [\<lparr>e_Path = inc, e_Mode = mode, e_Data = raw\<rparr>],
                  bs_files := bs_files s @ [listed_file pm inc mode raw ''bundle'']\<rparr>))"

fun add_includes :: "prims \<Rightarrow> (string \<Rightarrow> string) \<Rightarrow> file_system \<Rightarrow> string list \<Rightarrow> build_state \<Rightarrow> backup_error + build_state" where
  "add_includes pm lo fs [] s = Inr s"
| "add_includes pm lo fs (inc # incs) s = and_then (add_include pm lo fs inc s) (add_includes pm lo fs incs)"

definition build_start :: build_state where
  "build_start = \<lparr>bs_on = [], bs_bundle = [], bs_files = [], bs_moves = [], bs_role = ''node'', bs_txt = []\<rparr>"

definition gather :: "prims \<Rightarrow> (string \<Rightarrow> string) \<Rightarrow> file_system \<Rightarrow> backup_options \<Rightarrow> backup_error + build_state" where
  "gather pm lo fs opts =
     (if bo_Tombstone opts \<and> bo_Includes opts \<noteq> [] then Inl TombstoneWithIncludes
      else if bo_Tombstone opts then Inr build_start
      else and_then (addSplit pm lo fs (bo_Redact opts) (bo_ConfigPath opts) build_start) (\<lambda>s.
        and_then (if bo_ValidatorsPath opts \<noteq> [] then addSplit pm lo fs (bo_Redact opts) (bo_ValidatorsPath opts) s else Inr s)
          (add_includes pm lo fs (bo_Includes opts))))"

fun named_twice :: "string list \<Rightarrow> mfile list \<Rightarrow> string option" where
  "named_twice seen [] = None"
| "named_twice seen (f # fs) = (if mf_Path f \<in> set seen then Some (mf_Path f) else named_twice (mf_Path f # seen) fs)"

definition of_container :: "container_error + 'a \<Rightarrow> backup_error + 'a" where
  "of_container r = (case r of Inl e \<Rightarrow> Inl (ContainerFailed e) | Inr x \<Rightarrow> Inr x)"

text \<open>The 1-based index of the first file of the path, 0 when there is none.\<close>

fun file_index :: "mfile list \<Rightarrow> string \<Rightarrow> nat" where
  "file_index [] p = 0"
| "file_index (f # fs) p = (if mf_Path f = p then 1 else case file_index fs p of 0 \<Rightarrow> 0 | Suc i \<Rightarrow> Suc (Suc i))"

definition redactions :: "mfile list \<Rightarrow> move list \<Rightarrow> redaction list" where
  "redactions files moves =
     map (\<lambda>mv. \<lparr>rd_FileIndex = int (file_index files (m_file mv)), rd_Stanza = m_stanza mv, rd_Lines = int (m_lines mv),
                rd_Comments = int (m_comments mv), rd_To = ''bundle''\<rparr>) moves"

definition draft_manifest :: "prims \<Rightarrow> backup_options \<Rightarrow> keyfile \<Rightarrow> build_state \<Rightarrow> byte list \<Rightarrow> byte list \<Rightarrow> byte list \<Rightarrow> manifest" where
  "draft_manifest pm opts key s bid onRaw bundleRaw =
     blank_manifest\<lparr>mn_Epoch := kf_Epoch key, mn_Seq := bo_Seq opts, mn_BackupID := hex_encode bid, mn_Created := bo_Created opts,
       mn_Tool := bo_Tool opts, mn_Role := bs_role s, mn_VPKSHA256 := bo_VPKSHA256 opts,
       mn_PlainSHA256 := hex_encode (pm_sha256 pm onRaw), mn_PlainLen := int (length onRaw),
       mn_BundlePlainSHA256 := hex_encode (pm_sha256 pm bundleRaw), mn_Files := bs_files s,
       mn_Redactions := redactions (bs_files s) (bs_moves s), mn_Supersedes := bo_Supersedes opts, mn_Tombstone := bo_Tombstone opts\<rparr>"

text \<open>One chunk: its ciphertext and its memo.\<close>

definition seal_piece :: "prims \<Rightarrow> byte list \<Rightarrow> byte list \<Rightarrow> nat \<Rightarrow> nat \<times> byte list \<Rightarrow> backup_error + (byte list \<times> memo)" where
  "seal_piece pm kb bid tot = (\<lambda>(i, piece).
     let ct = SealChunk (pm_gcm pm) kb bid (of_nat i) (of_nat tot) piece in
     case chunk_Encode TypeChunk bid (of_nat i) (of_nat tot) [] ct of
       Inl e \<Rightarrow> Inl (MemoFailed e)
     | Inr m \<Rightarrow> Inr (ct, m))"

definition chunk_entry :: "prims \<Rightarrow> nat \<times> byte list \<Rightarrow> mchunk" where
  "chunk_entry pm = (\<lambda>(i, ct). \<lparr>ch_Index = int i, ch_TxHash = [], ch_Ledger = 0, ch_SHA256 = hex_encode (pm_sha256 pm ct)\<rparr>)"

definition projectedManifest :: "prims \<Rightarrow> manifest \<Rightarrow> byte list" where
  "projectedManifest pm m =
     Marshal (pm_to_json pm) (m\<lparr>mn_Chunks := map (\<lambda>c. c\<lparr>ch_TxHash := replicate 64 CHR ''F'', ch_Ledger := 0xFFFFFFFF\<rparr>) (mn_Chunks m)\<rparr>)"

definition parts_needed :: "nat \<Rightarrow> nat" where
  "parts_needed n = (n + ManifestPartLen - 1) div ManifestPartLen"

definition projectedManifestParts :: "prims \<Rightarrow> manifest \<Rightarrow> nat" where
  "projectedManifestParts pm m = parts_needed (length (projectedManifest pm m))"

definition finish_plan ::
    "prims \<Rightarrow> (string \<Rightarrow> string) \<Rightarrow> backup_options \<Rightarrow> keyfile \<Rightarrow> build_state \<Rightarrow> byte list \<Rightarrow> manifest
      \<Rightarrow> (byte list \<times> memo) list \<Rightarrow> byte list \<Rightarrow> backup_error + plan" where
  "finish_plan pm lo opts key s bid m sealed stream =
     (let n = projectedManifestParts pm m in
      if n > MaxManifestParts then Inl (TooManyParts n)
      else Inr \<lparr>bp_BackupID = bid, bp_Manifest = m, bp_Chunks = map fst sealed, bp_ChunkMemos = map snd sealed, bp_Bundle = stream,
             bp_Moves = bs_moves s, bp_Role = bs_role s, bp_OnChainTxt = bs_txt s,
             bp_AttestText = AttestString (mn_BackupID m) (mn_PlainSHA256 m) (mn_BundlePlainSHA256 m),
             bp_AttestPublicText = (if bo_AttestPublicVPK opts = [] then []
               else SignString lo (bo_AttestPublicVPK opts) (EncodeAddress (pm_sha256 pm) (kf_AccountID key)) (kf_Epoch key) (bo_Seq opts) (mn_BackupID m)),
             bp_ManifestParts = n\<rparr>)"

definition seal_plan ::
    "prims \<Rightarrow> (string \<Rightarrow> string) \<Rightarrow> backup_options \<Rightarrow> keyfile \<Rightarrow> build_state \<Rightarrow> byte list \<Rightarrow> byte list \<Rightarrow> backup_error + plan" where
  "seal_plan pm lo opts key s onRaw bundleRaw =
     (let onPacked = Pack (pm_deflate pm) onRaw; bundlePacked = Pack (pm_deflate pm) bundleRaw in
      case chunk_Split onPacked of
        Inl e \<Rightarrow> Inl (SplitFailed e)
      | Inr pieces \<Rightarrow>
          if length pieces > MaxChunks then Inl (TooManyChunks (length pieces))
          else
            let bid = BackupID (pm_hmac pm) (kf_Key key) (onPacked @ bundlePacked) (kf_Epoch key) (bo_Seq opts);
                m = draft_manifest pm opts key s bid onRaw bundleRaw
            in if bo_Tombstone opts then finish_plan pm lo opts key s bid m [] []
               else and_then (each_ok (seal_piece pm (BackupKey (pm_hkdf pm) (kf_Key key) bid) bid (length pieces)) (enumerate 0 pieces)) (\<lambda>sealed.
                 let stream = SealBundle (pm_gcm pm) (BundleKey (pm_hkdf pm) (kf_Key key) bid) bid bundlePacked
                 in finish_plan pm lo opts key s bid
                      (m\<lparr>mn_Chunks := map (chunk_entry pm) (enumerate 0 (map fst sealed)),
                         mn_BundleCipherSHA256 := hex_encode (pm_sha256 pm stream), mn_BundleLen := int (length stream)\<rparr>)
                      sealed stream))"

definition backup_Build :: "prims \<Rightarrow> (string \<Rightarrow> string) \<Rightarrow> file_system \<Rightarrow> backup_options \<Rightarrow> backup_error + plan" where
  "backup_Build pm lo fs opts =
     (case bo_Key opts of
        None \<Rightarrow> Inl NoKeyFile
      | Some key \<Rightarrow>
          and_then (gather pm lo fs opts) (\<lambda>s.
            case named_twice [] (bs_files s) of
              Some p \<Rightarrow> Inl (NamedTwice p)
            | None \<Rightarrow>
                and_then (of_container (Encode (pm_sha256 pm) (bs_on s))) (\<lambda>onRaw.
                and_then (of_container (Encode (pm_sha256 pm) (bs_bundle s))) (\<lambda>bundleRaw.
                  seal_plan pm lo opts key s onRaw bundleRaw))))"

section \<open>Manifest memos\<close>

text \<open>\<open>prefix\<close> is the fresh random nonce prefix; a wrong length of it is the panic of \<^verbatim>\<open>SealManifest\<close>, never taken.\<close>

definition seal_part :: "prims \<Rightarrow> byte list \<Rightarrow> byte list \<Rightarrow> byte list \<Rightarrow> nat \<Rightarrow> byte list \<Rightarrow> nat \<Rightarrow> backup_error + memo" where
  "seal_part pm kb bid prefix n body i =
     (case SealManifest (pm_gcm pm) kb bid prefix (of_nat i) (of_nat n) (take ManifestPartLen (drop (i * ManifestPartLen) body)) of
        None \<Rightarrow> Inl (MemoFailed NonceMismatch)
      | Some ct \<Rightarrow>
          (case chunk_Encode TypeManifest bid (of_nat i) (of_nat n) prefix ct of
             Inl e \<Rightarrow> Inl (MemoFailed e)
           | Inr m \<Rightarrow> Inr m))"

definition ManifestMemos :: "prims \<Rightarrow> byte list \<Rightarrow> byte list \<Rightarrow> byte list \<Rightarrow> manifest \<Rightarrow> backup_error + (memo list \<times> byte list)" where
  "ManifestMemos pm prefix key bid m =
     (let body = Marshal (pm_to_json pm) m; n = parts_needed (length body) in
      if n > MaxManifestParts then Inl (TooManyParts n)
      else and_then (each_ok (seal_part pm (BackupKey (pm_hkdf pm) key bid) bid prefix n body) [0..<n]) (\<lambda>memos. Inr (memos, body)))"

section \<open>What a plan is made of\<close>

text \<open>A file the operator named, as read, with the result of the split when it is a config file.\<close>

record source =
  so_path :: string
  so_mode :: u32
  so_raw :: "byte list"
  so_split :: "result option"

definition on_of :: "source \<Rightarrow> entry list" where
  "on_of x = (case so_split x of
     None \<Rightarrow> [] | Some r \<Rightarrow> [\<lparr>e_Path = so_path x, e_Mode = so_mode x, e_Data = bytes (Render (r_onchain r))\<rparr>])"

definition bundle_of :: "source \<Rightarrow> entry list" where
  "bundle_of x = (case so_split x of
     None \<Rightarrow> [\<lparr>e_Path = so_path x, e_Mode = so_mode x, e_Data = so_raw x\<rparr>]
   | Some r \<Rightarrow> if f_lines (r_bundle r) \<noteq> [] then [\<lparr>e_Path = so_path x, e_Mode = so_mode x, e_Data = bytes (Render (r_bundle r))\<rparr>] else [])"

definition place_of :: "source \<Rightarrow> string" where
  "place_of x = (case so_split x of None \<Rightarrow> ''bundle'' | Some r \<Rightarrow> if f_lines (r_bundle r) \<noteq> [] then ''onchain+bundle'' else ''onchain'')"

definition source_ok :: "(string \<Rightarrow> string) \<Rightarrow> options \<Rightarrow> source \<Rightarrow> bool" where
  "source_ok lo opt x \<longleftrightarrow> (\<forall>r. so_split x = Some r \<longrightarrow> Split lo (Parse (str (so_raw x))) opt = Inr r)"

definition was_read :: "file_system \<Rightarrow> string \<Rightarrow> source \<Rightarrow> bool" where
  "was_read fs path x \<longleftrightarrow> readFile fs path = Inr (so_raw x, so_mode x, so_path x)"

definition made_of :: "prims \<Rightarrow> (string \<Rightarrow> string) \<Rightarrow> options \<Rightarrow> build_state \<Rightarrow> source list \<Rightarrow> bool" where
  "made_of pm lo opt s xs \<longleftrightarrow> bs_on s = concat (map on_of xs) \<and> bs_bundle s = concat (map bundle_of xs)
     \<and> bs_files s = map (\<lambda>x. listed_file pm (so_path x) (so_mode x) (so_raw x) (place_of x)) xs \<and> list_all (source_ok lo opt) xs"

definition requested :: "backup_options \<Rightarrow> string list" where
  "requested opts =
     (if bo_Tombstone opts then []
      else bo_ConfigPath opts # (if bo_ValidatorsPath opts \<noteq> [] then [bo_ValidatorsPath opts] else []) @ bo_Includes opts)"

lemma addSplit_made:
  assumes "made_of pm lo opt s xs" "addSplit pm lo fs opt path s = Inr s'"
  shows "\<exists>x. was_read fs path x \<and> made_of pm lo opt s' (xs @ [x])"
proof -
  obtain raw mode p where rd: "readFile fs path = Inr (raw, mode, p)"
    using assms(2) by (cases "readFile fs path") (auto simp: addSplit_def)
  obtain r where r: "readFile fs path = Inr (raw, mode, p)" "Split lo (Parse (str raw)) opt = Inr r"
    using assms(2) rd by (cases "Split lo (Parse (str raw)) opt") (auto simp: addSplit_def)
  let ?x = "\<lparr>so_path = p, so_mode = mode, so_raw = raw, so_split = Some r\<rparr>"
  have "made_of pm lo opt s' (xs @ [?x])"
    using assms r by (auto simp: made_of_def addSplit_def on_of_def bundle_of_def place_of_def source_ok_def Let_def split: if_splits)
  then show ?thesis using r(1) by (intro exI [of _ ?x]) (simp add: was_read_def)
qed

lemma add_include_made:
  assumes "made_of pm lo opt s xs" "add_include pm lo fs path s = Inr s'"
  shows "\<exists>x. was_read fs path x \<and> made_of pm lo opt s' (xs @ [x])"
proof -
  obtain raw mode p where r: "readFile fs path = Inr (raw, mode, p)" "refuseSecrets lo p raw = None"
    using assms(2) by (auto simp: add_include_def and_then_Inr split: option.splits)
  let ?x = "\<lparr>so_path = p, so_mode = mode, so_raw = raw, so_split = None\<rparr>"
  have "made_of pm lo opt s' (xs @ [?x])"
    using assms r by (auto simp: made_of_def add_include_def on_of_def bundle_of_def place_of_def source_ok_def)
  then show ?thesis using r(1) by (intro exI [of _ ?x]) (simp add: was_read_def)
qed

lemma add_includes_made:
  assumes "made_of pm lo opt s xs" "add_includes pm lo fs paths s = Inr s'"
  shows "\<exists>ys. list_all2 (was_read fs) paths ys \<and> made_of pm lo opt s' (xs @ ys)"
  using assms
proof (induction paths arbitrary: s xs)
  case (Cons path paths)
  obtain t where t: "add_include pm lo fs path s = Inr t" "add_includes pm lo fs paths t = Inr s'"
    using Cons.prems(2) by (auto simp: and_then_Inr)
  obtain x where x: "was_read fs path x" "made_of pm lo opt t (xs @ [x])" using add_include_made [OF Cons.prems(1) t(1)] by blast
  obtain ys where "list_all2 (was_read fs) paths ys" "made_of pm lo opt s' ((xs @ [x]) @ ys)" using Cons.IH [OF x(2) t(2)] by blast
  then show ?case using x(1) by (intro exI [of _ "x # ys"]) simp
qed auto

lemma gather_made:
  assumes "gather pm lo fs opts = Inr s"
  shows "\<exists>xs. list_all2 (was_read fs) (requested opts) xs \<and> made_of pm lo (bo_Redact opts) s xs"
proof (cases "bo_Tombstone opts")
  case True
  then show ?thesis using assms by (auto simp: gather_def requested_def made_of_def build_start_def split: if_splits)
next
  case False
  let ?opt = "bo_Redact opts"
  obtain s1 s2 where s1: "addSplit pm lo fs ?opt (bo_ConfigPath opts) build_start = Inr s1"
    and s2: "(if bo_ValidatorsPath opts \<noteq> [] then addSplit pm lo fs ?opt (bo_ValidatorsPath opts) s1 else Inr s1) = Inr s2"
    and s3: "add_includes pm lo fs (bo_Includes opts) s2 = Inr s"
    using assms False unfolding gather_def and_then_Inr by (auto simp: and_then_Inr)
  obtain x where x: "was_read fs (bo_ConfigPath opts) x" "made_of pm lo ?opt s1 ([] @ [x])"
    using addSplit_made [OF _ s1, of "[]"] by (auto simp: made_of_def build_start_def)
  have "\<exists>vs. list_all2 (was_read fs) (if bo_ValidatorsPath opts \<noteq> [] then [bo_ValidatorsPath opts] else []) vs \<and> made_of pm lo ?opt s2 ([x] @ vs)"
    using addSplit_made [OF x(2)] s2 x(2) by (fastforce split: if_splits)
  then obtain vs where vs: "list_all2 (was_read fs) (if bo_ValidatorsPath opts \<noteq> [] then [bo_ValidatorsPath opts] else []) vs"
    "made_of pm lo ?opt s2 ([x] @ vs)" by blast
  obtain ys where "list_all2 (was_read fs) (bo_Includes opts) ys" "made_of pm lo ?opt s (([x] @ vs) @ ys)"
    using add_includes_made [OF vs(2) s3] by blast
  then show ?thesis using x(1) vs(1) False
    by (intro exI [of _ "x # vs @ ys"]) (simp add: requested_def list_all2_appendI)
qed

lemma named_twice_None: "named_twice seen fs = None \<longleftrightarrow> distinct (map mf_Path fs) \<and> set (map mf_Path fs) \<inter> set seen = {}"
  by (induction fs arbitrary: seen) auto

section \<open>Merging gives the original bytes\<close>

lemma source_merge:
  assumes "source_ok lo opt x" "so_split x = Some r"
  shows "Render (Merge (Parse (Render (r_onchain r))) (Parse (Render (r_bundle r)))) = str (so_raw x)"
    "f_lines (r_bundle r) = [] \<Longrightarrow> Render (Merge (Parse (Render (r_onchain r))) \<lparr>f_lines = [], f_stanzas = []\<rparr>) = str (so_raw x)"
  using assms merge_split_text [of lo "str (so_raw x)" opt r] merge_split_gen [of lo "str (so_raw x)" opt r "\<lparr>f_lines = [], f_stanzas = []\<rparr>" "[]"]
  by (simp_all add: source_ok_def)

lemma path_lists:
  "e_Path ` set (on_of x) \<subseteq> {so_path x}" "e_Path ` set (bundle_of x) \<subseteq> {so_path x}"
  "set (on_of x) \<noteq> {} \<or> set (bundle_of x) \<noteq> {}"
  by (auto simp: on_of_def bundle_of_def split: option.splits)

lemma distinct_entries:
  assumes "distinct (map so_path xs)" "\<And>x. e_Path ` set (f x) \<subseteq> {so_path x}" "\<And>x. length (f x) \<le> 1"
  shows "distinct (map e_Path (concat (map f xs)))"
  using assms(1)
proof (induction xs)
  case (Cons x xs)
  have "f x = [] \<or> (\<exists>e. f x = [e] \<and> e_Path e = so_path x)" using assms(2,3) [of x] by (cases "f x") auto
  moreover have "e_Path ` set (concat (map f xs)) \<subseteq> so_path ` set xs" using assms(2) by (fastforce simp: image_subset_iff)
  moreover from this have "so_path x \<notin> e_Path ` set (concat (map f xs))" using Cons.prems by auto
  ultimately show ?case using Cons by (elim disjE exE conjE) (simp_all add: image_iff)
qed simp

text \<open>Entries as they come back from an archive: sorted, with permission bits only.\<close>

definition unarchived :: "entry list \<Rightarrow> entry list" where
  "unarchived es = map perm_bits (sort_key e_Path es)"

lemma set_unarchived: "set (unarchived es) = perm_bits ` set es"
  by (simp add: unarchived_def)

lemma unarchived_paths: "distinct (map e_Path es) \<Longrightarrow> distinct (map e_Path (unarchived es))"
  using distinct_map [of e_Path "sort_key e_Path es"] by (simp add: unarchived_def comp_def perm_bits_def distinct_map)

lemma perm_bits_simps [simp]: "e_Path (perm_bits e) = e_Path e" "e_Data (perm_bits e) = e_Data e"
  by (simp_all add: perm_bits_def)

lemma source_value:
  assumes d: "distinct (map so_path xs)" and x: "x \<in> set xs" "source_ok lo opt x"
  shows "\<exists>f. map_of (by_path (unarchived (concat (map on_of xs))) (unarchived (concat (map bundle_of xs)))) (so_path x) = Some f
    \<and> rf_Path f = so_path x \<and> rf_Data f = so_raw x"
proof -
  let ?on = "unarchived (concat (map on_of xs))" and ?bu = "unarchived (concat (map bundle_of xs))"
  have don: "distinct (map e_Path ?on)" and dbu: "distinct (map e_Path ?bu)"
    by (intro unarchived_paths distinct_entries [OF d] path_lists; simp add: on_of_def bundle_of_def split: option.splits)+
  note v = by_path_value [OF don dbu]
  have only: "y = x" if "y \<in> set xs" "so_path y = so_path x" for y using d x(1) that by (auto simp: distinct_map inj_on_def)
  show ?thesis
  proof (cases "so_split x")
    case None
    let ?b = "\<lparr>e_Path = so_path x, e_Mode = so_mode x, e_Data = so_raw x\<rparr>"
    have b: "perm_bits ?b \<in> set ?bu" using None x(1) by (force simp: set_unarchived bundle_of_def)
    have "so_path x \<notin> e_Path ` set ?on"
    proof
      assume "so_path x \<in> e_Path ` set ?on"
      then obtain y e where "y \<in> set xs" "e \<in> set (on_of y)" "e_Path e = so_path x" by (auto simp: set_unarchived)
      then show False using only [of y] None by (auto simp: on_of_def split: option.splits)
    qed
    then show ?thesis using v(2) [OF b] by (simp add: new_rfile_def)
  next
    case (Some r)
    let ?e = "\<lparr>e_Path = so_path x, e_Mode = so_mode x, e_Data = bytes (Render (r_onchain r))\<rparr>"
    have e: "perm_bits ?e \<in> set ?on" using Some x(1) by (force simp: set_unarchived on_of_def)
    note m = source_merge [OF x(2) Some]
    show ?thesis
    proof (cases "f_lines (r_bundle r) = []")
      case True
      have "so_path x \<notin> e_Path ` set ?bu"
      proof
        assume "so_path x \<in> e_Path ` set ?bu"
        then obtain y b where "y \<in> set xs" "b \<in> set (bundle_of y)" "e_Path b = so_path x" by (auto simp: set_unarchived)
        then show False using only [of y] Some True by (auto simp: bundle_of_def split: option.splits if_splits)
      qed
      then show ?thesis using v(1) [OF e] v(4) m(2) [OF True] by (simp add: merge_entry_def new_rfile_def Let_def)
    next
      case False
      let ?b = "\<lparr>e_Path = so_path x, e_Mode = so_mode x, e_Data = bytes (Render (r_bundle r))\<rparr>"
      have "perm_bits ?b \<in> set ?bu" using Some False x(1) by (force simp: set_unarchived bundle_of_def)
      from v(3) [OF this] show ?thesis using v(1) [OF e] m(1) by (simp add: merge_entry_def new_rfile_def Let_def)
    qed
  qed
qed

lemma map_insort_key: "map g (insort_key (\<lambda>x. f (g x)) x xs) = insort_key f (g x) (map g xs)"
  by (induction xs) auto

lemma map_sort_key_map: "map g (sort_key (\<lambda>x. f (g x)) xs) = sort_key f (map g xs)"
  by (induction xs) (simp_all add: map_insort_key)

lemma check_listed_ok:
  "distinct (map mf_Path mfs) \<Longrightarrow> set (map mf_Path mfs) \<inter> set acc = {} \<Longrightarrow> \<forall>mf \<in> set mfs. checkPath (mf_Path mf) = None
     \<Longrightarrow> check_listed acc mfs = Inr (rev (map mf_Path mfs) @ acc)"
  by (induction mfs arbitrary: acc) auto

lemma map_filter_map_Some: "\<forall>x \<in> set xs. f (h x) = Some (g x) \<Longrightarrow> List.map_filter f (map h xs) = map g xs"
  by (induction xs) (simp_all add: map_filter_simps)

definition listing :: "prims \<Rightarrow> source list \<Rightarrow> mfile list" where
  "listing pm xs = map (\<lambda>x. listed_file pm (so_path x) (so_mode x) (so_raw x) (place_of x)) xs"

lemma restore_sources:
  assumes d: "distinct (map so_path xs)" and c: "\<forall>x \<in> set xs. checkPath (so_path x) = None" and ok: "list_all (source_ok lo opt) xs"
    and m: "mn_Files m = listing pm xs"
  shows "\<exists>rp. restore_Build (pm_sha256 pm) m (unarchived (concat (map on_of xs))) (unarchived (concat (map bundle_of xs))) = Inr rp
    \<and> map (\<lambda>f. (rf_Path f, rf_Data f)) (rp_Files rp) = sort_key fst (map (\<lambda>x. (so_path x, so_raw x)) xs)
    \<and> list_all (Complete (pm_sha256 pm)) (rp_Files rp)"
proof -
  let ?on = "unarchived (concat (map on_of xs))" and ?bu = "unarchived (concat (map bundle_of xs))"
  have paths: "map mf_Path (mn_Files m) = map so_path xs" by (simp add: m listing_def listed_file_def)
  have cm: "\<forall>mf \<in> set (mn_Files m). checkPath (mf_Path mf) = None" using c by (simp add: m listing_def listed_file_def)
  have l: "check_listed [] (mn_Files m) = Inr (rev (map so_path xs) @ [])"
    using check_listed_ok [of "mn_Files m" "[]", unfolded paths] d cm by simp
  have "\<forall>e \<in> set (?on @ ?bu). e_Path e \<in> so_path ` set xs"
    using path_lists(1,2) by (fastforce simp: set_unarchived)
  then have e: "check_entries (rev (map so_path xs) @ []) (?on @ ?bu) = None" using c by (force simp: check_entries_None)
  have "\<exists>rp. restore_Build (pm_sha256 pm) m ?on ?bu = Inr rp"
    unfolding restore_Build_def l and_then_simps e option.case Let_def by (simp split: prod.splits)
  then obtain rp where rp: "restore_Build (pm_sha256 pm) m ?on ?bu = Inr rp" by blast
  have "\<forall>x \<in> set xs. \<exists>f. map_of (by_path ?on ?bu) (so_path x) = Some f \<and> rf_Path f = so_path x \<and> rf_Data f = so_raw x"
    using source_value [OF d] ok by (auto simp: list_all_iff)
  from bchoice [OF this] obtain val where
    v: "\<forall>x \<in> set xs. map_of (by_path ?on ?bu) (so_path x) = Some (val x) \<and> rf_Path (val x) = so_path x \<and> rf_Data (val x) = so_raw x" by blast
  define fs where "fs = map (\<lambda>x. with_proof (pm_sha256 pm) (listed_file pm (so_path x) (so_mode x) (so_raw x) (place_of x)) (val x)) xs"
  have "List.map_filter (\<lambda>mf. map_option (with_proof (pm_sha256 pm) mf) (map_of (by_path ?on ?bu) (mf_Path mf))) (listing pm xs) = fs"
    unfolding listing_def fs_def by (rule map_filter_map_Some) (use v in \<open>simp add: listed_file_def\<close>)
  then have files: "rp_Files rp = sort_key rf_Path fs" using restore_files [OF rp] by (simp add: m)
  have pairs: "map (\<lambda>f. (rf_Path f, rf_Data f)) fs = map (\<lambda>x. (so_path x, so_raw x)) xs" using v by (simp add: fs_def)
  have "map (\<lambda>f. (rf_Path f, rf_Data f)) (sort_key rf_Path fs) = sort_key fst (map (\<lambda>f. (rf_Path f, rf_Data f)) fs)"
    using map_sort_key_map [of "\<lambda>f. (rf_Path f, rf_Data f)" fst fs] by simp
  moreover have "list_all (Complete (pm_sha256 pm)) fs" using v by (simp add: fs_def list_all_iff listed_file_def)
  ultimately show ?thesis using rp by (auto simp: files pairs list_all_iff)
qed

section \<open>Sealed data comes back\<close>

text \<open>What is relied on of the library's primitives.\<close>

definition prims_ok :: "prims \<Rightarrow> bool" where
  "prims_ok pm \<longleftrightarrow> gcm_ok (pm_gcm pm) \<and> (\<forall>x. pm_inflate pm (pm_deflate pm x) = Some x)
     \<and> (\<forall>d. length (pm_sha256 pm d) = 32) \<and> (\<forall>k d. length (pm_hmac pm k d) = 32)"

lemma unpack_checked_pack:
  assumes "prims_ok pm" "Decode (pm_sha256 pm) raw = Inr es"
  shows "unpack_checked pm (hex_encode (pm_sha256 pm raw)) err (Pack (pm_deflate pm) raw) = Inr es"
  using assms unpack_packed [of "pm_inflate pm" "pm_deflate pm" raw] by (simp add: unpack_checked_def prims_ok_def)

lemma BundleID_sealed: "length bid = 16 \<Longrightarrow> BundleID (SealBundle g k bid p) = Inr bid"
  by (simp add: BundleID_def SealBundle_def bundleMagic_def bytes_def)

lemma open_sealed:
  assumes "prims_ok pm" "length bid = 16" "keys (cd_Epoch cand) = Some k" "cd_BackupID cand = bid"
    and "stream = SealBundle (pm_gcm pm) (BundleKey (pm_hkdf pm) k bid) bid (Pack (pm_deflate pm) raw)"
    and "mn_BundleCipherSHA256 (cd_Manifest cand) = hex_encode (pm_sha256 pm stream)"
    and "mn_BundlePlainSHA256 (cd_Manifest cand) = hex_encode (pm_sha256 pm raw)" "Decode (pm_sha256 pm) raw = Inr es"
  shows "discover_OpenBundle pm keys cand stream = Inr es"
proof -
  have g: "gcm_ok (pm_gcm pm)" using assms(1) by (simp add: prims_ok_def)
  show ?thesis
    using assms(2-4,6,7) open_sealed_bundle [OF g assms(2), of "BundleKey (pm_hkdf pm) k bid"] unpack_checked_pack [OF assms(1,8)]
    by (simp add: discover_OpenBundle_def assms(5) BundleID_sealed epoch_key_def)
qed

text \<open>One chunk fetched: the transaction carries the chunk's memo and no other.\<close>

lemma fetch_sealed_chunk:
  assumes "gcm_ok (pm_gcm pm)" "n = length (mn_Chunks (cd_Manifest cand))" "i < n" "n \<le> 8"
    and "ch_Index ch = int i" "ch_SHA256 ch = hex_encode (pm_sha256 pm ct)"
    and "ct = SealChunk (pm_gcm pm) kb (cd_BackupID cand) (of_nat i) (of_nat n) blk"
    and "chunk_Encode TypeChunk (cd_BackupID cand) (of_nat i) (of_nat n) [] ct = Inr memo"
    and "fetch_record pm rd res n ch = Inr t" "tr_Memos t = [memo]"
  shows "fetch_chunk pm rd kb res cand ch = Inr blk"
proof -
  have u: "unat (of_nat i :: u16) = i" "unat (of_nat n :: u16) = n" using assms(3,4) by (simp_all add: unat_of_nat_len)
  have lt: "(of_nat i :: u16) < of_nat n" using assms(3) by (simp add: word_less_nat_alt u)
  have tag: "TagLen \<le> length ct" using assms(1) by (simp add: assms(7) SealChunk_def gcm_length TagLen_def)
  let ?p = "\<lparr>pl_Type = TypeChunk, pl_BackupID = cd_BackupID cand, pl_Index = of_nat i, pl_Total = of_nat n,
    pl_Nonce = (if TypeChunk = TypeManifest then [] else replicate 10 0), pl_Ciphertext = ct\<rparr>"
  have d: "chunk_Decode memo = Some ?p" using decode_encoded_memo [OF assms(8) _ lt tag] by simp
  have ui: "uint (of_nat i :: u16) = int i" by (metis u(1) uint_nat)
  have ps: "chunk_payloads (cd_BackupID cand) (ch_Index ch) [memo] = [?p]"
    by (simp add: chunk_payloads_def map_filter_simps d assms(5) ui)
  have "OpenChunk (pm_gcm pm) kb (cd_BackupID cand) (of_nat i) (of_nat n) ct = Inr blk"
    using assms(1) by (simp add: assms(7) OpenChunk_def SealChunk_def gcm_open_seal open_or_auth_def)
  then have "open_payload pm kb (cd_BackupID cand) (of_nat n) ch ?p = Inr blk" by (simp add: open_payload_def assms(6))
  then show ?thesis using assms(9,10) by (simp add: fetch_chunk_def Let_def assms(2) [symmetric] u(2) ps)
qed

lemma each_ok_nth:
  assumes "each_ok f xs = Inr ys"
  shows "length ys = length xs" "i < length xs \<Longrightarrow> f (xs ! i) = Inr (ys ! i)"
  using assms by (auto simp: each_ok_Inr list_all2_conv_all_nth)

lemma each_ok_zip:
  assumes "length xs = length ys" "\<And>i. i < length xs \<Longrightarrow> f (xs ! i) = Inr (ys ! i)"
  shows "each_ok f xs = Inr ys"
  using assms by (simp add: each_ok_Inr list_all2_conv_all_nth)

text \<open>The parts of a plan, named.\<close>

record plan_parts =
  pp_key :: keyfile
  pp_sources :: "source list"
  pp_onRaw :: "byte list"
  pp_bundleRaw :: "byte list"
  pp_pieces :: "byte list list"
  pp_sealed :: "(byte list \<times> memo) list"

definition pp_bid :: "prims \<Rightarrow> backup_options \<Rightarrow> plan_parts \<Rightarrow> byte list" where
  "pp_bid pm opts q = BackupID (pm_hmac pm) (kf_Key (pp_key q)) (Pack (pm_deflate pm) (pp_onRaw q) @ Pack (pm_deflate pm) (pp_bundleRaw q))
     (kf_Epoch (pp_key q)) (bo_Seq opts)"

definition has_parts :: "prims \<Rightarrow> (string \<Rightarrow> string) \<Rightarrow> file_system \<Rightarrow> backup_options \<Rightarrow> plan \<Rightarrow> plan_parts \<Rightarrow> bool" where
  "has_parts pm lo fs opts p q \<longleftrightarrow>
     bo_Key opts = Some (pp_key q)
     \<and> (\<exists>s. gather pm lo fs opts = Inr s \<and> bs_on s = concat (map on_of (pp_sources q)) \<and> bs_bundle s = concat (map bundle_of (pp_sources q)))
     \<and> list_all2 (was_read fs) (requested opts) (pp_sources q)
     \<and> list_all (source_ok lo (bo_Redact opts)) (pp_sources q) \<and> distinct (map so_path (pp_sources q))
     \<and> Encode (pm_sha256 pm) (concat (map on_of (pp_sources q))) = Inr (pp_onRaw q)
     \<and> Encode (pm_sha256 pm) (concat (map bundle_of (pp_sources q))) = Inr (pp_bundleRaw q)
     \<and> chunk_Split (Pack (pm_deflate pm) (pp_onRaw q)) = Inr (pp_pieces q) \<and> length (pp_pieces q) \<le> MaxChunks
     \<and> each_ok (seal_piece pm (BackupKey (pm_hkdf pm) (kf_Key (pp_key q)) (pp_bid pm opts q)) (pp_bid pm opts q) (length (pp_pieces q)))
         (enumerate 0 (pp_pieces q)) = Inr (pp_sealed q)
     \<and> bp_BackupID p = pp_bid pm opts q \<and> bp_ChunkMemos p = map snd (pp_sealed q)
     \<and> bp_Bundle p = SealBundle (pm_gcm pm) (BundleKey (pm_hkdf pm) (kf_Key (pp_key q)) (pp_bid pm opts q)) (pp_bid pm opts q)
         (Pack (pm_deflate pm) (pp_bundleRaw q))
     \<and> mn_Epoch (bp_Manifest p) = kf_Epoch (pp_key q) \<and> mn_BackupID (bp_Manifest p) = hex_encode (pp_bid pm opts q)
     \<and> \<not> mn_Tombstone (bp_Manifest p) \<and> mn_Files (bp_Manifest p) = listing pm (pp_sources q)
     \<and> mn_PlainSHA256 (bp_Manifest p) = hex_encode (pm_sha256 pm (pp_onRaw q))
     \<and> mn_BundlePlainSHA256 (bp_Manifest p) = hex_encode (pm_sha256 pm (pp_bundleRaw q))
     \<and> mn_BundleCipherSHA256 (bp_Manifest p) = hex_encode (pm_sha256 pm (bp_Bundle p))
     \<and> mn_Chunks (bp_Manifest p) = map (chunk_entry pm) (enumerate 0 (map fst (pp_sealed q)))"

lemma finish_plan_Inr:
  assumes "finish_plan pm lo opts key s bid m sealed stream = Inr p"
  shows "bp_BackupID p = bid" "bp_Manifest p = m" "bp_ChunkMemos p = map snd sealed" "bp_Bundle p = stream"
  using assms by (auto simp: finish_plan_def Let_def split: if_splits)

lemma draft_simps [simp]:
  "mn_Epoch (draft_manifest pm opts key s bid a b) = kf_Epoch key" "mn_BackupID (draft_manifest pm opts key s bid a b) = hex_encode bid"
  "mn_Tombstone (draft_manifest pm opts key s bid a b) = bo_Tombstone opts" "mn_Files (draft_manifest pm opts key s bid a b) = bs_files s"
  "mn_PlainSHA256 (draft_manifest pm opts key s bid a b) = hex_encode (pm_sha256 pm a)"
  "mn_BundlePlainSHA256 (draft_manifest pm opts key s bid a b) = hex_encode (pm_sha256 pm b)"
  by (simp_all add: draft_manifest_def)

lemma backup_Build_parts:
  assumes "backup_Build pm lo fs opts = Inr p" "\<not> bo_Tombstone opts"
  shows "\<exists>q. has_parts pm lo fs opts p q"
proof -
  obtain key s onRaw bundleRaw where k: "bo_Key opts = Some key" and s: "gather pm lo fs opts = Inr s" "named_twice [] (bs_files s) = None"
    and raws: "Encode (pm_sha256 pm) (bs_on s) = Inr onRaw" "Encode (pm_sha256 pm) (bs_bundle s) = Inr bundleRaw"
    and sp: "seal_plan pm lo opts key s onRaw bundleRaw = Inr p"
    using assms(1) by (auto simp: backup_Build_def and_then_Inr of_container_def split: option.splits sum.splits)
  obtain xs where xs: "list_all2 (was_read fs) (requested opts) xs" "made_of pm lo (bo_Redact opts) s xs" using gather_made [OF s(1)] by blast
  let ?bid = "BackupID (pm_hmac pm) (kf_Key key) (Pack (pm_deflate pm) onRaw @ Pack (pm_deflate pm) bundleRaw) (kf_Epoch key) (bo_Seq opts)"
  let ?kb = "BackupKey (pm_hkdf pm) (kf_Key key) ?bid"
  obtain pieces where pc: "chunk_Split (Pack (pm_deflate pm) onRaw) = Inr pieces" "length pieces \<le> MaxChunks"
    using sp by (cases "chunk_Split (Pack (pm_deflate pm) onRaw)") (auto simp: seal_plan_def Let_def split: if_splits)
  obtain sealed where se: "each_ok (seal_piece pm ?kb ?bid (length pieces)) (enumerate 0 pieces) = Inr sealed"
    using sp pc assms(2) by (cases "each_ok (seal_piece pm ?kb ?bid (length pieces)) (enumerate 0 pieces)") (auto simp: seal_plan_def Let_def)
  define stream where "stream = SealBundle (pm_gcm pm) (BundleKey (pm_hkdf pm) (kf_Key key) ?bid) ?bid (Pack (pm_deflate pm) bundleRaw)"
  have fin: "finish_plan pm lo opts key s ?bid ((draft_manifest pm opts key s ?bid onRaw bundleRaw)\<lparr>mn_Chunks := map (chunk_entry pm) (enumerate 0 (map fst sealed)),
      mn_BundleCipherSHA256 := hex_encode (pm_sha256 pm stream), mn_BundleLen := int (length stream)\<rparr>) sealed stream = Inr p"
    using sp pc se assms(2) by (simp add: seal_plan_def Let_def stream_def)
  note f = finish_plan_Inr [OF fin]
  have files: "bs_files s = listing pm xs" "bs_on s = concat (map on_of xs)" "bs_bundle s = concat (map bundle_of xs)" "list_all (source_ok lo (bo_Redact opts)) xs"
    using xs(2) by (simp_all add: made_of_def listing_def)
  have "distinct (map so_path xs)"
    using s(2) by (simp add: named_twice_None files listing_def listed_file_def comp_def)
  then have "has_parts pm lo fs opts p \<lparr>pp_key = key, pp_sources = xs, pp_onRaw = onRaw, pp_bundleRaw = bundleRaw, pp_pieces = pieces, pp_sealed = sealed\<rparr>"
    using k xs(1) s(1) raws pc se f files assms(2) by (simp add: has_parts_def pp_bid_def stream_def)
  then show ?thesis by blast
qed

section \<open>From files to files\<close>

text \<open>Nothing that is archived exceeds the length fields of the archive.\<close>

definition files_fit :: "prims \<Rightarrow> (string \<Rightarrow> string) \<Rightarrow> file_system \<Rightarrow> backup_options \<Rightarrow> bool" where
  "files_fit pm lo fs opts =
     (case gather pm lo fs opts of
        Inl _ \<Rightarrow> True
      | Inr s \<Rightarrow> list_all (\<lambda>e. length (e_Data e) < 2 ^ 64) (bs_on s @ bs_bundle s) \<and> length (bs_on s) < 2 ^ 32 \<and> length (bs_bundle s) < 2 ^ 32)"

text \<open>The operator's files: path and content of everything requested.\<close>

definition originals :: "file_system \<Rightarrow> backup_options \<Rightarrow> (string \<times> byte list) list" where
  "originals fs opts = map (\<lambda>path. case readFile fs path of Inr (raw, mode, q) \<Rightarrow> (q, raw) | Inl _ \<Rightarrow> ([], [])) (requested opts)"

text \<open>The manifest's chunk entries after submission: each names a transaction whose only memo is the chunk's.\<close>

definition chunks_published :: "prims \<Rightarrow> chain_reader \<Rightarrow> discovery \<Rightarrow> plan \<Rightarrow> mchunk list \<Rightarrow> bool" where
  "chunks_published pm rd res p chunks \<longleftrightarrow>
     length chunks = length (bp_ChunkMemos p) \<and>
     (\<forall>i < length chunks. ch_Index (chunks ! i) = int i \<and> ch_SHA256 (chunks ! i) = ch_SHA256 (mn_Chunks (bp_Manifest p) ! i)
        \<and> (\<exists>t. fetch_record pm rd res (length chunks) (chunks ! i) = Inr t \<and> tr_Memos t = [bp_ChunkMemos p ! i]))"

lemma length_BackupID: "\<forall>k d. length (hmac k d) = 32 \<Longrightarrow> length (BackupID hmac k c e s) = 16"
  by (simp add: BackupID_def)

lemma parts_fit:
  assumes "has_parts pm lo fs opts p q" "files_fit pm lo fs opts"
  shows "\<forall>e \<in> set (concat (map on_of (pp_sources q))). length (e_Data e) < 2 ^ 64" "length (concat (map on_of (pp_sources q))) < 2 ^ 32"
    "\<forall>e \<in> set (concat (map bundle_of (pp_sources q))). length (e_Data e) < 2 ^ 64" "length (concat (map bundle_of (pp_sources q))) < 2 ^ 32"
proof -
  obtain s where s: "gather pm lo fs opts = Inr s" "bs_on s = concat (map on_of (pp_sources q))" "bs_bundle s = concat (map bundle_of (pp_sources q))"
    using assms(1) by (auto simp: has_parts_def)
  have f: "list_all (\<lambda>e. length (e_Data e) < 2 ^ 64) (bs_on s)" "list_all (\<lambda>e. length (e_Data e) < 2 ^ 64) (bs_bundle s)"
    "length (bs_on s) < 2 ^ 32" "length (bs_bundle s) < 2 ^ 32"
    using assms(2) unfolding files_fit_def s(1) sum.case list_all_append by blast+
  show "\<forall>e \<in> set (concat (map on_of (pp_sources q))). length (e_Data e) < 2 ^ 64" "length (concat (map on_of (pp_sources q))) < 2 ^ 32"
    "\<forall>e \<in> set (concat (map bundle_of (pp_sources q))). length (e_Data e) < 2 ^ 64" "length (concat (map bundle_of (pp_sources q))) < 2 ^ 32"
    using f unfolding s(2,3) list_all_iff by blast+
qed

lemma fetch_plan:
  assumes ok: "prims_ok pm" and q: "has_parts pm lo fs opts p q" and fit: "files_fit pm lo fs opts"
    and k: "keys (kf_Epoch (pp_key q)) = Some (kf_Key (pp_key q))"
    and c: "cd_Manifest cand = (bp_Manifest p)\<lparr>mn_V := v, mn_Chunks := chunks\<rparr>" "cd_BackupID cand = bp_BackupID p" "cd_Epoch cand = kf_Epoch (pp_key q)"
    and pub: "chunks_published pm rd res p chunks"
  shows "Fetch pm rd keys res cand = Inr (unarchived (concat (map on_of (pp_sources q))))"
proof -
  let ?bid = "pp_bid pm opts q" and ?n = "length (pp_pieces q)"
  let ?kb = "BackupKey (pm_hkdf pm) (kf_Key (pp_key q)) ?bid"
  have g: "gcm_ok (pm_gcm pm)" using ok by (simp add: prims_ok_def)
  have h: "pp_sealed q = sealed \<Longrightarrow> length sealed = ?n" for sealed
    using q each_ok_nth(1) [of "seal_piece pm ?kb ?bid ?n" "enumerate 0 (pp_pieces q)"] by (auto simp: has_parts_def)
  have len: "length (pp_sealed q) = ?n" "length chunks = ?n" "?n \<le> 8" using h q pub by (auto simp: chunks_published_def has_parts_def MaxChunks_def)
  have piece: "fetch_chunk pm rd ?kb res cand (chunks ! i) = Inr (pp_pieces q ! i)" if i: "i < ?n" for i
  proof -
    have "seal_piece pm ?kb ?bid ?n (enumerate 0 (pp_pieces q) ! i) = Inr (pp_sealed q ! i)"
      using q i each_ok_nth(2) [of "seal_piece pm ?kb ?bid ?n" "enumerate 0 (pp_pieces q)" "pp_sealed q" i] by (simp add: has_parts_def)
    moreover obtain ct memo where cm: "pp_sealed q ! i = (ct, memo)" by fastforce
    ultimately have se: "pp_sealed q ! i = (ct, memo)" "ct = SealChunk (pm_gcm pm) ?kb ?bid (of_nat i) (of_nat ?n) (pp_pieces q ! i)"
      "chunk_Encode TypeChunk ?bid (of_nat i) (of_nat ?n) [] ct = Inr memo"
      using i by (auto simp: seal_piece_def nth_enumerate_eq Let_def split: sum.splits)
    have "ch_SHA256 (mn_Chunks (bp_Manifest p) ! i) = hex_encode (pm_sha256 pm ct)" "bp_ChunkMemos p ! i = memo"
      using q i len(1) se(1) by (simp_all add: has_parts_def nth_enumerate_eq chunk_entry_def)
    then obtain t where t: "ch_Index (chunks ! i) = int i" "ch_SHA256 (chunks ! i) = hex_encode (pm_sha256 pm ct)"
      "fetch_record pm rd res ?n (chunks ! i) = Inr t" "tr_Memos t = [memo]"
      using pub i len(2) by (auto simp: chunks_published_def)
    have b: "cd_BackupID cand = ?bid" using q c(2) by (simp add: has_parts_def)
    show ?thesis
      by (rule fetch_sealed_chunk [where t = t and ct = ct and memo = memo and i = i and n = ?n]) (use g len i t se b c(1) in simp_all)
  qed
  have all: "each_ok (fetch_chunk pm rd ?kb res cand) chunks = Inr (pp_pieces q)"
    by (rule each_ok_zip) (use len piece in simp_all)
  have "concat (pp_pieces q) = Pack (pm_deflate pm) (pp_onRaw q)"
    using q chunk_Split_blocks [of "Pack (pm_deflate pm) (pp_onRaw q)"] by (simp add: has_parts_def)
  moreover have "Decode (pm_sha256 pm) (pp_onRaw q) = Inr (unarchived (concat (map on_of (pp_sources q))))"
    unfolding unarchived_def by (rule decode_encoded [OF _ _ parts_fit(2,1) [OF q fit]]) (use ok q in \<open>simp_all add: prims_ok_def has_parts_def\<close>)
  ultimately show ?thesis
    using all q k c unpack_checked_pack [OF ok] by (simp add: Fetch_def Let_def epoch_key_def has_parts_def)
qed

lemma open_plan:
  assumes ok: "prims_ok pm" and q: "has_parts pm lo fs opts p q" and fit: "files_fit pm lo fs opts"
    and k: "keys (kf_Epoch (pp_key q)) = Some (kf_Key (pp_key q))"
    and c: "cd_Manifest cand = (bp_Manifest p)\<lparr>mn_V := v, mn_Chunks := chunks\<rparr>" "cd_BackupID cand = bp_BackupID p" "cd_Epoch cand = kf_Epoch (pp_key q)"
  shows "discover_OpenBundle pm keys cand (bp_Bundle p) = Inr (unarchived (concat (map bundle_of (pp_sources q))))"
proof (rule open_sealed [OF ok])
  show "length (pp_bid pm opts q) = 16" unfolding pp_bid_def by (rule length_BackupID) (use ok in \<open>simp add: prims_ok_def\<close>)
  show "Decode (pm_sha256 pm) (pp_bundleRaw q) = Inr (unarchived (concat (map bundle_of (pp_sources q))))"
    unfolding unarchived_def by (rule decode_encoded [OF _ _ parts_fit(4,3) [OF q fit]]) (use ok q in \<open>simp_all add: prims_ok_def has_parts_def\<close>)
qed (use q k c in \<open>simp_all add: has_parts_def\<close>)

lemma originals_sources:
  "list_all2 (was_read fs) (requested opts) xs \<Longrightarrow> originals fs opts = map (\<lambda>x. (so_path x, so_raw x)) xs"
  unfolding originals_def by (induction rule: list_all2_induct) (auto simp: was_read_def)

lemma plan_restores:
  assumes "prims_ok pm" "backup_Build pm lo fs opts = Inr p" "\<not> bo_Tombstone opts" "files_fit pm lo fs opts"
    and "\<forall>(q, raw) \<in> set (originals fs opts). checkPath q = None"
    and "bo_Key opts = Some key" "keys (kf_Epoch key) = Some (kf_Key key)"
    and "cd_Manifest cand = (bp_Manifest p)\<lparr>mn_V := v, mn_Chunks := chunks\<rparr>" "cd_BackupID cand = bp_BackupID p" "cd_Epoch cand = kf_Epoch key"
    and "chunks_published pm rd res p chunks"
  shows "\<exists>on bu rp. Fetch pm rd keys res cand = Inr on \<and> discover_OpenBundle pm keys cand (bp_Bundle p) = Inr bu
    \<and> restore_Build (pm_sha256 pm) (cd_Manifest cand) on bu = Inr rp
    \<and> map (\<lambda>f. (rf_Path f, rf_Data f)) (rp_Files rp) = sort_key fst (originals fs opts) \<and> list_all (Complete (pm_sha256 pm)) (rp_Files rp)"
proof -
  obtain q where q: "has_parts pm lo fs opts p q" using backup_Build_parts [OF assms(2,3)] by blast
  then have key: "pp_key q = key" using assms(6) by (simp add: has_parts_def)
  have or: "originals fs opts = map (\<lambda>x. (so_path x, so_raw x)) (pp_sources q)" using q originals_sources by (simp add: has_parts_def)
  have "\<forall>x \<in> set (pp_sources q). checkPath (so_path x) = None" using assms(5) by (auto simp: or)
  then obtain rp where "restore_Build (pm_sha256 pm) (cd_Manifest cand) (unarchived (concat (map on_of (pp_sources q)))) (unarchived (concat (map bundle_of (pp_sources q)))) = Inr rp"
    "map (\<lambda>f. (rf_Path f, rf_Data f)) (rp_Files rp) = sort_key fst (originals fs opts)" "list_all (Complete (pm_sha256 pm)) (rp_Files rp)"
    using restore_sources [of "pp_sources q" lo "bo_Redact opts" "cd_Manifest cand" pm] q by (auto simp: or assms(8) has_parts_def)
  then show ?thesis
    using fetch_plan [OF assms(1) q assms(4) _ assms(8,9) _ assms(11)] open_plan [OF assms(1) q assms(4) _ assms(8,9)] assms(7,10)
    by (auto simp: key)
qed

text \<open>
  C3.  A backup restores: when a plan was built and every chunk of it can be fetched in a transaction of its
  own, then fetching the chunks, opening the bundle and merging the two, under the key the plan was made
  with, succeeds and gives exactly the operator's files, byte for byte, each proven complete, provided restore
  accepts their paths.
\<close>
theorem backup_restores:
  assumes "prims_ok pm" "backup_Build pm lo fs opts = Inr p" "\<not> bo_Tombstone opts" "files_fit pm lo fs opts"
    and "\<forall>(q, raw) \<in> set (originals fs opts). checkPath q = None"
    and "bo_Key opts = Some key" "keys (kf_Epoch key) = Some (kf_Key key)"
    and "cd_Manifest cand = (bp_Manifest p)\<lparr>mn_V := v, mn_Chunks := chunks\<rparr>" "cd_BackupID cand = bp_BackupID p" "cd_Epoch cand = kf_Epoch key"
    and "chunks_published pm rd res p chunks"
  shows "\<exists>on bu rp. Fetch pm rd keys res cand = Inr on \<and> discover_OpenBundle pm keys cand (bp_Bundle p) = Inr bu
    \<and> restore_Build (pm_sha256 pm) (cd_Manifest cand) on bu = Inr rp
    \<and> map (\<lambda>f. (rf_Path f, rf_Data f)) (rp_Files rp) = sort_key fst (originals fs opts) \<and> list_all (Complete (pm_sha256 pm)) (rp_Files rp)"
  using assms by (rule plan_restores)

section \<open>A plan is built\<close>

lemma each_ok_all: "\<forall>x \<in> set xs. \<exists>y. f x = Inr y \<Longrightarrow> \<exists>ys. each_ok f xs = Inr ys"
  by (induction xs) (auto simp: and_then_Inr)

lemma seal_pieces_ok:
  assumes "gcm_ok (pm_gcm pm)" "length bid = 16" "list_all (\<lambda>b. length b = BlockLen) blks"
  shows "\<exists>sealed. each_ok (seal_piece pm kb bid n) (enumerate 0 blks) = Inr sealed"
proof (rule each_ok_all, intro ballI)
  fix x assume "x \<in> set (enumerate 0 blks)"
  then have "length (snd x) = BlockLen" using assms(3) by (auto simp: list_all_iff in_set_enumerate_eq) (metis nth_mem)
  then obtain i b where x: "x = (i, b)" "length b = BlockLen" by (cases x) simp
  have "length (SealChunk (pm_gcm pm) kb bid (of_nat i) (of_nat n) b) = 976"
    using assms(1) x(2) by (simp add: SealChunk_def gcm_length BlockLen_def)
  then obtain m where "chunk_Encode TypeChunk bid (of_nat i) (of_nat n) [] (SealChunk (pm_gcm pm) kb bid (of_nat i) (of_nat n) b) = Inr m"
    using encode_fits [of TypeChunk "[]" bid] assms(2) chunk_types by fastforce
  then show "\<exists>y. seal_piece pm kb bid n x = Inr y" by (simp add: seal_piece_def x Let_def)
qed

lemma backup_Build_ok:
  assumes "prims_ok pm" "bo_Key opts = Some key" "gather pm lo fs opts = Inr s" "named_twice [] (bs_files s) = None" "\<not> bo_Tombstone opts"
    and "Encode (pm_sha256 pm) (bs_on s) = Inr onRaw" "Encode (pm_sha256 pm) (bs_bundle s) = Inr bundleRaw"
    and "length (Pack (pm_deflate pm) onRaw) \<le> MaxChunks * BlockLen" "\<forall>m. length (pm_to_json pm m) \<le> MaxManifestParts * ManifestPartLen"
  shows "\<exists>p. backup_Build pm lo fs opts = Inr p"
proof -
  have pk: "length (Pack (pm_deflate pm) onRaw) mod BlockLen = 0" "Pack (pm_deflate pm) onRaw \<noteq> []"
    using unpack_packed [of "pm_inflate pm" "pm_deflate pm" onRaw] assms(1) by (auto simp: prims_ok_def)
  then obtain pieces where pc: "chunk_Split (Pack (pm_deflate pm) onRaw) = Inr pieces"
    by (simp add: chunk_Split_def)
  then have lp: "length pieces \<le> MaxChunks" "list_all (\<lambda>b. length b = BlockLen) pieces"
    using assms(8) chunk_Split_blocks [of "Pack (pm_deflate pm) onRaw"] pk
    by (auto simp: chunk_Split_def MaxChunks_def BlockLen_def split: if_splits)
  let ?bid = "BackupID (pm_hmac pm) (kf_Key key) (Pack (pm_deflate pm) onRaw @ Pack (pm_deflate pm) bundleRaw) (kf_Epoch key) (bo_Seq opts)"
  have bid: "length ?bid = 16" by (rule length_BackupID) (use assms(1) in \<open>simp add: prims_ok_def\<close>)
  obtain sealed where se: "each_ok (seal_piece pm (BackupKey (pm_hkdf pm) (kf_Key key) ?bid) ?bid (length pieces)) (enumerate 0 pieces) = Inr sealed"
    using seal_pieces_ok [OF _ bid lp(2), of pm] assms(1) unfolding prims_ok_def by blast
  have small: "\<not> MaxManifestParts < projectedManifestParts pm m" for m
  proof -
    have "(length (projectedManifest pm m) + ManifestPartLen - 1) div ManifestPartLen \<le> (MaxManifestParts * ManifestPartLen + ManifestPartLen - 1) div ManifestPartLen"
      by (intro div_le_mono diff_le_mono add_le_mono1) (use assms(9) in \<open>simp add: projectedManifest_def Marshal_def\<close>)
    then show ?thesis by (simp add: projectedManifestParts_def parts_needed_def MaxManifestParts_def ManifestPartLen_def BlockLen_def)
  qed
  have "\<exists>p. seal_plan pm lo opts key s onRaw bundleRaw = Inr p"
    using pc lp(1) se assms(5) small by (simp add: seal_plan_def Let_def finish_plan_def)
  then show ?thesis using assms(2-4,6,7) by (simp add: backup_Build_def of_container_def)
qed

definition sample_fs :: file_system where
  "sample_fs = \<lparr>fs_Abs = Some, fs_Lstat = \<lambda>_. Some \<lparr>st_Symlink = False, st_Regular = True, st_Perm = 0x180\<rparr>, fs_Read = \<lambda>_. Some (bytes sample_cfg)\<rparr>"

definition sample_options :: backup_options where
  "sample_options = \<lparr>bo_ConfigPath = abs_path [''e'', ''a''], bo_ValidatorsPath = [], bo_Includes = [], bo_Key = Some sample_keyfile,
     bo_Created = [], bo_Tool = [], bo_Tombstone = False, bo_Redact = sample_opt, bo_Seq = 1, bo_Supersedes = [], bo_VPKSHA256 = [],
     bo_AttestPublicVPK = []\<rparr>"

lemma sample_prims_ok: "prims_ok sample_prims"
  using toy_gcm_ok by (simp add: prims_ok_def sample_prims_def sample_sha_def)

lemma sample_texts:
  "length (Render (r_onchain (projr (Split id (Parse sample_cfg) sample_opt)))) < 100"
  "length (Render (r_bundle (projr (Split id (Parse sample_cfg) sample_opt)))) < 100"
  by code_simp+

definition sample_state :: build_state where
  "sample_state = projr (gather sample_prims id sample_fs sample_options)"

lemma sample_gather:
  "gather sample_prims id sample_fs sample_options = Inr sample_state"
  "map (\<lambda>f. mf_Path f) (bs_files sample_state) = [abs_path [''e'', ''a'']]"
  "list_all (\<lambda>e. e_Path e = abs_path [''e'', ''a''] \<and> length (e_Data e) < 100) (bs_on sample_state @ bs_bundle sample_state)"
  "length (bs_on sample_state) = 1" "length (bs_bundle sample_state) \<le> 1"
proof -
  define r where "r = projr (Split id (Parse sample_cfg) sample_opt)"
  have sp: "Split id (Parse sample_cfg) sample_opt = Inr r" unfolding r_def by (rule sample_split)
  have t: "length (Render (r_onchain r)) < 100" "length (Render (r_bundle r)) < 100" using sample_texts by (simp_all add: r_def)
  have "\<exists>s. gather sample_prims id sample_fs sample_options = Inr s \<and> map (\<lambda>f. mf_Path f) (bs_files s) = [abs_path [''e'', ''a'']]
    \<and> list_all (\<lambda>e. e_Path e = abs_path [''e'', ''a''] \<and> length (e_Data e) < 100) (bs_on s @ bs_bundle s)
    \<and> length (bs_on s) = 1 \<and> length (bs_bundle s) \<le> 1"
    using sp t by (simp add: gather_def sample_options_def addSplit_def readFile_def sample_fs_def build_start_def listed_file_def Let_def del: abs_path_simps)
  then show "gather sample_prims id sample_fs sample_options = Inr sample_state"
    "map (\<lambda>f. mf_Path f) (bs_files sample_state) = [abs_path [''e'', ''a'']]"
    "list_all (\<lambda>e. e_Path e = abs_path [''e'', ''a''] \<and> length (e_Data e) < 100) (bs_on sample_state @ bs_bundle sample_state)"
    "length (bs_on sample_state) = 1" "length (bs_bundle sample_state) \<le> 1" by (auto simp: sample_state_def simp del: abs_path_simps)
qed

lemma sample_archive_size:
  assumes "Encode (pm_sha256 sample_prims) (bs_on sample_state) = Inr raw"
  shows "length raw < 300"
proof -
  obtain e where e: "bs_on sample_state = [e]" using sample_gather(4) by (metis One_nat_def length_0_conv length_Suc_conv)
  then have "length (e_Path e) = 4" "length (e_Data e) < 100" using sample_gather(3) by auto
  then show ?thesis
    using assms by (simp add: e Encode_Inr entry_bytes_def perm_bits_def sample_prims_def sample_sha_def magic_def)
qed

lemma sample_plan: "\<exists>p. backup_Build sample_prims id sample_fs sample_options = Inr p"
proof -
  have p: "list_all path_ok (bs_on sample_state @ bs_bundle sample_state)" using sample_gather(3) by (auto simp: list_all_iff path_ok_def)
  have d: "distinct (map e_Path (bs_on sample_state))" "distinct (map e_Path (bs_bundle sample_state))"
    using sample_gather(4,5) by (cases "bs_on sample_state", simp_all) (cases "bs_bundle sample_state", simp_all)
  obtain onRaw bundleRaw where raws: "Encode (pm_sha256 sample_prims) (bs_on sample_state) = Inr onRaw"
    "Encode (pm_sha256 sample_prims) (bs_bundle sample_state) = Inr bundleRaw"
    using p d by (auto simp: Encode_Inr list_all_iff)
  have "length (Pack (pm_deflate sample_prims) onRaw) \<le> MaxChunks * BlockLen"
    using sample_archive_size [OF raws(1)] pad_len_props(1) [of "length onRaw"]
    by (simp add: Pack_def Let_def sample_prims_def MaxChunks_def BlockLen_def)
  then show ?thesis
    using backup_Build_ok [OF sample_prims_ok _ sample_gather(1) _ _ raws] sample_gather(2)
    by (simp add: sample_options_def named_twice_None sample_prims_def MaxManifestParts_def ManifestPartLen_def BlockLen_def del: abs_path_simps)
qed

lemma backup_restores_witness:
  "\<exists>p cand rd res on bu rp. backup_Build sample_prims id sample_fs sample_options = Inr p
     \<and> Fetch sample_prims rd (FileKeys 3 (replicate 32 5)) res cand = Inr on
     \<and> discover_OpenBundle sample_prims (FileKeys 3 (replicate 32 5)) cand (bp_Bundle p) = Inr bu
     \<and> restore_Build sample_sha (cd_Manifest cand) on bu = Inr rp
     \<and> map (\<lambda>f. (rf_Path f, rf_Data f)) (rp_Files rp) = [(''/e/a'', bytes sample_cfg)]"
proof -
  obtain p where p: "backup_Build sample_prims id sample_fs sample_options = Inr p" using sample_plan by blast
  have nt: "\<not> bo_Tombstone sample_options" by (simp add: sample_options_def)
  have fit: "files_fit sample_prims id sample_fs sample_options"
    using sample_gather(3-5) by (force simp: files_fit_def sample_gather(1) list_all_iff)
  have org: "originals sample_fs sample_options = [(''/e/a'', bytes sample_cfg)]"
    by (simp add: originals_def requested_def sample_options_def readFile_def sample_fs_def)
  have paths: "\<forall>(q, raw) \<in> set (originals sample_fs sample_options). checkPath q = None"
    using sample_paths(3) by (simp add: org)
  define n where "n = length (bp_ChunkMemos p)"
  define chunks where "chunks = map (\<lambda>i. (mn_Chunks (bp_Manifest p) ! i)\<lparr>ch_TxHash := replicate i CHR ''A'', ch_Index := int i\<rparr>) [0..<n]"
  define rd where "rd = sample_reader\<lparr>rd_Tx := \<lambda>h. Inr (sample_tx\<lparr>tr_Memos := [bp_ChunkMemos p ! length h]\<rparr>)\<rparr>"
  define cand where "cand = \<lparr>cd_Manifest = (bp_Manifest p)\<lparr>mn_V := 1, mn_Chunks := chunks\<rparr>, cd_BackupID = bp_BackupID p, cd_Epoch = kf_Epoch sample_keyfile,
    cd_TxHash = [], cd_Ledger = 0, cd_Plain = [], cd_FromAnchor = False\<rparr>"
  have pub: "chunks_published sample_prims rd res p chunks" for res
    by (simp add: chunks_published_def chunks_def n_def fetch_record_def rd_def)
  have k: "bo_Key sample_options = Some sample_keyfile" "FileKeys 3 (replicate 32 5) (kf_Epoch sample_keyfile) = Some (kf_Key sample_keyfile)"
    by (simp_all add: sample_options_def FileKeys_def sample_keyfile_def)
  have c: "cd_Manifest cand = (bp_Manifest p)\<lparr>mn_V := 1, mn_Chunks := chunks\<rparr>" "cd_BackupID cand = bp_BackupID p" "cd_Epoch cand = kf_Epoch sample_keyfile"
    by (simp_all add: cand_def)
  have sha: "pm_sha256 sample_prims = sample_sha" by (simp add: sample_prims_def)
  have sorted: "sort_key fst (originals sample_fs sample_options) = [(''/e/a'', bytes sample_cfg)]" by (simp add: org)
  obtain on bu rp where r: "Fetch sample_prims rd (FileKeys 3 (replicate 32 5)) undefined cand = Inr on"
    "discover_OpenBundle sample_prims (FileKeys 3 (replicate 32 5)) cand (bp_Bundle p) = Inr bu"
    "restore_Build sample_sha (cd_Manifest cand) on bu = Inr rp" "map (\<lambda>f. (rf_Path f, rf_Data f)) (rp_Files rp) = [(''/e/a'', bytes sample_cfg)]"
    using backup_restores [where keys = "FileKeys 3 (replicate 32 5)" and key = sample_keyfile, OF sample_prims_ok p nt fit paths k c pub [of undefined]]
    unfolding sha sorted by (elim exE conjE) (rule that)
  show ?thesis by (intro exI conjI) (rule p, rule r(1), rule r(2), rule r(3), rule r(4))
qed

lemma fetched_content_committed_witness:
  "\<exists>cand stream fs. discover_OpenBundle sample_prims (FileKeys 3 (replicate 32 5)) cand stream = Inr fs
     \<and> hex_encode (sample_sha (archive sample_sha fs)) = mn_BundlePlainSHA256 (cd_Manifest cand)"
proof -
  obtain p where p: "backup_Build sample_prims id sample_fs sample_options = Inr p" using sample_plan by blast
  obtain q where q: "has_parts sample_prims id sample_fs sample_options p q"
    using backup_Build_parts [OF p] by (auto simp: sample_options_def)
  have fit: "files_fit sample_prims id sample_fs sample_options"
    using sample_gather(3-5) by (force simp: files_fit_def sample_gather(1) list_all_iff)
  have key: "pp_key q = sample_keyfile" using q by (simp add: has_parts_def sample_options_def)
  define cand where "cand = \<lparr>cd_Manifest = (bp_Manifest p)\<lparr>mn_V := 1, mn_Chunks := []\<rparr>, cd_BackupID = bp_BackupID p, cd_Epoch = kf_Epoch (pp_key q),
    cd_TxHash = [], cd_Ledger = 0, cd_Plain = [], cd_FromAnchor = False\<rparr>"
  have "FileKeys 3 (replicate 32 5) (kf_Epoch (pp_key q)) = Some (kf_Key (pp_key q))" by (simp add: FileKeys_def key sample_keyfile_def)
  from open_plan [where keys = "FileKeys 3 (replicate 32 5)", OF sample_prims_ok q fit this, where cand = cand and v = 1 and chunks = "[]"]
  have o: "discover_OpenBundle sample_prims (FileKeys 3 (replicate 32 5)) cand (bp_Bundle p) = Inr (unarchived (concat (map bundle_of (pp_sources q))))"
    by (simp add: cand_def)
  have sha: "pm_sha256 sample_prims = sample_sha" by (simp add: sample_prims_def)
  show ?thesis
    using o fetched_content_committed [of sample_prims undefined "FileKeys 3 (replicate 32 5)" undefined cand undefined "bp_Bundle p"]
    unfolding sha by blast
qed

section \<open>A sealed manifest is found\<close>

definition manifest_pieces :: "byte list \<Rightarrow> byte list list" where
  "manifest_pieces body = map (\<lambda>i. take ManifestPartLen (drop (i * ManifestPartLen) body)) [0..<parts_needed (length body)]"

lemma concat_manifest_pieces: "concat (manifest_pieces body) = body"
  unfolding manifest_pieces_def
proof (rule concat_blocks_all)
  have "length body \<le> (length body + 943) div 944 * 944"
    using div_mult_mod_eq [of "length body + 943" 944] mod_less_divisor [of 944 "length body + 943"] by linarith
  then show "length body \<le> parts_needed (length body) * ManifestPartLen"
    by (simp add: parts_needed_def ManifestPartLen_def BlockLen_def)
qed

lemma ManifestMemos_Inr:
  assumes "ManifestMemos pm prefix key bid m = Inr (memos, body)"
  shows "body = Marshal (pm_to_json pm) m" "length memos = length (manifest_pieces body)" "length (manifest_pieces body) \<le> MaxManifestParts"
    "i < length memos \<Longrightarrow> \<exists>ct. SealManifest (pm_gcm pm) (BackupKey (pm_hkdf pm) key bid) bid prefix (of_nat i) (of_nat (length memos)) (manifest_pieces body ! i) = Some ct
       \<and> chunk_Encode TypeManifest bid (of_nat i) (of_nat (length memos)) prefix ct = Inr (memos ! i)"
proof -
  let ?n = "parts_needed (length (Marshal (pm_to_json pm) m))" and ?kb = "BackupKey (pm_hkdf pm) key bid"
  have b: "body = Marshal (pm_to_json pm) m" "?n \<le> MaxManifestParts" "each_ok (seal_part pm ?kb bid prefix ?n body) [0..<?n] = Inr memos"
    using assms by (auto simp: ManifestMemos_def Let_def and_then_Inr split: if_splits)
  have l: "length memos = ?n" using each_ok_nth(1) [OF b(3)] by simp
  show "body = Marshal (pm_to_json pm) m" by (rule b(1))
  show "length memos = length (manifest_pieces body)" "length (manifest_pieces body) \<le> MaxManifestParts"
    using l b(1,2) by (simp_all add: manifest_pieces_def)
  show "i < length memos \<Longrightarrow> \<exists>ct. SealManifest (pm_gcm pm) ?kb bid prefix (of_nat i) (of_nat (length memos)) (manifest_pieces body ! i) = Some ct
       \<and> chunk_Encode TypeManifest bid (of_nat i) (of_nat (length memos)) prefix ct = Inr (memos ! i)"
    using each_ok_nth(2) [OF b(3), of i] l by (auto simp: seal_part_def manifest_pieces_def b(1) [symmetric] split: option.splits sum.splits)
qed

text \<open>The memos are all in successful transactions of the account.\<close>

definition on_chain :: "string \<Rightarrow> tx_record list \<Rightarrow> memo list \<Rightarrow> bool" where
  "on_chain account txs memos \<longleftrightarrow>
     list_all (\<lambda>m. list_ex (\<lambda>t. tr_Account t = account \<and> tr_Result t = ''tesSUCCESS'' \<and> m \<in> set (tr_Memos t)) txs) memos"

lemma manifest_memos_carried:
  assumes "gcm_ok (pm_gcm pm)" "ManifestMemos pm prefix key bid m = Inr (memos, body)" "on_chain account txs memos"
  shows "carried pm (BackupKey (pm_hkdf pm) key bid) (manifest_payloads account txs) bid prefix (manifest_pieces body)"
  unfolding carried_def
proof (intro allI impI)
  note mm = ManifestMemos_Inr [OF assms(2)]
  fix i assume i: "i < length (manifest_pieces body)"
  let ?n = "length (manifest_pieces body)"
  obtain ct where ct: "SealManifest (pm_gcm pm) (BackupKey (pm_hkdf pm) key bid) bid prefix (of_nat i) (of_nat ?n) (manifest_pieces body ! i) = Some ct"
    "chunk_Encode TypeManifest bid (of_nat i) (of_nat ?n) prefix ct = Inr (memos ! i)"
    using mm(4) [of i] i mm(2) by auto
  have u: "unat (of_nat i :: u16) = i" "unat (of_nat ?n :: u16) = ?n" using i mm(3) by (simp_all add: unat_of_nat_len MaxManifestParts_def)
  have lt: "(of_nat i :: u16) < of_nat ?n" using i by (simp add: word_less_nat_alt u)
  have tag: "TagLen \<le> length ct" using ct(1) assms(1) by (auto simp: SealManifest_def gcm_length TagLen_def split: if_splits)
  let ?p = "\<lparr>pl_Type = TypeManifest, pl_BackupID = bid, pl_Index = of_nat i, pl_Total = of_nat ?n,
    pl_Nonce = (if TypeManifest = TypeManifest then prefix else replicate 10 0), pl_Ciphertext = ct\<rparr>"
  have d: "chunk_Decode (memos ! i) = Some ?p" using decode_encoded_memo [OF ct(2) _ lt tag] by simp
  obtain t where t: "t \<in> set txs" "tr_Account t = account" "tr_Result t = ''tesSUCCESS''" "memos ! i \<in> set (tr_Memos t)"
    using assms(3) i mm(2) by (auto simp: on_chain_def list_all_length list_ex_iff)
  have "(t, ?p) \<in> set (manifest_payloads account txs)" using t d by (auto simp: manifest_payloads_ok)
  then show "\<exists>(t, p) \<in> set (manifest_payloads account txs). key_of p = (bid, prefix) \<and> pl_Index p = of_nat i \<and> pl_Total p = of_nat ?n
      \<and> SealManifest (pm_gcm pm) (BackupKey (pm_hkdf pm) key bid) bid prefix (of_nat i) (of_nat ?n) (manifest_pieces body ! i) = Some (pl_Ciphertext p)"
    using ct(1) by (intro bexI [of _ "(t, ?p)"]) simp_all
qed


definition sample_manifest :: manifest where
  "sample_manifest = blank_manifest\<lparr>mn_Epoch := 3, mn_Seq := 1, mn_BackupID := hex_encode (replicate 16 1)\<rparr>"

lemma sample_manifest_memos:
  "ManifestMemos sample_prims (replicate 10 3) [5] (replicate 16 1) sample_manifest = Inr (tr_Memos sample_tx, replicate 200 7)"
proof -
  obtain m where m: "chunk_Encode TypeManifest (replicate 16 1) 0 1 (replicate 10 3) (replicate 200 7 @ replicate 16 0) = Inr m"
    using encode_fits [of TypeManifest "replicate 10 3" "replicate 16 1" "replicate 200 7 @ replicate 16 0" 0 1] chunk_types by auto
  have "tr_Memos sample_tx = [m]" using chunk_Encode_Inr [OF m] by (simp add: sample_tx_def)
  moreover have "Marshal (pm_to_json sample_prims) sample_manifest = replicate 200 7" by (simp add: Marshal_def sample_prims_def)
  ultimately show ?thesis
    using m by (simp add: ManifestMemos_def parts_needed_def ManifestPartLen_def BlockLen_def MaxManifestParts_def seal_part_def
        SealManifest_def ManifestNonceLen_def sample_prims_def toy_gcm_def)
qed


end
