(* ===== verification/Client.thy ===== *)
theory Client
  imports Discover
begin

text \<open>
  The interface \<^verbatim>\<open>xrpl.Client\<close> of \<^verbatim>\<open>internal/xrpl/client.go\<close> from the side of the code that calls it.  A method
  is an action on the outside world \<open>'w\<close>: it gives an answer and the world after the call.  The contract of an
  implementation that answers from records it holds is the locale \<open>tx_index\<close>; the dump file and the test ledger
  are its instances.
\<close>

section \<open>Methods as actions\<close>

record 'w client =
  cl_Submit :: "byte list \<Rightarrow> 'w \<Rightarrow> (client_error + string) \<times> 'w"
  cl_Tx :: "string \<Rightarrow> 'w \<Rightarrow> (client_error + tx_record) \<times> 'w"
  cl_AccountTx :: "string \<Rightarrow> 'w \<Rightarrow> (client_error + (tx_record list \<times> range)) \<times> 'w"
  cl_LedgerEntryDID :: "string \<Rightarrow> 'w \<Rightarrow> (client_error + byte list) \<times> 'w"
  cl_AccountInfo :: "string \<Rightarrow> 'w \<Rightarrow> (client_error + account_state) \<times> 'w"
  cl_ServerInfo :: "'w \<Rightarrow> (client_error + server_state) \<times> 'w"
  cl_AmendmentEnabled :: "string \<Rightarrow> 'w \<Rightarrow> (client_error + bool) \<times> 'w"

definition AmendmentBatchV1_1 :: string where
  "AmendmentBatchV1_1 = ''9F287AED3CDB50A7BD1ACEC24296A30C9B5230CCD136219317AC790E3B884377''"

text \<open>Actions that may fail, in sequence: the first error ends the run, and the world keeps what was done before it.\<close>

type_synonym ('s, 'e, 'a) action = "'s \<Rightarrow> ('e + 'a) \<times> 's"

definition act_ok :: "'a \<Rightarrow> ('s, 'e, 'a) action" where
  "act_ok x s = (Inr x, s)"

definition act_fail :: "'e \<Rightarrow> ('s, 'e, 'a) action" where
  "act_fail e s = (Inl e, s)"

definition act_then :: "('s, 'e, 'a) action \<Rightarrow> ('a \<Rightarrow> ('s, 'e, 'b) action) \<Rightarrow> ('s, 'e, 'b) action" where
  "act_then m f s = (case m s of (Inl e, s') \<Rightarrow> (Inl e, s') | (Inr x, s') \<Rightarrow> f x s')"

definition act_map_error :: "('e \<Rightarrow> 'f) \<Rightarrow> ('s, 'e, 'a) action \<Rightarrow> ('s, 'f, 'a) action" where
  "act_map_error g m s = (case m s of (Inl e, s') \<Rightarrow> (Inl (g e), s') | (Inr x, s') \<Rightarrow> (Inr x, s'))"

text \<open>A step without effects, a guard, and a step over every element of a list.\<close>

definition act_of :: "('d \<Rightarrow> 'e) \<Rightarrow> 'd + 'a \<Rightarrow> ('s, 'e, 'a) action" where
  "act_of g r s = (case r of Inl d \<Rightarrow> (Inl (g d), s) | Inr x \<Rightarrow> (Inr x, s))"

definition act_guard :: "bool \<Rightarrow> 'e \<Rightarrow> ('s, 'e, unit) action" where
  "act_guard b e s = (if b then (Inr (), s) else (Inl e, s))"

fun act_each :: "('a \<Rightarrow> ('s, 'e, 'b) action) \<Rightarrow> 'a list \<Rightarrow> ('s, 'e, 'b list) action" where
  "act_each f [] s = (Inr [], s)"
| "act_each f (x # xs) s =
     (case f x s of
        (Inl e, s') \<Rightarrow> (Inl e, s')
      | (Inr y, s') \<Rightarrow> (case act_each f xs s' of (Inl e, s'') \<Rightarrow> (Inl e, s'') | (Inr ys, s'') \<Rightarrow> (Inr (y # ys), s'')))"

lemma act_ok_eq [simp]: "act_ok x s = (y, s') \<longleftrightarrow> y = Inr x \<and> s' = s"
  by (auto simp: act_ok_def)

lemma act_fail_eq [simp]: "act_fail e s = (y, s') \<longleftrightarrow> y = Inl e \<and> s' = s"
  by (auto simp: act_fail_def)

lemma act_of_eq [simp]: "act_of g r s = (Inr x, s') \<longleftrightarrow> r = Inr x \<and> s' = s"
  by (auto simp: act_of_def split: sum.splits)

lemma act_guard_eq [simp]: "act_guard b e s = (Inr x, s') \<longleftrightarrow> b \<and> s' = s"
  by (auto simp: act_guard_def)

lemma act_map_error_eq [simp]: "act_map_error g m s = (Inr x, s') \<longleftrightarrow> m s = (Inr x, s')"
  by (auto simp: act_map_error_def split: sum.splits prod.splits)

lemma act_then_eq: "act_then m f s = (Inr y, s') \<longleftrightarrow> (\<exists>x t. m s = (Inr x, t) \<and> f x t = (Inr y, s'))"
  by (auto simp: act_then_def split: sum.splits prod.splits)

lemma act_thenE:
  assumes "act_then m f s = (Inr y, s')"
  obtains x t where "m s = (Inr x, t)" "f x t = (Inr y, s')"
  using assms by (auto simp: act_then_eq)

lemma act_each_eq:
  "act_each f (x # xs) s = (Inr ys, s') \<longleftrightarrow> (\<exists>y t zs. f x s = (Inr y, t) \<and> act_each f xs t = (Inr zs, s') \<and> ys = y # zs)"
  by (auto split: sum.splits prod.splits)

section \<open>Answering from held records\<close>

text \<open>
  The contract of a client that answers from records it holds: \<^verbatim>\<open>Tx\<close> and \<^verbatim>\<open>AccountTx\<close> tell the same story, and the
  range of a search spans what it returns.
\<close>

locale tx_index =
  fixes invar :: "'s \<Rightarrow> bool"
    and reader :: "'s \<Rightarrow> chain_reader"
  assumes lookup_hash: "invar s \<Longrightarrow> list_all is_ascii h \<Longrightarrow> rd_Tx (reader s) h = Inr r \<Longrightarrow> map ascii_upper (tr_Hash r) = map ascii_upper h"
    and listed_account: "invar s \<Longrightarrow> rd_AccountTx (reader s) a = Inr (rs, rg) \<Longrightarrow> r \<in> set rs \<Longrightarrow> tr_Account r = a"
    and listed_found: "invar s \<Longrightarrow> rd_AccountTx (reader s) a = Inr (rs, rg) \<Longrightarrow> r \<in> set rs \<Longrightarrow> list_all is_ascii h \<Longrightarrow>
        map ascii_upper (tr_Hash r) = map ascii_upper h \<Longrightarrow> rd_Tx (reader s) h = Inr r"
    and listed_ascii: "invar s \<Longrightarrow> rd_AccountTx (reader s) a = Inr (rs, rg) \<Longrightarrow> r \<in> set rs \<Longrightarrow> list_all is_ascii (tr_Hash r)"
    and listed_range: "invar s \<Longrightarrow> rd_AccountTx (reader s) a = Inr (rs, rg) \<Longrightarrow> r \<in> set rs \<Longrightarrow>
        rg_Min rg \<le> uint (tr_LedgerIndex r) \<and> uint (tr_LedgerIndex r) \<le> rg_Max rg"
begin

text \<open>The index of the account scan that \<^verbatim>\<open>Fetch\<close> falls back to holds nothing that the lookup by hash does not find.\<close>

lemma scanned_found:
  assumes "invar s" "list_all is_ascii h" "scanned pm (reader s) a (to_upper (pm_upper pm) h) = Some r"
  shows "rd_Tx (reader s) h = Inr r"
proof -
  obtain rs rg where l: "rd_AccountTx (reader s) a = Inr (rs, rg)"
    and m: "map_of (rev (map (\<lambda>t. (to_upper (pm_upper pm) (tr_Hash t), t)) rs)) (to_upper (pm_upper pm) h) = Some r"
    using assms(3) by (auto simp: scanned_def split: sum.splits prod.splits)
  have r: "r \<in> set rs" "to_upper (pm_upper pm) (tr_Hash r) = to_upper (pm_upper pm) h" using map_of_SomeD [OF m] by auto
  have "list_all is_ascii (tr_Hash r)" using listed_ascii [OF assms(1) l r(1)] .
  then show ?thesis using listed_found [OF assms(1) l r(1) assms(2)] r(2) assms(2) by (simp add: to_upper_def)
qed

lemma fetch_record_lookup:
  assumes "invar s" "list_all is_ascii (ch_TxHash ch)"
  shows "fetch_record pm (reader s) res n ch =
    (case rd_Tx (reader s) (ch_TxHash ch) of
       Inr t \<Rightarrow> Inr t
     | Inl ErrNotFound \<Rightarrow> Inl (MissingChunk (ch_Index ch) n (rs_Account res) (rs_Range res))
     | Inl e \<Rightarrow> Inl (NetworkError (ch_Index ch) e))"
  using scanned_found [OF assms, of pm "rs_Account res"]
  by (auto simp: fetch_record_def split: sum.splits client_error.splits option.splits)

end

end
