(* ===== verification/Dump.thy ===== *)
theory Dump
  imports Client
begin

text \<open>
  \<^verbatim>\<open>internal/dump/dump.go\<close>: the offline record of the transactions of a backup, its file, and the client that
  answers from it.  The text of the file is its JSON tree; reading it into the struct goes through the keys in
  order, as \<^verbatim>\<open>json.Unmarshal\<close> does.  Entries of a second \<^verbatim>\<open>txs\<close> or \<^verbatim>\<open>did\<close> key are read over those of the first.
\<close>

section \<open>The file body\<close>

definition dump_Version :: int where "dump_Version = 1"

record dump_tx =
  dt_Hash :: string
  dt_LedgerIndex :: u32
  dt_Result :: string
  dt_TxJSON :: json

record dump_did =
  dd_LedgerIndex :: u32
  dd_Data :: string

record dump =
  du_V :: int
  du_Account :: string
  du_BackupID :: string
  du_Txs :: "dump_tx list"
  du_DID :: "dump_did option"

datatype dump_error =
    CannotReadDump string | NotADump string | DumpVersionUnsupported | NotATransaction string nat | ClaimedTwice string nat nat string

definition no_dump_tx :: dump_tx where
  "no_dump_tx = \<lparr>dt_Hash = [], dt_LedgerIndex = 0, dt_Result = [], dt_TxJSON = JNull\<rparr>"

definition no_dump_did :: dump_did where
  "no_dump_did = \<lparr>dd_LedgerIndex = 0, dd_Data = []\<rparr>"

definition no_dump :: dump where
  "no_dump = \<lparr>du_V = 0, du_Account = [], du_BackupID = [], du_Txs = [], du_DID = None\<rparr>"

section \<open>Reading the JSON\<close>

text \<open>Decoding over an old value: \<^verbatim>\<open>null\<close> leaves it, a value of another type is an error.\<close>

definition str_over :: "json \<Rightarrow> string \<Rightarrow> string option" where
  "str_over j old = (case j of JStr s \<Rightarrow> Some s | JNull \<Rightarrow> Some old | _ \<Rightarrow> None)"

definition int_over :: "int \<Rightarrow> int \<Rightarrow> json \<Rightarrow> int \<Rightarrow> int option" where
  "int_over lo hi j old = (case j of JNum n \<Rightarrow> if lo \<le> n \<and> n < hi then Some n else None | JNull \<Rightarrow> Some old | _ \<Rightarrow> None)"

definition u32_over :: "json \<Rightarrow> u32 \<Rightarrow> u32 option" where
  "u32_over j old = map_option of_int (int_over 0 (2 ^ 32) j (uint old))"

definition set_dump_tx :: "(string \<Rightarrow> string \<Rightarrow> bool) \<Rightarrow> string \<times> json \<Rightarrow> dump_tx option \<Rightarrow> dump_tx option" where
  "set_dump_tx uni kv acc =
     (case acc of
        None \<Rightarrow> None
      | Some t \<Rightarrow>
          if equal_fold uni (fst kv) ''hash'' then map_option (\<lambda>s. t\<lparr>dt_Hash := s\<rparr>) (str_over (snd kv) (dt_Hash t))
          else if equal_fold uni (fst kv) ''ledger_index'' then map_option (\<lambda>n. t\<lparr>dt_LedgerIndex := n\<rparr>) (u32_over (snd kv) (dt_LedgerIndex t))
          else if equal_fold uni (fst kv) ''result'' then map_option (\<lambda>s. t\<lparr>dt_Result := s\<rparr>) (str_over (snd kv) (dt_Result t))
          else if equal_fold uni (fst kv) ''tx_json'' then Some (t\<lparr>dt_TxJSON := snd kv\<rparr>)
          else Some t)"

definition dump_tx_over :: "(string \<Rightarrow> string \<Rightarrow> bool) \<Rightarrow> json \<Rightarrow> dump_tx \<Rightarrow> dump_tx option" where
  "dump_tx_over uni j old = (case j of JObj kvs \<Rightarrow> fold (set_dump_tx uni) kvs (Some old) | JNull \<Rightarrow> Some old | _ \<Rightarrow> None)"

definition txs_over :: "(string \<Rightarrow> string \<Rightarrow> bool) \<Rightarrow> json \<Rightarrow> dump_tx list \<Rightarrow> dump_tx list option" where
  "txs_over uni j old =
     (case j of
        JArr es \<Rightarrow> those (map (\<lambda>(i, e). dump_tx_over uni e (if i < length old then old ! i else no_dump_tx)) (enumerate 0 es))
      | JNull \<Rightarrow> Some []
      | _ \<Rightarrow> None)"

definition set_dump_did :: "(string \<Rightarrow> string \<Rightarrow> bool) \<Rightarrow> string \<times> json \<Rightarrow> dump_did option \<Rightarrow> dump_did option" where
  "set_dump_did uni kv acc =
     (case acc of
        None \<Rightarrow> None
      | Some d \<Rightarrow>
          if equal_fold uni (fst kv) ''ledger_index'' then map_option (\<lambda>n. d\<lparr>dd_LedgerIndex := n\<rparr>) (u32_over (snd kv) (dd_LedgerIndex d))
          else if equal_fold uni (fst kv) ''data'' then map_option (\<lambda>s. d\<lparr>dd_Data := s\<rparr>) (str_over (snd kv) (dd_Data d))
          else Some d)"

definition did_over :: "(string \<Rightarrow> string \<Rightarrow> bool) \<Rightarrow> json \<Rightarrow> dump_did option \<Rightarrow> dump_did option option" where
  "did_over uni j old =
     (case j of
        JObj kvs \<Rightarrow> map_option Some (fold (set_dump_did uni) kvs (Some (case old of Some d \<Rightarrow> d | None \<Rightarrow> no_dump_did)))
      | JNull \<Rightarrow> Some None
      | _ \<Rightarrow> None)"

definition set_dump :: "(string \<Rightarrow> string \<Rightarrow> bool) \<Rightarrow> string \<times> json \<Rightarrow> dump option \<Rightarrow> dump option" where
  "set_dump uni kv acc =
     (case acc of
        None \<Rightarrow> None
      | Some d \<Rightarrow>
          if equal_fold uni (fst kv) ''v'' then map_option (\<lambda>n. d\<lparr>du_V := n\<rparr>) (int_over (- (2 ^ 63)) (2 ^ 63) (snd kv) (du_V d))
          else if equal_fold uni (fst kv) ''account'' then map_option (\<lambda>s. d\<lparr>du_Account := s\<rparr>) (str_over (snd kv) (du_Account d))
          else if equal_fold uni (fst kv) ''backup_id'' then map_option (\<lambda>s. d\<lparr>du_BackupID := s\<rparr>) (str_over (snd kv) (du_BackupID d))
          else if equal_fold uni (fst kv) ''txs'' then map_option (\<lambda>ts. d\<lparr>du_Txs := ts\<rparr>) (txs_over uni (snd kv) (du_Txs d))
          else if equal_fold uni (fst kv) ''did'' then map_option (\<lambda>x. d\<lparr>du_DID := x\<rparr>) (did_over uni (snd kv) (du_DID d))
          else Some d)"

definition dump_of_json :: "(string \<Rightarrow> string \<Rightarrow> bool) \<Rightarrow> json \<Rightarrow> dump option" where
  "dump_of_json uni j = (case j of JObj kvs \<Rightarrow> fold (set_dump uni) kvs (Some no_dump) | JNull \<Rightarrow> Some no_dump | _ \<Rightarrow> None)"

section \<open>Load\<close>

text \<open>A file as \<^verbatim>\<open>os.ReadFile\<close> finds it: not readable, not JSON, or a JSON text.\<close>

datatype json_file = Unreadable | NotJSONText | JSONText json

text \<open>The loop over the entries; \<open>seen\<close> maps an upper-case hash to its index.\<close>

fun check_dump_txs ::
    "(string \<Rightarrow> string \<Rightarrow> bool) \<Rightarrow> (string \<Rightarrow> string) \<Rightarrow> string \<Rightarrow> (string \<rightharpoonup> nat) \<Rightarrow> nat \<Rightarrow> dump_tx list \<Rightarrow> dump_error option" where
  "check_dump_txs uni up path seen i [] = None"
| "check_dump_txs uni up path seen i (t # ts) =
     (case ParseTxJSON uni (dt_TxJSON t) None of
        None \<Rightarrow> Some (NotATransaction path (i + 1))
      | Some rec \<Rightarrow>
          if dt_Hash t = [] \<or> tr_Account rec = [] then Some (NotATransaction path (i + 1))
          else (case seen (to_upper up (dt_Hash t)) of
                  Some first \<Rightarrow> Some (ClaimedTwice path (first + 1) (i + 1) (dt_Hash t))
                | None \<Rightarrow> check_dump_txs uni up path (seen(to_upper up (dt_Hash t) \<mapsto> i)) (i + 1) ts))"

definition dump_Load :: "(string \<Rightarrow> string \<Rightarrow> bool) \<Rightarrow> (string \<Rightarrow> string) \<Rightarrow> (string \<Rightarrow> json_file) \<Rightarrow> string \<Rightarrow> dump_error + dump" where
  "dump_Load uni up files path =
     (case files path of
        Unreadable \<Rightarrow> Inl (CannotReadDump path)
      | NotJSONText \<Rightarrow> Inl (NotADump path)
      | JSONText j \<Rightarrow>
          (case dump_of_json uni j of
             None \<Rightarrow> Inl (NotADump path)
           | Some d \<Rightarrow>
               if du_V d \<noteq> dump_Version then Inl DumpVersionUnsupported
               else (case check_dump_txs uni up path Map.empty 0 (du_Txs d) of Some e \<Rightarrow> Inl e | None \<Rightarrow> Inr d)))"

section \<open>Save and Merge\<close>

definition dump_tx_json :: "dump_tx \<Rightarrow> json" where
  "dump_tx_json t = JObj [(''hash'', JStr (dt_Hash t)), (''ledger_index'', JNum (uint (dt_LedgerIndex t))),
     (''result'', JStr (dt_Result t)), (''tx_json'', dt_TxJSON t)]"

text \<open>A list without elements is written as \<^verbatim>\<open>null\<close>, like the nil slice of a new dump.\<close>

definition dump_json :: "dump \<Rightarrow> json" where
  "dump_json d = JObj ([(''v'', JNum (du_V d)), (''account'', JStr (du_Account d)), (''backup_id'', JStr (du_BackupID d)),
     (''txs'', if du_Txs d = [] then JNull else JArr (map dump_tx_json (du_Txs d)))]
     @ (case du_DID d of
          None \<Rightarrow> []
        | Some x \<Rightarrow> [(''did'', JObj [(''ledger_index'', JNum (uint (dd_LedgerIndex x))), (''data'', JStr (dd_Data x))])]))"

text \<open>\<open>wr\<close> is \<^verbatim>\<open>os.WriteFile\<close>; its answer is whether it succeeded.\<close>

definition dump_Save :: "(string \<Rightarrow> json \<Rightarrow> 'w \<Rightarrow> bool \<times> 'w) \<Rightarrow> string \<Rightarrow> dump \<Rightarrow> 'w \<Rightarrow> bool \<times> dump \<times> 'w" where
  "dump_Save wr path d w =
     (let d' = d\<lparr>du_V := dump_Version\<rparr>; (ok, w') = wr path (dump_json d') w in (ok, d', w'))"

fun merge_txs :: "(string \<Rightarrow> string) \<Rightarrow> string set \<Rightarrow> dump_tx list \<Rightarrow> dump_tx list" where
  "merge_txs up seen [] = []"
| "merge_txs up seen (t # ts) =
     (if to_upper up (dt_Hash t) \<in> seen then merge_txs up seen ts
      else t # merge_txs up (insert (to_upper up (dt_Hash t)) seen) ts)"

definition dump_Merge :: "(string \<Rightarrow> string) \<Rightarrow> dump \<Rightarrow> dump \<Rightarrow> dump" where
  "dump_Merge up d other =
     d\<lparr>du_Txs := du_Txs d @ merge_txs up (set (map (\<lambda>t. to_upper up (dt_Hash t)) (du_Txs d))) (du_Txs other),
       du_DID := (case du_DID other of
                    None \<Rightarrow> du_DID d
                  | Some x \<Rightarrow>
                      (case du_DID d of
                         None \<Rightarrow> Some x
                       | Some y \<Rightarrow> if dd_LedgerIndex x \<ge> dd_LedgerIndex y then Some x else Some y))\<rparr>"

section \<open>The client\<close>

definition dump_record :: "(string \<Rightarrow> string \<Rightarrow> bool) \<Rightarrow> dump_tx \<Rightarrow> tx_record option" where
  "dump_record uni t =
     map_option (\<lambda>r. r\<lparr>tr_Hash := dt_Hash t, tr_LedgerIndex := dt_LedgerIndex t, tr_Validated := True, tr_Result := dt_Result t\<rparr>)
       (ParseTxJSON uni (dt_TxJSON t) None)"

definition dump_lookup :: "(string \<Rightarrow> string \<Rightarrow> bool) \<Rightarrow> dump \<Rightarrow> string \<Rightarrow> client_error + tx_record" where
  "dump_lookup uni d h =
     (case find (\<lambda>t. equal_fold uni (dt_Hash t) h) (du_Txs d) of
        None \<Rightarrow> Inl ErrNotFound
      | Some t \<Rightarrow> (case dump_record uni t of None \<Rightarrow> Inl (ClientFailed ''json'') | Some r \<Rightarrow> Inr r))"

definition widen :: "u32 \<Rightarrow> range \<Rightarrow> range" where
  "widen n rng =
     (let rng = (if rg_Min rng < 0 \<or> uint n < rg_Min rng then rng\<lparr>rg_Min := uint n\<rparr> else rng)
      in if uint n > rg_Max rng then rng\<lparr>rg_Max := uint n\<rparr> else rng)"

fun dump_listing :: "(string \<Rightarrow> string \<Rightarrow> bool) \<Rightarrow> string \<Rightarrow> dump_tx list \<Rightarrow> tx_record list \<Rightarrow> range \<Rightarrow> tx_record list \<times> range" where
  "dump_listing uni account [] out rng = (out, rng)"
| "dump_listing uni account (t # ts) out rng =
     (case dump_record uni t of
        None \<Rightarrow> dump_listing uni account ts out rng
      | Some r \<Rightarrow>
          if tr_Account r \<noteq> account then dump_listing uni account ts out rng
          else dump_listing uni account ts (out @ [r]) (widen (dt_LedgerIndex t) rng))"

definition dump_DID_data :: "dump \<Rightarrow> client_error + byte list" where
  "dump_DID_data d =
     (case du_DID d of
        None \<Rightarrow> Inl ErrNotFound
      | Some x \<Rightarrow> (case hex_decode (dd_Data x) of None \<Rightarrow> Inl (ClientFailed ''anchor data is not hex'') | Some b \<Rightarrow> Inr b))"

definition dump_reader :: "(string \<Rightarrow> string \<Rightarrow> bool) \<Rightarrow> dump \<Rightarrow> chain_reader" where
  "dump_reader uni d =
     \<lparr>rd_Tx = dump_lookup uni d,
      rd_AccountTx = (\<lambda>account. Inr (dump_listing uni account (du_Txs d) [] \<lparr>rg_Min = -1, rg_Max = -1\<rparr>)),
      rd_LedgerEntryDID = (\<lambda>_. dump_DID_data d)\<rparr>"

text \<open>Everything else needs a server; the dump itself is never changed by a call.\<close>

definition errOffline :: client_error where
  "errOffline = ClientFailed ''offline dump: this operation needs a live server (--rpc)''"

definition dump_client :: "(string \<Rightarrow> string \<Rightarrow> bool) \<Rightarrow> dump client" where
  "dump_client uni =
     \<lparr>cl_Submit = (\<lambda>_ d. (Inl errOffline, d)), cl_Tx = (\<lambda>h d. (rd_Tx (dump_reader uni d) h, d)),
      cl_AccountTx = (\<lambda>a d. (rd_AccountTx (dump_reader uni d) a, d)),
      cl_LedgerEntryDID = (\<lambda>a d. (rd_LedgerEntryDID (dump_reader uni d) a, d)),
      cl_AccountInfo = (\<lambda>_ d. (Inl errOffline, d)), cl_ServerInfo = (\<lambda>d. (Inl errOffline, d)),
      cl_AmendmentEnabled = (\<lambda>_ d. (Inl errOffline, d))\<rparr>"

section \<open>What Load accepts\<close>

definition dump_tx_valid :: "(string \<Rightarrow> string \<Rightarrow> bool) \<Rightarrow> dump_tx \<Rightarrow> bool" where
  "dump_tx_valid uni t \<longleftrightarrow>
     dt_Hash t \<noteq> [] \<and> (case ParseTxJSON uni (dt_TxJSON t) None of None \<Rightarrow> False | Some r \<Rightarrow> tr_Account r \<noteq> [])"

definition dump_keys :: "(string \<Rightarrow> string) \<Rightarrow> dump_tx list \<Rightarrow> string list" where
  "dump_keys up ts = map (\<lambda>t. to_upper up (dt_Hash t)) ts"

definition dump_valid :: "(string \<Rightarrow> string \<Rightarrow> bool) \<Rightarrow> (string \<Rightarrow> string) \<Rightarrow> dump \<Rightarrow> bool" where
  "dump_valid uni up d \<longleftrightarrow> list_all (dump_tx_valid uni) (du_Txs d) \<and> distinct (dump_keys up (du_Txs d))"

lemma check_dump_txs_None:
  "check_dump_txs uni up path seen i ts = None \<longleftrightarrow>
     list_all (dump_tx_valid uni) ts \<and> distinct (dump_keys up ts) \<and> set (dump_keys up ts) \<inter> dom seen = {}"
  by (induction ts arbitrary: seen i) (auto simp: dump_tx_valid_def dump_keys_def domIff split: option.splits)

lemma dump_Load_Inr:
  "dump_Load uni up files path = Inr d \<longleftrightarrow>
     (\<exists>j. files path = JSONText j \<and> dump_of_json uni j = Some d) \<and> du_V d = dump_Version \<and> dump_valid uni up d"
  using check_dump_txs_None [of uni up path Map.empty 0 "du_Txs d"]
  by (auto simp: dump_Load_def dump_valid_def split: json_file.splits option.splits)

lemma dump_field_names:
  "equal_fold uni ''hash'' ''hash''" "\<not> equal_fold uni ''ledger_index'' ''hash''" "equal_fold uni ''ledger_index'' ''ledger_index''"
  "\<not> equal_fold uni ''result'' ''hash''" "\<not> equal_fold uni ''result'' ''ledger_index''" "equal_fold uni ''result'' ''result''"
  "\<not> equal_fold uni ''tx_json'' ''hash''" "\<not> equal_fold uni ''tx_json'' ''ledger_index''" "\<not> equal_fold uni ''tx_json'' ''result''"
  "equal_fold uni ''tx_json'' ''tx_json''"
  "\<not> equal_fold uni ''data'' ''ledger_index''" "equal_fold uni ''data'' ''data''"
  "equal_fold uni ''v'' ''v''" "\<not> equal_fold uni ''account'' ''v''" "equal_fold uni ''account'' ''account''"
  "\<not> equal_fold uni ''backup_id'' ''v''" "\<not> equal_fold uni ''backup_id'' ''account''" "equal_fold uni ''backup_id'' ''backup_id''"
  "\<not> equal_fold uni ''txs'' ''v''" "\<not> equal_fold uni ''txs'' ''account''" "\<not> equal_fold uni ''txs'' ''backup_id''" "equal_fold uni ''txs'' ''txs''"
  "\<not> equal_fold uni ''did'' ''v''" "\<not> equal_fold uni ''did'' ''account''" "\<not> equal_fold uni ''did'' ''backup_id''"
  "\<not> equal_fold uni ''did'' ''txs''" "equal_fold uni ''did'' ''did''"
  by (simp_all add: equal_fold_def is_ascii_def ascii_lower_def)

lemma u32_over_uint [simp]: "u32_over (JNum (uint x)) old = Some x"
  using uint_ge_0 [of x] uint_bounded [of x] by (simp add: u32_over_def int_over_def)

lemma dump_tx_over_json: "dump_tx_over uni (dump_tx_json t) old = Some t"
  by (simp add: dump_tx_over_def dump_tx_json_def set_dump_tx_def dump_field_names str_over_def)

lemma txs_over_json: "txs_over uni (JArr (map dump_tx_json ts)) old = Some ts"
proof -
  have "those (map (\<lambda>(i, e). dump_tx_over uni e (if i < length old then old ! i else no_dump_tx)) (enumerate n (map dump_tx_json ts))) = Some ts" for n
    by (induction ts arbitrary: n) (simp_all add: dump_tx_over_json)
  then show ?thesis by (simp add: txs_over_def)
qed

lemma dump_of_dump_json: "du_V d = dump_Version \<Longrightarrow> dump_of_json uni (dump_json d) = Some d"
  by (cases "du_DID d")
     (simp_all add: dump_of_json_def dump_json_def set_dump_def dump_field_names str_over_def int_over_def txs_over_json
       did_over_def set_dump_did_def no_dump_def dump_Version_def txs_over_def [of uni JNull])

lemma load_saved:
  assumes "dump_valid uni up d" "dump_Save wr path d w = (ok, d', w')"
  shows "dump_Load uni up (\<lambda>_. JSONText (dump_json d')) path = Inr d'" "d' = d\<lparr>du_V := dump_Version\<rparr>"
proof -
  show d': "d' = d\<lparr>du_V := dump_Version\<rparr>" using assms(2) by (auto simp: dump_Save_def Let_def split: prod.splits)
  then show "dump_Load uni up (\<lambda>_. JSONText (dump_json d')) path = Inr d'"
    using assms(1) by (simp add: dump_Load_Inr dump_of_dump_json dump_valid_def)
qed

lemma merge_txs_keys:
  "distinct (dump_keys up (merge_txs up seen ts)) \<and> set (dump_keys up (merge_txs up seen ts)) \<inter> seen = {}
     \<and> set (dump_keys up (merge_txs up seen ts)) \<union> seen = set (dump_keys up ts) \<union> seen"
proof (induction ts arbitrary: seen)
  case (Cons t ts)
  show ?case
  proof (cases "to_upper up (dt_Hash t) \<in> seen")
    case False
    then show ?thesis using Cons.IH [of "insert (to_upper up (dt_Hash t)) seen"] by (auto simp: dump_keys_def)
  qed (use Cons in \<open>auto simp: dump_keys_def\<close>)
qed (simp add: dump_keys_def)

lemma merge_txs_subset: "set (merge_txs up seen ts) \<subseteq> set ts"
  by (induction ts arbitrary: seen) auto

lemma merge_valid:
  assumes "dump_valid uni up d" "dump_valid uni up other"
  shows "dump_valid uni up (dump_Merge up d other)"
proof -
  let ?new = "merge_txs up (set (dump_keys up (du_Txs d))) (du_Txs other)"
  have txs: "du_Txs (dump_Merge up d other) = du_Txs d @ ?new" by (simp add: dump_Merge_def dump_keys_def)
  have "list_all (dump_tx_valid uni) ?new" using merge_txs_subset assms(2) by (fastforce simp: dump_valid_def list_all_iff)
  moreover have "distinct (dump_keys up (du_Txs d @ ?new))"
    using merge_txs_keys [of up "set (dump_keys up (du_Txs d))" "du_Txs other"] assms(1) by (auto simp: dump_valid_def dump_keys_def)
  ultimately show ?thesis using assms(1) by (simp add: dump_valid_def txs)
qed

text \<open>
  C9.  Merging two dump files gives a dump that loads again, exactly as it was saved: it keeps every entry of
  the first, its hashes are those of the two together, and no hash appears twice.
\<close>
theorem dump_merge_reloads:
  assumes "dump_Load uni up files path = Inr d" "dump_Load uni up files path2 = Inr other"
    and "dump_Save wr out (dump_Merge up d other) w = (ok, saved, w')"
  shows "dump_Load uni up (\<lambda>_. JSONText (dump_json saved)) out = Inr saved
    \<and> (\<exists>ts. du_Txs saved = du_Txs d @ ts)
    \<and> set (dump_keys up (du_Txs saved)) = set (dump_keys up (du_Txs d)) \<union> set (dump_keys up (du_Txs other))
    \<and> distinct (dump_keys up (du_Txs saved))"
proof (intro conjI)
  have v: "dump_valid uni up (dump_Merge up d other)" using assms(1,2) by (simp add: dump_Load_Inr merge_valid)
  note s = load_saved [OF v assms(3)]
  show "dump_Load uni up (\<lambda>_. JSONText (dump_json saved)) out = Inr saved" by (rule s(1))
  have txs: "du_Txs saved = du_Txs d @ merge_txs up (set (dump_keys up (du_Txs d))) (du_Txs other)"
    by (simp add: s(2) dump_Merge_def dump_keys_def)
  then show "\<exists>ts. du_Txs saved = du_Txs d @ ts" by blast
  show "set (dump_keys up (du_Txs saved)) = set (dump_keys up (du_Txs d)) \<union> set (dump_keys up (du_Txs other))"
    using merge_txs_keys [of up "set (dump_keys up (du_Txs d))" "du_Txs other"] unfolding txs by (auto simp: dump_keys_def)
  show "distinct (dump_keys up (du_Txs saved))" using v by (simp add: s(2) dump_valid_def)
qed

definition sample_dump :: "string \<Rightarrow> dump" where
  "sample_dump h = \<lparr>du_V = 1, du_Account = ''r'', du_BackupID = ''00'',
     du_Txs = [\<lparr>dt_Hash = h, dt_LedgerIndex = 7, dt_Result = ''tesSUCCESS'', dt_TxJSON = JObj [(''Account'', JStr ''r'')]\<rparr>], du_DID = None\<rparr>"

lemma sample_dump_loads: "h \<noteq> [] \<Longrightarrow> dump_Load uni up (\<lambda>q. JSONText (dump_json (sample_dump q))) h = Inr (sample_dump h)"
  by (simp add: dump_Load_Inr dump_of_dump_json sample_dump_def dump_Version_def dump_valid_def dump_tx_valid_def dump_keys_def
      ParseTxJSON_def top_and_body_def jget_def as_str_def Let_def)

lemma dump_merge_reloads_witness:
  "\<exists>saved. dump_Load (\<lambda>_ _. False) id (\<lambda>_. JSONText (dump_json saved)) ''c'' = Inr saved
     \<and> set (dump_keys id (du_Txs saved)) = {''AB'', ''CD''} \<and> distinct (dump_keys id (du_Txs saved))"
proof -
  let ?m = "(dump_Merge id (sample_dump ''AB'') (sample_dump ''CD''))\<lparr>du_V := dump_Version\<rparr>"
  have sv: "dump_Save (\<lambda>path j w. (True, ())) ''c'' (dump_Merge id (sample_dump ''AB'') (sample_dump ''CD'')) () = (True, ?m, ())"
    by (simp add: dump_Save_def)
  have k: "dump_keys id (du_Txs (sample_dump ''AB'')) = [''AB'']" "dump_keys id (du_Txs (sample_dump ''CD'')) = [''CD'']"
    by (simp_all add: dump_keys_def sample_dump_def to_upper_def is_ascii_def ascii_upper_def)
  show ?thesis
    using dump_merge_reloads [OF sample_dump_loads [of "''AB''" "\<lambda>_ _. False" id] sample_dump_loads [of "''CD''" "\<lambda>_ _. False" id] sv] k
    by (intro exI [of _ ?m]) auto
qed

section \<open>The reader keeps the contract\<close>

lemma nat_case:
  "(if 97 \<le> m \<and> m \<le> 122 then m - 32 else m) = (if 97 \<le> n \<and> n \<le> 122 then n - 32 else n)
     \<longleftrightarrow> (if 65 \<le> m \<and> m \<le> 90 then m + 32 else m) = (if 65 \<le> n \<and> n \<le> 90 then n + 32 else (n::nat))"
  by (auto split: if_splits)

lemma ascii_case: "ascii_upper c = ascii_upper d \<longleftrightarrow> ascii_lower c = ascii_lower d"
proof -
  have eq: "c = d \<longleftrightarrow> (of_char c :: nat) = of_char d" for c d by simp
  have c: "(of_char (ascii_upper c) :: nat) = (if 97 \<le> (of_char c :: nat) \<and> (of_char c :: nat) \<le> 122 then of_char c - 32 else of_char c)"
    "(of_char (ascii_lower c) :: nat) = (if 65 \<le> (of_char c :: nat) \<and> (of_char c :: nat) \<le> 90 then of_char c + 32 else of_char c)" for c
    using nat_of_char_less_256 [of c] by (auto simp: ascii_upper_def ascii_lower_def Let_def)
  show ?thesis unfolding eq [of "ascii_upper c"] eq [of "ascii_lower c"] c by (rule nat_case)
qed

lemma equal_fold_ascii:
  assumes "list_all is_ascii s" "list_all is_ascii t"
  shows "equal_fold uni s t \<longleftrightarrow> map ascii_upper s = map ascii_upper t"
proof -
  have "map ascii_lower s = map ascii_lower t \<longleftrightarrow> map ascii_upper s = map ascii_upper t" for s t
    by (induction s t rule: list_induct2') (simp_all add: ascii_case)
  then show ?thesis using assms by (simp add: equal_fold_def)
qed

lemma dump_listing_append:
  "fst (dump_listing uni a ts out rng) = out @ filter (\<lambda>r. tr_Account r = a) (List.map_filter (dump_record uni) ts)"
  by (induction ts arbitrary: out rng) (auto simp: List.map_filter_simps split: option.splits)

lemma widen_bounds:
  "rg_Min (widen n rng) \<le> uint n" "uint n \<le> rg_Max (widen n rng)" "0 \<le> rg_Min (widen n rng)"
  "0 \<le> rg_Min rng \<Longrightarrow> rg_Min (widen n rng) \<le> rg_Min rng" "rg_Max rng \<le> rg_Max (widen n rng)"
  by (auto simp: widen_def Let_def)

lemma dump_listing_range:
  assumes "dump_listing uni a ts out rng = (rs, rg)" "\<forall>r \<in> set out. rg_Min rng \<le> uint (tr_LedgerIndex r) \<and> uint (tr_LedgerIndex r) \<le> rg_Max rng"
    "out \<noteq> [] \<Longrightarrow> 0 \<le> rg_Min rng"
  shows "\<forall>r \<in> set rs. rg_Min rg \<le> uint (tr_LedgerIndex r) \<and> uint (tr_LedgerIndex r) \<le> rg_Max rg"
  using assms
proof (induction ts arbitrary: out rng)
  case (Cons t ts)
  show ?case
  proof (cases "dump_record uni t")
    case (Some r)
    show ?thesis
    proof (cases "tr_Account r = a")
      case True
      have l: "tr_LedgerIndex r = dt_LedgerIndex t" using Some by (auto simp: dump_record_def)
      note w = widen_bounds [where n = "dt_LedgerIndex t" and rng = rng]
      have "\<forall>q \<in> set (out @ [r]). rg_Min (widen (dt_LedgerIndex t) rng) \<le> uint (tr_LedgerIndex q) \<and> uint (tr_LedgerIndex q) \<le> rg_Max (widen (dt_LedgerIndex t) rng)"
      proof
        fix q assume "q \<in> set (out @ [r])"
        then consider "q = r" | "q \<in> set out" "out \<noteq> []" by (cases out) auto
        then show "rg_Min (widen (dt_LedgerIndex t) rng) \<le> uint (tr_LedgerIndex q) \<and> uint (tr_LedgerIndex q) \<le> rg_Max (widen (dt_LedgerIndex t) rng)"
          using w(1,2) w(4) [OF Cons.prems(3)] w(5) Cons.prems(2) l by cases (simp, fastforce)
      qed
      then show ?thesis using Cons.IH [of "out @ [r]" "widen (dt_LedgerIndex t) rng"] Cons.prems(1) Some True w(3) by simp
    qed (use Cons Some in simp)
  qed (use Cons in simp)
qed simp

definition dump_ok :: "(string \<Rightarrow> string \<Rightarrow> bool) \<Rightarrow> dump \<Rightarrow> bool" where
  "dump_ok uni d \<longleftrightarrow> dump_valid uni id d \<and> list_all (\<lambda>t. list_all is_ascii (dt_Hash t)) (du_Txs d)"

lemma dump_lookup_unique:
  assumes "dump_ok uni d" "t \<in> set (du_Txs d)" "list_all is_ascii h" "map ascii_upper (dt_Hash t) = map ascii_upper h"
  shows "find (\<lambda>t. equal_fold uni (dt_Hash t) h) (du_Txs d) = Some t"
proof -
  have a: "list_all is_ascii (dt_Hash x)" if "x \<in> set (du_Txs d)" for x using assms(1) that by (auto simp: dump_ok_def list_all_iff)
  have e: "equal_fold uni (dt_Hash x) h \<longleftrightarrow> map ascii_upper (dt_Hash x) = map ascii_upper h" if "x \<in> set (du_Txs d)" for x
    by (rule equal_fold_ascii [OF a [OF that] assms(3)])
  have "distinct (map (\<lambda>t. to_upper id (dt_Hash t)) (du_Txs d))" using assms(1) by (simp add: dump_ok_def dump_valid_def dump_keys_def)
  then have inj: "inj_on (\<lambda>t. to_upper id (dt_Hash t)) (set (du_Txs d))" by (simp add: distinct_map)
  have only: "x = t" if x: "x \<in> set (du_Txs d)" "map ascii_upper (dt_Hash x) = map ascii_upper h" for x
    using inj_onD [OF inj _ x(1) assms(2)] a [OF x(1)] a [OF assms(2)] x(2) assms(4) by (simp add: to_upper_def)
  show ?thesis
  proof (cases "find (\<lambda>t. equal_fold uni (dt_Hash t) h) (du_Txs d)")
    case None
    then show ?thesis using e [OF assms(2)] assms(2,4) by (simp add: find_None_iff)
  next
    case (Some x)
    then have "x \<in> set (du_Txs d)" "equal_fold uni (dt_Hash x) h" by (auto simp: find_Some_iff)
    then show ?thesis using Some only [of x] e [of x] by simp
  qed
qed

lemma dump_listed:
  assumes "rd_AccountTx (dump_reader uni d) a = Inr (rs, rg)" "r \<in> set rs"
  shows "tr_Account r = a" "\<exists>t \<in> set (du_Txs d). dump_record uni t = Some r \<and> tr_Hash r = dt_Hash t"
proof -
  have "r \<in> set (filter (\<lambda>r. tr_Account r = a) (List.map_filter (dump_record uni) (du_Txs d)))"
    using assms dump_listing_append [of uni a "du_Txs d" "[]" "\<lparr>rg_Min = -1, rg_Max = -1\<rparr>"] by (simp add: dump_reader_def)
  then obtain t where t: "t \<in> set (du_Txs d)" "dump_record uni t = Some r" "tr_Account r = a" by (auto simp: List.map_filter_def)
  then have "tr_Hash r = dt_Hash t" by (auto simp: dump_record_def)
  then show "tr_Account r = a" "\<exists>t \<in> set (du_Txs d). dump_record uni t = Some r \<and> tr_Hash r = dt_Hash t" using t by blast+
qed

interpretation dump_index: tx_index "dump_ok uni" "dump_reader uni" for uni
proof
  fix d h r
  assume d: "dump_ok uni d" and h: "list_all is_ascii h" and r: "rd_Tx (dump_reader uni d) h = Inr r"
  obtain t where t: "find (\<lambda>t. equal_fold uni (dt_Hash t) h) (du_Txs d) = Some t" "dump_record uni t = Some r"
    using r by (auto simp: dump_reader_def dump_lookup_def split: option.splits)
  then have "t \<in> set (du_Txs d)" "equal_fold uni (dt_Hash t) h" by (auto simp: find_Some_iff)
  then show "map ascii_upper (tr_Hash r) = map ascii_upper h"
    using equal_fold_ascii [OF _ h, of "dt_Hash t"] d t(2) by (auto simp: dump_ok_def list_all_iff dump_record_def)
next
  fix d a rs rg r h
  assume d: "dump_ok uni d" and l: "rd_AccountTx (dump_reader uni d) a = Inr (rs, rg)" and r: "r \<in> set rs"
  obtain t where t: "t \<in> set (du_Txs d)" "dump_record uni t = Some r" "tr_Hash r = dt_Hash t" using dump_listed(2) [OF l r] by blast
  show "tr_Account r = a" by (rule dump_listed(1) [OF l r])
  show "list_all is_ascii (tr_Hash r)" using d t(1,3) by (auto simp: dump_ok_def list_all_iff)
  show "rd_Tx (dump_reader uni d) h = Inr r" if "list_all is_ascii h" "map ascii_upper (tr_Hash r) = map ascii_upper h"
    using dump_lookup_unique [OF d t(1) that(1)] that(2) t(2,3) by (simp add: dump_reader_def dump_lookup_def)
  show "rg_Min rg \<le> uint (tr_LedgerIndex r) \<and> uint (tr_LedgerIndex r) \<le> rg_Max rg"
    using dump_listing_range [of uni a "du_Txs d" "[]"] l r by (fastforce simp: dump_reader_def)
qed

end
