(* ===== verification/Send.thy ===== *)
theory Send
  imports Backup Dump Ripemd160
begin

text \<open>
  The sending half of \<^verbatim>\<open>internal/backup/backup.go\<close>: one transaction signed, submitted, watched until it validates and
  recorded in the dump, and the memory of an earlier run.  A \<^verbatim>\<open>Submitter\<close> is a record; what it changes, the outside
  world, the dump and the manifest of the plan, is the state of the actions.  Its log is output only and left out.
  \<open>sb_Nonce\<close> is \<^verbatim>\<open>crypto.NewManifestNonce\<close>, \<open>sb_WriteFile\<close> is \<^verbatim>\<open>os.WriteFile\<close>, and \<open>sb_MapOrder n\<close> is the order in
  which a \<^verbatim>\<open>range\<close> over a map of \<open>n\<close> entries visits them.
\<close>

section \<open>State\<close>

record 'w submitter =
  sb_Client :: "'w client"
  sb_Writer :: sign_key
  sb_Key :: keyfile
  sb_Sleep :: "nat \<Rightarrow> 'w \<Rightarrow> 'w"
  sb_MaxFee :: u64
  sb_DumpOut :: string
  sb_Batch :: bool
  sb_AttestMemo :: "memo option"
  sb_DelegationMemo :: "memo option"
  sb_WriteFile :: "string \<Rightarrow> json \<Rightarrow> 'w \<Rightarrow> bool \<times> 'w"
  sb_Nonce :: "'w \<Rightarrow> byte list option \<times> 'w"
  sb_MapOrder :: "nat \<Rightarrow> nat list"
  sb_Prims :: prims
  sb_Sha512 :: "byte list \<Rightarrow> byte list"
  sb_Ed25519 :: ed25519
  sb_Fold :: "string \<Rightarrow> string \<Rightarrow> bool"

record 'w sub_state =
  us_World :: 'w
  us_Dump :: dump
  us_Manifest :: manifest

datatype submit_error =
    ClientErr client_error | NoAccount string | FeeAboveCap u64 u64 | BalanceTooLow string u64 | CodecErr codec_error
  | EngineCode string string | ValidatedWith string string | DumpNotSaved | NotValidated | NonceUnavailable
  | MemosFailed backup_error | ResumeUnknown string client_error | ChunkStep nat submit_error | PartStep nat submit_error
  | AnchorStep submit_error | ManifestWithoutChunks | BatchSize nat | InnerSequence nat u32 u32 | InnerNotApplied string nat nat string
  | BatchStep string submit_error | BadManifestHash string | NotTheAnchor string | AnchorUnreadable client_error | IndexPanic
  | NoAnchorSent

section \<open>Parts of a submitter\<close>

definition writer_pub :: "'w submitter \<Rightarrow> byte list" where
  "writer_pub s = PublicKey (sb_Ed25519 s) (sb_Writer s)"

definition writer_id :: "'w submitter \<Rightarrow> byte list" where
  "writer_id s = AccountIDFromPublicKey (pm_sha256 (sb_Prims s)) ripemd160 (writer_pub s)"

definition Address :: "'w submitter \<Rightarrow> string" where
  "Address s = EncodeAddress (pm_sha256 (sb_Prims s)) (writer_id s)"

definition anchorMemos :: "'w submitter \<Rightarrow> memo list" where
  "anchorMemos s = (case sb_DelegationMemo s of None \<Rightarrow> [] | Some m \<Rightarrow> [m]) @ (case sb_AttestMemo s of None \<Rightarrow> [] | Some m \<Rightarrow> [m])"

definition sub_defaults :: "'w submitter \<Rightarrow> 'w submitter" where
  "sub_defaults s = (if sb_MaxFee s = 0 then s\<lparr>sb_MaxFee := 5000\<rparr> else s)"

definition default_dump :: "'w submitter \<Rightarrow> dump option \<Rightarrow> dump" where
  "default_dump s d = (case d of Some d \<Rightarrow> d | None \<Rightarrow> no_dump\<lparr>du_Account := Address s\<rparr>)"

text \<open>A call of the client, from a step of the submitter.\<close>

definition on_world :: "('w \<Rightarrow> 'a \<times> 'w) \<Rightarrow> 'w sub_state \<Rightarrow> 'a \<times> 'w sub_state" where
  "on_world m st = (let (r, w) = m (us_World st) in (r, st\<lparr>us_World := w\<rparr>))"

definition ask :: "('w \<Rightarrow> (client_error + 'a) \<times> 'w) \<Rightarrow> ('w sub_state, submit_error, 'a) action" where
  "ask m = act_map_error ClientErr (on_world m)"

definition ask_account :: "'w submitter \<Rightarrow> ('w sub_state, submit_error, account_state) action" where
  "ask_account s = act_map_error (\<lambda>e. if e = ErrNotFound then NoAccount (Address s) else ClientErr e)
     (on_world (cl_AccountInfo (sb_Client s) (Address s)))"

definition onLedger :: "'w submitter \<Rightarrow> string \<Rightarrow> ('w sub_state, client_error, bool) action" where
  "onLedger s h st =
     (case on_world (cl_Tx (sb_Client s) h) st of
        (Inl ErrNotFound, st') \<Rightarrow> (Inr False, st')
      | (Inl e, st') \<Rightarrow> (Inl e, st')
      | (Inr rec, st') \<Rightarrow> (Inr (tr_Validated rec \<and> tr_Result rec = ''tesSUCCESS'' \<and> tr_Account rec = Address s), st'))"

definition saveDump :: "'w submitter \<Rightarrow> ('w sub_state, submit_error, unit) action" where
  "saveDump s st =
     (if sb_DumpOut s = [] then (Inr (), st)
      else let (ok, d, w) = dump_Save (sb_WriteFile s) (sb_DumpOut s) (us_Dump st) (us_World st); st' = st\<lparr>us_World := w, us_Dump := d\<rparr>
           in (if ok then Inr () else Inl DumpNotSaved, st'))"

section \<open>Sending one transaction\<close>

definition fee_rate :: "server_state \<Rightarrow> u64" where
  "fee_rate st = (if ss_OpenLedgerFee st < ss_BaseFeeDrops st then ss_BaseFeeDrops st else ss_OpenLedgerFee st)"

definition check_funds :: "'w submitter \<Rightarrow> account_state \<Rightarrow> u64 \<Rightarrow> u64 \<Rightarrow> ('w sub_state, submit_error, unit) action" where
  "check_funds s acct rate fee =
     (if rate > sb_MaxFee s then act_fail (FeeAboveCap rate (sb_MaxFee s))
      else if as_BalanceDrops acct < 1200000 + fee then act_fail (BalanceTooLow (Address s) (as_BalanceDrops acct))
      else act_ok ())"

definition sign_tx :: "'w submitter \<Rightarrow> tx \<Rightarrow> codec_error + byte list" where
  "sign_tx s t =
     and_then (SigningPayload t) (\<lambda>payload.
       Serialize (Tx ((tx_fields t)\<lparr>tx_TxnSignature := ed_sign (sb_Ed25519 s) (k_priv (sb_Writer s)) payload\<rparr>) (tx_Inner t)) True)"

definition prepared :: "'w submitter \<Rightarrow> txfields \<Rightarrow> server_state \<Rightarrow> account_state \<Rightarrow> txfields" where
  "prepared s f st acct =
     f\<lparr>tx_Sequence := as_Sequence acct, tx_LastLedgerSequence := ss_ValidatedLedger st + 20, tx_FeeDrops := fee_rate st,
       tx_SigningPubKey := writer_pub s, tx_Account := writer_id s\<rparr>"

text \<open>The loop of 45 looks, two seconds apart: the validated record, or nothing when the transaction expired or the looks ran out.\<close>

fun wait_validated :: "'w submitter \<Rightarrow> string \<Rightarrow> u32 \<Rightarrow> nat \<Rightarrow> 'w \<Rightarrow> tx_record option \<times> 'w" where
  "wait_validated s h final 0 w = (None, w)"
| "wait_validated s h final (Suc n) w =
     (let (r, w) = cl_Tx (sb_Client s) h (sb_Sleep s 2 w) in
      case (case r of Inl _ \<Rightarrow> None | Inr rec \<Rightarrow> if tr_Validated rec then Some rec else None) of
        Some rec \<Rightarrow> (Some rec, w)
      | None \<Rightarrow>
          (let (cur, w) = cl_ServerInfo (sb_Client s) w in
           if (case cur of Inl _ \<Rightarrow> False | Inr i \<Rightarrow> ss_ValidatedLedger i > final) then (None, w)
           else wait_validated s h final n w))"

definition record_tx :: "string \<Rightarrow> tx_record \<Rightarrow> 'w sub_state \<Rightarrow> 'w sub_state" where
  "record_tx h rec st = st\<lparr>us_Dump := (us_Dump st)\<lparr>du_Txs := du_Txs (us_Dump st)
     @ [\<lparr>dt_Hash = h, dt_LedgerIndex = tr_LedgerIndex rec, dt_Result = tr_Result rec, dt_TxJSON = tr_Raw rec\<rparr>]\<rparr>\<rparr>"

definition finish_send :: "'w submitter \<Rightarrow> string \<Rightarrow> tx_record \<Rightarrow> ('w sub_state, submit_error, string \<times> u32) action" where
  "finish_send s h rec st =
     (if tr_Result rec \<noteq> ''tesSUCCESS'' then (Inl (ValidatedWith h (tr_Result rec)), st)
      else act_then (saveDump s) (\<lambda>_. act_ok (h, tr_LedgerIndex rec)) (record_tx h rec st))"

text \<open>What the code does with an engine result: wait, try again after four seconds, or give up.\<close>

datatype engine_answer = Wait | TryAgain | GiveUp

definition engine_answer :: "string \<Rightarrow> engine_answer" where
  "engine_answer ec =
     (if ec = ''tesSUCCESS'' \<or> ec = ''terQUEUED'' then Wait
      else if ec = ''tefPAST_SEQ'' \<or> ec = ''terPRE_SEQ'' then TryAgain
      else GiveUp)"

definition pause :: "'w submitter \<Rightarrow> nat \<Rightarrow> ('w sub_state, submit_error, unit) action" where
  "pause s n st = (Inr (), st\<lparr>us_World := sb_Sleep s n (us_World st)\<rparr>)"

definition await :: "'w submitter \<Rightarrow> string \<Rightarrow> u32 \<Rightarrow> ('w sub_state, submit_error, tx_record option) action" where
  "await s h final st = (let (r, w) = wait_validated s h final 45 (us_World st) in (Inr r, st\<lparr>us_World := w\<rparr>))"

text \<open>One attempt; \<open>None\<close> starts the next one.\<close>

definition submit_blob ::
    "'w submitter \<Rightarrow> byte list \<Rightarrow> u32 \<Rightarrow> (string \<Rightarrow> tx_record \<Rightarrow> ('w sub_state, submit_error, 'a) action)
      \<Rightarrow> ('w sub_state, submit_error, 'a option) action" where
  "submit_blob s blob final finish =
     (let h = Hash (sb_Sha512 s) blob in
      act_then (ask (cl_Submit (sb_Client s) blob)) (\<lambda>ec.
        case engine_answer ec of
          Wait \<Rightarrow>
            act_then (await s h final) (\<lambda>r.
              case r of None \<Rightarrow> act_ok None | Some rec \<Rightarrow> act_then (finish h rec) (\<lambda>x. act_ok (Some x)))
        | TryAgain \<Rightarrow> act_then (pause s 4) (\<lambda>_. act_ok None)
        | GiveUp \<Rightarrow> act_fail (EngineCode ec h)))"

definition send_once :: "'w submitter \<Rightarrow> txfields \<Rightarrow> ('w sub_state, submit_error, (string \<times> u32) option) action" where
  "send_once s f =
     act_then (ask (cl_ServerInfo (sb_Client s))) (\<lambda>st.
     act_then (ask_account s) (\<lambda>acct.
     act_then (check_funds s acct (fee_rate st) (fee_rate st)) (\<lambda>_.
     act_then (act_of CodecErr (sign_tx s (Tx (prepared s f st acct) []))) (\<lambda>blob.
       submit_blob s blob (ss_ValidatedLedger st + 20) (finish_send s)))))"

fun attempts :: "nat \<Rightarrow> ('w sub_state, submit_error, 'a option) action \<Rightarrow> ('w sub_state, submit_error, 'a) action" where
  "attempts 0 once = act_fail NotValidated"
| "attempts (Suc n) once = act_then once (\<lambda>r. case r of Some x \<Rightarrow> act_ok x | None \<Rightarrow> attempts n once)"

definition send :: "'w submitter \<Rightarrow> txfields \<Rightarrow> ('w sub_state, submit_error, string \<times> u32) action" where
  "send s f = attempts 3 (send_once (sub_defaults s) f)"

text \<open>The transactions the tool sends: one memo in an \<^verbatim>\<open>AccountSet\<close>, and the deletion of the anchor.\<close>

definition carrier :: "memo \<Rightarrow> txfields" where
  "carrier m = no_fields\<lparr>tx_Type := TxAccountSet, tx_Memos := [m]\<rparr>"

definition chunkTx :: "plan \<Rightarrow> nat \<Rightarrow> tx" where
  "chunkTx p i = Tx (carrier (bp_ChunkMemos p ! i)) []"

definition set_did :: "dump_did option \<Rightarrow> 'w sub_state \<Rightarrow> 'w sub_state" where
  "set_did x st = st\<lparr>us_Dump := (us_Dump st)\<lparr>du_DID := x\<rparr>\<rparr>"

definition DeleteAnchor :: "'w submitter \<Rightarrow> ('w sub_state, submit_error, unit) action" where
  "DeleteAnchor s = act_then (send s (no_fields\<lparr>tx_Type := TxDIDDelete\<rparr>)) (\<lambda>_ st. saveDump s (set_did None st))"

section \<open>The anchor\<close>

definition anchor_record :: "plan \<Rightarrow> manifest \<Rightarrow> byte list \<Rightarrow> u32 \<Rightarrow> anchor" where
  "anchor_record p m hb ledger =
     \<lparr>an_BackupID = to_array 16 (bp_BackupID p), an_ManifestTxHash = to_array 32 hb, an_ManifestLedger = ledger,
      an_Epoch = mn_Epoch m, an_Seq = mn_Seq m\<rparr>"

definition anchor_data :: "'w submitter \<Rightarrow> anchor \<Rightarrow> byte list" where
  "anchor_data s r = anchor_Encode (pm_hkdf (sb_Prims s)) (pm_hmac (sb_Prims s)) (kf_Key (sb_Key s)) r"

definition sendAnchor :: "'w submitter \<Rightarrow> plan \<Rightarrow> string \<Rightarrow> u32 \<Rightarrow> ('w sub_state, submit_error, unit) action" where
  "sendAnchor s p h ledger st =
     (let data = anchor_data s (anchor_record p (us_Manifest st) (hex_prefix h) ledger) in
      act_then (act_map_error AnchorStep (send s (no_fields\<lparr>tx_Type := TxDIDSet, tx_Data := data, tx_Memos := anchorMemos s\<rparr>)))
        (\<lambda>(_, l) st. saveDump s (set_did (Some \<lparr>dd_LedgerIndex = l, dd_Data = upper_hex data\<rparr>) st)) st)"

section \<open>What an earlier run left\<close>

record landed =
  la_tx :: dump_tx
  la_total :: u16

text \<open>\<open>recorded\<close>, by the digest of the ciphertext, and \<open>manifestParts\<close>, by nonce and index.\<close>

record resume =
  rz_recorded :: "(string \<times> dump_tx) list"
  rz_parts :: "(byte list \<times> (u16 \<times> landed) list) list"

definition note_payload :: "'w submitter \<Rightarrow> dump_tx \<Rightarrow> payload \<Rightarrow> resume \<Rightarrow> resume" where
  "note_payload s t pl z =
     (if pl_Type pl = TypeChunk
      then z\<lparr>rz_recorded := AList.update (hex_encode (pm_sha256 (sb_Prims s) (pl_Ciphertext pl))) t (rz_recorded z)\<rparr>
      else let old = (case map_of (rz_parts z) (pl_Nonce pl) of Some q \<Rightarrow> q | None \<Rightarrow> [])
           in z\<lparr>rz_parts := AList.update (pl_Nonce pl) (AList.update (pl_Index pl) \<lparr>la_tx = t, la_total = pl_Total pl\<rparr> old) (rz_parts z)\<rparr>)"

text \<open>The memos of one recorded transaction; the first of this backup has the transaction confirmed on the ledger.\<close>

fun resume_memos ::
    "'w submitter \<Rightarrow> plan \<Rightarrow> dump_tx \<Rightarrow> bool option \<Rightarrow> memo list \<Rightarrow> resume \<Rightarrow> ('w sub_state, submit_error, resume) action" where
  "resume_memos s p t known [] z = act_ok z"
| "resume_memos s p t known (m # ms) z =
     (case chunk_Decode m of
        None \<Rightarrow> resume_memos s p t known ms z
      | Some pl \<Rightarrow>
          if pl_BackupID pl \<noteq> bp_BackupID p then resume_memos s p t known ms z
          else act_then (case known of Some b \<Rightarrow> act_ok b | None \<Rightarrow> act_map_error (ResumeUnknown (dt_Hash t)) (onLedger s (dt_Hash t)))
            (\<lambda>b. resume_memos s p t (Some b) ms (if b then note_payload s t pl z else z)))"

fun resume_txs :: "'w submitter \<Rightarrow> plan \<Rightarrow> dump_tx list \<Rightarrow> resume \<Rightarrow> ('w sub_state, submit_error, resume) action" where
  "resume_txs s p [] z = act_ok z"
| "resume_txs s p (t # ts) z =
     (case ParseTxJSON (sb_Fold s) (dt_TxJSON t) None of
        None \<Rightarrow> resume_txs s p ts z
      | Some rec \<Rightarrow> act_then (resume_memos s p t None (tr_Memos rec) z) (resume_txs s p ts))"

definition complete_parts :: "(u16 \<times> landed) list \<Rightarrow> landed option" where
  "complete_parts parts =
     (case map_of parts 0 of
        Some first \<Rightarrow> if unat (la_total first) = length parts then Some first else None
      | None \<Rightarrow> None)"

text \<open>The first complete manifest the \<^verbatim>\<open>range\<close> over the nonces meets.\<close>

definition landed_manifest :: "'w submitter \<Rightarrow> resume \<Rightarrow> landed option" where
  "landed_manifest s z =
     (case List.map_filter (\<lambda>i. complete_parts (snd (rz_parts z ! i))) (sb_MapOrder s (length (rz_parts z))) of
        [] \<Rightarrow> None
      | l # _ \<Rightarrow> Some l)"

definition set_chunk :: "nat \<Rightarrow> string \<Rightarrow> u32 \<Rightarrow> manifest \<Rightarrow> manifest" where
  "set_chunk i h l m = m\<lparr>mn_Chunks := (mn_Chunks m)[i := (mn_Chunks m ! i)\<lparr>ch_TxHash := h, ch_Ledger := l\<rparr>]\<rparr>"

definition note_chunk :: "nat \<Rightarrow> string \<Rightarrow> u32 \<Rightarrow> ('w sub_state, submit_error, unit) action" where
  "note_chunk i h l st = (Inr (), st\<lparr>us_Manifest := set_chunk i h l (us_Manifest st)\<rparr>)"

definition recorded_chunk :: "resume \<Rightarrow> manifest \<Rightarrow> nat \<Rightarrow> dump_tx option" where
  "recorded_chunk z m i = map_of (rz_recorded z) (ch_SHA256 (mn_Chunks m ! i))"

text \<open>Sealing the manifest of the state under a fresh nonce.\<close>

definition seal_memos :: "'w submitter \<Rightarrow> plan \<Rightarrow> manifest \<Rightarrow> ('w sub_state, submit_error, memo list) action" where
  "seal_memos s p m st =
     (case on_world (sb_Nonce s) st of
        (None, st') \<Rightarrow> (Inl NonceUnavailable, st')
      | (Some nonce, st') \<Rightarrow>
          (case ManifestMemos (sb_Prims s) nonce (kf_Key (sb_Key s)) (bp_BackupID p) m of
             Inl e \<Rightarrow> (Inl (MemosFailed e), st')
           | Inr (memos, _) \<Rightarrow> (Inr memos, st')))"

end
