(* ===== verification/Batch.thy ===== *)
theory Batch
  imports Send
begin

text \<open>
  \<^verbatim>\<open>internal/backup/batch.go\<close>: the transactions of a backup wrapped in all-or-nothing batches.  The closures the
  code hands to \<^verbatim>\<open>sendBatch\<close> are actions: they seal manifests and write hashes into the manifest of the state.
\<close>

section \<open>Sizes and fees\<close>

definition splitBatches :: "nat \<Rightarrow> nat list" where
  "splitBatches n =
     (if n \<le> 1 then [n]
      else let groups = (n + MaxBatchInner - 1) div MaxBatchInner; base = n div groups; extra = n mod groups
           in map (\<lambda>i. if i \<ge> groups - extra then base + 1 else base) [0..<groups])"

definition BaseFees :: "nat \<Rightarrow> nat \<Rightarrow> bool \<Rightarrow> nat" where
  "BaseFees c k batch =
     (if \<not> batch then c + k + 1
      else if c + k + 1 \<le> MaxBatchInner then c + k + 3
      else (if c = 1 then 1 else if c > 1 then c + 2 else 0)
           + sum_list (map (\<lambda>g. if g = 1 then 1 else g + 2) (splitBatches (k + 1))))"

section \<open>Items\<close>

datatype item_kind = ChunkItem | ManifestItem | AnchorItem

record batch_item =
  bi_kind :: item_kind
  bi_index :: nat
  bi_tx :: txfields

definition memo_item :: "item_kind \<Rightarrow> nat \<times> memo \<Rightarrow> batch_item" where
  "memo_item kind = (\<lambda>(i, m). \<lparr>bi_kind = kind, bi_index = i, bi_tx = carrier m\<rparr>)"

definition assignInner :: "'w submitter \<Rightarrow> batch_item list \<Rightarrow> u32 \<Rightarrow> batch_item list" where
  "assignInner s items outerSeq =
     map (\<lambda>(i, it). it\<lparr>bi_tx := (bi_tx it)\<lparr>tx_Flags := tx_Flags (bi_tx it) OR FlagInnerBatchTxn, tx_Account := writer_id s,
        tx_Sequence := outerSeq + 1 + of_nat i, tx_FeeDrops := 0\<rparr>\<rparr>) (enumerate 0 items)"

definition item_hash :: "'w submitter \<Rightarrow> batch_item \<Rightarrow> codec_error + string" where
  "item_hash s it = InnerHash (sb_Sha512 s) (Tx (bi_tx it) [])"

definition anchorItem :: "'w submitter \<Rightarrow> plan \<Rightarrow> manifest \<Rightarrow> string \<Rightarrow> u32 \<Rightarrow> submit_error + batch_item" where
  "anchorItem s p m h ledger =
     (case hex_decode h of
        None \<Rightarrow> Inl (BadManifestHash h)
      | Some hb \<Rightarrow>
          if length hb \<noteq> 32 then Inl (BadManifestHash h)
          else Inr \<lparr>bi_kind = AnchorItem, bi_index = 0,
             bi_tx = no_fields\<lparr>tx_Type := TxDIDSet, tx_Data := anchor_data s (anchor_record p m hb ledger),
               tx_Flags := FlagInnerBatchTxn, tx_Account := writer_id s, tx_Memos := anchorMemos s\<rparr>\<rparr>)"

text \<open>The anchor behind the manifest items, naming the transaction \<open>h\<close> in ledger \<open>l\<close>.\<close>

definition with_anchor :: "'w submitter \<Rightarrow> plan \<Rightarrow> manifest \<Rightarrow> u32 \<Rightarrow> batch_item list \<Rightarrow> string \<Rightarrow> u32 \<Rightarrow> submit_error + batch_item list" where
  "with_anchor s p m sq items h l =
     and_then (anchorItem s p m h l) (\<lambda>a.
       Inr (items @ [a\<lparr>bi_tx := (bi_tx a)\<lparr>tx_Sequence := sq + 1 + of_nat (length items)\<rparr>\<rparr>]))"

definition first_hash :: "'w submitter \<Rightarrow> batch_item list \<Rightarrow> submit_error + string" where
  "first_hash s items =
     (case items of
        [] \<Rightarrow> Inl IndexPanic
      | it # _ \<Rightarrow> (case item_hash s it of Inl e \<Rightarrow> Inl (CodecErr e) | Inr h \<Rightarrow> Inr h))"

definition tailItems :: "'w submitter \<Rightarrow> plan \<Rightarrow> u32 \<Rightarrow> ('w sub_state, submit_error, batch_item list) action" where
  "tailItems s p sq st =
     (let m = us_Manifest st in
      act_then (seal_memos s p m) (\<lambda>memos.
        let items = assignInner s (map (memo_item ManifestItem) (enumerate 0 memos)) sq in
        act_of (\<lambda>e. e) (and_then (first_hash s items) (\<lambda>h. with_anchor s p m sq items h 0))) st)"

section \<open>Sending a batch\<close>

fun inner_hashes :: "'w submitter \<Rightarrow> u32 \<Rightarrow> nat \<Rightarrow> batch_item list \<Rightarrow> submit_error + string list" where
  "inner_hashes s sq i [] = Inr []"
| "inner_hashes s sq i (it # its) =
     (if tx_Sequence (bi_tx it) \<noteq> sq + 1 + of_nat i then Inl (InnerSequence i (tx_Sequence (bi_tx it)) (sq + 1 + of_nat i))
      else case item_hash s it of
             Inl e \<Rightarrow> Inl (CodecErr e)
           | Inr h \<Rightarrow> and_then (inner_hashes s sq (Suc i) its) (\<lambda>hs. Inr (h # hs)))"

definition outer_tx :: "'w submitter \<Rightarrow> server_state \<Rightarrow> account_state \<Rightarrow> u64 \<Rightarrow> batch_item list \<Rightarrow> tx" where
  "outer_tx s st acct fee items =
     Tx (no_fields\<lparr>tx_Type := TxBatch, tx_Flags := FlagAllOrNothing, tx_Sequence := as_Sequence acct,
           tx_LastLedgerSequence := ss_ValidatedLedger st + 20, tx_FeeDrops := fee, tx_SigningPubKey := writer_pub s,
           tx_Account := writer_id s\<rparr>) (map (\<lambda>it. Tx (bi_tx it) []) items)"

text \<open>Every inner transaction is looked up again: the outer one validating does not mean that they applied.\<close>

definition inner_record :: "'w submitter \<Rightarrow> string \<Rightarrow> nat \<Rightarrow> nat \<times> string \<Rightarrow> ('w sub_state, submit_error, tx_record) action" where
  "inner_record s hash n = (\<lambda>(j, h) st.
     (case on_world (cl_Tx (sb_Client s) h) st of
        (Inr rec, st') \<Rightarrow>
          if tr_Validated rec \<and> tr_Result rec = ''tesSUCCESS'' then (Inr rec, st') else (Inl (InnerNotApplied hash (j + 1) n h), st')
      | (Inl _, st') \<Rightarrow> (Inl (InnerNotApplied hash (j + 1) n h), st')))"

definition finish_batch ::
    "'w submitter \<Rightarrow> string list \<Rightarrow> string \<Rightarrow> tx_record \<Rightarrow> ('w sub_state, submit_error, tx_record list \<times> u32) action" where
  "finish_batch s hashes hash rec =
     (if tr_Result rec \<noteq> ''tesSUCCESS'' then act_fail (ValidatedWith hash (tr_Result rec))
      else act_then (act_each (inner_record s hash (length hashes)) (enumerate 0 hashes)) (\<lambda>recs st.
             act_then (saveDump s) (\<lambda>_. act_ok (recs, tr_LedgerIndex rec)) (fold (\<lambda>r. record_tx (tr_Hash r) r) recs st)))"

definition batch_once ::
    "'w submitter \<Rightarrow> (u32 \<Rightarrow> ('w sub_state, submit_error, batch_item list) action)
      \<Rightarrow> ('w sub_state, submit_error, (tx_record list \<times> u32) option) action" where
  "batch_once s build =
     act_then (ask (cl_ServerInfo (sb_Client s))) (\<lambda>st.
     act_then (ask_account s) (\<lambda>acct.
     act_then (build (as_Sequence acct)) (\<lambda>items.
     act_then (act_guard (2 \<le> length items \<and> length items \<le> MaxBatchInner) (BatchSize (length items))) (\<lambda>_.
       let fee = fee_rate st * of_nat (length items + 2) in
       act_then (check_funds s acct (fee_rate st) fee) (\<lambda>_.
       act_then (act_of (\<lambda>e. e) (inner_hashes s (as_Sequence acct) 0 items)) (\<lambda>hashes.
       act_then (act_of CodecErr (sign_tx s (outer_tx s st acct fee items))) (\<lambda>blob.
         submit_blob s blob (ss_ValidatedLedger st + 20) (finish_batch s hashes))))))))"

definition sendBatch ::
    "'w submitter \<Rightarrow> (u32 \<Rightarrow> ('w sub_state, submit_error, batch_item list) action)
      \<Rightarrow> ('w sub_state, submit_error, tx_record list \<times> u32) action" where
  "sendBatch s build = attempts 3 (batch_once (sub_defaults s) build)"

definition finishBatched :: "'w submitter \<Rightarrow> tx_record list \<Rightarrow> u32 \<Rightarrow> ('w sub_state, submit_error, unit) action" where
  "finishBatched s recs ledger st =
     (if recs = [] then (Inl IndexPanic, st)
      else if tr_TxType (last recs) \<noteq> ''DIDSet'' \<and> tr_TxType (last recs) \<noteq> [] then (Inl (NotTheAnchor (tr_TxType (last recs))), st)
      else act_then (act_map_error AnchorUnreadable (on_world (cl_LedgerEntryDID (sb_Client s) (Address s)))) (\<lambda>data st.
             saveDump s (set_did (Some \<lparr>dd_LedgerIndex = ledger, dd_Data = upper_hex data\<rparr>) st)) st)"

section \<open>The batched run\<close>

text \<open>Chunks that are already on the ledger keep their transaction; the others are pending.\<close>

fun keep_recorded :: "resume \<Rightarrow> nat list \<Rightarrow> manifest \<Rightarrow> nat list \<times> manifest" where
  "keep_recorded z [] m = ([], m)"
| "keep_recorded z (i # is) m =
     (case recorded_chunk z m i of
        Some t \<Rightarrow> keep_recorded z is (set_chunk i (dt_Hash t) (dt_LedgerIndex t) m)
      | None \<Rightarrow> (let (pending, m') = keep_recorded z is m in (i # pending, m')))"

definition chunk_items :: "'w submitter \<Rightarrow> plan \<Rightarrow> nat list \<Rightarrow> u32 \<Rightarrow> batch_item list" where
  "chunk_items s p pending sq = assignInner s (map (\<lambda>i. memo_item ChunkItem (i, bp_ChunkMemos p ! i)) pending) sq"

definition draft_hashes :: "nat list \<Rightarrow> manifest \<Rightarrow> manifest" where
  "draft_hashes pending m = fold (\<lambda>i. set_chunk i (replicate 64 CHR ''0'') 0) pending m"

text \<open>The closure of the single batch: chunks, then the manifest that names them, then the anchor that names the manifest.\<close>

definition name_chunk :: "'w submitter \<Rightarrow> batch_item \<Rightarrow> ('w sub_state, submit_error, unit) action" where
  "name_chunk s it = act_then (act_of CodecErr (item_hash s it)) (\<lambda>h. note_chunk (bi_index it) h 0)"

definition single_items :: "'w submitter \<Rightarrow> plan \<Rightarrow> nat list \<Rightarrow> u32 \<Rightarrow> ('w sub_state, submit_error, batch_item list) action" where
  "single_items s p pending sq =
     (let items = chunk_items s p pending sq in
      act_then (act_each (name_chunk s) items) (\<lambda>_.
      act_then (tailItems s p (sq + of_nat (length items))) (\<lambda>tail. act_ok (items @ tail))))"

definition send_chunks :: "'w submitter \<Rightarrow> plan \<Rightarrow> nat list \<Rightarrow> ('w sub_state, submit_error, unit) action" where
  "send_chunks s p pending =
     (case pending of
        [] \<Rightarrow> act_ok ()
      | [i] \<Rightarrow>
          act_then (act_map_error (ChunkStep i) (send s (carrier (bp_ChunkMemos p ! i)))) (\<lambda>(h, l). note_chunk i h l)
      | _ \<Rightarrow>
          act_then (act_map_error (BatchStep ''chunks'') (sendBatch s (\<lambda>sq. act_ok (chunk_items s p pending sq)))) (\<lambda>(recs, ledger).
            act_then (act_each (\<lambda>(i, r). note_chunk i (tr_Hash r) ledger) (zip pending recs)) (\<lambda>_. act_ok ())))"

text \<open>The closure of a group of manifest parts; the last group also carries the anchor.\<close>

definition group_items ::
    "'w submitter \<Rightarrow> plan \<Rightarrow> memo list \<Rightarrow> nat \<Rightarrow> nat \<Rightarrow> bool \<Rightarrow> string \<times> u32 \<Rightarrow> u32 \<Rightarrow> ('w sub_state, submit_error, batch_item list) action" where
  "group_items s p memos first cnt final found sq st =
     (let items = assignInner s (map (\<lambda>i. memo_item ManifestItem (i, memos ! i)) [first..<min (first + cnt) (length memos)]) sq in
      if \<not> final then (Inr items, st)
      else act_of (\<lambda>e. e)
             (and_then (if first = 0 then and_then (first_hash s items) (\<lambda>h. Inr (h, 0)) else Inr found) (\<lambda>(h, l).
               with_anchor s p (us_Manifest st) sq items h l)) st)"

definition send_group ::
    "'w submitter \<Rightarrow> plan \<Rightarrow> memo list \<Rightarrow> nat \<Rightarrow> nat \<Rightarrow> bool \<Rightarrow> string \<times> u32 \<Rightarrow> ('w sub_state, submit_error, tx_record list \<times> u32) action" where
  "send_group s p memos first cnt final found =
     (if cnt = 1 then
        (if first < length memos then
           act_then (act_map_error (PartStep first) (send s (carrier (memos ! first)))) (\<lambda>(h, l).
             act_ok ([\<lparr>tr_Hash = h, tr_LedgerIndex = l, tr_Validated = False, tr_Result = [], tr_Account = [], tr_TxType = [],
                       tr_Sequence = 0, tr_Memos = [], tr_Raw = JNull\<rparr>], l))
         else act_fail IndexPanic)
      else act_map_error (BatchStep ''manifest'') (sendBatch s (group_items s p memos first cnt final found)))"

fun send_groups ::
    "'w submitter \<Rightarrow> plan \<Rightarrow> memo list \<Rightarrow> nat list \<Rightarrow> nat \<Rightarrow> string \<times> u32 \<Rightarrow> ('w sub_state, submit_error, unit) action" where
  "send_groups s p memos [] first found = act_fail NoAnchorSent"
| "send_groups s p memos (cnt # groups) first found =
     act_then (send_group s p memos first cnt (groups = []) found) (\<lambda>(recs, ledger).
       let found' = (if first = 0 then (tr_Hash (recs ! 0), ledger) else found) in
       if groups = [] then finishBatched s recs ledger
       else send_groups s p memos groups (first + cnt) found')"

definition submitBatched :: "'w submitter \<Rightarrow> plan \<Rightarrow> resume \<Rightarrow> ('w sub_state, submit_error, unit) action" where
  "submitBatched s p z st =
     (let (pending, m) = keep_recorded z [0..<length (bp_ChunkMemos p)] (us_Manifest st);
          st = st\<lparr>us_Manifest := m\<rparr>
      in case landed_manifest s z of
           Some l \<Rightarrow>
             if pending \<noteq> [] then (Inl ManifestWithoutChunks, st)
             else sendAnchor s p (dt_Hash (la_tx l)) (dt_LedgerIndex (la_tx l)) st
         | None \<Rightarrow>
             act_then (seal_memos s p (draft_hashes pending m)) (\<lambda>draft.
               if length pending + length draft + 1 \<le> MaxBatchInner
               then act_then (sendBatch s (single_items s p pending)) (\<lambda>(recs, ledger). finishBatched s recs ledger)
               else act_then (send_chunks s p pending) (\<lambda>_ st.
                      act_then (seal_memos s p (us_Manifest st)) (\<lambda>memos.
                        send_groups s p memos (splitBatches (length memos + 1)) 0 ([], 0)) st)) st)"

section \<open>The cut into batches\<close>

lemma split_two_sizes:
  assumes "2 \<le> n"
  defines "g \<equiv> (n + 7) div 8"
  shows "splitBatches n = replicate (g - n mod g) (n div g) @ replicate (n mod g) (n div g + 1)" "0 < g" "2 * g \<le> n" "n \<le> 8 * g"
proof -
  have d: "8 * g \<le> n + 7" "n + 7 < 8 * g + 8"
    using div_mult_mod_eq [of "n + 7" 8] mod_less_divisor [of 8 "n + 7"] unfolding g_def by linarith+
  show g: "0 < g" "n \<le> 8 * g" using d assms(1) by linarith+
  show "2 * g \<le> n"
  proof (cases "n \<le> 8")
    case True
    then have "g = 1" using d assms(1) by linarith
    then show ?thesis using assms(1) by simp
  qed (use d in linarith)
  have e: "n mod g < g" using g(1) by simp
  have "map (\<lambda>i. if i \<ge> g - n mod g then n div g + 1 else n div g) [0..<g] = replicate (g - n mod g) (n div g) @ replicate (n mod g) (n div g + 1)"
    using e by (intro nth_equalityI) (auto simp: nth_append)
  moreover have "splitBatches n = map (\<lambda>i. if i \<ge> g - n mod g then n div g + 1 else n div g) [0..<g]"
    using assms(1) by (simp add: splitBatches_def g_def MaxBatchInner_def Let_def add.commute)
  ultimately show "splitBatches n = replicate (g - n mod g) (n div g) @ replicate (n mod g) (n div g + 1)" by simp
qed

text \<open>
  C13.  The cut into batches is lawful and even: the sizes add up to the number of transactions, every batch has
  the two to eight the ledger allows, there are as few batches as possible, sizes differ by at most one, and
  the last batch, which carries the anchor, is never smaller than the first.
\<close>
theorem split_batches_fit:
  assumes "2 \<le> n"
  shows "sum_list (splitBatches n) = n \<and> list_all (\<lambda>k. 2 \<le> k \<and> k \<le> MaxBatchInner) (splitBatches n)
    \<and> n \<le> MaxBatchInner * length (splitBatches n) \<and> MaxBatchInner * (length (splitBatches n) - 1) < n
    \<and> list_all (\<lambda>k. hd (splitBatches n) \<le> k \<and> k \<le> last (splitBatches n) \<and> k \<le> hd (splitBatches n) + 1) (splitBatches n)"
proof (intro conjI)
  define g where "g = (n + 7) div 8"
  note sp = split_two_sizes [OF assms, folded g_def]
  have e: "n mod g < g" using sp(2) by simp
  have b: "2 \<le> n div g" using sp(2,3) by (simp add: less_eq_div_iff_mult_less_eq)
  have b8: "n mod g = 0 \<Longrightarrow> n div g \<le> 8" "0 < n mod g \<Longrightarrow> n div g < 8"
  proof -
    have m: "g * (n div g) + n mod g = n" by simp
    then have "g * (n div g) \<le> g * 8" using sp(4) by linarith
    then show "n mod g = 0 \<Longrightarrow> n div g \<le> 8" using sp(2) by simp
    show "n div g < 8" if "0 < n mod g"
    proof -
      have "g * (n div g) < g * 8" using sp(4) that m by linarith
      then show ?thesis using sp(2) by simp
    qed
  qed
  have "sum_list (splitBatches n) = g * (n div g) + n mod g"
    unfolding sp(1) using e by (simp add: sum_list_replicate algebra_simps flip: distrib_left)
  then show "sum_list (splitBatches n) = n" by simp
  show "list_all (\<lambda>k. 2 \<le> k \<and> k \<le> MaxBatchInner) (splitBatches n)"
    unfolding sp(1) using b b8 by (cases "n mod g = 0") (auto simp: list_all_iff MaxBatchInner_def)
  have l: "length (splitBatches n) = g" unfolding sp(1) using e by simp
  show "n \<le> MaxBatchInner * length (splitBatches n)" using sp(4) by (simp add: l MaxBatchInner_def)
  show "MaxBatchInner * (length (splitBatches n) - 1) < n"
    using assms div_mult_mod_eq [of "n + 7" 8] unfolding l MaxBatchInner_def g_def by linarith
  have h: "hd (splitBatches n) = n div g" "last (splitBatches n) = (if n mod g = 0 then n div g else n div g + 1)"
    unfolding sp(1) using e by (simp_all add: hd_append last_append)
  show "list_all (\<lambda>k. hd (splitBatches n) \<le> k \<and> k \<le> last (splitBatches n) \<and> k \<le> hd (splitBatches n) + 1) (splitBatches n)"
    unfolding h unfolding sp(1) by (auto simp: list_all_iff)
qed

lemma split_batches_fit_witness: "splitBatches 20 = [6, 7, 7] \<and> sum_list (splitBatches 20) = 20"
  using split_batches_fit [of 20] by (simp add: splitBatches_def MaxBatchInner_def Let_def upt_rec)

end
