(* ===== verification/Submit.thy ===== *)
theory Submit
  imports Batch
begin

text \<open>
  \<^verbatim>\<open>Submit\<close> and \<^verbatim>\<open>NextSeq\<close> of \<^verbatim>\<open>internal/backup/backup.go\<close>: chunks, then the manifest, then the anchor, each awaited.
\<close>

section \<open>Submit\<close>

definition submit_chunk :: "'w submitter \<Rightarrow> resume \<Rightarrow> nat \<times> memo \<Rightarrow> ('w sub_state, submit_error, unit) action" where
  "submit_chunk s z = (\<lambda>(i, memo) st.
     case recorded_chunk z (us_Manifest st) i of
       Some t \<Rightarrow> note_chunk i (dt_Hash t) (dt_LedgerIndex t) st
     | None \<Rightarrow> act_then (act_map_error (ChunkStep i) (send s (carrier memo))) (\<lambda>(h, l). note_chunk i h l) st)"

definition send_part :: "'w submitter \<Rightarrow> nat \<times> memo \<Rightarrow> ('w sub_state, submit_error, string \<times> u32) action" where
  "send_part s = (\<lambda>(i, memo). act_map_error (PartStep i) (send s (carrier memo)))"

definition submit_manifest :: "'w submitter \<Rightarrow> plan \<Rightarrow> resume \<Rightarrow> ('w sub_state, submit_error, string \<times> u32) action" where
  "submit_manifest s p z st =
     (case landed_manifest s z of
        Some l \<Rightarrow>
          if dt_Hash (la_tx l) \<noteq> [] then (Inr (dt_Hash (la_tx l), dt_LedgerIndex (la_tx l)), st)
          else act_then (seal_memos s p (us_Manifest st)) (\<lambda>memos.
                 act_then (act_each (send_part s) (enumerate 0 memos)) (\<lambda>sent.
                   act_ok (if sent = [] then ([], dt_LedgerIndex (la_tx l)) else hd sent))) st
      | None \<Rightarrow>
          act_then (seal_memos s p (us_Manifest st)) (\<lambda>memos.
            act_then (act_each (send_part s) (enumerate 0 memos)) (\<lambda>sent.
              act_ok (if sent = [] then ([], 0) else hd sent))) st)"

definition submit_sequential :: "'w submitter \<Rightarrow> plan \<Rightarrow> resume \<Rightarrow> ('w sub_state, submit_error, unit) action" where
  "submit_sequential s p z =
     act_then (act_each (submit_chunk s z) (enumerate 0 (bp_ChunkMemos p))) (\<lambda>_.
     act_then (submit_manifest s p z) (\<lambda>(h, l).
       sendAnchor s p h l))"

text \<open>The dump of an earlier run, if there is one, and the world; the answer, and the state it leaves.\<close>

definition submit_start :: "'w submitter \<Rightarrow> plan \<Rightarrow> dump option \<Rightarrow> 'w \<Rightarrow> 'w sub_state" where
  "submit_start s p d w =
     (let d = default_dump s d
      in \<lparr>us_World = w, us_Dump = (if du_BackupID d = [] then d\<lparr>du_BackupID := mn_BackupID (bp_Manifest p)\<rparr> else d),
          us_Manifest = bp_Manifest p\<rparr>)"

definition backup_Submit :: "'w submitter \<Rightarrow> plan \<Rightarrow> dump option \<Rightarrow> 'w \<Rightarrow> (submit_error + unit) \<times> 'w sub_state" where
  "backup_Submit s p d w =
     (let s = sub_defaults s; st = submit_start s p d w in
      act_then (resume_txs s p (du_Txs (us_Dump st)) \<lparr>rz_recorded = [], rz_parts = []\<rparr>) (\<lambda>z.
        if sb_Batch s then submitBatched s p z else submit_sequential s p z) st)"

section \<open>NextSeq\<close>

datatype seq_error = LastSeq | SeqDiscover discover_error

datatype seq_warning = Discovered warning | FreshEpoch u32 | Disputed candidate candidate

definition NextSeq :: "prims \<Rightarrow> chain_reader \<Rightarrow> keyfile \<Rightarrow> string \<Rightarrow> seq_error + (u32 \<times> string \<times> seq_warning list)" where
  "NextSeq pm rd key account =
     (case discover_Run pm rd (FileKeys (kf_Epoch key) (kf_Key key)) account (kf_Epoch key) of
        Inl e \<Rightarrow> Inl (SeqDiscover e)
      | Inr res \<Rightarrow>
          let warns = (if kf_Epoch key > 0 \<and> rs_Latest res = None then [FreshEpoch (kf_Epoch key)] else map Discovered (rs_Warnings res))
          in case rs_Conflict res of
               Some (a, b) \<Rightarrow>
                 let sq = mn_Seq (cd_Manifest (hd (rs_Candidates res))) in
                 if sq = 0xFFFFFFFF then Inl LastSeq else Inr (sq + 1, [], warns @ [Disputed a b])
             | None \<Rightarrow>
                 (case rs_Latest res of
                    None \<Rightarrow> Inr (1, [], warns)
                  | Some c \<Rightarrow>
                      if mn_Seq (cd_Manifest c) = 0xFFFFFFFF then Inl LastSeq
                      else Inr (mn_Seq (cd_Manifest c) + 1, mn_BackupID (cd_Manifest c), warns)))"

lemma file_key_epoch:
  assumes "gcm_ok (pm_gcm pm)" "discover_Run pm rd (FileKeys e k) account hint = Inr res" "c \<in> set (rs_Candidates res)"
  shows "mn_Epoch (cd_Manifest c) = e"
proof -
  obtain txs rng where "list_all (authentic pm (FileKeys e k) (manifest_payloads account txs)) (rs_Candidates res)"
    using run_authentic [OF assms(1,2)] by blast
  then show ?thesis using assms(3) by (auto simp: list_all_iff authentic_def FileKeys_def split: if_splits)
qed

lemma seq_above:
  fixes a b :: u32
  assumes "a \<noteq> 0xFFFFFFFF" "b \<le> a"
  shows "b < a + 1"
proof -
  have "unat a \<noteq> 0xFFFFFFFF" using assms(1) by (auto simp: word_unat_eq_iff)
  moreover have "unat a < 2 ^ 32" using unsigned_less [of a] by simp
  ultimately have "unat (a + 1) = unat a + 1" by (simp add: unat_add_lem [THEN iffD1])
  then show ?thesis using assms(2) by (simp add: word_less_nat_alt word_le_nat_alt)
qed

lemma conflict_head: "conflict_of cs = Some (a, b) \<Longrightarrow> hd cs = a \<and> cs \<noteq> []"
  by (cases cs rule: conflict_of.cases) (auto split: if_splits)

text \<open>
  C8.  A new backup supersedes every one the key can read: the sequence number chosen for it is above that of
  every backup discovery authenticates, disputed ones included, never wraps to 0, and the number after the
  last one is refused.
\<close>
theorem next_seq_supersedes:
  assumes "gcm_ok (pm_gcm pm)"
    and "discover_Run pm rd (FileKeys (kf_Epoch key) (kf_Key key)) account (kf_Epoch key) = Inr res"
  shows "case NextSeq pm rd key account of
      Inr (sq, old, w) \<Rightarrow> 0 < sq \<and> list_all (\<lambda>c. mn_Epoch (cd_Manifest c) = kf_Epoch key \<and> mn_Seq (cd_Manifest c) < sq) (rs_Candidates res)
    | Inl e \<Rightarrow> e = LastSeq \<and> list_ex (\<lambda>c. mn_Seq (cd_Manifest c) = 0xFFFFFFFF) (rs_Candidates res)"
proof -
  note ep = file_key_epoch [OF assms]
  note nw = run_newest [OF assms(2)]
  show ?thesis
  proof (cases "rs_Conflict res")
    case None
    show ?thesis
    proof (cases "rs_Latest res")
      case None': None
      then have "rs_Candidates res = []" using nw None by auto
      then show ?thesis using None None' assms(2) by (simp add: NextSeq_def Let_def)
    next
      case (Some c)
      have c: "c \<in> set (rs_Candidates res)" "\<forall>d \<in> set (rs_Candidates res) - {c}. Newer (cd_Manifest c) (cd_Manifest d)" using nw Some by auto
      have le: "mn_Seq (cd_Manifest d) \<le> mn_Seq (cd_Manifest c)" if "d \<in> set (rs_Candidates res)" for d
        using bspec [OF c(2), of d] that ep [OF c(1)] ep [OF that] by (cases "d = c") (auto simp: Newer_iff intro: less_imp_le)
      show ?thesis
      proof (cases "mn_Seq (cd_Manifest c) = 0xFFFFFFFF")
        case True
        then show ?thesis using None Some assms(2) c(1) by (auto simp: NextSeq_def Let_def list_ex_iff)
      next
        case False
        then show ?thesis using None Some assms(2) ep seq_above [OF False le] seq_above [OF False, of 0] by (auto simp: NextSeq_def Let_def list_all_iff)
      qed
    qed
  next
    case (Some ab)
    obtain a b where ab: "ab = (a, b)" by fastforce
    have "rs_Latest res = None" using nw Some by (cases "rs_Latest res") auto
    have "conflict_of (rs_Candidates res) = Some (a, b)" by (rule discover_Run_Inr [OF assms(2)]) (use Some ab in metis)
    then have h: "hd (rs_Candidates res) = a \<and> rs_Candidates res \<noteq> []" by (rule conflict_head)
    have nn: "\<not> Newer (cd_Manifest d) (cd_Manifest a)" if "d \<in> set (rs_Candidates res)" for d
      using nw Some ab \<open>rs_Latest res = None\<close> h that by (auto simp: list_all_iff)
    have ain: "a \<in> set (rs_Candidates res)" using h hd_in_set by metis
    have le: "mn_Seq (cd_Manifest d) \<le> mn_Seq (cd_Manifest a)" if "d \<in> set (rs_Candidates res)" for d
      using nn [OF that] ep [OF that] ep [OF ain] by (auto simp: Newer_iff not_less)
    show ?thesis
    proof (cases "mn_Seq (cd_Manifest a) = 0xFFFFFFFF")
      case True
      then show ?thesis using Some ab h assms(2) ain by (auto simp: NextSeq_def Let_def list_ex_iff)
    next
      case False
      then show ?thesis using Some ab h assms(2) ep seq_above [OF False le] seq_above [OF False, of 0] by (auto simp: NextSeq_def Let_def list_all_iff)
    qed
  qed
qed

lemma next_seq_supersedes_witness:
  "\<exists>res c. discover_Run sample_prims sample_reader (FileKeys 3 [5]) ''r'' 3 = Inr res \<and> c \<in> set (rs_Candidates res)
     \<and> (case NextSeq sample_prims sample_reader (sample_keyfile\<lparr>kf_Key := [5]\<rparr>) ''r'' of
          Inr (sq, old, w) \<Rightarrow> mn_Seq (cd_Manifest c) < sq
        | Inl e \<Rightarrow> list_ex (\<lambda>d. mn_Seq (cd_Manifest d) = 0xFFFFFFFF) (rs_Candidates res))"
proof -
  obtain res c where res: "discover_Run sample_prims sample_reader (FileKeys 3 [5]) ''r'' 3 = Inr res" "c \<in> set (rs_Candidates res)"
    by (rule sample_found)
  have r: "discover_Run sample_prims sample_reader (FileKeys (kf_Epoch (sample_keyfile\<lparr>kf_Key := [5]\<rparr>)) (kf_Key (sample_keyfile\<lparr>kf_Key := [5]\<rparr>)))
      ''r'' (kf_Epoch (sample_keyfile\<lparr>kf_Key := [5]\<rparr>)) = Inr res"
    using res(1) by (simp add: sample_keyfile_def)
  show ?thesis
    using next_seq_supersedes [OF sample_published(1) r] res by (auto simp: list_all_iff intro!: exI [of _ res] exI [of _ c] split: sum.splits prod.splits)
qed

text \<open>
  When two backups dispute the newest sequence number of a later epoch, the warning says that the epoch starts
  at 1, and the number chosen is another one.
\<close>

lemma disputed_epoch_warning:
  assumes "discover_Run pm rd (FileKeys (kf_Epoch key) (kf_Key key)) account (kf_Epoch key) = Inr res" "kf_Epoch key > 0"
    and "rs_Conflict res = Some (a, b)" "NextSeq pm rd key account = Inr (sq, old, w)"
  shows "FreshEpoch (kf_Epoch key) \<in> set w" "sq = mn_Seq (cd_Manifest (hd (rs_Candidates res))) + 1"
proof -
  have l: "rs_Latest res = None" using run_newest [OF assms(1)] assms(3) by (cases "rs_Latest res") auto
  then show "FreshEpoch (kf_Epoch key) \<in> set w" "sq = mn_Seq (cd_Manifest (hd (rs_Candidates res))) + 1"
    using assms by (auto simp: NextSeq_def Let_def split: if_splits)
qed

end
