(* ===== verification/Float64.thy ===== *)
theory Float64
  imports Prelude
begin

text \<open>
  What \<^verbatim>\<open>internal/xrpl/rpc/rpc.go\<close> uses of Go's \<^verbatim>\<open>float64\<close>: reading a decimal literal, multiplying by a million and
  \<^verbatim>\<open>math.Round\<close>.  A finite value is \<open>m * 2 ^ e\<close>; every operation gives the nearest binary64 number, ties to even.
\<close>

datatype f64 = NaN | Infinite bool | Finite int int

fun bit_length :: "nat \<Rightarrow> nat" where
  "bit_length n = (if n = 0 then 0 else Suc (bit_length (n div 2)))"

declare bit_length.simps [simp del]

text \<open>The integer nearest to \<open>a / b\<close>, ties to even.\<close>

definition div_even :: "int \<Rightarrow> int \<Rightarrow> int" where
  "div_even a b = (let q = a div b; r = a mod b in if 2 * r < b \<or> 2 * r = b \<and> even q then q else q + 1)"

text \<open>\<open>n / d\<close> in units of \<open>2 ^ e\<close>, as a fraction.\<close>

definition in_units :: "int \<Rightarrow> int \<Rightarrow> int \<Rightarrow> int \<times> int" where
  "in_units n d e = (if e \<ge> 0 then (n, d * 2 ^ nat e) else (n * 2 ^ nat (- e), d))"

definition unit_of :: "int \<Rightarrow> int \<Rightarrow> int" where
  "unit_of n d =
     (let e = int (bit_length (nat \<bar>n\<bar>)) - int (bit_length (nat d)) - 53; (n', d') = in_units n d e
      in max (if \<bar>n'\<bar> \<ge> 2 ^ 53 * d' then e + 1 else e) (- 1074))"

definition round64 :: "int \<Rightarrow> int \<Rightarrow> f64" where
  "round64 n d =
     (if n = 0 then Finite 0 0
      else let e = unit_of n d; (n', d') = in_units n d e; m = div_even n' d'
           in if e \<ge> 0 \<and> \<bar>m\<bar> * 2 ^ nat e \<ge> 2 ^ 1024 then Infinite (n < 0) else Finite m e)"

text \<open>The literal \<open>m * 10 ^ e\<close>.\<close>

definition f64_of_decimal :: "int \<Rightarrow> int \<Rightarrow> f64" where
  "f64_of_decimal m e = (if e \<ge> 0 then round64 (m * 10 ^ nat e) 1 else round64 m (10 ^ nat (- e)))"

definition f64_times :: "int \<Rightarrow> f64 \<Rightarrow> f64" where
  "f64_times k x =
     (case x of
        Finite m e \<Rightarrow> if e \<ge> 0 then round64 (k * m * 2 ^ nat e) 1 else round64 (k * m) (2 ^ nat (- e))
      | _ \<Rightarrow> x)"

text \<open>\<^verbatim>\<open>math.Round\<close>, halves away from zero, of a finite value that is not negative.\<close>

definition f64_round :: "int \<Rightarrow> int \<Rightarrow> int" where
  "f64_round m e = (if e \<ge> 0 then m * 2 ^ nat e else (2 * m + 2 ^ nat (- e)) div (2 * 2 ^ nat (- e)))"

section \<open>Rounding errors\<close>

lemma div_even_near:
  assumes "0 < b"
  shows "\<bar>2 * (div_even a b * b - a)\<bar> \<le> b"
proof -
  have r: "0 \<le> a mod b" "a mod b < b" and q: "a div b * b - a = - (a mod b)" "(a div b + 1) * b - a = b - a mod b"
    using assms by (simp_all add: minus_mod_eq_div_mult [symmetric] distrib_right)
  show ?thesis
  proof (cases "2 * (a mod b) < b \<or> 2 * (a mod b) = b \<and> even (a div b)")
    case True
    then have "div_even a b = a div b" by (simp add: div_even_def Let_def)
    then show ?thesis using True r q(1) by (simp only:) linarith
  next
    case False
    then have "div_even a b = a div b + 1" by (simp add: div_even_def Let_def)
    moreover have "b \<le> 2 * (a mod b)" using False by linarith
    ultimately show ?thesis using r q(2) by (simp add: abs_le_iff)
  qed
qed

lemma bit_length_le: "n < 2 ^ k \<Longrightarrow> bit_length n \<le> k"
proof (induction n arbitrary: k rule: bit_length.induct)
  case (1 n)
  show ?case
  proof (cases "n = 0")
    case False
    then obtain j where j: "k = Suc j" using "1.prems" by (cases k) auto
    then have "bit_length (n div 2) \<le> j" using "1.IH" [OF False, of j] "1.prems" by simp
    then show ?thesis using False j by (simp add: bit_length.simps [of n])
  qed (simp add: bit_length.simps)
qed

lemma bit_length_mono: "m \<le> n \<Longrightarrow> bit_length m \<le> bit_length n"
proof (induction n arbitrary: m rule: bit_length.induct)
  case (1 n)
  show ?case
  proof (cases "m = 0")
    case False
    then have "n \<noteq> 0" "bit_length (m div 2) \<le> bit_length (n div 2)" using "1.prems" "1.IH" [of "m div 2"] by (auto intro: div_le_mono)
    then show ?thesis using False by (simp add: bit_length.simps [of m] bit_length.simps [of n])
  qed (simp add: bit_length.simps [of 0])
qed

lemma bit_length_power: "bit_length (2 ^ k) = Suc k"
  by (induction k) (simp_all add: bit_length.simps)

lemma unit_of_le: "unit_of n d \<le> max (int (bit_length (nat \<bar>n\<bar>)) - int (bit_length (nat d)) - 52) (- 1074)"
  by (auto simp: unit_of_def Let_def max_def split: prod.splits)

text \<open>A value below 1 in magnitude, or not far above it, is a finite number close to it.\<close>

lemma round64_near:
  assumes "n \<noteq> 0" "0 < d" "int (bit_length (nat \<bar>n\<bar>)) - int (bit_length (nat d)) \<le> 51"
  obtains m s where "round64 n d = Finite m (- int s)" "\<bar>2 * (m * d - n * 2 ^ s)\<bar> \<le> d"
    "int s \<ge> min (52 - (int (bit_length (nat \<bar>n\<bar>)) - int (bit_length (nat d)))) 1074"
proof -
  let ?e = "unit_of n d"
  have e: "?e \<le> max (int (bit_length (nat \<bar>n\<bar>)) - int (bit_length (nat d)) - 52) (- 1074)" by (rule unit_of_le)
  then have neg: "?e < 0" using assms(3) by linarith
  define s where "s = nat (- ?e)"
  have s: "?e = - int s" "0 < s" using neg by (simp_all add: s_def)
  have "round64 n d = Finite (div_even (n * 2 ^ s) d) (- int s)"
    using neg s assms(1) by (simp add: round64_def in_units_def Let_def)
  moreover have "\<bar>2 * (div_even (n * 2 ^ s) d * d - n * 2 ^ s)\<bar> \<le> d" by (rule div_even_near [OF assms(2)])
  moreover have "int s \<ge> min (52 - (int (bit_length (nat \<bar>n\<bar>)) - int (bit_length (nat d)))) 1074" using e s(1) by linarith
  ultimately show ?thesis by (rule that)
qed

lemma scaled_near:
  fixes A B m m' k c :: int
  assumes "\<bar>2 * (m' * A - c * m * B)\<bar> \<le> A" "\<bar>2 * (m * c - k * A)\<bar> \<le> c" "0 < A" "0 < B" "4 * c \<le> A" "4 < B"
  shows "\<bar>2 * (m' - k * B)\<bar> < B"
proof -
  have "\<bar>2 * (m * c - k * A) * B\<bar> \<le> c * B" using assms(2,4) by (simp add: abs_mult mult_right_mono)
  moreover have "2 * (m' - k * B) * A = 2 * (m' * A - c * m * B) + 2 * (m * c - k * A) * B" by (simp add: algebra_simps)
  ultimately have n: "\<bar>2 * (m' - k * B) * A\<bar> \<le> A + c * B" using assms(1) by linarith
  have "4 * (A + c * B) < 2 * (A * B)"
  proof -
    have "4 * A < B * A" "4 * c * B \<le> A * B" using assms(3-6) by (simp_all add: mult_right_mono)
    then show ?thesis by (simp add: mult.commute)
  qed
  then have "\<bar>2 * (m' - k * B) * A\<bar> < B * A" using n assms(3,4) by (simp add: mult.commute)
  then show ?thesis using assms(3) by (simp add: abs_mult)
qed

text \<open>A whole number \<open>k\<close> of millionths survives: it is read, multiplied by a million and rounded to that number.\<close>

lemma million_exact:
  assumes "0 < k" "k \<le> 1000000" "0 < d" "n * 1000000 = k * d"
  shows "\<exists>m s m' s'. round64 n d = Finite m (- int s) \<and> 0 < m \<and> f64_times 1000000 (Finite m (- int s)) = Finite m' (- int s')
    \<and> f64_round m' (- int s') = k"
proof -
  let ?c = "1000000 :: int"
  have "k * d \<le> ?c * d" using assms by (intro mult_right_mono) simp_all
  moreover have "0 < k * d" using assms by simp
  ultimately have nd: "0 < n" "n \<le> d" using assms(4) by simp_all
  then have b: "bit_length (nat \<bar>n\<bar>) \<le> bit_length (nat d)" by (intro bit_length_mono) simp
  obtain m s where ms: "round64 n d = Finite m (- int s)" "\<bar>2 * (m * d - n * 2 ^ s)\<bar> \<le> d" "52 \<le> s"
  proof (rule round64_near [of n d])
    fix m s
    assume "round64 n d = Finite m (- int s)" "\<bar>2 * (m * d - n * 2 ^ s)\<bar> \<le> d"
      "int s \<ge> min (52 - (int (bit_length (nat \<bar>n\<bar>)) - int (bit_length (nat d)))) 1074"
    then show thesis using b by (intro that [of m s]) simp_all
  qed (use assms nd b in simp_all)
  define x y where "x = 2 * (m * ?c - k * 2 ^ s)" and "y = 2 * (m * d - n * 2 ^ s)"
  have "x * d = y * ?c" using assms(4) by (simp add: x_def y_def algebra_simps)
  then have "\<bar>x\<bar> * d = \<bar>y\<bar> * ?c" using abs_mult [of x d] abs_mult [of y ?c] assms(3) by simp
  then have "\<bar>x\<bar> * d \<le> ?c * d" using ms(2) by (simp add: y_def)
  then have "\<bar>2 * (m * ?c - k * 2 ^ s)\<bar> \<le> ?c" using assms(3) by (simp add: x_def)
  note m = ms(1) this ms(3)
  have "(2 :: int) ^ 52 \<le> 2 ^ s" using m(3) by (intro power_increasing) simp_all
  then have A: "(4503599627370496 :: int) \<le> 2 ^ s" by simp
  define P K :: int where "P = 2 ^ s" and "K = k * P"
  have ks: "P \<le> K" "K \<le> ?c * P" "4503599627370496 \<le> P" using assms A by (simp_all add: K_def P_def mult_right_mono)
  have near: "2 * (m * ?c - K) \<le> ?c" "- (2 * (m * ?c - K)) \<le> ?c"
    using abs_le_D1 [OF m(2)] abs_le_D2 [OF m(2)] unfolding K_def P_def by simp_all
  have "0 < ?c * m" using ks near by (simp add: right_diff_distrib)
  moreover have "?c * m < 2 ^ 21 * P" using ks near by (simp add: right_diff_distrib)
  ultimately have cm: "0 < ?c * m" "?c * m < 2 ^ 21 * 2 ^ s" by (simp_all add: P_def)
  have "nat \<bar>?c * m\<bar> < 2 ^ (21 + s)" using cm by (simp add: power_add nat_less_iff)
  then have bl: "bit_length (nat \<bar>?c * m\<bar>) \<le> 21 + s" by (rule bit_length_le)
  have b2: "bit_length (nat (2 ^ s)) = Suc s" using bit_length_power [of s] by (simp add: nat_power_eq)
  obtain m' s' where m': "round64 (?c * m) (2 ^ s) = Finite m' (- int s')" "\<bar>2 * (m' * 2 ^ s - ?c * m * 2 ^ s')\<bar> \<le> 2 ^ s" "32 \<le> s'"
  proof (rule round64_near [of "?c * m" "2 ^ s"])
    fix m' s'
    assume "round64 (?c * m) (2 ^ s) = Finite m' (- int s')" "\<bar>2 * (m' * 2 ^ s - ?c * m * 2 ^ s')\<bar> \<le> 2 ^ s"
      "int s' \<ge> min (52 - (int (bit_length (nat \<bar>?c * m\<bar>)) - int (bit_length (nat (2 ^ s))))) 1074"
    then show thesis using bl b2 by (intro that [of m' s']) simp_all
  qed (use cm(1) bl b2 in simp_all)
  have "(2 :: int) ^ 32 \<le> 2 ^ s'" using m'(3) by (intro power_increasing) simp_all
  then have B: "(4294967296 :: int) \<le> 2 ^ s'" by simp
  have "\<bar>2 * (m' - k * 2 ^ s')\<bar> < 2 ^ s'" by (rule scaled_near [OF m'(2) m(2)]) (use A B in simp_all)
  then have r: "k * (2 * 2 ^ s') \<le> 2 * m' + 2 ^ s'" "2 * m' + 2 ^ s' < (k + 1) * (2 * 2 ^ s')" by (simp_all add: algebra_simps)
  have "(2 * m' + 2 ^ s') div (2 * 2 ^ s') = k" 
    using r by (intro int_div_pos_eq [where r = "2 * m' + 2 ^ s' - 2 * 2 ^ s' * k"]) (simp_all add: algebra_simps)
  then have "f64_round m' (- int s') = k" using m'(3) by (simp add: f64_round_def)
  moreover have "f64_times ?c (Finite m (- int s)) = Finite m' (- int s')" using m(3) m'(1) by (simp add: f64_times_def)
  ultimately show ?thesis using m(1) cm(1) by (intro exI) (auto simp: zero_less_mult_iff)
qed

end
