(* ===== verification/Rpc.thy ===== *)
theory Rpc
  imports Dump Float64 Net
begin

text \<open>
  \<^verbatim>\<open>internal/xrpl/rpc/rpc.go\<close>: the client that speaks JSON-RPC to one server.  The transport is the parameter
  \<open>rp_Post\<close>, a request body to an answer; everything the code does with an answer is modelled on JSON trees.  An
  error keeps the method and a short form of its message.
\<close>

section \<open>One call\<close>

text \<open>What \<^verbatim>\<open>HTTP.Post\<close> and \<^verbatim>\<open>io.ReadAll\<close> give: nothing, a body cut short, a status that is not 200, a text that is not JSON, or JSON.\<close>

datatype http_answer = NoAnswer | BrokenBody | Status nat | BadText | Body json

record 'w rpc =
  rp_Post :: "json \<Rightarrow> 'w \<Rightarrow> http_answer \<times> 'w"
  rp_Fold :: "string \<Rightarrow> string \<Rightarrow> bool"
  rp_Upper :: "string \<Rightarrow> string"

definition rpc_failed :: "string \<Rightarrow> string \<Rightarrow> client_error" where
  "rpc_failed method what = ClientFailed (''rpc '' @ method @ '': '' @ what)"

text \<open>A struct field takes the last key that matches its name without regard to case.\<close>

definition last_field :: "(string \<Rightarrow> string \<Rightarrow> bool) \<Rightarrow> string \<Rightarrow> jmap \<Rightarrow> json option" where
  "last_field uni name kvs = map_option snd (find (\<lambda>kv. equal_fold uni (fst kv) name) (rev kvs))"

definition check_status :: "string \<Rightarrow> jmap \<Rightarrow> client_error + jmap" where
  "check_status method m =
     (let e = as_str (jget m ''error'') in
      if as_str (jget m ''status'') = ''error'' \<or> jget m ''error'' \<noteq> None then
        (if e = ''txnNotFound'' \<or> e = ''entryNotFound'' \<or> e = ''actNotFound'' then Inl ErrNotFound
         else Inl (rpc_failed method (e @ '' '' @ as_str (jget m ''error_message''))))
      else Inr m)"

definition read_answer :: "(string \<Rightarrow> string \<Rightarrow> bool) \<Rightarrow> string \<Rightarrow> http_answer \<Rightarrow> client_error + jmap" where
  "read_answer uni method a =
     (case a of
        NoAnswer \<Rightarrow> Inl (rpc_failed method ''post'')
      | BrokenBody \<Rightarrow> Inl (ClientFailed ''body'')
      | Status n \<Rightarrow> Inl (rpc_failed method (''HTTP '' @ dec_nat n))
      | BadText \<Rightarrow> Inl (rpc_failed method ''bad JSON'')
      | Body j \<Rightarrow>
          (case j of
             JObj kvs \<Rightarrow>
               (case last_field uni ''result'' kvs of
                  Some (JObj m) \<Rightarrow> check_status method m
                | Some JNull \<Rightarrow> check_status method []
                | _ \<Rightarrow> Inl (rpc_failed method ''bad result''))
           | JNull \<Rightarrow> Inl (rpc_failed method ''bad result'')
           | _ \<Rightarrow> Inl (rpc_failed method ''bad JSON'')))"

definition rpc_call :: "'w rpc \<Rightarrow> string \<Rightarrow> jmap \<Rightarrow> ('w, client_error, jmap) action" where
  "rpc_call r method params w =
     (let (a, w') = rp_Post r (JObj [(''method'', JStr method), (''params'', JArr [JObj params])]) w
      in (read_answer (rp_Fold r) method a, w'))"

text \<open>\<^verbatim>\<open>json.Marshal\<close> of a map: one entry per key, in the order of the keys.\<close>

definition marshal_map :: "jmap \<Rightarrow> json" where
  "marshal_map m = JObj (map (\<lambda>k. (k, the (jget m k))) (sorted_list_of_set (set (map fst m))))"

section \<open>Methods\<close>

text \<open>A pointer to a boolean: absent or \<^verbatim>\<open>null\<close> is \<open>Some None\<close>, a value of another type fails.\<close>

definition set_enabled :: "(string \<Rightarrow> string \<Rightarrow> bool) \<Rightarrow> string \<times> json \<Rightarrow> bool option option \<Rightarrow> bool option option" where
  "set_enabled uni kv acc =
     (case acc of
        None \<Rightarrow> None
      | Some old \<Rightarrow>
          if equal_fold uni (fst kv) ''enabled''
          then (case snd kv of JBool b \<Rightarrow> Some (Some b) | JNull \<Rightarrow> Some None | _ \<Rightarrow> None)
          else Some old)"

definition enabled_of :: "(string \<Rightarrow> string \<Rightarrow> bool) \<Rightarrow> json \<Rightarrow> bool option" where
  "enabled_of uni j = (case j of JObj kvs \<Rightarrow> Option.bind (fold (set_enabled uni) kvs (Some None)) (\<lambda>x. x) | _ \<Rightarrow> None)"

definition rpc_AmendmentEnabled :: "'w rpc \<Rightarrow> string \<Rightarrow> ('w, client_error, bool) action" where
  "rpc_AmendmentEnabled r i =
     act_then (rpc_call r ''feature'' [(''feature'', JStr i)]) (\<lambda>m.
       case (case jget m i of Some j \<Rightarrow> Some j | None \<Rightarrow> jget m (to_upper (rp_Upper r) i)) of
         None \<Rightarrow> act_fail (rpc_failed ''feature'' (''no entry for '' @ i))
       | Some j \<Rightarrow>
           (case enabled_of (rp_Fold r) j of
              None \<Rightarrow> act_fail (rpc_failed ''feature'' (''no enabled field for '' @ i))
            | Some b \<Rightarrow> act_ok b))"

definition rpc_Submit :: "'w rpc \<Rightarrow> byte list \<Rightarrow> ('w, client_error, string) action" where
  "rpc_Submit r blob =
     act_then (rpc_call r ''submit'' [(''tx_blob'', JStr (upper_hex blob))]) (\<lambda>m.
       let ec = as_str (jget m ''engine_result'')
       in if ec = [] then act_fail (ClientFailed ''submit: no engine_result in response'') else act_ok ec)"

definition rpc_Tx :: "'w rpc \<Rightarrow> string \<Rightarrow> ('w, client_error, tx_record) action" where
  "rpc_Tx r hash =
     act_then (rpc_call r ''tx'' [(''transaction'', JStr hash)]) (\<lambda>m.
       case ParseTxJSON (rp_Fold r) (marshal_map m) (jget m ''meta'') of
         None \<Rightarrow> act_fail (ClientFailed ''json'')
       | Some rec \<Rightarrow> act_ok (if tr_Hash rec = [] then rec\<lparr>tr_Hash := hash\<rparr> else rec))"

subsection \<open>The history\<close>

record tx_entry =
  te_Tx :: "json option"
  te_TxJSON :: "json option"
  te_Meta :: "json option"
  te_Validated :: bool
  te_Hash :: string
  te_Ledger :: u32

definition no_entry :: tx_entry where
  "no_entry = \<lparr>te_Tx = None, te_TxJSON = None, te_Meta = None, te_Validated = False, te_Hash = [], te_Ledger = 0\<rparr>"

definition bool_over :: "json \<Rightarrow> bool \<Rightarrow> bool option" where
  "bool_over j old = (case j of JBool b \<Rightarrow> Some b | JNull \<Rightarrow> Some old | _ \<Rightarrow> None)"

definition set_entry :: "(string \<Rightarrow> string \<Rightarrow> bool) \<Rightarrow> string \<times> json \<Rightarrow> tx_entry option \<Rightarrow> tx_entry option" where
  "set_entry uni kv acc =
     (case acc of
        None \<Rightarrow> None
      | Some t \<Rightarrow>
          if equal_fold uni (fst kv) ''tx'' then Some (t\<lparr>te_Tx := Some (snd kv)\<rparr>)
          else if equal_fold uni (fst kv) ''tx_json'' then Some (t\<lparr>te_TxJSON := Some (snd kv)\<rparr>)
          else if equal_fold uni (fst kv) ''meta'' then Some (t\<lparr>te_Meta := Some (snd kv)\<rparr>)
          else if equal_fold uni (fst kv) ''validated'' then map_option (\<lambda>b. t\<lparr>te_Validated := b\<rparr>) (bool_over (snd kv) (te_Validated t))
          else if equal_fold uni (fst kv) ''hash'' then map_option (\<lambda>s. t\<lparr>te_Hash := s\<rparr>) (str_over (snd kv) (te_Hash t))
          else if equal_fold uni (fst kv) ''ledger_index'' then map_option (\<lambda>n. t\<lparr>te_Ledger := n\<rparr>) (u32_over (snd kv) (te_Ledger t))
          else Some t)"

definition entry_of :: "(string \<Rightarrow> string \<Rightarrow> bool) \<Rightarrow> json \<Rightarrow> tx_entry option" where
  "entry_of uni j = (case j of JObj kvs \<Rightarrow> fold (set_entry uni) kvs (Some no_entry) | JNull \<Rightarrow> Some no_entry | _ \<Rightarrow> None)"

definition entries_of :: "(string \<Rightarrow> string \<Rightarrow> bool) \<Rightarrow> json option \<Rightarrow> tx_entry list option" where
  "entries_of uni j = (case j of Some (JArr es) \<Rightarrow> those (map (entry_of uni) es) | Some JNull \<Rightarrow> Some [] | _ \<Rightarrow> None)"

text \<open>The record of an entry; an entry that is no transaction, or not validated, is left out.\<close>

definition entry_record :: "(string \<Rightarrow> string \<Rightarrow> bool) \<Rightarrow> tx_entry \<Rightarrow> tx_record option" where
  "entry_record uni t =
     (case (case te_Tx t of None \<Rightarrow> te_TxJSON t | Some j \<Rightarrow> Some j) of
        None \<Rightarrow> None
      | Some raw \<Rightarrow>
          (case ParseTxJSON uni raw (te_Meta t) of
             None \<Rightarrow> None
           | Some rec \<Rightarrow>
               if te_Validated t
               then Some (rec\<lparr>tr_Validated := True, tr_Hash := (if tr_Hash rec = [] then te_Hash t else tr_Hash rec),
                      tr_LedgerIndex := (if tr_LedgerIndex rec = 0 then te_Ledger t else tr_LedgerIndex rec)\<rparr>)
               else None))"

definition as_i64 :: "json option \<Rightarrow> int" where
  "as_i64 j = (case j of Some (JNum n) \<Rightarrow> if - (2 ^ 63) \<le> n \<and> n < 2 ^ 63 then n else 0 | _ \<Rightarrow> 0)"

definition maxAccountTxPages :: nat where "maxAccountTxPages = 5000"

definition page_params :: "string \<Rightarrow> json option \<Rightarrow> jmap" where
  "page_params account marker =
     [(''account'', JStr account), (''forward'', JBool True), (''ledger_index_max'', JNum (- 1)), (''ledger_index_min'', JNum (- 1)), (''limit'', JNum 200)]
     @ (case marker of None \<Rightarrow> [] | Some j \<Rightarrow> [(''marker'', j)])"

definition page_range :: "jmap \<Rightarrow> range \<Rightarrow> range" where
  "page_range m rng =
     (let lo = as_i64 (jget m ''ledger_index_min''); hi = as_i64 (jget m ''ledger_index_max'');
          rng = (if rg_Min rng < 0 \<or> lo < rg_Min rng then rng\<lparr>rg_Min := lo\<rparr> else rng)
      in if hi > rg_Max rng then rng\<lparr>rg_Max := hi\<rparr> else rng)"

text \<open>\<open>n\<close> is the number of pages that may still be asked for.\<close>

fun account_pages ::
    "nat \<Rightarrow> 'w rpc \<Rightarrow> string \<Rightarrow> json option \<Rightarrow> tx_record list \<Rightarrow> range \<Rightarrow> ('w, client_error, tx_record list \<times> range) action" where
  "account_pages 0 r account marker out rng = act_fail (ClientFailed ''account_tx: more than 5000 pages'')"
| "account_pages (Suc n) r account marker out rng =
     act_then (rpc_call r ''account_tx'' (page_params account marker)) (\<lambda>m.
       case entries_of (rp_Fold r) (jget m ''transactions'') of
         None \<Rightarrow> act_fail (ClientFailed ''account_tx: bad transactions'')
       | Some es \<Rightarrow>
           let out = out @ List.map_filter (entry_record (rp_Fold r)) es; rng = page_range m rng
           in case jget m ''marker'' of
                None \<Rightarrow> act_ok (out, rng)
              | Some JNull \<Rightarrow> act_ok (out, rng)
              | Some j \<Rightarrow> account_pages n r account (Some j) out rng)"

definition rpc_AccountTx :: "'w rpc \<Rightarrow> string \<Rightarrow> ('w, client_error, tx_record list \<times> range) action" where
  "rpc_AccountTx r account = account_pages maxAccountTxPages r account None [] \<lparr>rg_Min = -1, rg_Max = -1\<rparr>"

subsection \<open>Entries and accounts\<close>

definition set_str_field :: "(string \<Rightarrow> string \<Rightarrow> bool) \<Rightarrow> string \<Rightarrow> string \<times> json \<Rightarrow> string option \<Rightarrow> string option" where
  "set_str_field uni name kv acc =
     (case acc of None \<Rightarrow> None | Some old \<Rightarrow> if equal_fold uni (fst kv) name then str_over (snd kv) old else Some old)"

definition node_data :: "(string \<Rightarrow> string \<Rightarrow> bool) \<Rightarrow> json option \<Rightarrow> string option" where
  "node_data uni j = (case j of Some (JObj kvs) \<Rightarrow> fold (set_str_field uni ''Data'') kvs (Some []) | Some JNull \<Rightarrow> Some [] | _ \<Rightarrow> None)"

definition rpc_LedgerEntryDID :: "'w rpc \<Rightarrow> string \<Rightarrow> ('w, client_error, byte list) action" where
  "rpc_LedgerEntryDID r account =
     act_then (rpc_call r ''ledger_entry'' [(''did'', JStr account), (''ledger_index'', JStr ''validated'')]) (\<lambda>m.
       case node_data (rp_Fold r) (jget m ''node'') of
         None \<Rightarrow> act_fail (ClientFailed ''ledger_entry: bad node'')
       | Some d \<Rightarrow>
           if d = [] then act_fail ErrNotFound
           else (case hex_decode d of None \<Rightarrow> act_fail (ClientFailed ''ledger_entry: anchor Data is not hex'') | Some b \<Rightarrow> act_ok b))"

text \<open>\<^verbatim>\<open>strconv.ParseUint\<close> in base 10 with 64 bits, and no leading zero.\<close>

definition drops :: "string \<Rightarrow> string \<Rightarrow> client_error + u64" where
  "drops field s =
     (case (if s = [] then None else decimal 0 s) of
        None \<Rightarrow> Inl (ClientFailed (field @ '': '' @ s))
      | Some v \<Rightarrow>
          if v \<ge> 2 ^ 64 \<or> (length s > 1 \<and> s ! 0 = CHR ''0'') then Inl (ClientFailed (field @ '': '' @ s)) else Inr (of_nat v))"

record account_data =
  ad_Sequence :: u32
  ad_Balance :: string

definition set_account_data :: "(string \<Rightarrow> string \<Rightarrow> bool) \<Rightarrow> string \<times> json \<Rightarrow> account_data option \<Rightarrow> account_data option" where
  "set_account_data uni kv acc =
     (case acc of
        None \<Rightarrow> None
      | Some d \<Rightarrow>
          if equal_fold uni (fst kv) ''Sequence'' then map_option (\<lambda>n. d\<lparr>ad_Sequence := n\<rparr>) (u32_over (snd kv) (ad_Sequence d))
          else if equal_fold uni (fst kv) ''Balance'' then map_option (\<lambda>s. d\<lparr>ad_Balance := s\<rparr>) (str_over (snd kv) (ad_Balance d))
          else Some d)"

definition account_data_of :: "(string \<Rightarrow> string \<Rightarrow> bool) \<Rightarrow> json option \<Rightarrow> account_data option" where
  "account_data_of uni j =
     (let zero = \<lparr>ad_Sequence = 0, ad_Balance = []\<rparr>
      in case j of Some (JObj kvs) \<Rightarrow> fold (set_account_data uni) kvs (Some zero) | Some JNull \<Rightarrow> Some zero | _ \<Rightarrow> None)"

definition rpc_AccountInfo :: "'w rpc \<Rightarrow> string \<Rightarrow> ('w, client_error, account_state) action" where
  "rpc_AccountInfo r account =
     act_then (rpc_call r ''account_info'' [(''account'', JStr account), (''ledger_index'', JStr ''validated'')]) (\<lambda>m.
       case account_data_of (rp_Fold r) (jget m ''account_data'') of
         None \<Rightarrow> act_fail (ClientFailed ''account_info: bad account_data'')
       | Some d \<Rightarrow>
           act_then (act_of (\<lambda>e. e) (drops ''account_info: Balance'' (ad_Balance d))) (\<lambda>b.
             act_ok \<lparr>as_Sequence = ad_Sequence d, as_BalanceDrops = b\<rparr>))"

subsection \<open>Fees\<close>

definition MaxSaneFeeDrops :: nat where "MaxSaneFeeDrops = 1000000"

text \<open>A finite product rounds to an integer; the conversion to \<^verbatim>\<open>uint64\<close> is exact below the bound.\<close>

definition feeDrops :: "f64 \<Rightarrow> string + u64" where
  "feeDrops xrp =
     (case xrp of
        NaN \<Rightarrow> Inl ''not a number''
      | Infinite _ \<Rightarrow> Inl ''not a number''
      | Finite m e \<Rightarrow>
          if m < 0 then Inl ''negative''
          else (case f64_times 1000000 xrp of
                  Finite m' e' \<Rightarrow>
                    if f64_round m' e' > int MaxSaneFeeDrops then Inl ''above the sanity bound'' else Inr (of_int (f64_round m' e'))
                | _ \<Rightarrow> Inl ''above the sanity bound''))"

definition f64_over :: "json \<Rightarrow> f64 \<Rightarrow> f64 option" where
  "f64_over j old =
     (let num = (\<lambda>m e. case f64_of_decimal m e of Finite a b \<Rightarrow> Some (Finite a b) | _ \<Rightarrow> None)
      in case j of JNum n \<Rightarrow> num n 0 | JReal m e \<Rightarrow> num m e | JNull \<Rightarrow> Some old | _ \<Rightarrow> None)"

record server_json =
  sj_Complete :: string
  sj_Seq :: u32
  sj_BaseFee :: f64

definition set_validated :: "(string \<Rightarrow> string \<Rightarrow> bool) \<Rightarrow> string \<times> json \<Rightarrow> server_json option \<Rightarrow> server_json option" where
  "set_validated uni kv acc =
     (case acc of
        None \<Rightarrow> None
      | Some s \<Rightarrow>
          if equal_fold uni (fst kv) ''seq'' then map_option (\<lambda>n. s\<lparr>sj_Seq := n\<rparr>) (u32_over (snd kv) (sj_Seq s))
          else if equal_fold uni (fst kv) ''base_fee_xrp'' then map_option (\<lambda>x. s\<lparr>sj_BaseFee := x\<rparr>) (f64_over (snd kv) (sj_BaseFee s))
          else Some s)"

definition set_info :: "(string \<Rightarrow> string \<Rightarrow> bool) \<Rightarrow> string \<times> json \<Rightarrow> server_json option \<Rightarrow> server_json option" where
  "set_info uni kv acc =
     (case acc of
        None \<Rightarrow> None
      | Some s \<Rightarrow>
          if equal_fold uni (fst kv) ''complete_ledgers'' then map_option (\<lambda>t. s\<lparr>sj_Complete := t\<rparr>) (str_over (snd kv) (sj_Complete s))
          else if equal_fold uni (fst kv) ''validated_ledger''
          then (case snd kv of JObj kvs \<Rightarrow> fold (set_validated uni) kvs (Some s) | JNull \<Rightarrow> Some s | _ \<Rightarrow> None)
          else Some s)"

definition set_server :: "(string \<Rightarrow> string \<Rightarrow> bool) \<Rightarrow> string \<times> json \<Rightarrow> server_json option \<Rightarrow> server_json option" where
  "set_server uni kv acc =
     (case acc of
        None \<Rightarrow> None
      | Some s \<Rightarrow>
          if equal_fold uni (fst kv) ''info''
          then (case snd kv of JObj kvs \<Rightarrow> fold (set_info uni) kvs (Some s) | JNull \<Rightarrow> Some s | _ \<Rightarrow> None)
          else Some s)"

definition server_of :: "(string \<Rightarrow> string \<Rightarrow> bool) \<Rightarrow> jmap \<Rightarrow> server_json option" where
  "server_of uni m =
     (case marshal_map m of
        JObj kvs \<Rightarrow> fold (set_server uni) kvs (Some \<lparr>sj_Complete = [], sj_Seq = 0, sj_BaseFee = Finite 0 0\<rparr>)
      | _ \<Rightarrow> None)"

text \<open>Errors of this decoding are dropped: the last string under the name.\<close>

definition open_fee :: "(string \<Rightarrow> string \<Rightarrow> bool) \<Rightarrow> json option \<Rightarrow> string" where
  "open_fee uni j =
     (case j of
        Some (JObj kvs) \<Rightarrow> fold (\<lambda>(k, v) acc. if equal_fold uni k ''open_ledger_fee'' then (case v of JStr s \<Rightarrow> s | _ \<Rightarrow> acc) else acc) kvs []
      | _ \<Rightarrow> [])"

definition open_ledger_fee :: "string \<Rightarrow> server_state \<Rightarrow> client_error + server_state" where
  "open_ledger_fee fee st =
     (if fee = [] then Inr st
      else and_then (drops ''fee: open_ledger_fee'' fee) (\<lambda>v.
        if v > of_nat MaxSaneFeeDrops then Inl (ClientFailed ''fee: open_ledger_fee is above the sanity bound'')
        else Inr (if v > 0 then st\<lparr>ss_OpenLedgerFee := v\<rparr> else st)))"

definition base_state :: "server_json \<Rightarrow> client_error + server_state" where
  "base_state s =
     (if sj_Seq s = 0 then Inl (ClientFailed ''server_info: the response carries no validated ledger'')
      else case feeDrops (sj_BaseFee s) of
             Inl e \<Rightarrow> Inl (ClientFailed (''server_info: base_fee_xrp: '' @ e))
           | Inr b \<Rightarrow>
               let b = (if b = 0 then 10 else b)
               in Inr \<lparr>ss_ValidatedLedger = sj_Seq s, ss_CompleteLedgers = sj_Complete s, ss_BaseFeeDrops = b, ss_OpenLedgerFee = b\<rparr>)"

definition rpc_ServerInfo :: "'w rpc \<Rightarrow> ('w, client_error, server_state) action" where
  "rpc_ServerInfo r =
     act_then (rpc_call r ''server_info'' []) (\<lambda>m.
       case server_of (rp_Fold r) m of
         None \<Rightarrow> act_fail (ClientFailed ''json'')
       | Some s \<Rightarrow>
           act_then (act_of (\<lambda>e. e) (base_state s)) (\<lambda>st w.
             (case rpc_call r ''fee'' [] w of
                (Inl _, w') \<Rightarrow> (Inr st, w')
              | (Inr fee, w') \<Rightarrow> (open_ledger_fee (open_fee (rp_Fold r) (jget fee ''drops'')) st, w'))))"

definition rpc_client :: "'w rpc \<Rightarrow> 'w client" where
  "rpc_client r =
     \<lparr>cl_Submit = rpc_Submit r, cl_Tx = rpc_Tx r, cl_AccountTx = rpc_AccountTx r, cl_LedgerEntryDID = rpc_LedgerEntryDID r,
      cl_AccountInfo = rpc_AccountInfo r, cl_ServerInfo = rpc_ServerInfo r, cl_AmendmentEnabled = rpc_AmendmentEnabled r\<rparr>"

section \<open>Decimal counts\<close>

lemma decimal_snoc: "decimal acc (s @ [c]) = (case decimal acc s of None \<Rightarrow> None | Some v \<Rightarrow> map_option (\<lambda>d. 10 * v + d) (digit_val c))"
  by (induction s arbitrary: acc) (auto split: option.splits)

lemma digit_val_char: "d < 10 \<Longrightarrow> digit_val (char_of (48 + d)) = Some d"
  by (simp add: digit_val_def)

lemma digit_val_Some: "digit_val c = Some d \<longleftrightarrow> d < 10 \<and> c = char_of (48 + d)"
proof -
  have "c = char_of (48 + d)" if "48 \<le> (of_char c :: nat)" "of_char c - 48 = d"
  proof -
    have "of_char c = 48 + d" using that by simp
    then show ?thesis by (metis char_of_char)
  qed
  then show ?thesis by (auto simp: digit_val_char) (auto simp: digit_val_def Let_def split: if_splits)
qed

lemma digit_char_zero:
  fixes d :: nat
  assumes "d < 10"
  shows "char_of (48 + d) = CHR ''0'' \<longleftrightarrow> d = 0"
proof -
  have "digit_val CHR ''0'' = Some 0" by (simp add: digit_val_def)
  then have "digit_val CHR ''0'' = Some d \<longleftrightarrow> d = 0" by auto
  then show ?thesis using assms unfolding digit_val_Some by auto
qed

lemma decimal_dec_nat: "decimal 0 (dec_nat n) = Some n"
  by (induction n rule: dec_nat.induct) (subst dec_nat.simps, simp add: decimal_snoc digit_val_char)

lemma dec_nat_decimal: "decimal 0 s = Some v \<Longrightarrow> s \<noteq> [] \<Longrightarrow> \<not> (length s > 1 \<and> hd s = CHR ''0'') \<Longrightarrow> s = dec_nat v"
proof (induction s arbitrary: v rule: rev_induct)
  case (snoc c t)
  obtain u d where u: "decimal 0 t = Some u" "digit_val c = Some d" "v = 10 * u + d"
    using snoc.prems(1) by (auto simp: decimal_snoc split: option.splits)
  have d: "d < 10" "c = char_of (48 + d)" using u(2) by (simp_all add: digit_val_Some)
  show ?case
  proof (cases "t = []")
    case True
    then show ?thesis using u d by (simp add: dec_nat.simps [of d])
  next
    case False
    then have h: "hd t \<noteq> CHR ''0''" using snoc.prems(3) by auto
    then have t: "t = dec_nat u" using snoc.IH [OF u(1) False] by blast
    have "u \<noteq> 0" using t h digit_char_zero [of 0] by (cases u) (simp_all add: dec_nat.simps [of 0])
    then show ?thesis using t u(3) d by (subst dec_nat.simps) simp
  qed
qed simp

lemma dec_nat_canonical: "dec_nat n \<noteq> [] \<and> (length (dec_nat n) > 1 \<longrightarrow> hd (dec_nat n) \<noteq> CHR ''0'')"
proof (induction n rule: dec_nat.induct)
  case (1 n)
  show ?case
  proof (cases "n < 10")
    case False
    have "hd (dec_nat (n div 10)) \<noteq> CHR ''0''"
    proof (cases "n div 10 < 10")
      case True
      then have "hd (dec_nat (n div 10)) = char_of (48 + n div 10)" "0 < n div 10" using False by (simp_all add: dec_nat.simps [of "n div 10"])
      then show ?thesis using digit_char_zero [OF True] by simp
    next
      case big: False
      have "dec_nat (n div 10) = dec_nat (n div 10 div 10) @ [char_of (48 + n div 10 mod 10)]" using big by (subst dec_nat.simps) simp
      moreover have "dec_nat (n div 10 div 10) \<noteq> []" by (subst dec_nat.simps) simp
      ultimately have "length (dec_nat (n div 10)) > 1" by simp
      then show ?thesis using "1.IH" [OF False] by blast
    qed
    then show ?thesis using False "1.IH" [OF False] by (subst (1 2 3) dec_nat.simps) simp
  qed (simp add: dec_nat.simps [of n])
qed

lemma drops_iff: "drops field s = Inr v \<longleftrightarrow> s = dec_nat (unat v)"
proof
  assume a: "drops field s = Inr v"
  obtain n where n: "s \<noteq> []" "decimal 0 s = Some n" "n < 2 ^ 64" "\<not> (length s > 1 \<and> s ! 0 = CHR ''0'')" "v = of_nat n"
    using a by (auto simp: drops_def not_le split: if_splits option.splits)
  then show "s = dec_nat (unat v)" using dec_nat_decimal [OF n(2,1)] n(4) by (simp add: hd_conv_nth [OF n(1)] unat_of_nat_len)
next
  assume s: "s = dec_nat (unat v)"
  have "unat v < 2 ^ 64" by (rule order_less_le_trans [OF unsigned_less]) simp
  then show "drops field s = Inr v" using dec_nat_canonical [of "unat v"] by (auto simp: s drops_def decimal_dec_nat hd_conv_nth not_le)
qed

text \<open>
  A count of drops is read exactly: the parser accepts the canonical decimal form of a 64 bit number, as that
  number, and nothing else, in particular no sign, no leading zero, no exponent and no prefix of a longer text.
\<close>
theorem drops_exact: "drops field s = Inr v \<longleftrightarrow> s = dec_nat (unat v)"
  by (rule drops_iff)

section \<open>Fees\<close>

lemma div_even_nonneg: "0 \<le> a \<Longrightarrow> 0 < b \<Longrightarrow> 0 \<le> div_even a b"
  by (simp add: div_even_def Let_def pos_imp_zdiv_nonneg_iff add_nonneg_nonneg)

lemma round64_nonneg: "round64 n d = Finite m e \<Longrightarrow> 0 \<le> n \<Longrightarrow> 0 < d \<Longrightarrow> 0 \<le> m"
  by (auto simp: round64_def in_units_def Let_def intro!: div_even_nonneg split: if_splits)

lemma f64_times_nonneg: "f64_times 1000000 (Finite m e) = Finite m' e' \<Longrightarrow> 0 \<le> m \<Longrightarrow> 0 \<le> m'"
  by (auto simp: f64_times_def split: if_splits elim!: round64_nonneg)

lemma f64_round_nonneg: "0 \<le> m \<Longrightarrow> 0 \<le> f64_round m e"
  by (simp add: f64_round_def pos_imp_zdiv_nonneg_iff)

lemma feeDrops_bound:
  assumes "feeDrops x = Inr v"
  shows "unat v \<le> MaxSaneFeeDrops"
proof -
  obtain m e m' e' where x: "x = Finite m e" "0 \<le> m" "f64_times 1000000 x = Finite m' e'" "f64_round m' e' \<le> int MaxSaneFeeDrops"
      "v = of_int (f64_round m' e')"
    using assms by (auto simp: feeDrops_def split: f64.splits if_splits)
  have "0 \<le> f64_round m' e'" using x f64_times_nonneg f64_round_nonneg by blast
  then obtain k where k: "f64_round m' e' = int k" by (metis nonneg_int_cases)
  then have "k < 2 ^ 64" using x(4) by (simp add: MaxSaneFeeDrops_def)
  then show ?thesis using x(4,5) k by (simp add: unat_of_nat_len)
qed

text \<open>
  C19.  A base fee is read exactly: a literal worth a whole number of drops, up to one XRP, is that number of drops after
  the detour through binary floating point, whatever exponent it is written with.
\<close>
theorem fee_exact:
  assumes "k \<le> MaxSaneFeeDrops" "if e \<ge> 0 then m * 10 ^ nat e * 1000000 = int k else m * 1000000 = int k * 10 ^ nat (- e)"
  shows "feeDrops (f64_of_decimal m e) = Inr (of_nat k)"
proof (cases "k = 0")
  case True
  then have "m = 0" using assms(2) by (simp split: if_splits)
  then show ?thesis using True by (simp add: f64_of_decimal_def round64_def feeDrops_def f64_times_def f64_round_def)
next
  case False
  define n d where "n = (if e \<ge> 0 then m * 10 ^ nat e else m)" and "d = (if e \<ge> 0 then 1 else (10 :: int) ^ nat (- e))"
  have nd: "n * 1000000 = int k * d" "0 < d" "f64_of_decimal m e = round64 n d" using assms(2) by (auto simp: n_def d_def f64_of_decimal_def)
  then obtain m1 s1 m2 s2 where "round64 n d = Finite m1 (- int s1)" "0 < m1"
      "f64_times 1000000 (Finite m1 (- int s1)) = Finite m2 (- int s2)" "f64_round m2 (- int s2) = int k"
    using million_exact [of "int k" d n] False assms(1) by (auto simp: MaxSaneFeeDrops_def)
  then show ?thesis using nd assms(1) by (simp add: feeDrops_def)
qed

theorem fee_exact_witness: "feeDrops (f64_of_decimal 1 (- 5)) = Inr 10 \<and> feeDrops (f64_of_decimal 12000 (- 9)) = Inr 12"
  using fee_exact [of 10 "- 5" 1] fee_exact [of 12 "- 9" 12000] by (simp add: MaxSaneFeeDrops_def)

lemma base_state_sane:
  assumes "base_state s = Inr st"
  shows "ss_ValidatedLedger st \<noteq> 0 \<and> 0 < ss_BaseFeeDrops st \<and> unat (ss_BaseFeeDrops st) \<le> MaxSaneFeeDrops \<and> ss_OpenLedgerFee st = ss_BaseFeeDrops st"
proof -
  obtain b where b: "feeDrops (sj_BaseFee s) = Inr b" "sj_Seq s \<noteq> 0"
      "st = \<lparr>ss_ValidatedLedger = sj_Seq s, ss_CompleteLedgers = sj_Complete s, ss_BaseFeeDrops = (if b = 0 then 10 else b), ss_OpenLedgerFee = (if b = 0 then 10 else b)\<rparr>"
    using assms by (auto simp: base_state_def Let_def split: if_splits sum.splits)
  then show ?thesis using feeDrops_bound [OF b(1)] by (simp add: MaxSaneFeeDrops_def word_gt_0)
qed

lemma open_ledger_fee_sane:
  assumes "open_ledger_fee fee st = Inr st'"
  shows "st' = st \<or> (\<exists>v. 0 < v \<and> unat v \<le> MaxSaneFeeDrops \<and> fee = dec_nat (unat v) \<and> st' = st\<lparr>ss_OpenLedgerFee := v\<rparr>)"
proof (cases "fee = []")
  case False
  obtain v where v: "drops ''fee: open_ledger_fee'' fee = Inr v" "\<not> v > of_nat MaxSaneFeeDrops" "st' = (if v > 0 then st\<lparr>ss_OpenLedgerFee := v\<rparr> else st)"
    using assms False by (auto simp: open_ledger_fee_def and_then_def split: sum.splits if_splits)
  have "unat v \<le> MaxSaneFeeDrops" using v(2) by (simp add: MaxSaneFeeDrops_def word_less_nat_alt not_less)
  then show ?thesis using v(1,3) by (auto simp: drops_iff)
qed (use assms in \<open>simp add: open_ledger_fee_def\<close>)

lemma ServerInfo_ok:
  assumes "rpc_ServerInfo r w = (Inr st, w')"
  obtains m w1 s st0 where "rpc_call r ''server_info'' [] w = (Inr m, w1)" "server_of (rp_Fold r) m = Some s" "base_state s = Inr st0"
    "st = st0 \<or> (\<exists>v. 0 < v \<and> unat v \<le> MaxSaneFeeDrops \<and> st = st0\<lparr>ss_OpenLedgerFee := v\<rparr>)"
proof -
  obtain m w1 s st0 where a: "rpc_call r ''server_info'' [] w = (Inr m, w1)" "server_of (rp_Fold r) m = Some s" "base_state s = Inr st0"
      "(case rpc_call r ''fee'' [] w1 of (Inl _, w') \<Rightarrow> (Inr st0, w')
        | (Inr fee, w') \<Rightarrow> (open_ledger_fee (open_fee (rp_Fold r) (jget fee ''drops'')) st0, w')) = (Inr st, w')"
    using assms unfolding rpc_ServerInfo_def
    by (auto simp: act_then_def act_of_def act_fail_def split: prod.splits sum.splits option.splits)
  then have "st = st0 \<or> (\<exists>fee. open_ledger_fee fee st0 = Inr st)" by (auto split: prod.splits sum.splits)
  then show ?thesis using a that open_ledger_fee_sane by blast
qed

text \<open>
  C20.  Whatever a server answers, the state that is handed on names a validated ledger and two fees of at least one drop
  and at most one XRP.
\<close>
theorem server_info_sane:
  assumes "rpc_ServerInfo r w = (Inr st, w')"
  shows "ss_ValidatedLedger st \<noteq> 0 \<and> (\<forall>f \<in> {ss_BaseFeeDrops st, ss_OpenLedgerFee st}. 0 < f \<and> unat f \<le> MaxSaneFeeDrops)"
  by (rule ServerInfo_ok [OF assms]) (use base_state_sane in fastforce)

section \<open>Errors\<close>

text \<open>An answer that carries an error: the status says so, or there is an \<^verbatim>\<open>error\<close> field.\<close>

definition carries_error :: "(string \<Rightarrow> string \<Rightarrow> bool) \<Rightarrow> http_answer \<Rightarrow> bool" where
  "carries_error uni a =
     (case a of
        Body (JObj kvs) \<Rightarrow>
          (case last_field uni ''result'' kvs of
             Some (JObj m) \<Rightarrow> as_str (jget m ''status'') = ''error'' \<or> jget m ''error'' \<noteq> None
           | _ \<Rightarrow> False)
      | _ \<Rightarrow> False)"

lemma read_answer_error: "carries_error uni a \<Longrightarrow> isl (read_answer uni method a)"
  by (auto simp: carries_error_def read_answer_def check_status_def Let_def split: http_answer.splits json.splits option.splits)

lemma rpc_then_error:
  assumes "\<And>b w. carries_error (rp_Fold r) (fst (rp_Post r b w))"
  shows "isl (fst (act_then (rpc_call r method params) f w))"
proof -
  have "isl (fst (rpc_call r method params w))" using read_answer_error [OF assms] by (simp add: rpc_call_def Let_def case_prod_unfold)
  then show ?thesis by (auto simp: act_then_def split: prod.splits sum.splits)
qed


text \<open>A server that answers every request alike.\<close>

definition same_server :: "http_answer \<Rightarrow> unit rpc" where
  "same_server a = \<lparr>rp_Post = (\<lambda>_ w. (a, w)), rp_Fold = (\<lambda>_ _. False), rp_Upper = (\<lambda>s. s)\<rparr>"

definition down_answer :: http_answer where
  "down_answer = Body (JObj [(''result'', JObj [(''error'', JStr ''noNetwork'')])])"

lemma down_carries: "carries_error (rp_Fold (same_server down_answer)) (fst (rp_Post (same_server down_answer) b w))"
proof -
  have "carries_error (\<lambda>_ _. False) down_answer" by code_simp
  then show ?thesis by (simp add: same_server_def)
qed


definition info_answer :: json where
  "info_answer = JObj [(''result'', JObj [(''info'', JObj [(''validated_ledger'', JObj [(''seq'', JNum 7), (''base_fee_xrp'', JNum 0)])]),
     (''drops'', JObj [(''open_ledger_fee'', JStr ''12'')])])]"

lemma info_answer_ok:
  "rpc_ServerInfo (same_server (Body info_answer)) () =
     (Inr \<lparr>ss_ValidatedLedger = 7, ss_CompleteLedgers = [], ss_BaseFeeDrops = 10, ss_OpenLedgerFee = 12\<rparr>, ())"
proof -
  define m where "m = (case read_answer (\<lambda>_ _. False) ''fee'' (Body info_answer) of Inr m \<Rightarrow> m | Inl _ \<Rightarrow> [])"
  have c: "rpc_call (same_server (Body info_answer)) ''server_info'' [] () = (Inr m, ())" "rpc_call (same_server (Body info_answer)) ''fee'' [] () = (Inr m, ())"
    unfolding m_def by code_simp+
  have s: "server_of (\<lambda>_ _. False) m = Some \<lparr>sj_Complete = [], sj_Seq = 7, sj_BaseFee = Finite 0 0\<rparr>" "open_fee (\<lambda>_ _. False) (jget m ''drops'') = ''12''"
    unfolding m_def by code_simp+
  have b: "base_state \<lparr>sj_Complete = [], sj_Seq = 7, sj_BaseFee = Finite 0 0\<rparr> =
      Inr \<lparr>ss_ValidatedLedger = 7, ss_CompleteLedgers = [], ss_BaseFeeDrops = 10, ss_OpenLedgerFee = 10\<rparr>"
    by (simp add: base_state_def feeDrops_def f64_times_def round64_def f64_round_def)
  have d: "drops ''fee: open_ledger_fee'' ''12'' = Inr 12" unfolding drops_iff by code_simp
  have "rp_Fold (same_server (Body info_answer)) = (\<lambda>_ _. False)" by (simp add: same_server_def)
  then show ?thesis by (simp add: rpc_ServerInfo_def act_then_def act_of_def c s b open_ledger_fee_def d MaxSaneFeeDrops_def)
qed

theorem server_info_sane_witness:
  "ss_ValidatedLedger (\<lparr>ss_ValidatedLedger = 7, ss_CompleteLedgers = [], ss_BaseFeeDrops = 10, ss_OpenLedgerFee = 12\<rparr> :: server_state) \<noteq> 0"
  using server_info_sane [OF info_answer_ok] by blast

section \<open>The whole history\<close>

text \<open>
  A run of the server: asked for \<open>account_tx\<close> page by page, it gives the pages \<open>ps\<close> and ends in \<open>w'\<close>.  Each page but the
  last carries the marker under which the next one is asked for.
\<close>

abbreviation marker_of :: "jmap \<Rightarrow> json option" where
  "marker_of m \<equiv> (case jget m ''marker'' of Some JNull \<Rightarrow> None | x \<Rightarrow> x)"

fun pages_run :: "'w rpc \<Rightarrow> string \<Rightarrow> json option \<Rightarrow> jmap list \<Rightarrow> 'w \<Rightarrow> 'w \<Rightarrow> bool" where
  "pages_run r account marker [] w w' = (w = w')"
| "pages_run r account marker (p # ps) w w' =
     (case rpc_call r ''account_tx'' (page_params account marker) w of
        (Inl e, w1) \<Rightarrow> False
      | (Inr m, w1) \<Rightarrow>
          m = p \<and> entries_of (rp_Fold r) (jget p ''transactions'') \<noteq> None \<and> (ps = [] \<or> marker_of p \<noteq> None) \<and>
          pages_run r account (marker_of p) ps w1 w')"

definition page_records :: "(string \<Rightarrow> string \<Rightarrow> bool) \<Rightarrow> jmap \<Rightarrow> tx_record list" where
  "page_records uni p = List.map_filter (entry_record uni) (the (entries_of uni (jget p ''transactions'')))"

lemma account_pages_step:
  assumes "rpc_call r ''account_tx'' (page_params account marker) w = (Inr p, w1)" "entries_of (rp_Fold r) (jget p ''transactions'') \<noteq> None"
  shows "account_pages (Suc n) r account marker out rng w =
    (case marker_of p of
       None \<Rightarrow> (Inr (out @ page_records (rp_Fold r) p, page_range p rng), w1)
     | Some j \<Rightarrow> account_pages n r account (Some j) (out @ page_records (rp_Fold r) p) (page_range p rng) w1)"
  using assms by (auto simp: act_then_def page_records_def act_ok_def Let_def split: option.splits json.splits)

lemma account_pages_run:
  assumes "pages_run r account marker ps w w'" "ps \<noteq> []" "length ps \<le> n"
  shows "account_pages n r account marker out rng w =
    (case marker_of (last ps) of
       None \<Rightarrow> (Inr (out @ concat (map (page_records (rp_Fold r)) ps), fold page_range ps rng), w')
     | Some j \<Rightarrow> account_pages (n - length ps) r account (Some j) (out @ concat (map (page_records (rp_Fold r)) ps)) (fold page_range ps rng) w')"
  using assms
proof (induction ps arbitrary: n marker out rng w)
  case (Cons p ps)
  obtain k where n: "n = Suc k" "length ps \<le> k" using Cons.prems(3) by (cases n) auto
  obtain w1 where c: "rpc_call r ''account_tx'' (page_params account marker) w = (Inr p, w1)"
      "entries_of (rp_Fold r) (jget p ''transactions'') \<noteq> None" "ps = [] \<or> marker_of p \<noteq> None" "pages_run r account (marker_of p) ps w1 w'"
    using Cons.prems(1) by (auto split: prod.splits sum.splits)
  note step = account_pages_step [OF c(1,2)]
  show ?case
  proof (cases "ps = []")
    case True
    then show ?thesis using c(4) unfolding n step by (cases "marker_of p") simp_all
  next
    case False
    then obtain j where j: "marker_of p = Some j" using c(3) by auto
    have "account_pages n r account marker out rng w = account_pages k r account (Some j) (out @ page_records (rp_Fold r) p) (page_range p rng) w1"
      unfolding n step j by simp
    moreover have "pages_run r account (Some j) ps w1 w'" using c(4) j by simp
    moreover have "last (p # ps) = last ps" "n - length (p # ps) = k - length ps" using False n by simp_all
    ultimately show ?thesis using Cons.IH [OF _ False n(2)] by (simp only: list.map concat.simps fold.simps append_assoc o_apply)
  qed
qed simp

text \<open>
  C16.  The whole history is read: when the server pages through \<open>ps\<close>, at most 5000 of them, the client returns every
  validated record of every page in order and the range that spans the pages, after exactly those requests; a
  server that still has a marker on the 5000th page is refused there.
\<close>
theorem account_tx_complete:
  assumes "pages_run r account None ps w w'" "ps \<noteq> []" "length ps \<le> maxAccountTxPages" "marker_of (last ps) \<noteq> None \<longrightarrow> length ps = maxAccountTxPages"
  shows "rpc_AccountTx r account w =
    (if marker_of (last ps) = None then Inr (concat (map (page_records (rp_Fold r)) ps), fold page_range ps \<lparr>rg_Min = -1, rg_Max = -1\<rparr>)
     else Inl (ClientFailed ''account_tx: more than 5000 pages''), w')"
  using assms(4) unfolding rpc_AccountTx_def account_pages_run [OF assms(1-3)] by (auto simp: act_fail_def)

text \<open>A server with two pages, whose state is the number of pages it has given.\<close>

definition two_pages :: "jmap list" where
  "two_pages =
     [[(''ledger_index_min'', JNum 5), (''ledger_index_max'', JNum 6), (''marker'', JNum 1),
       (''transactions'', JArr [JObj [(''validated'', JBool True), (''hash'', JStr ''AA''), (''tx'', JObj [])], JObj [(''validated'', JBool False), (''tx'', JObj [])]])],
      [(''ledger_index_min'', JNum 5), (''ledger_index_max'', JNum 9),
       (''transactions'', JArr [JObj [(''validated'', JBool True), (''hash'', JStr ''BB''), (''tx_json'', JObj [])]])]]"

definition two_server :: "nat rpc" where
  "two_server = \<lparr>rp_Post = (\<lambda>_ n. (Body (JObj [(''result'', JObj (two_pages ! n))]), Suc n)), rp_Fold = (\<lambda>_ _. False), rp_Upper = (\<lambda>s. s)\<rparr>"

lemma two_pages_run: "pages_run two_server ''rA'' None two_pages 0 2"
  by code_simp

lemma two_pages_last: "marker_of (last two_pages) = None" "length two_pages = 2" "two_pages \<noteq> []"
  by code_simp+

lemma two_pages_read: "map tr_Hash (concat (map (page_records (\<lambda>_ _. False)) two_pages)) = [''AA'', ''BB''] \<and>
    fold page_range two_pages \<lparr>rg_Min = -1, rg_Max = -1\<rparr> = \<lparr>rg_Min = 5, rg_Max = 9\<rparr>"
  by code_simp

theorem account_tx_complete_witness:
  "\<exists>recs. rpc_AccountTx two_server ''rA'' 0 = (Inr (recs, \<lparr>rg_Min = 5, rg_Max = 9\<rparr>), 2) \<and> map tr_Hash recs = [''AA'', ''BB'']"
  using account_tx_complete [OF two_pages_run] two_pages_last two_pages_read
  by (simp add: maxAccountTxPages_def two_server_def)

text \<open>The server \<open>r\<close> with a count of the requests it has answered.\<close>

definition counted :: "'w rpc \<Rightarrow> ('w \<times> nat) rpc" where
  "counted r = \<lparr>rp_Post = (\<lambda>b (w, n). let (a, w') = rp_Post r b w in (a, (w', Suc n))), rp_Fold = rp_Fold r, rp_Upper = rp_Upper r\<rparr>"

lemma counted_call: "snd (snd (rpc_call (counted r) method params wn)) = Suc (snd wn)"
  by (simp add: rpc_call_def counted_def Let_def case_prod_unfold)

lemma account_pages_requests: "snd (snd (account_pages n (counted r) account marker out rng wn)) \<le> snd wn + n"
proof (induction n arbitrary: marker out rng wn)
  case (Suc n)
  obtain x wn1 where c: "rpc_call (counted r) ''account_tx'' (page_params account marker) wn = (x, wn1)" by (rule prod.exhaust)
  then have s: "snd wn1 = Suc (snd wn)" using counted_call [of r "''account_tx''" "page_params account marker" wn] by simp
  have le: "snd (snd (account_pages n (counted r) account mk out' rng' wn1)) \<le> snd wn + Suc n" for mk out' rng' using Suc.IH [of mk out' rng' wn1] s by simp
  show ?case using le s by (auto simp: act_then_def c act_ok_def act_fail_def Let_def split: sum.splits option.splits json.splits)
qed (simp add: act_fail_def)

text \<open>C17.  No server, however it misbehaves, keeps the client asking: reading a history ends after at most 5000 requests.\<close>
theorem account_tx_requests: "snd (snd (rpc_AccountTx (counted r) account (w, 0))) \<le> 5000"
  using account_pages_requests [of 5000 r account None "[]" _ "(w, 0)"] by (simp add: rpc_AccountTx_def maxAccountTxPages_def)

end
