(* ===== verification/Galois.thy ===== *)
theory Galois
  imports Prelude
begin

text \<open>
  The arithmetic of \<^verbatim>\<open>internal/crypto/shamir/shamir.go\<close> on bytes: \<open>add\<close>, \<open>mult\<close>, \<open>inverse\<close> and \<open>div\<close>, and the
  proof that it is the field GF(256).  \<open>mult\<close> runs the source's loop of eight masked steps.  The proof
  reads the loop as a sum of iterated doublings \<open>xtime\<close>, from which the ring laws follow by linearity;
  inverses come from the powers of 3, which a kernel computation shows to be all nonzero bytes.
\<close>

section \<open>The source's operations\<close>

definition gf_add :: "byte \<Rightarrow> byte \<Rightarrow> byte" where
  "gf_add a b = a XOR b"

definition mult_step :: "byte \<Rightarrow> byte \<Rightarrow> nat \<Rightarrow> byte \<Rightarrow> byte" where
  "mult_step a b i r = ((- (drop_bit i b AND 1)) AND a) XOR ((- (drop_bit 7 r)) AND 0x1B) XOR (r + r)"

fun mult_loop :: "byte \<Rightarrow> byte \<Rightarrow> nat \<Rightarrow> byte \<Rightarrow> byte" where
  "mult_loop a b 0 r = r"
| "mult_loop a b (Suc i) r = mult_loop a b i (mult_step a b i r)"

definition gf_mult :: "byte \<Rightarrow> byte \<Rightarrow> byte" where
  "gf_mult a b = mult_loop a b 8 0"

definition gf_inverse :: "byte \<Rightarrow> byte" where
  "gf_inverse a =
     (let b = gf_mult a a; c = gf_mult a b; b = gf_mult c c; b = gf_mult b b; c = gf_mult b c;
          b = gf_mult b b; b = gf_mult b b; b = gf_mult b c; b = gf_mult b b; b = gf_mult a b
      in gf_mult b b)"

text \<open>\<^verbatim>\<open>div\<close>; \<open>None\<close> is the panic on a zero divisor.\<close>

definition gf_div :: "byte \<Rightarrow> byte \<Rightarrow> byte option" where
  "gf_div a b =
     (if b = 0 then None
      else let ret = gf_mult a (gf_inverse b) in Some (if a = 0 then 0 else ret))"

section \<open>Doubling\<close>

definition xtime :: "byte \<Rightarrow> byte" where
  "xtime r = ((- (drop_bit 7 r)) AND 0x1B) XOR (r + r)"

lemma drop_top: "drop_bit 7 (r :: byte) = of_bool (bit r 7)"
proof (rule bit_word_eqI)
  fix n
  have "bit r (7 + n) \<Longrightarrow> n = 0" using bit_imp_le_length [of r "7 + n"] by simp
  then show "bit (drop_bit 7 r) n = bit (of_bool (bit r 7) :: byte) n" by (auto simp: bit_simps)
qed

lemma low_bit: "drop_bit i (b :: byte) AND 1 = of_bool (bit b i)"
  by (rule bit_word_eqI) (auto simp: bit_simps)

lemma double: "(r :: byte) + r = push_bit 1 r"
  by simp

lemma minus_of_bool: "- of_bool p AND (a :: byte) = (if p then a else 0)"
  by simp

lemma xtime_alt: "xtime r = (if bit r 7 then 0x1B else 0) XOR push_bit 1 r"
  unfolding xtime_def drop_top minus_of_bool double ..

lemma mult_step_alt: "mult_step a b i r = (if bit b i then a else 0) XOR xtime r"
  unfolding mult_step_def low_bit minus_of_bool xtime_def by (simp add: xor.assoc)

lemma xtime_xor: "xtime (a XOR b) = xtime a XOR xtime b"
  unfolding xtime_alt by (rule bit_word_eqI) (auto simp: bit_simps)

lemma xtime_0 [simp]: "xtime 0 = 0"
  by (simp add: xtime_alt)

lemma xtime_pow_xor: "(xtime ^^ n) (a XOR b) = (xtime ^^ n) a XOR (xtime ^^ n) b"
  by (induction n) (simp_all add: xtime_xor)

lemma xtime_pow_0 [simp]: "(xtime ^^ n) 0 = 0"
  by (induction n) simp_all

section \<open>Multiplication as a sum\<close>

text \<open>The sum over the bits of \<open>b\<close> below \<open>n\<close>.\<close>

fun psum :: "byte \<Rightarrow> byte \<Rightarrow> nat \<Rightarrow> byte" where
  "psum a b 0 = 0"
| "psum a b (Suc n) = psum a b n XOR (if bit b n then (xtime ^^ n) a else 0)"

lemma mult_loop_psum: "mult_loop a b n r = psum a b n XOR (xtime ^^ n) r"
  by (induction n arbitrary: r) (simp_all add: mult_step_alt xtime_pow_xor funpow_swap1 xor.assoc)

lemma gf_mult_psum: "gf_mult a b = psum a b 8"
  by (simp add: gf_mult_def mult_loop_psum)

lemma psum_xor_left: "psum (a XOR c) b n = psum a b n XOR psum c b n"
  by (induction n) (simp_all add: xtime_pow_xor xor.assoc xor.left_commute)

lemma psum_xor_right: "psum a (b XOR c) n = psum a b n XOR psum a c n"
  by (induction n) (auto simp: bit_simps xor.assoc xor.left_commute)

lemma psum_xtime: "psum (xtime a) b n = xtime (psum a b n)"
  by (induction n) (simp_all add: xtime_xor funpow_swap1)

lemma gf_mult_xor: "gf_mult (a XOR c) b = gf_mult a b XOR gf_mult c b" "gf_mult a (b XOR c) = gf_mult a b XOR gf_mult a c"
  by (simp_all add: gf_mult_psum psum_xor_left psum_xor_right)

lemma gf_mult_xtime: "gf_mult (xtime a) b = xtime (gf_mult a b)"
  by (simp add: gf_mult_psum psum_xtime)

lemma gf_mult_xtime_pow: "gf_mult ((xtime ^^ n) a) b = (xtime ^^ n) (gf_mult a b)"
  by (induction n) (simp_all add: gf_mult_xtime)

lemma psum_0 [simp]: "psum 0 b n = 0" "psum a 0 n = 0"
  by (induction n) simp_all

lemma gf_mult_0 [simp]: "gf_mult 0 b = 0" "gf_mult a 0 = 0"
  by (simp_all add: gf_mult_psum)

text \<open>The powers of two below the modulus.\<close>

lemma xtime_one: "n < 8 \<Longrightarrow> (xtime ^^ n) 1 = push_bit n 1"
proof (induction n)
  case (Suc n)
  then have "\<not> bit (push_bit n 1 :: byte) 7" by (simp add: bit_simps)
  then show ?case using Suc by (simp add: xtime_alt)
qed simp

lemma psum_bit: "n \<le> 8 \<Longrightarrow> psum 1 b n = take_bit n b"
proof (induction n)
  case (Suc n)
  have "take_bit (Suc n) b = take_bit n b XOR (if bit b n then push_bit n 1 else 0)"
    by (rule bit_word_eqI) (auto simp: bit_simps less_Suc_eq)
  then show ?case using Suc by (simp add: xtime_one)
qed simp

lemma gf_mult_1_left: "gf_mult 1 b = b"
  by (simp add: gf_mult_psum psum_bit take_bit_word_eq_self)

lemma psum_single: "m < n \<Longrightarrow> n \<le> 8 \<Longrightarrow> psum a (push_bit m 1) n = (xtime ^^ m) a"
proof (induction n)
  case (Suc n)
  have b: "bit (push_bit m 1 :: byte) k \<longleftrightarrow> k = m" if "k < 8" for k using that Suc.prems by (auto simp: bit_simps)
  have z: "psum a (push_bit m 1) k = 0" if "k \<le> m" for k
    using that by (induction k) (use b Suc.prems in auto)
  show ?case
  proof (cases "m = n")
    case True
    then show ?thesis using b [of n] z [of n] Suc.prems by simp
  next
    case False
    then show ?thesis using b [of n] Suc by auto
  qed
qed simp

lemma gf_mult_xtime_one: "n < 8 \<Longrightarrow> gf_mult a ((xtime ^^ n) 1) = (xtime ^^ n) a"
  unfolding gf_mult_psum by (subst xtime_one) (simp_all only: psum_single)

text \<open>An additive map is fixed by its values at the powers of two.\<close>

lemma additive_psum:
  assumes "\<And>x y. f (x XOR y) = f x XOR f y"
  shows "f (psum 1 b n) = fold (\<lambda>i s. s XOR (if bit b i then f ((xtime ^^ i) 1) else 0)) [0..<n] 0"
proof (induction n)
  case 0
  have "f 0 = f 0 XOR f 0" using assms [of 0 0] by simp
  then show ?case by simp
next
  case (Suc n)
  have "f 0 = 0" using assms [of 0 0] by simp
  then show ?case using Suc by (simp add: assms)
qed

lemma additive_eq:
  assumes "\<And>x y. f (x XOR y) = f x XOR f y" "\<And>x y. g (x XOR y) = g x XOR g y"
    and "\<And>i. i < 8 \<Longrightarrow> f ((xtime ^^ i) 1) = g ((xtime ^^ i) 1)"
  shows "f b = g b"
proof -
  have "fold (\<lambda>i s. s XOR (if bit b i then f ((xtime ^^ i) 1) else 0)) [0..<8] 0
      = fold (\<lambda>i s. s XOR (if bit b i then g ((xtime ^^ i) 1) else 0)) [0..<8] 0"
    by (rule fold_cong) (simp_all add: assms(3))
  then have "f (psum 1 b 8) = g (psum 1 b 8)" by (simp only: additive_psum [of f, OF assms(1)] additive_psum [of g, OF assms(2)])
  then show ?thesis using gf_mult_1_left [of b] by (simp add: gf_mult_psum)
qed

lemma gf_mult_commute: "gf_mult a b = gf_mult b a"
proof (rule additive_eq [of "\<lambda>b. gf_mult a b" "\<lambda>b. gf_mult b a"])
  show "gf_mult a ((xtime ^^ i) 1) = gf_mult ((xtime ^^ i) 1) a" if "i < 8" for i
    using that by (simp add: gf_mult_xtime_one gf_mult_xtime_pow gf_mult_1_left)
qed (simp_all add: gf_mult_xor)

lemma gf_mult_assoc: "gf_mult (gf_mult a b) c = gf_mult a (gf_mult b c)"
proof (rule additive_eq [of "\<lambda>c. gf_mult (gf_mult a b) c" "\<lambda>c. gf_mult a (gf_mult b c)"])
  show "gf_mult (gf_mult a b) ((xtime ^^ i) 1) = gf_mult a (gf_mult b ((xtime ^^ i) 1))" if "i < 8" for i
    unfolding gf_mult_xtime_one [OF that] gf_mult_commute [of a "(xtime ^^ i) b"] gf_mult_xtime_pow
    by (simp only: gf_mult_commute [of b a])
qed (simp_all add: gf_mult_xor)

section \<open>Powers of three\<close>

text \<open>Multiplication by 3 on the eight bits of a byte, lowest first.\<close>

fun bits3 :: "bool list \<Rightarrow> bool list" where
  "bits3 [a0, a1, a2, a3, a4, a5, a6, a7] =
     [a7 \<noteq> a0, (a0 \<noteq> a7) \<noteq> a1, a1 \<noteq> a2, (a2 \<noteq> a7) \<noteq> a3, (a3 \<noteq> a7) \<noteq> a4, a4 \<noteq> a5, a5 \<noteq> a6, a6 \<noteq> a7]"
| "bits3 _ = []"

definition byte_bits :: "byte \<Rightarrow> bool list" where
  "byte_bits w = map (bit w) [0..<8]"

lemma byte_bits_inject: "byte_bits v = byte_bits w \<Longrightarrow> v = w"
  by (rule bit_word_eqI) (auto simp: byte_bits_def map_eq_conv)

lemma byte_bits_list: "byte_bits w = [bit w 0, bit w 1, bit w 2, bit w 3, bit w 4, bit w 5, bit w 6, bit w 7]"
proof -
  have "[0..<8] = [0, 1, 2, 3, 4, 5, 6, 7 :: nat]" by code_simp
  then show ?thesis by (simp add: byte_bits_def)
qed

lemma bit_xtime: "n < 8 \<Longrightarrow> bit (xtime w) n \<longleftrightarrow> (bit w 7 \<and> bit (0x1B :: byte) n) \<noteq> (0 < n \<and> bit w (n - 1))"
proof -
  have "bit (push_bit 1 w) n \<longleftrightarrow> 0 < n \<and> n < 8 \<and> bit w (n - 1)" by (simp only: bit_push_bit_iff) auto
  then show "n < 8 \<Longrightarrow> ?thesis" unfolding xtime_alt bit_xor_iff by auto
qed

lemma byte_bits_3: "byte_bits (xtime w XOR w) = bits3 (byte_bits w)"
  unfolding byte_bits_list bit_xor_iff by (simp add: bit_xtime del: One_nat_def) auto

fun bits_powers :: "nat \<Rightarrow> bool list \<Rightarrow> bool list list" where
  "bits_powers 0 x = []"
| "bits_powers (Suc n) x = x # bits_powers n (bits3 x)"

text \<open>All lists of \<open>n\<close> bits occur in \<open>ps\<close>, decided by splitting on the first bit.\<close>

fun tails :: "bool \<Rightarrow> bool list list \<Rightarrow> bool list list" where
  "tails b [] = []"
| "tails b ([] # ps) = tails b ps"
| "tails b ((c # p) # ps) = (if b = c then p # tails b ps else tails b ps)"

fun covers :: "nat \<Rightarrow> bool list list \<Rightarrow> bool" where
  "covers 0 ps = (ps \<noteq> [])"
| "covers (Suc n) ps = (covers n (tails True ps) \<and> covers n (tails False ps))"

lemma set_tails: "p \<in> set (tails b ps) \<longleftrightarrow> b # p \<in> set ps"
  by (induction b ps rule: tails.induct) auto

lemma covers_mem: "covers n ps \<Longrightarrow> \<forall>p \<in> set ps. length p = n \<Longrightarrow> length t = n \<Longrightarrow> t \<in> set ps"
proof (induction n arbitrary: ps t)
  case 0
  then show ?case by (cases ps) auto
next
  case (Suc n)
  obtain b t' where t: "t = b # t'" "length t' = n" using Suc.prems(3) by (cases t) auto
  have "covers n (tails b ps)" using Suc.prems(1) by (cases b) simp_all
  moreover have "\<forall>p \<in> set (tails b ps). length p = n" using Suc.prems(2) by (fastforce simp: set_tails)
  ultimately have "t' \<in> set (tails b ps)" using Suc.IH t(2) by blast
  then show ?case using t(1) by (simp add: set_tails)
qed

lemma powers_cover: "covers 8 (replicate 8 False # bits_powers 255 (True # replicate 7 False))"
  by code_simp

lemma powers_cycle: "(bits3 ^^ 255) (True # replicate 7 False) = True # replicate 7 False"
  by code_simp

definition pow3 :: "nat \<Rightarrow> byte" where
  "pow3 k = ((\<lambda>w. xtime w XOR w) ^^ k) 1"

lemma pow3_simps: "pow3 0 = 1" "pow3 (Suc k) = xtime (pow3 k) XOR pow3 k"
  by (simp_all add: pow3_def)

lemma byte_bits_pow3: "byte_bits (pow3 k) = (bits3 ^^ k) (True # replicate 7 False)"
  by (induction k) (simp_all add: pow3_simps byte_bits_3, simp add: byte_bits_list eval_nat_numeral)

lemma bits_powers_nth: "bits_powers n x = map (\<lambda>k. (bits3 ^^ k) x) [0..<n]"
  by (induction n arbitrary: x) (simp_all add: upt_conv_Cons funpow_swap1 map_Suc_upt [symmetric] del: upt_Suc)

lemma length_bits3_pow: "length ((bits3 ^^ k) (True # replicate 7 False)) = 8"
  by (simp only: byte_bits_pow3 [symmetric] byte_bits_def) simp

lemma nonzero_pow3:
  assumes "w \<noteq> 0"
  shows "\<exists>k. w = pow3 k"
proof -
  let ?ps = "replicate 8 False # bits_powers 255 (True # replicate 7 False)"
  have "\<forall>p \<in> set ?ps. length p = 8" by (auto simp: bits_powers_nth length_bits3_pow)
  from covers_mem [OF powers_cover this, of "byte_bits w"] have "byte_bits w \<in> set ?ps" by (simp add: byte_bits_def)
  moreover have "byte_bits w \<noteq> replicate 8 False"
  proof
    assume "byte_bits w = replicate 8 False"
    then have "byte_bits w = byte_bits 0" by (simp add: byte_bits_list eval_nat_numeral)
    then show False using byte_bits_inject assms by blast
  qed
  ultimately obtain k where "byte_bits w = (bits3 ^^ k) (True # replicate 7 False)" by (auto simp: bits_powers_nth)
  then show ?thesis using byte_bits_inject byte_bits_pow3 by metis
qed

lemma pow3_255: "pow3 255 = 1"
proof -
  have "byte_bits (pow3 255) = byte_bits (pow3 0)" by (simp only: byte_bits_pow3 powers_cycle funpow_0)
  then show ?thesis using byte_bits_inject pow3_simps(1) by metis
qed

section \<open>The field\<close>

typedef gf = "UNIV :: byte set"
  morphisms ungf GF ..

setup_lifting type_definition_gf

instantiation gf :: comm_ring_1
begin

lift_definition zero_gf :: gf is 0 .
lift_definition one_gf :: gf is 1 .
lift_definition plus_gf :: "gf \<Rightarrow> gf \<Rightarrow> gf" is gf_add .
lift_definition minus_gf :: "gf \<Rightarrow> gf \<Rightarrow> gf" is gf_add .
lift_definition uminus_gf :: "gf \<Rightarrow> gf" is "\<lambda>a. a" .
lift_definition times_gf :: "gf \<Rightarrow> gf \<Rightarrow> gf" is gf_mult .

instance
proof
  fix a b c :: gf
  show "a * b * c = a * (b * c)" by transfer (rule gf_mult_assoc)
  show "a * b = b * a" by transfer (rule gf_mult_commute)
  show "1 * a = a" by transfer (rule gf_mult_1_left)
  show "(a + b) * c = a * c + b * c" by transfer (simp add: gf_add_def gf_mult_xor)
  show "a + b + c = a + (b + c)" by transfer (simp add: gf_add_def xor.assoc)
  show "a + b = b + a" by transfer (simp add: gf_add_def xor.commute)
  show "0 + a = a" "- a + a = 0" "a - b = a + - b" by (transfer; simp add: gf_add_def)+
  show "(0 :: gf) \<noteq> 1" by transfer simp
qed

end

lemma three_mult: "gf_mult w 3 = xtime w XOR w"
proof -
  have "(3 :: byte) = (xtime ^^ 1) 1 XOR (xtime ^^ 0) 1" by (simp add: xtime_alt)
  then show ?thesis by (simp only: gf_mult_xor gf_mult_xtime_one [of 1] gf_mult_xtime_one [of 0]) simp
qed

lemma GF_pow3: "GF (pow3 k) = GF 3 ^ k"
proof (induction k)
  case (Suc k)
  have "GF (pow3 (Suc k)) = GF (gf_mult (pow3 k) 3)" by (simp add: pow3_simps three_mult)
  also have "\<dots> = GF 3 ^ Suc k" using Suc by (simp add: times_gf.abs_eq [symmetric] mult.commute)
  finally show ?case .
qed (simp add: pow3_simps one_gf_def)

lemma gf_pow_255:
  assumes "x \<noteq> (0 :: gf)"
  shows "x ^ 255 = 1"
proof -
  have "ungf x \<noteq> 0" using assms by (metis zero_gf.rep_eq ungf_inject)
  then obtain k where "ungf x = pow3 k" using nonzero_pow3 by blast
  then have "x = GF 3 ^ k" by (metis GF_pow3 ungf_inverse)
  then have "x ^ 255 = (GF 3 ^ 255) ^ k" by (simp add: power_mult [symmetric] mult.commute)
  also have "\<dots> = 1" by (simp add: GF_pow3 [symmetric] pow3_255 one_gf_def [symmetric])
  finally show ?thesis .
qed

lemma GF_inverse_pow: "GF (gf_inverse a) = GF a ^ 254"
proof -
  let ?x = "GF a"
  have p: "?x ^ m * ?x ^ n = ?x ^ (m + n)" for m n by (simp add: power_add)
  have "?x * ?x = ?x ^ 2" by (simp add: power2_eq_square)
  moreover have "?x * ?x ^ 2 = ?x ^ 3" "?x * ?x ^ 126 = ?x ^ 127" by (simp_all add: power_numeral_reduce eval_nat_numeral)
  ultimately show ?thesis
    by (simp only: gf_inverse_def Let_def times_gf.abs_eq [symmetric]) (simp add: p)
qed

instantiation gf :: field
begin

lift_definition inverse_gf :: "gf \<Rightarrow> gf" is gf_inverse .

definition divide_gf :: "gf \<Rightarrow> gf \<Rightarrow> gf" where
  "divide_gf x y = x * inverse y"

instance
proof
  fix a b :: gf
  have i: "inverse a = a ^ 254" by (metis GF_inverse_pow inverse_gf.abs_eq ungf_inverse)
  show "inverse a * a = 1" if "a \<noteq> 0"
    using gf_pow_255 [OF that] i power_Suc2 [of a 254] by simp
  show "a div b = a * inverse b" by (rule divide_gf_def)
  show "inverse (0 :: gf) = 0" by transfer (simp add: gf_inverse_def)
qed

end

end
