(* ===== verification/Lagrange.thy ===== *)
theory Lagrange
  imports Main
begin

text \<open>
  Interpolation over a field, without a polynomial library: a polynomial is the list of its
  coefficients, lowest first.  A polynomial of fewer coefficients than it has distinct roots is zero
  everywhere, so two that agree at enough points agree everywhere, and the interpolation sum is one of
  them.
\<close>

definition peval :: "'a::field list \<Rightarrow> 'a \<Rightarrow> 'a" where
  "peval cs x = foldr (\<lambda>c acc. c + x * acc) cs 0"

lemma peval_simps [simp]: "peval [] x = 0" "peval (c # cs) x = c + x * peval cs x"
  by (simp_all add: peval_def)

text \<open>The functions given by \<open>n\<close> coefficients.\<close>

definition polyfun :: "nat \<Rightarrow> ('a::field \<Rightarrow> 'a) \<Rightarrow> bool" where
  "polyfun n f \<longleftrightarrow> (\<exists>cs. length cs = n \<and> f = peval cs)"

lemma polyfun_peval: "polyfun (length cs) (peval cs)"
  by (auto simp: polyfun_def)

lemma polyfun_0: "polyfun 0 f \<longleftrightarrow> (\<forall>x. f x = 0)"
  by (auto simp: polyfun_def fun_eq_iff)

lemma polyfun_Suc: "polyfun (Suc n) f \<longleftrightarrow> (\<exists>c g. polyfun n g \<and> (\<forall>x. f x = c + x * g x))"
proof
  assume "polyfun (Suc n) f"
  then obtain cs where cs: "length cs = Suc n" "f = peval cs" by (auto simp: polyfun_def)
  then obtain c ds where "cs = c # ds" "length ds = n" by (cases cs) auto
  then show "\<exists>c g. polyfun n g \<and> (\<forall>x. f x = c + x * g x)"
    using cs by (intro exI [of _ c] exI [of _ "peval ds"]) (auto simp: polyfun_def)
next
  assume "\<exists>c g. polyfun n g \<and> (\<forall>x. f x = c + x * g x)"
  then obtain c ds where "length ds = n" "\<forall>x. f x = c + x * peval ds x" by (auto simp: polyfun_def)
  then show "polyfun (Suc n) f" unfolding polyfun_def by (intro exI [of _ "c # ds"]) (auto simp: fun_eq_iff)
qed

lemma polyfun_zero: "polyfun n (\<lambda>x. 0)"
  by (induction n) (auto simp: polyfun_0 polyfun_Suc intro!: exI [of _ 0])

lemma polyfun_const: "0 < n \<Longrightarrow> polyfun n (\<lambda>x. c)"
  by (cases n) (auto simp: polyfun_Suc intro!: exI [of _ c] exI [of _ "\<lambda>x. 0"] polyfun_zero)

lemma polyfun_scale: "polyfun n f \<Longrightarrow> polyfun n (\<lambda>x. c * f x)"
proof (induction n arbitrary: f)
  case (Suc n)
  then obtain d g where "polyfun n g" "\<forall>x. f x = d + x * g x" by (auto simp: polyfun_Suc)
  then show ?case using Suc.IH [of g] unfolding polyfun_Suc
    by (intro exI [of _ "c * d"] exI [of _ "\<lambda>x. c * g x"]) (auto simp: algebra_simps)
qed (simp add: polyfun_0)

lemma polyfun_add: "polyfun n f \<Longrightarrow> polyfun n g \<Longrightarrow> polyfun n (\<lambda>x. f x + g x)"
proof (induction n arbitrary: f g)
  case (Suc n)
  then obtain c f' d g' where "polyfun n f'" "\<forall>x. f x = c + x * f' x" "polyfun n g'" "\<forall>x. g x = d + x * g' x"
    by (auto simp: polyfun_Suc)
  then show ?case using Suc.IH [of f' g'] unfolding polyfun_Suc
    by (intro exI [of _ "c + d"] exI [of _ "\<lambda>x. f' x + g' x"]) (auto simp: algebra_simps)
qed (simp add: polyfun_0)

lemma polyfun_pad: "polyfun n f \<Longrightarrow> n \<le> m \<Longrightarrow> polyfun m f"
proof (induction m arbitrary: n f)
  case (Suc m)
  show ?case
  proof (cases n)
    case 0
    then have "f = (\<lambda>x. 0)" using Suc.prems by (auto simp: polyfun_0)
    then show ?thesis by (simp add: polyfun_zero)
  next
    case (Suc k)
    then obtain c g where "polyfun k g" "\<forall>x. f x = c + x * g x" using Suc.prems by (auto simp: polyfun_Suc)
    then show ?thesis using Suc.IH [of k g] Suc.prems \<open>n = Suc k\<close> by (auto simp: polyfun_Suc)
  qed
qed (simp add: polyfun_0)

lemma polyfun_linear: "polyfun n f \<Longrightarrow> polyfun (Suc n) (\<lambda>x. f x * (x - a))"
proof -
  assume f: "polyfun n f"
  then have "polyfun (Suc n) (\<lambda>x. 0 + x * f x)" unfolding polyfun_Suc by blast
  moreover have "polyfun (Suc n) (\<lambda>x. - a * f x)" by (rule polyfun_scale [OF polyfun_pad [OF f]]) simp
  ultimately have "polyfun (Suc n) (\<lambda>x. (0 + x * f x) + - a * f x)" by (rule polyfun_add)
  then show ?thesis by (simp add: algebra_simps)
qed

lemma polyfun_sum: "(\<And>i. i \<in> set is \<Longrightarrow> polyfun n (f i)) \<Longrightarrow> polyfun n (\<lambda>x. \<Sum>i\<leftarrow>is. f i x)"
  by (induction "is") (auto intro: polyfun_zero polyfun_add)

text \<open>Division by a linear factor.\<close>

lemma polyfun_factor:
  "polyfun (Suc n) f \<Longrightarrow> \<exists>q. polyfun n q \<and> (\<forall>x. f x = q x * (x - a) + f a)"
proof (induction n arbitrary: f)
  case 0
  then obtain c where "\<forall>x. f x = c" by (auto simp: polyfun_Suc polyfun_0)
  then show ?case by (intro exI [of _ "\<lambda>x. 0"]) (simp add: polyfun_0)
next
  case (Suc n)
  then obtain c g where g: "polyfun (Suc n) g" "\<forall>x. f x = c + x * g x" by (auto simp: polyfun_Suc)
  then obtain q where q: "polyfun n q" "\<forall>x. g x = q x * (x - a) + g a" using Suc.IH by blast
  have "polyfun (Suc n) (\<lambda>x. g a + x * q x)" unfolding polyfun_Suc using q(1) by blast
  moreover have "f x = (g a + x * q x) * (x - a) + f a" for x
  proof -
    have "f x = c + x * (q x * (x - a) + g a)" using g(2) q(2) by metis
    moreover have "f a = c + a * g a" using g(2) by blast
    ultimately show ?thesis by (simp add: algebra_simps)
  qed
  ultimately show ?case by blast
qed

lemma polyfun_roots:
  assumes "polyfun (length xs) f" "distinct xs" "\<forall>x \<in> set xs. f x = 0"
  shows "f x = 0"
  using assms
proof (induction xs arbitrary: f x)
  case Nil
  then show ?case by (simp add: polyfun_0)
next
  case (Cons a xs)
  obtain q where q: "polyfun (length xs) q" "\<forall>x. f x = q x * (x - a) + f a"
    using polyfun_factor Cons.prems(1) by (metis length_Cons)
  have fa: "f a = 0" using Cons.prems(3) by simp
  have "\<forall>x \<in> set xs. q x = 0"
  proof
    fix y assume "y \<in> set xs"
    then have "f y = 0" "y \<noteq> a" using Cons.prems(2,3) by auto
    moreover have "f y = q y * (y - a) + f a" using q(2) by blast
    ultimately show "q y = 0" using fa by simp
  qed
  then have "q x = 0" using Cons.IH [OF q(1)] Cons.prems(2) by simp
  then show ?case using q(2) fa by simp
qed

text \<open>Synthetic division, on the coefficients: enough distinct roots make every coefficient zero.\<close>

fun synth :: "'a::field \<Rightarrow> 'a list \<Rightarrow> 'a list" where
  "synth a [] = []"
| "synth a [c] = []"
| "synth a (c # d # ds) = peval (d # ds) a # synth a (d # ds)"

lemma synth_eval: "peval cs x = peval (synth a cs) x * (x - a) + peval cs a"
proof (induction a cs rule: synth.induct)
  case (3 a c d ds)
  have "peval (c # d # ds) x = c + x * (peval (synth a (d # ds)) x * (x - a) + peval (d # ds) a)"
    using 3 by (simp only: peval_simps(2) [of c "d # ds"])
  then show ?case by (simp add: algebra_simps)
qed simp_all

lemma length_synth: "length (synth a cs) = length cs - 1"
  by (induction a cs rule: synth.induct) simp_all

lemma synth_zero: "set (synth a cs) \<subseteq> {0} \<Longrightarrow> peval cs a = 0 \<Longrightarrow> set cs \<subseteq> {0}"
proof (induction a cs rule: synth.induct)
  case (3 a c d ds)
  then have "set (d # ds) \<subseteq> {0}" "peval (d # ds) a = 0" by simp_all
  moreover from this(2) have "c = 0" using 3(3) by (simp only: peval_simps(2) [of c "d # ds"]) simp
  ultimately show ?case by simp
qed simp_all

lemma peval_roots:
  assumes "length cs = length xs" "distinct xs" "\<forall>x \<in> set xs. peval cs x = 0"
  shows "set cs \<subseteq> {0}"
  using assms
proof (induction xs arbitrary: cs)
  case (Cons a xs)
  have "peval (synth a cs) y = 0" if "y \<in> set xs" for y
  proof -
    have "peval cs y = 0" "peval cs a = 0" "y \<noteq> a" using Cons.prems(2,3) that by auto
    then show ?thesis using synth_eval [of cs y a] by simp
  qed
  then have "set (synth a cs) \<subseteq> {0}" using Cons.IH [of "synth a cs"] Cons.prems by (simp add: length_synth)
  then show ?case using synth_zero Cons.prems(3) by fastforce
qed simp

lemma peval_diff: "length cs = length ds \<Longrightarrow> peval (map2 (-) cs ds) x = peval cs x - peval ds x"
  by (induction cs ds rule: list_induct2) (simp_all add: right_diff_distrib)

lemma peval_inject:
  assumes "length cs = length xs" "length ds = length xs" "distinct xs" "\<forall>x \<in> set xs. peval cs x = peval ds x"
  shows "cs = ds"
proof -
  have z: "set (map2 (-) cs ds) \<subseteq> {0}"
    by (rule peval_roots [OF _ assms(3)]) (use assms in \<open>simp_all add: peval_diff\<close>)
  show ?thesis
  proof (rule nth_equalityI)
    fix i assume "i < length cs"
    then have "cs ! i - ds ! i \<in> set (map2 (-) cs ds)" using assms(1,2) by (auto simp: set_zip)
    then show "cs ! i = ds ! i" using z by auto
  qed (simp add: assms)
qed

section \<open>The interpolation sum\<close>

definition lbasis :: "'a::field list \<Rightarrow> nat \<Rightarrow> 'a \<Rightarrow> 'a" where
  "lbasis xs i x = (\<Prod>j\<leftarrow>filter (\<lambda>j. j \<noteq> i) [0..<length xs]. (x - xs ! j) / (xs ! i - xs ! j))"

definition interpolate :: "'a::field list \<Rightarrow> 'a list \<Rightarrow> 'a \<Rightarrow> 'a" where
  "interpolate xs ys x = (\<Sum>i\<leftarrow>[0..<length xs]. ys ! i * lbasis xs i x)"

lemma polyfun_prod: "polyfun (Suc (length js)) (\<lambda>x. \<Prod>j\<leftarrow>js. (x - a j) / b j)"
proof (induction js)
  case Nil
  then show ?case by (simp add: polyfun_const)
next
  case (Cons j js)
  have "polyfun (Suc (length (j # js))) (\<lambda>x. (1 / b j) * ((\<Prod>j\<leftarrow>js. (x - a j) / b j) * (x - a j)))"
    using polyfun_scale [OF polyfun_linear [OF Cons, of "a j"], of "1 / b j"] by (simp only: length_Cons)
  then show ?case by (simp add: mult.commute)
qed

lemma length_others: "i < n \<Longrightarrow> Suc (length (filter (\<lambda>j. j \<noteq> i) [0..<n])) = n"
proof -
  assume "i < n"
  have "length (filter (\<lambda>j. j \<noteq> i) [0..<n]) = card ({0..<n} - {i})"
    by (subst distinct_card [symmetric]) (auto intro!: arg_cong [where f = card])
  then show ?thesis using \<open>i < n\<close> by simp
qed

lemma polyfun_interpolate: "polyfun (length xs) (interpolate xs ys)"
  unfolding interpolate_def
proof (rule polyfun_sum)
  fix i assume "i \<in> set [0..<length xs]"
  then have "polyfun (length xs) (lbasis xs i)"
    unfolding lbasis_def using polyfun_prod [of "filter (\<lambda>j. j \<noteq> i) [0..<length xs]"] length_others [of i "length xs"] by simp
  then show "polyfun (length xs) (\<lambda>x. ys ! i * lbasis xs i x)" by (rule polyfun_scale)
qed

lemma lbasis_at:
  assumes "distinct xs" "i < length xs" "k < length xs"
  shows "lbasis xs i (xs ! k) = (if k = i then 1 else 0)"
proof (cases "k = i")
  case True
  have "(\<Prod>j\<leftarrow>js. (xs ! i - xs ! j) / (xs ! i - xs ! j)) = 1" if "\<forall>j \<in> set js. xs ! i \<noteq> xs ! j" for js
    using that by (induction js) auto
  then show ?thesis using assms True by (simp add: lbasis_def nth_eq_iff_index_eq)
next
  case False
  have "(\<Prod>j\<leftarrow>js. (xs ! k - xs ! j) / (xs ! i - xs ! j)) = 0" if "k \<in> set js" for js
    using that by (induction js) auto
  then show ?thesis using assms False by (simp add: lbasis_def)
qed

lemma sum_list_single: "distinct is \<Longrightarrow> (\<Sum>i\<leftarrow>is. f i * (if k = i then 1 else 0)) = (if k \<in> set is then f k else (0::'a::field))"
  by (induction "is") auto

lemma interpolate_at:
  assumes "distinct xs" "k < length xs"
  shows "interpolate xs ys (xs ! k) = ys ! k"
proof -
  have "interpolate xs ys (xs ! k) = (\<Sum>i\<leftarrow>[0..<length xs]. ys ! i * (if k = i then 1 else 0))"
    unfolding interpolate_def by (rule arg_cong [where f = sum_list], rule map_cong) (auto simp: lbasis_at assms)
  then show ?thesis using assms by (simp add: sum_list_single)
qed

text \<open>The interpolation of a polynomial at enough distinct points is the polynomial.\<close>

lemma interpolate_peval:
  assumes "distinct xs" "length cs \<le> length xs"
  shows "interpolate xs (map (peval cs) xs) x = peval cs x"
proof -
  let ?d = "\<lambda>x. interpolate xs (map (peval cs) xs) x + - 1 * peval cs x"
  have "polyfun (length xs) ?d"
    by (intro polyfun_add polyfun_interpolate polyfun_scale polyfun_pad [OF polyfun_peval assms(2)])
  moreover have "\<forall>y \<in> set xs. ?d y = 0" using assms(1) by (auto simp: in_set_conv_nth interpolate_at)
  ultimately have "?d x = 0" using polyfun_roots assms(1) by blast
  then show ?thesis by simp
qed

end
