(* ===== verification/Shamir.thy ===== *)
theory Shamir
  imports Galois Lagrange
begin

text \<open>
  \<^verbatim>\<open>internal/crypto/shamir/shamir.go\<close>: polynomials over GF(256), \<open>Split\<close> and \<open>Combine\<close>.  The random
  permutation \<^verbatim>\<open>mathrand.Perm(255)\<close> and the random bytes of \<^verbatim>\<open>crypto/rand\<close> are the parameters \<open>perm\<close> and
  \<open>rand\<close>; \<open>rand i n\<close> is what the call for the \<open>i\<close>-th secret byte reads into \<open>n\<close> bytes, or \<open>None\<close> for its error.
\<close>

section \<open>Definitions\<close>

datatype shamir_error =
    PartsBelowThreshold | TooManyParts | ThresholdTooLow | ThresholdTooHigh | EmptySecret | PolynomialFailed
  | TooFewParts | PartTooShort | PartLengthMismatch | DuplicatePart | DivideByZeroPanic

definition ShareOverhead :: nat where "ShareOverhead = 1"

text \<open>\<open>makePolynomial\<close> with the bytes it read; the coefficients, lowest first.\<close>

definition makePolynomial :: "byte \<Rightarrow> byte list \<Rightarrow> byte list" where
  "makePolynomial intercept random = intercept # random"

definition evaluate :: "byte list \<Rightarrow> byte \<Rightarrow> byte" where
  "evaluate p x =
     (if x = 0 then p ! 0
      else foldl (\<lambda>out coeff. gf_add (gf_mult out x) coeff) (last p) (rev (butlast p)))"

definition basis_step :: "byte list \<Rightarrow> nat \<Rightarrow> byte \<Rightarrow> nat \<Rightarrow> byte option \<Rightarrow> byte option" where
  "basis_step xs i x j b =
     (case b of
        None \<Rightarrow> None
      | Some basis \<Rightarrow>
          (if i = j then Some basis
           else case gf_div (gf_add x (xs ! j)) (gf_add (xs ! i) (xs ! j)) of
             None \<Rightarrow> None
           | Some term \<Rightarrow> Some (gf_mult basis term)))"

definition basis_at :: "byte list \<Rightarrow> nat \<Rightarrow> byte \<Rightarrow> byte option" where
  "basis_at xs i x = fold (basis_step xs i x) [0..<length xs] (Some 1)"

definition group_step :: "byte list \<Rightarrow> byte list \<Rightarrow> byte \<Rightarrow> nat \<Rightarrow> byte option \<Rightarrow> byte option" where
  "group_step xs ys x i r =
     (case r of
        None \<Rightarrow> None
      | Some result \<Rightarrow>
          (case basis_at xs i x of
             None \<Rightarrow> None
           | Some basis \<Rightarrow> Some (gf_add result (gf_mult (ys ! i) basis))))"

definition interpolatePolynomial :: "byte list \<Rightarrow> byte list \<Rightarrow> byte \<Rightarrow> byte option" where
  "interpolatePolynomial xs ys x = fold (group_step xs ys x) [0..<length xs] (Some 0)"

fun make_polys :: "(nat \<Rightarrow> nat \<Rightarrow> byte list option) \<Rightarrow> nat \<Rightarrow> byte list \<Rightarrow> nat \<Rightarrow> shamir_error + byte list list" where
  "make_polys rand idx [] d = Inr []"
| "make_polys rand idx (v # vs) d =
     (case rand idx d of
        None \<Rightarrow> Inl PolynomialFailed
      | Some r \<Rightarrow> and_then (make_polys rand (Suc idx) vs d) (\<lambda>ps. Inr (makePolynomial v r # ps)))"

definition xCoordinate :: "nat list \<Rightarrow> nat \<Rightarrow> byte" where
  "xCoordinate perm i = of_nat (perm ! i) + 1"

definition make_share :: "byte list list \<Rightarrow> byte \<Rightarrow> byte list" where
  "make_share ps x = map (\<lambda>p. evaluate p x) ps @ [x]"

definition shamir_Split ::
    "nat list \<Rightarrow> (nat \<Rightarrow> nat \<Rightarrow> byte list option) \<Rightarrow> byte list \<Rightarrow> int \<Rightarrow> int \<Rightarrow> shamir_error + byte list list" where
  "shamir_Split perm rand secret parts threshold =
     (if parts < threshold then Inl PartsBelowThreshold
      else if parts > 255 then Inl TooManyParts
      else if threshold < 2 then Inl ThresholdTooLow
      else if threshold > 255 then Inl ThresholdTooHigh
      else if secret = [] then Inl EmptySecret
      else and_then (make_polys rand 0 secret (nat (threshold - 1))) (\<lambda>ps.
        Inr (map (\<lambda>i. make_share ps (xCoordinate perm i)) [0..<nat parts])))"

fun samples :: "byte list \<Rightarrow> byte list list \<Rightarrow> nat \<Rightarrow> shamir_error + byte list" where
  "samples seen [] k = Inr []"
| "samples seen (p # ps) k =
     (if p ! k \<in> set seen then Inl DuplicatePart
      else and_then (samples (p ! k # seen) ps k) (\<lambda>xs. Inr (p ! k # xs)))"

definition combine_byte :: "byte list \<Rightarrow> byte list list \<Rightarrow> nat \<Rightarrow> shamir_error + byte" where
  "combine_byte xs parts idx =
     (case interpolatePolynomial xs (map (\<lambda>p. p ! idx) parts) 0 of
        None \<Rightarrow> Inl DivideByZeroPanic
      | Some val \<Rightarrow> Inr val)"

definition shamir_Combine :: "byte list list \<Rightarrow> shamir_error + byte list" where
  "shamir_Combine parts =
     (if length parts < 2 then Inl TooFewParts
      else
        (let n = length (parts ! 0) in
         if n < 2 then Inl PartTooShort
         else if \<not> list_all (\<lambda>p. length p = n) (tl parts) then Inl PartLengthMismatch
         else and_then (samples [] parts (n - 1)) (\<lambda>xs.
                each_ok (combine_byte xs parts) [0..<n - 1])))"

section \<open>The code computes the field operations\<close>

lemma GF_ops: "GF (gf_add a b) = GF a + GF b" "GF (gf_mult a b) = GF a * GF b" "GF 0 = 0" "GF 1 = 1"
  "GF (gf_add a b) = GF a - GF b"
  by (simp_all add: plus_gf.abs_eq times_gf.abs_eq zero_gf_def one_gf_def minus_gf.abs_eq)

lemma GF_inject_iff [simp]: "GF a = GF b \<longleftrightarrow> a = b"
  by (metis GF_inverse UNIV_I GF_inject)

lemma gf_div_GF: "b \<noteq> 0 \<Longrightarrow> \<exists>q. gf_div a b = Some q \<and> GF q = GF a / GF b"
proof -
  assume "b \<noteq> 0"
  have "GF (gf_mult a (gf_inverse b)) = GF a / GF b"
    by (simp add: GF_ops divide_gf_def inverse_gf.abs_eq)
  then show ?thesis using \<open>b \<noteq> 0\<close> by (auto simp: gf_div_def Let_def GF_ops)
qed

lemma evaluate_peval:
  assumes "p \<noteq> []"
  shows "GF (evaluate p x) = peval (map GF p) (GF x)"
proof -
  have h: "GF (foldl (\<lambda>out coeff. gf_add (gf_mult out x) coeff) a (rev cs))
      = foldr (\<lambda>c acc. c + GF x * acc) (map GF cs) (GF a)" for a cs
    by (induction cs arbitrary: a) (simp_all add: GF_ops ac_simps)
  have "foldr (\<lambda>c acc. c + GF x * acc) (map GF (butlast p)) (GF (last p)) = peval (map GF p) (GF x)"
    using assms by (induction p) (auto simp: peval_def)
  then show ?thesis using assms h by (cases "x = 0"; cases p) (simp_all add: evaluate_def GF_ops)
qed

lemma gf_add_eq_0: "gf_add a b = 0 \<longleftrightarrow> a = b"
  by (metis GF_ops(3,5) GF_inject_iff right_minus_eq)

lemma basis_fold:
  assumes "\<forall>j \<in> set js. j \<noteq> i \<longrightarrow> xs ! i \<noteq> xs ! j" "i < length xs" "\<forall>j \<in> set js. j < length xs"
  shows "\<exists>q. fold (basis_step xs i x) js (Some b) = Some q \<and>
    GF q = GF b * (\<Prod>j\<leftarrow>filter (\<lambda>j. j \<noteq> i) js. (GF x - map GF xs ! j) / (map GF xs ! i - map GF xs ! j))"
  using assms
proof (induction js arbitrary: b)
  case (Cons j js)
  show ?case
  proof (cases "j = i")
    case True
    then show ?thesis using Cons.IH [of b] Cons.prems by (simp add: basis_step_def)
  next
    case False
    then have "gf_add (xs ! i) (xs ! j) \<noteq> 0" using Cons.prems by (simp add: gf_add_eq_0)
    from gf_div_GF [OF this, of "gf_add x (xs ! j)"] obtain d where
      d: "gf_div (gf_add x (xs ! j)) (gf_add (xs ! i) (xs ! j)) = Some d"
        "GF d = (GF x - GF (xs ! j)) / (GF (xs ! i) - GF (xs ! j))" by (auto simp: GF_ops(5))
    show ?thesis using Cons.IH [of "gf_mult b d"] Cons.prems False d
      by (auto simp: basis_step_def GF_ops mult.assoc)
  qed
qed simp

lemma basis_lbasis:
  assumes "distinct xs" "i < length xs"
  shows "\<exists>q. basis_at xs i x = Some q \<and> GF q = lbasis (map GF xs) i (GF x)"
  using basis_fold [of "[0..<length xs]" i xs x 1] assms
  by (auto simp: basis_at_def lbasis_def GF_ops nth_eq_iff_index_eq)

lemma interpolate_GF:
  assumes "distinct xs" "length ys = length xs"
  shows "\<exists>v. interpolatePolynomial xs ys x = Some v \<and> GF v = interpolate (map GF xs) (map GF ys) (GF x)"
proof -
  have "\<exists>v. fold (group_step xs ys x) is (Some a) = Some v
      \<and> GF v = GF a + (\<Sum>i\<leftarrow>is. map GF ys ! i * lbasis (map GF xs) i (GF x))"
    if "\<forall>i \<in> set is. i < length xs" for "is" a
    using that
  proof (induction "is" arbitrary: a)
    case (Cons i "is")
    obtain b where b: "basis_at xs i x = Some b" "GF b = lbasis (map GF xs) i (GF x)"
      using basis_lbasis [OF assms(1), of i x] Cons.prems by auto
    show ?case using Cons.IH [of "gf_add a (gf_mult (ys ! i) b)"] Cons.prems assms(2) b
      by (auto simp: group_step_def GF_ops(1,2) add.assoc)
  qed simp
  from this [of "[0..<length xs]" 0] show ?thesis
    by (simp add: interpolatePolynomial_def interpolate_def GF_ops)
qed

section \<open>Combining shares\<close>

lemma fresh_Cons:
  "(b \<notin> set seen \<and> (\<exists>ys. (ys = zs \<and> distinct ys \<and> (\<forall>x \<in> set ys. x \<notin> set (b # seen))) \<and> xs = b # ys)) \<longleftrightarrow>
     xs = b # zs \<and> distinct xs \<and> (\<forall>x \<in> set xs. x \<notin> set seen)"
  by auto

lemma samples_Inr:
  "samples seen ps k = Inr xs \<longleftrightarrow> xs = map (\<lambda>p. p ! k) ps \<and> distinct xs \<and> (\<forall>x \<in> set xs. x \<notin> set seen)"
proof (induction ps arbitrary: seen xs)
  case (Cons a ps)
  have "samples seen (a # ps) k = Inr xs \<longleftrightarrow>
      a ! k \<notin> set seen \<and> (\<exists>ys. samples (a ! k # seen) ps k = Inr ys \<and> xs = a ! k # ys)"
    by (auto simp: and_then_Inr)
  also have "\<dots> \<longleftrightarrow> xs = map (\<lambda>p. p ! k) (a # ps) \<and> distinct xs \<and> (\<forall>x \<in> set xs. x \<notin> set seen)"
    unfolding Cons.IH list.map by (rule fresh_Cons)
  finally show ?case .
qed auto

lemma samples_Inl: "samples seen ps k = Inl e \<Longrightarrow> e = DuplicatePart"
  by (induction ps arbitrary: seen) (auto simp: and_then_Inl split: if_splits)

lemma combine_byte_ok:
  assumes "distinct (map (\<lambda>p. p ! k) parts)"
  shows "\<exists>v. combine_byte (map (\<lambda>p. p ! k) parts) parts idx = Inr v
    \<and> GF v = interpolate (map (\<lambda>p. GF (p ! k)) parts) (map (\<lambda>p. GF (p ! idx)) parts) 0"
  using interpolate_GF [OF assms, of "map (\<lambda>p. p ! idx) parts" 0]
  by (auto simp: combine_byte_def GF_ops comp_def)

lemma each_ok_total: "(\<And>x. x \<in> set xs \<Longrightarrow> \<exists>y. f x = Inr y) \<Longrightarrow> \<exists>ys. each_ok f xs = Inr ys"
proof (induction xs)
  case (Cons x xs)
  obtain y where "f x = Inr y" using Cons.prems by auto
  moreover obtain ys where "each_ok f xs = Inr ys" using Cons by auto
  ultimately show ?case by simp
qed simp

text \<open>
  \<open>Combine\<close> never panics: whatever parts it is given, the duplicate check rules out every zero
  divisor, and it returns a secret or one of its errors.
\<close>

theorem combine_no_panic: "shamir_Combine parts \<noteq> Inl DivideByZeroPanic"
proof
  assume a: "shamir_Combine parts = Inl DivideByZeroPanic"
  let ?n = "length (parts ! 0)"
  have "samples [] parts (?n - 1) \<noteq> Inl DivideByZeroPanic" using samples_Inl by blast
  then obtain xs where xs: "samples [] parts (?n - 1) = Inr xs" "each_ok (combine_byte xs parts) [0..<?n - 1] = Inl DivideByZeroPanic"
    using a by (auto simp: shamir_Combine_def Let_def and_then_Inl split: if_splits)
  have d: "xs = map (\<lambda>p. p ! (?n - 1)) parts" and "distinct xs" using xs(1) unfolding samples_Inr by blast+
  then have d2: "distinct (map (\<lambda>p. p ! (?n - 1)) parts)" by (simp only: d)
  have "\<exists>ys. each_ok (combine_byte xs parts) [0..<?n - 1] = Inr ys"
    unfolding d using combine_byte_ok [OF d2] by (intro each_ok_total) blast
  then show False using xs(2) by auto
qed

section \<open>Splitting\<close>

definition perm_ok :: "nat list \<Rightarrow> bool" where
  "perm_ok perm \<longleftrightarrow> distinct perm \<and> set perm = {0..<255}"

definition rand_ok :: "(nat \<Rightarrow> nat \<Rightarrow> byte list option) \<Rightarrow> bool" where
  "rand_ok rand \<longleftrightarrow> (\<forall>i n r. rand i n = Some r \<longrightarrow> length r = n)"

lemma make_polys_Inr:
  "make_polys rand idx vs d = Inr ps \<Longrightarrow> rand_ok rand \<Longrightarrow>
     length ps = length vs \<and> (\<forall>k < length vs. length (ps ! k) = Suc d \<and> ps ! k ! 0 = vs ! k)"
proof (induction vs arbitrary: idx ps)
  case (Cons v vs)
  then obtain r qs where "rand idx d = Some r" "make_polys rand (Suc idx) vs d = Inr qs" "ps = makePolynomial v r # qs"
    by (auto simp: and_then_Inr split: option.splits)
  then show ?case using Cons.IH [of "Suc idx" qs] Cons.prems(2)
    by (auto simp: makePolynomial_def rand_ok_def nth_Cons split: nat.splits)
qed simp

lemma of_nat_byte_inject: "m < 256 \<Longrightarrow> n < 256 \<Longrightarrow> of_nat m = (of_nat n :: byte) \<longleftrightarrow> m = n"
  by (auto simp: word_unat_eq_iff unat_of_nat)

lemma xCoordinate_props:
  assumes "perm_ok perm"
  shows "i < 255 \<Longrightarrow> xCoordinate perm i \<noteq> 0"
    and "i < 255 \<Longrightarrow> j < 255 \<Longrightarrow> xCoordinate perm i = xCoordinate perm j \<longleftrightarrow> i = j"
proof -
  have l: "length perm = 255" using assms distinct_card [of perm] by (simp add: perm_ok_def)
  have r: "perm ! i < 255" if "i < 255" for i using assms nth_mem [of i perm] that l by (auto simp: perm_ok_def)
  have x: "xCoordinate perm i = of_nat (Suc (perm ! i))" for i by (simp add: xCoordinate_def)
  show "xCoordinate perm i \<noteq> 0" if "i < 255"
    using of_nat_byte_inject [of "Suc (perm ! i)" 0] r [OF that] unfolding x by simp
  show "xCoordinate perm i = xCoordinate perm j \<longleftrightarrow> i = j" if "i < 255" "j < 255"
    using of_nat_byte_inject [of "Suc (perm ! i)" "Suc (perm ! j)"] r that assms l unfolding x
    by (simp add: perm_ok_def nth_eq_iff_index_eq del: of_nat_Suc)
qed

lemma combine_shares:
  assumes "\<forall>k < length ps. length (ps ! k) = Suc d" "distinct xs" "Suc d \<le> length xs" "2 \<le> length xs" "ps \<noteq> []"
  shows "shamir_Combine (map (make_share ps) xs) = Inr (map (\<lambda>p. p ! 0) ps)"
proof -
  let ?m = "length ps" and ?sh = "map (make_share ps) xs"
  have last: "make_share ps x ! ?m = x" "length (make_share ps x) = Suc ?m" for x
    by (simp_all add: make_share_def nth_append)
  have y: "make_share ps x ! k = evaluate (ps ! k) x" if "k < ?m" for x k
    using that by (simp add: make_share_def nth_append)
  have xs: "map (\<lambda>p. p ! ?m) ?sh = xs" by (simp add: comp_def last)
  have v: "combine_byte xs ?sh k = Inr (ps ! k ! 0)" if k: "k < ?m" for k
  proof -
    have len: "length (ps ! k) = Suc d" using assms(1) k by blast
    then have ne: "ps ! k \<noteq> []" by auto
    obtain v where v: "combine_byte xs ?sh k = Inr v"
      "GF v = interpolate (map (\<lambda>p. GF (p ! ?m)) ?sh) (map (\<lambda>p. GF (p ! k)) ?sh) 0"
      using combine_byte_ok [of ?m ?sh k] assms(2) unfolding xs by blast
    have "interpolate (map (\<lambda>p. GF (p ! ?m)) ?sh) (map (\<lambda>p. GF (p ! k)) ?sh) 0
        = interpolate (map GF xs) (map (peval (map GF (ps ! k))) (map GF xs)) 0"
      using k evaluate_peval [OF ne] by (simp add: comp_def last y)
    also have "\<dots> = peval (map GF (ps ! k)) 0"
      using assms(2,3) len by (intro interpolate_peval) (simp_all add: distinct_map inj_on_def)
    also have "\<dots> = GF (ps ! k ! 0)" using ne by (cases "ps ! k") simp_all
    finally show ?thesis using v by simp
  qed
  have s: "samples [] ?sh ?m = Inr xs" using assms(2) xs by (simp add: samples_Inr)
  have e: "each_ok (combine_byte xs ?sh) [0..<?m] = Inr (map (\<lambda>k. ps ! k ! 0) [0..<?m])"
    by (rule each_ok_map) (simp add: v)
  have m: "map (\<lambda>k. ps ! k ! 0) [0..<?m] = map (\<lambda>p. p ! 0) ps" by (rule nth_equalityI) simp_all
  have n: "length (?sh ! 0) = Suc ?m" using assms(4) by (subst nth_map) (auto simp: last)
  have l: "list_all (\<lambda>p. length p = Suc ?m) (tl ?sh)" by (simp add: list_all_iff map_tl [symmetric] last)
  show ?thesis
    using assms(4,5) s e m l unfolding shamir_Combine_def n by (simp add: Let_def)
qed

lemma shamir_Split_Inr:
  assumes "shamir_Split perm rand secret n t = Inr shares"
  obtains ps where "make_polys rand 0 secret (nat (t - 1)) = Inr ps" "2 \<le> t" "t \<le> n" "n \<le> 255" "secret \<noteq> []"
    "shares = map (make_share ps) (map (xCoordinate perm) [0..<nat n])"
  using assms by (auto simp: shamir_Split_def and_then_Inr comp_def split: if_splits)

lemma make_share_x: "last (make_share ps x) = x"
  by (simp add: make_share_def)

lemma shamir_recovers:
  assumes "perm_ok perm" "rand_ok rand" "shamir_Split perm rand secret n t = Inr shares"
    and "set sel \<subseteq> set shares" "distinct sel" "t \<le> int (length sel)"
  shows "shamir_Combine sel = Inr secret"
proof -
  obtain ps where ps: "make_polys rand 0 secret (nat (t - 1)) = Inr ps" "2 \<le> t" "t \<le> n" "n \<le> 255" "secret \<noteq> []"
    "shares = map (make_share ps) (map (xCoordinate perm) [0..<nat n])"
    using shamir_Split_Inr [OF assms(3)] .
  note p = make_polys_Inr [OF ps(1) assms(2)]
  have sel: "sel = map (make_share ps) (map last sel)"
  proof (rule nth_equalityI)
    fix i assume "i < length sel"
    then have "sel ! i \<in> set shares" using assms(4) by auto
    then show "sel ! i = map (make_share ps) (map last sel) ! i" using \<open>i < length sel\<close> by (auto simp: ps(6) make_share_x)
  qed simp
  have "distinct (map last sel)" using assms(5) sel by (metis distinct_map)
  then have "shamir_Combine sel = Inr (map (\<lambda>p. p ! 0) ps)"
    by (subst sel) (rule combine_shares [of _ "nat (t - 1)"], use p ps(2,5) assms(6) in auto)
  moreover have "map (\<lambda>p. p ! 0) ps = secret" using p by (intro nth_equalityI) auto
  ultimately show ?thesis by simp
qed

text \<open>
  C12.  Any threshold of shares recovers the secret: whatever the random bytes and the random
  permutation, every selection of at least \<open>t\<close> different shares of a split, in any order, combines to
  the secret.
\<close>

theorem shamir_combine_split:
  assumes "perm_ok perm" "rand_ok rand" "shamir_Split perm rand secret n t = Inr shares"
    and "set sel \<subseteq> set shares" "distinct sel" "t \<le> int (length sel)"
  shows "shamir_Combine sel = Inr secret"
  using assms by (rule shamir_recovers)


text \<open>A split of one byte into two shares, for the witnesses.\<close>

definition sample_perm :: "nat list" where "sample_perm = [0..<255]"
definition sample_rand :: "nat \<Rightarrow> nat \<Rightarrow> byte list option" where "sample_rand i n = Some (replicate n 7)"

lemma sample_shares:
  "perm_ok sample_perm" "rand_ok sample_rand"
  "shamir_Split sample_perm sample_rand [9] 2 2 = Inr [make_share [[9, 7]] 1, make_share [[9, 7]] 2]"
proof -
  have "sample_perm ! 0 = 0" "sample_perm ! 1 = 1" by (simp_all add: sample_perm_def)
  then show "shamir_Split sample_perm sample_rand [9] 2 2 = Inr [make_share [[9, 7]] 1, make_share [[9, 7]] 2]"
    by (simp add: shamir_Split_def sample_rand_def makePolynomial_def xCoordinate_def upt_rec)
qed (auto simp: perm_ok_def sample_perm_def rand_ok_def sample_rand_def)

lemma shamir_combine_split_witness:
  "shamir_Combine [make_share [[9, 7]] 2, make_share [[9, 7]] 1] = Inr [9]"
  by (rule shamir_combine_split [OF sample_shares]) (auto simp: make_share_def)


end
