(* ===== verification/Shares.thy ===== *)
theory Shares
  imports Go_Strings Digits Shamir Crypto
begin

text \<open>
  The printed shares of the root key (\<^verbatim>\<open>internal/crypto/shares.go\<close>): a threshold byte, a split id, the
  Shamir share and two checksum bytes in Crockford base 32, cut into groups of seven characters.
  The base 32 coding is that of Go's \<^verbatim>\<open>encoding/base32\<close> without padding; SHA-256, the random split id
  and the Unicode case tables are parameters.
\<close>

section \<open>Base 32 without padding\<close>

definition crockford :: string where
  "crockford = ''0123456789ABCDEFGHJKMNPQRSTVWXYZ''"

definition b32_char :: "nat \<Rightarrow> char" where
  "b32_char v = crockford ! (v mod 32)"

text \<open>The decoding table: the value of a byte, \<open>None\<close> for a byte outside the alphabet.\<close>

definition b32_val :: "char \<Rightarrow> nat option" where
  "b32_val c = (let n = length (takeWhile (\<lambda>d. d \<noteq> c) crockford) in if n < 32 then Some n else None)"

text \<open>The number of characters for a last group of \<open>n\<close> bytes, and of bytes for a last group of \<open>n\<close> characters.\<close>

definition b32_chars :: "nat \<Rightarrow> nat" where
  "b32_chars n = (if n = 1 then 2 else if n = 2 then 4 else if n = 3 then 5 else if n = 4 then 7 else 8)"

definition b32_bytes :: "nat \<Rightarrow> nat" where
  "b32_bytes n = (if n = 8 then 5 else if n = 7 then 4 else if n = 5 then 3 else if n = 4 then 2 else if n = 2 then 1 else 0)"

text \<open>One group: up to five bytes, filled with zeros, read as a number of forty bits in digits of five bits.\<close>

definition b32_group :: "byte list \<Rightarrow> string" where
  "b32_group bs = (let v = value_of 256 (map unat (take 5 (bs @ replicate 5 0)))
     in map b32_char (take (b32_chars (length bs)) (digits 32 8 v)))"

fun EncodeToString :: "byte list \<Rightarrow> string" where
  "EncodeToString bs = (if bs = [] then [] else b32_group (take 5 bs) @ EncodeToString (drop 5 bs))"

declare EncodeToString.simps [simp del]

definition b32_ungroup :: "nat list \<Rightarrow> byte list" where
  "b32_ungroup ds = take (b32_bytes (length ds))
     (map of_nat (digits 256 5 (value_of 32 (take 8 (ds @ replicate 8 0)))))"

text \<open>
  The decoder works group by group and fails at the first byte outside the alphabet; a group of one,
  three or six characters, which no encoder writes, gives the bytes its length still determines, none.
\<close>

function decode_groups :: "string \<Rightarrow> byte list option" where
  "decode_groups s =
     (if s = [] then Some []
      else case those (map b32_val (take 8 s)) of
             None \<Rightarrow> None
           | Some ds \<Rightarrow> map_option (\<lambda>r. b32_ungroup ds @ r) (decode_groups (drop 8 s)))"
  by pat_completeness auto
termination by (relation "measure length") auto

declare decode_groups.simps [simp del]

definition DecodeString :: "string \<Rightarrow> byte list option" where
  "DecodeString s = decode_groups (filter (\<lambda>c. c \<noteq> CHR 0x0A \<and> c \<noteq> CHR 0x0D) s)"

section \<open>Shares\<close>

definition MaxShares :: int where "MaxShares = 16"

datatype shares_error =
    BadCounts | ShamirFailed shamir_error | NoRandomness
  | TooFewShares | BadShare nat shares_error | DifferentSplit nat | BelowThreshold byte nat
  | NotAKey | BadCharacters | WrongShareLength | ShareChecksum

function in_groups :: "string \<Rightarrow> string list" where
  "in_groups enc = (if 7 < length enc then take 7 enc # in_groups (drop 7 enc) else [enc])"
  by pat_completeness auto
termination by (relation "measure length") auto

declare in_groups.simps [simp del]

definition share_body :: "byte \<Rightarrow> byte list \<Rightarrow> byte list \<Rightarrow> byte list" where
  "share_body threshold splitID s = [threshold, splitID ! 0, splitID ! 1] @ s"

definition encodeShare :: "(byte list \<Rightarrow> byte list) \<Rightarrow> byte \<Rightarrow> byte list \<Rightarrow> byte list \<Rightarrow> string" where
  "encodeShare sha256 threshold splitID s =
     (let body = share_body threshold splitID s; sum = sha256 body
      in join ''-'' (in_groups (EncodeToString (body @ [sum ! 0, sum ! 1]))))"

text \<open>
  The replacer runs on the trimmed text before the case is raised, so it folds the capital letters
  only: a small \<open>o\<close>, \<open>i\<close> or \<open>l\<close> is raised afterwards and stays a letter outside the alphabet.
\<close>

definition fold_char :: "char \<Rightarrow> string" where
  "fold_char c =
     (if c = CHR ''-'' \<or> c = CHR '' '' then []
      else if c = CHR ''O'' then ''0''
      else if c = CHR ''I'' \<or> c = CHR ''L'' then ''1'' else [c])"

definition NormalizeShare :: "(string \<Rightarrow> string) \<Rightarrow> string \<Rightarrow> string" where
  "NormalizeShare uni s = to_upper uni (concat (map fold_char (trim_space s)))"

definition decodeShare ::
    "(string \<Rightarrow> string) \<Rightarrow> (byte list \<Rightarrow> byte list) \<Rightarrow> string \<Rightarrow> shares_error + (byte \<times> byte list \<times> byte list)" where
  "decodeShare uni sha256 s =
     (case DecodeString (NormalizeShare uni s) of
        None \<Rightarrow> Inl BadCharacters
      | Some b \<Rightarrow>
          if length b \<noteq> 3 + KeyLen + ShareOverhead + 2 then Inl WrongShareLength
          else
            let body = take (length b - 2) b; check = drop (length b - 2) b; sum = sha256 body
            in if sum ! 0 \<noteq> check ! 0 \<or> sum ! 1 \<noteq> check ! 1 then Inl ShareChecksum
               else Inr (body ! 0, take 2 (drop 1 body), drop 3 body))"

text \<open>\<open>splitID\<close> is the draw of two random bytes, \<open>None\<close> when it fails.\<close>

definition RootKey_Split ::
    "(byte list \<Rightarrow> byte list) \<Rightarrow> nat list \<Rightarrow> (nat \<Rightarrow> nat \<Rightarrow> byte list option) \<Rightarrow> byte list option \<Rightarrow>
      byte list \<Rightarrow> int \<Rightarrow> int \<Rightarrow> shares_error + string list" where
  "RootKey_Split sha256 perm rand splitID r n t =
     (if t < 2 \<or> n < t \<or> MaxShares < n then Inl BadCounts
      else case shamir_Split perm rand r n t of
             Inl e \<Rightarrow> Inl (ShamirFailed e)
           | Inr raw \<Rightarrow>
               (case splitID of
                  None \<Rightarrow> Inl NoRandomness
                | Some i \<Rightarrow> Inr (map (encodeShare sha256 (of_int t) i) raw)))"

text \<open>The loop over the shares: the first one fixes the threshold and the split id.\<close>

fun collect_shares ::
    "(string \<Rightarrow> string) \<Rightarrow> (byte list \<Rightarrow> byte list) \<Rightarrow> (byte \<times> byte list) option \<Rightarrow> nat \<Rightarrow> string list \<Rightarrow>
      shares_error + ((byte \<times> byte list) option \<times> byte list list)" where
  "collect_shares uni sha256 first i [] = Inr (first, [])"
| "collect_shares uni sha256 first i (s # ss) =
     (case decodeShare uni sha256 s of
        Inl e \<Rightarrow> Inl (BadShare (i + 1) e)
      | Inr (t, sid, b) \<Rightarrow>
          if first \<noteq> None \<and> first \<noteq> Some (t, sid) then Inl (DifferentSplit (i + 1))
          else and_then (collect_shares uni sha256 (Some (t, sid)) (i + 1) ss)
                 (\<lambda>(f, bs). Inr (f, b # bs)))"

definition RootKey_Combine ::
    "(string \<Rightarrow> string) \<Rightarrow> (byte list \<Rightarrow> byte list) \<Rightarrow> string list \<Rightarrow> shares_error + byte list" where
  "RootKey_Combine uni sha256 shares =
     (if length shares < 2 then Inl TooFewShares
      else and_then (collect_shares uni sha256 None 0 shares) (\<lambda>(first, raw).
        let threshold = (case first of None \<Rightarrow> 0 | Some (t, _) \<Rightarrow> t)
        in if length shares < unat threshold then Inl (BelowThreshold threshold (length shares))
           else case shamir_Combine raw of
                  Inl e \<Rightarrow> Inl (ShamirFailed e)
                | Inr secret \<Rightarrow> if length secret \<noteq> KeyLen then Inl NotAKey else Inr secret))"

section \<open>Base 32 reads what it writes\<close>

lemma b32_val_char [simp]: "v < 32 \<Longrightarrow> b32_val (b32_char v) = Some v"
proof -
  have "list_all (\<lambda>v. b32_val (b32_char v) = Some v) [0..<32]" by code_simp
  then show "v < 32 \<Longrightarrow> ?thesis" by (simp add: list_all_iff)
qed

lemma set_b32_char: "b32_char v \<in> set crockford"
  unfolding b32_char_def by (rule nth_mem) (simp add: crockford_def)

lemma length_cases5: "bs \<noteq> [] \<Longrightarrow> length bs \<le> 5 \<Longrightarrow> length bs \<in> {1, 2, 3, 4, 5}"
  by (cases "length bs"; simp; presburger)

lemma b32_group_digits:
  fixes bs :: "byte list"
  assumes "length bs = l" "l \<in> {1, 2, 3, 4, 5}"
  defines "v \<equiv> value_of 256 (map unat (take 5 (bs @ replicate 5 0)))"
  shows "take (b32_chars l) (digits 32 8 v) @ replicate (8 - b32_chars l) 0 = digits 32 8 v"
    and "b32_bytes (b32_chars l) = l" and "b32_chars l \<le> 8"
    and "map of_nat (digits 256 5 v) = bs @ replicate (5 - l) (0 :: byte)" and "v < 32 ^ 8"
proof -
  let ?ds = "map unat bs @ replicate (5 - l) (0 :: nat)"
  have t: "map unat (take 5 (bs @ replicate 5 0)) = ?ds"
    using assms(1,2) by (auto simp: min_def)
  have lt: "list_all (\<lambda>d. d < 256) ?ds" by (auto simp: list_all_iff intro: order_less_le_trans [OF unsigned_less])
  have len: "length ?ds = 5" using assms(1,2) by auto
  have v: "v = value_of 256 (map unat bs) * 256 ^ (5 - l)" unfolding v_def t by (simp add: value_of_append)
  show "v < 32 ^ 8" using value_of_less [OF lt] len unfolding v_def t by simp
  show "map of_nat (digits 256 5 v) = bs @ replicate (5 - l) (0 :: byte)"
    unfolding v_def t digits_value_of [OF lt len] by (simp add: comp_def)
  show "b32_bytes (b32_chars l) = l" "b32_chars l \<le> 8" using assms(2) by (auto simp: b32_bytes_def b32_chars_def)
  let ?k = "8 - b32_chars l"
  have "(32 :: nat) ^ ?k dvd 256 ^ (5 - l)" using assms(2) by (auto simp: b32_chars_def)
  then have "v mod 32 ^ ?k = 0" unfolding v by (meson dvd_imp_mod_0 dvd_mult)
  from digits_trailing [OF this, of "b32_chars l"] \<open>b32_chars l \<le> 8\<close>
  show "take (b32_chars l) (digits 32 8 v) @ replicate ?k 0 = digits 32 8 v" by simp
qed

lemma those_map_Some: "(\<And>x. x \<in> set xs \<Longrightarrow> f x = Some (g x)) \<Longrightarrow> those (map f xs) = Some (map g xs)"
  by (induction xs) auto

lemma ungroup_group:
  assumes "bs \<noteq> []" "length bs \<le> 5"
  shows "\<exists>ds. those (map b32_val (b32_group bs)) = Some ds \<and> b32_ungroup ds = bs"
    and "length (b32_group bs) = b32_chars (length bs)"
proof -
  let ?l = "length bs" and ?v = "value_of 256 (map unat (take 5 (bs @ replicate 5 0)))"
  let ?ds = "take (b32_chars ?l) (digits 32 8 ?v)"
  note g = b32_group_digits [OF refl length_cases5 [OF assms]]
  have "those (map b32_val (b32_group bs)) = Some (map (\<lambda>d. d) ?ds)"
    unfolding b32_group_def Let_def map_map comp_def
    by (rule those_map_Some) (auto dest!: in_set_takeD digits_less [rotated])
  moreover have "b32_ungroup ?ds = bs"
  proof -
    have "take 8 (?ds @ replicate 8 0) = digits 32 8 ?v"
      using g(1,3) by (simp add: min_def take_append)
    then show ?thesis
      using g(2-5) by (simp add: b32_ungroup_def value_of_digits min_def)
  qed
  ultimately show "\<exists>ds. those (map b32_val (b32_group bs)) = Some ds \<and> b32_ungroup ds = bs" by simp
  show "length (b32_group bs) = b32_chars ?l" using g(3) by (simp add: b32_group_def Let_def min_def)
qed

lemma decode_groups_Nil [simp]: "decode_groups [] = Some []"
  by (subst decode_groups.simps) simp

lemma decode_groups_step:
  assumes "s \<noteq> []" "those (map b32_val s) = Some ds" "length s = 8 \<or> r = []" "length s \<le> 8"
  shows "decode_groups (s @ r) = map_option (\<lambda>x. b32_ungroup ds @ x) (decode_groups r)"
proof -
  have "take 8 (s @ r) = s" "drop 8 (s @ r) = r" using assms(3,4) by auto
  then show ?thesis using assms(1,2) by (subst decode_groups.simps) simp
qed

lemma decode_encode_b32: "decode_groups (EncodeToString bs) = Some bs"
proof (induction bs rule: EncodeToString.induct)
  case (1 bs)
  show ?case
  proof (cases "bs = []")
    case False
    let ?a = "take 5 bs"
    have a: "?a \<noteq> []" "length ?a \<le> 5" using False by auto
    obtain ds where ds: "those (map b32_val (b32_group ?a)) = Some ds" "b32_ungroup ds = ?a"
      using ungroup_group(1) [OF a] by blast
    have len: "length (b32_group ?a) = b32_chars (length ?a)" by (rule ungroup_group(2) [OF a])
    have "length (b32_group ?a) = 8 \<or> EncodeToString (drop 5 bs) = []"
      using len by (cases "length bs < 5") (auto simp: b32_chars_def EncodeToString.simps)
    moreover have "b32_group ?a \<noteq> []" "length (b32_group ?a) \<le> 8"
      using len by (auto simp: b32_chars_def split: if_splits)
    ultimately have "decode_groups (b32_group ?a @ EncodeToString (drop 5 bs)) = Some bs"
      using decode_groups_step ds 1 [OF False] by simp
    then show ?thesis using False by (subst EncodeToString.simps) simp
  qed (simp add: EncodeToString.simps decode_groups.simps)
qed

lemma set_EncodeToString: "set (EncodeToString bs) \<subseteq> set crockford"
proof (induction bs rule: EncodeToString.induct)
  case (1 bs)
  have "set (b32_group x) \<subseteq> set crockford" for x
    using set_b32_char by (auto simp: b32_group_def Let_def)
  then show ?case using 1 by (subst EncodeToString.simps) auto
qed

section \<open>A share reads back\<close>

lemma crockford_char:
  assumes "c \<in> set crockford"
  shows "is_graph c" and "fold_char c = [c]" and "is_ascii c" and "ascii_upper c = c" and "c \<noteq> CHR 0x0A" and "c \<noteq> CHR 0x0D"
proof -
  have "list_all (\<lambda>c. is_graph c \<and> fold_char c = [c] \<and> is_ascii c \<and> ascii_upper c = c \<and> c \<noteq> CHR 0x0A \<and> c \<noteq> CHR 0x0D) crockford"
    by code_simp
  then show "is_graph c" "fold_char c = [c]" "is_ascii c" "ascii_upper c = c" "c \<noteq> CHR 0x0A" "c \<noteq> CHR 0x0D"
    using assms by (simp_all add: list_all_iff)
qed

lemma fold_crockford: "set s \<subseteq> set crockford \<Longrightarrow> concat (map fold_char s) = s"
  by (induction s) (auto simp: crockford_char)

lemma in_groups_ne [simp]: "in_groups s \<noteq> []"
  by (subst in_groups.simps) simp

lemma fold_grouped: "set s \<subseteq> set crockford \<Longrightarrow> concat (map fold_char (join ''-'' (in_groups s))) = s"
proof (induction s rule: in_groups.induct)
  case (1 s)
  show ?case
  proof (cases "7 < length s")
    case True
    have "set (take 7 s) \<subseteq> set crockford" "set (drop 7 s) \<subseteq> set crockford"
      using "1.prems" by (auto dest: in_set_takeD in_set_dropD)
    then show ?thesis using True "1.IH" fold_crockford
      by (subst in_groups.simps) (simp add: join_Cons fold_char_def [of "CHR ''-''"])
  qed (use 1 fold_crockford in \<open>simp add: in_groups.simps [of s]\<close>)
qed

lemma hd_last_grouped:
  "s \<noteq> [] \<Longrightarrow> join ''-'' (in_groups s) \<noteq> [] \<and> hd (join ''-'' (in_groups s)) = hd s \<and> last (join ''-'' (in_groups s)) = last s"
proof (induction s rule: in_groups.induct)
  case (1 s)
  show ?case
  proof (cases "7 < length s")
    case True
    then have "drop 7 s \<noteq> []" "last (drop 7 s) = last s" "hd (take 7 s) = hd s" "take 7 s \<noteq> []" by auto
    then show ?thesis using True "1.IH" by (subst (1 2 3) in_groups.simps) (auto simp: join_Cons)
  qed (use 1 in \<open>simp add: in_groups.simps [of s]\<close>)
qed

lemma normalize_grouped:
  assumes "set s \<subseteq> set crockford" "s \<noteq> []"
  shows "NormalizeShare uni (join ''-'' (in_groups s)) = s"
proof -
  let ?j = "join ''-'' (in_groups s)"
  have "is_graph (hd ?j)" "is_graph (last ?j)" "?j \<noteq> []"
    using hd_last_grouped [OF assms(2)] hd_in_set [OF assms(2)] last_in_set [OF assms(2)] assms(1) crockford_char(1)
    by auto
  then have "trim_space ?j = ?j" by (intro trim_space_graph)
  moreover have "list_all is_ascii s" using assms(1) crockford_char(3) by (auto simp: list_all_iff)
  moreover have "map ascii_upper s = s" using assms(1) crockford_char(4) by (intro map_idI) auto
  ultimately show ?thesis using fold_grouped [OF assms(1)] by (simp add: NormalizeShare_def to_upper_def)
qed

lemma decode_normalized: "bs \<noteq> [] \<Longrightarrow> DecodeString (NormalizeShare uni (join ''-'' (in_groups (EncodeToString bs)))) = Some bs"
proof -
  assume bs: "bs \<noteq> []"
  have "EncodeToString bs \<noteq> []" using decode_encode_b32 [of bs] bs by (auto simp: decode_groups.simps)
  moreover have "filter (\<lambda>c. c \<noteq> CHR 0x0A \<and> c \<noteq> CHR 0x0D) (EncodeToString bs) = EncodeToString bs"
    using set_EncodeToString [of bs] crockford_char(5,6) by (auto simp: filter_id_conv)
  ultimately show ?thesis
    using normalize_grouped [OF set_EncodeToString] decode_encode_b32 by (simp add: DecodeString_def)
qed

lemma decode_encoded_share:
  assumes "length sid = 2" "length s = Suc KeyLen"
  shows "decodeShare uni sha256 (encodeShare sha256 t sid s) = Inr (t, sid, s)"
proof -
  obtain a b where sid: "sid = [a, b]" using assms(1) by (auto simp: length_Suc_conv numeral_2_eq_2)
  let ?body = "share_body t sid s"
  have "length ?body = 36" using assms(2) by (simp add: share_body_def KeyLen_def)
  then show ?thesis
    by (simp add: decodeShare_def encodeShare_def Let_def decode_normalized KeyLen_def ShareOverhead_def)
      (simp add: share_body_def sid)
qed

section \<open>Recovering the key\<close>

lemma collect_encoded:
  assumes "length sid = 2" "list_all (\<lambda>s. length s = Suc KeyLen) ss" "first = None \<or> first = Some (t, sid)"
  shows "collect_shares uni sha256 first i (map (encodeShare sha256 t sid) ss)
    = Inr (if ss = [] then first else Some (t, sid), ss)"
  using assms(2,3)
proof (induction ss arbitrary: first i)
  case (Cons s ss)
  then show ?case using assms(1) by (auto simp: decode_encoded_share)
qed simp

lemma split_share_length:
  assumes "rand_ok rand" "shamir_Split perm rand r n t = Inr raw" "s \<in> set raw"
  shows "length s = Suc (length r)"
proof -
  obtain ps where ps: "make_polys rand 0 r (nat (t - 1)) = Inr ps"
    "raw = map (make_share ps) (map (xCoordinate perm) [0..<nat n])"
    using shamir_Split_Inr [OF assms(2)] by metis
  then show ?thesis using assms(1,3) make_polys_Inr [OF ps(1)] by (auto simp: make_share_def)
qed

lemma unat_of_int_small: "0 \<le> t \<Longrightarrow> t < 256 \<Longrightarrow> unat (of_int t :: byte) = nat t"
proof -
  assume "0 \<le> t" "t < 256"
  then obtain n where n: "t = int n" "n < 256" by (metis nat_0_le nat_less_iff of_nat_numeral zero_less_imp_eq_int zero_le_imp_eq_int)
  then show ?thesis by (simp add: unat_of_nat)
qed

lemma selected_shares:
  assumes "rand_ok rand" "length r = KeyLen" "length sid = 2"
    and "RootKey_Split sha256 perm rand (Some sid) r n t = Inr shares" "set sel \<subseteq> set shares" "distinct sel"
  obtains raw rs where "shamir_Split perm rand r n t = Inr raw" "set rs \<subseteq> set raw" "distinct rs" "2 \<le> t" "t \<le> 16"
    "sel = map (encodeShare sha256 (of_int t) sid) rs" "list_all (\<lambda>s. length s = Suc KeyLen) rs"
proof -
  obtain raw where raw: "shamir_Split perm rand r n t = Inr raw" "shares = map (encodeShare sha256 (of_int t) sid) raw" "2 \<le> t" "t \<le> 16"
    using assms(4) by (auto simp: RootKey_Split_def MaxShares_def split: if_splits sum.splits)
  have len: "list_all (\<lambda>s. length s = Suc KeyLen) raw"
    using split_share_length [OF assms(1) raw(1)] assms(2) by (auto simp: list_all_iff)
  let ?rs = "map (inv_into (set raw) (encodeShare sha256 (of_int t) sid)) sel"
  have sub: "set sel \<subseteq> encodeShare sha256 (of_int t) sid ` set raw" using assms(5) raw(2) by auto
  have sel: "sel = map (encodeShare sha256 (of_int t) sid) ?rs"
    unfolding map_map by (rule map_idI [symmetric]) (use sub in \<open>auto intro!: f_inv_into_f\<close>)
  have rs: "set ?rs \<subseteq> set raw" using sub by (auto intro: inv_into_into)
  moreover have "distinct ?rs" using assms(6) sel by (metis distinct_map)
  moreover have "list_all (\<lambda>s. length s = Suc KeyLen) ?rs" using rs len unfolding list_all_iff by blast
  ultimately show ?thesis using that raw sel by blast
qed

lemma combine_selected:
  assumes "length sid = 2" "list_all (\<lambda>s. length s = Suc KeyLen) rs" "2 \<le> t" "t \<le> 16" "2 \<le> length rs"
  shows "RootKey_Combine uni sha256 (map (encodeShare sha256 (of_int t) sid) rs) =
    (if int (length rs) < t then Inl (BelowThreshold (of_int t) (length rs))
     else case shamir_Combine rs of Inl e \<Rightarrow> Inl (ShamirFailed e)
          | Inr secret \<Rightarrow> if length secret \<noteq> KeyLen then Inl NotAKey else Inr secret)"
proof -
  have "rs \<noteq> []" using assms(5) by auto
  moreover have "length rs < unat (of_int t :: byte) \<longleftrightarrow> int (length rs) < t"
    using unat_of_int_small [of t] assms(3,4) by auto
  ultimately show ?thesis
    using collect_encoded [OF assms(1,2), of None "of_int t" uni sha256 0] assms(5) by (simp add: RootKey_Combine_def)
qed

lemma shares_recover:
  assumes "perm_ok perm" "rand_ok rand" "length r = KeyLen" "length sid = 2"
    and "RootKey_Split sha256 perm rand (Some sid) r n t = Inr shares" "set sel \<subseteq> set shares" "distinct sel"
  shows "RootKey_Combine uni sha256 sel =
    (if length sel < 2 then Inl TooFewShares
     else if int (length sel) < t then Inl (BelowThreshold (of_int t) (length sel)) else Inr r)"
proof -
  obtain raw rs where sel: "shamir_Split perm rand r n t = Inr raw" "set rs \<subseteq> set raw" "distinct rs" "2 \<le> t" "t \<le> 16"
    "sel = map (encodeShare sha256 (of_int t) sid) rs" "list_all (\<lambda>s. length s = Suc KeyLen) rs"
    using selected_shares [OF assms(2-7)] .
  show ?thesis
  proof (cases "length sel < 2")
    case False
    then show ?thesis
      using combine_selected [OF assms(4) sel(7,4,5)] shamir_recovers [OF assms(1,2) sel(1-3)] assms(3) sel(6) by auto
  qed (simp add: RootKey_Combine_def)
qed

text \<open>
  C34.  The printed shares recover the root key: whatever the random draws, every selection of at least \<open>t\<close>
  different printed shares of one split, in any order, combines to the key, and a smaller selection is
  refused and never answered with a wrong key.
\<close>

theorem root_key_recovers:
  assumes "perm_ok perm" "rand_ok rand" "length r = KeyLen" "length sid = 2"
    and "RootKey_Split sha256 perm rand (Some sid) r n t = Inr shares" "set sel \<subseteq> set shares" "distinct sel"
  shows "RootKey_Combine uni sha256 sel =
    (if length sel < 2 then Inl TooFewShares
     else if int (length sel) < t then Inl (BelowThreshold (of_int t) (length sel)) else Inr r)"
  using assms by (rule shares_recover)

text \<open>A split of a key into two shares, for the witness.\<close>

lemma sample_polys: "make_polys sample_rand i (replicate n v) 1 = Inr (replicate n [v, 7])"
  by (induction n arbitrary: i) (simp_all add: sample_rand_def makePolynomial_def)

definition sample_key :: "byte list" where "sample_key = replicate 32 9"
definition sample_hash :: "byte list \<Rightarrow> byte list" where "sample_hash b = replicate 32 (of_nat (length b))"
definition sample_printed :: "byte \<Rightarrow> string" where
  "sample_printed x = encodeShare sample_hash 2 [1, 2] (make_share (replicate 32 [9, 7]) x)"

lemma sample_printed_split:
  "RootKey_Split sample_hash sample_perm sample_rand (Some [1, 2]) sample_key 2 2 = Inr [sample_printed 1, sample_printed 2]"
proof -
  have "sample_perm ! 0 = 0" "sample_perm ! 1 = 1" by (simp_all add: sample_perm_def)
  then have "shamir_Split sample_perm sample_rand sample_key 2 2 = Inr [make_share (replicate 32 [9, 7]) 1, make_share (replicate 32 [9, 7]) 2]"
    using sample_polys [of 0 32 9] by (simp add: shamir_Split_def sample_key_def xCoordinate_def upt_rec)
  then show ?thesis by (simp add: RootKey_Split_def MaxShares_def sample_printed_def)
qed

lemma sample_printed_distinct: "sample_printed 2 \<noteq> sample_printed 1"
proof
  assume eq: "sample_printed 2 = sample_printed 1"
  have d: "decodeShare id sample_hash (sample_printed x) = Inr (2, [1, 2], make_share (replicate 32 [9, 7]) x)" for x
    unfolding sample_printed_def by (rule decode_encoded_share) (simp_all add: make_share_def KeyLen_def)
  from d [of 2] d [of 1] eq have "make_share (replicate 32 [9, 7]) 2 = make_share (replicate 32 [9, 7]) 1" by simp
  then have "(2 :: byte) = 1" by (metis make_share_x)
  then show False by simp
qed

lemma root_key_recovers_witness:
  "RootKey_Combine id sample_hash [sample_printed 2, sample_printed 1] = Inr sample_key"
  using root_key_recovers [OF sample_shares(1,2) _ _ sample_printed_split, of "[sample_printed 2, sample_printed 1]" id]
    sample_printed_distinct by (simp add: KeyLen_def sample_key_def)

text \<open>
  A finding of the model: the letters a reader confuses are folded only where they are capitals.  The
  replacer runs before the case is raised, so the small letters reach the decoder as letters outside the
  alphabet and the share is refused.
\<close>

lemma small_letters_not_folded:
  "list_all (\<lambda>c. b32_val (hd (NormalizeShare uni [c])) = None) ''oil''"
  "list_all (\<lambda>c. b32_val (hd (NormalizeShare uni [c])) \<noteq> None) ''OIL''"
proof -
  have t: "trim_space [c] = [c]" if "is_graph c" for c using trim_space_graph [of "[c]"] that by simp
  have n: "NormalizeShare uni [c] = map ascii_upper (fold_char c)" if "is_graph c" "list_all is_ascii (fold_char c)" for c
    using that by (simp add: NormalizeShare_def t to_upper_def)
  have g: "list_all (\<lambda>c. is_graph c \<and> list_all is_ascii (fold_char c)) ''oilOIL''" by code_simp
  have a: "list_all (\<lambda>c. b32_val (hd (map ascii_upper (fold_char c))) = None) ''oil''" by code_simp
  have b: "list_all (\<lambda>c. b32_val (hd (map ascii_upper (fold_char c))) \<noteq> None) ''OIL''" by code_simp
  show "list_all (\<lambda>c. b32_val (hd (NormalizeShare uni [c])) = None) ''oil''"
    "list_all (\<lambda>c. b32_val (hd (NormalizeShare uni [c])) \<noteq> None) ''OIL''"
    using a b g n by simp_all
qed

end
