(* ===== verification/Words.thy ===== *)
theory Words
  imports Go_Strings Digits Crypto
begin

unbundle bit_operations_syntax

text \<open>
  The recovery words (\<^verbatim>\<open>internal/crypto/words.go\<close>): the 256 bits of the root key and 8 checksum bits as
  24 words of 11 bits.  The embedded word list and SHA-256 are parameters; \<^verbatim>\<open>big.Int\<close> is \<open>nat\<close>.
\<close>

section \<open>The word list\<close>

text \<open>\<^verbatim>\<open>init\<close>: the list is the trimmed file split at newlines; \<open>None\<close> is the panic on a wrong count.\<close>

definition load_wordlist :: "string \<Rightarrow> string list option" where
  "load_wordlist raw =
     (let wordlist = split_on (CHR 0x0A) (trim_space raw)
      in if length wordlist \<noteq> 2048 then None else Some wordlist)"

fun index_words :: "nat \<Rightarrow> string list \<Rightarrow> (string \<rightharpoonup> nat) \<Rightarrow> (string \<rightharpoonup> nat)" where
  "index_words i [] m = m"
| "index_words i (w # ws) m = index_words (i + 1) ws (m(w \<mapsto> i))"

definition wordIndex :: "string list \<Rightarrow> string \<rightharpoonup> nat" where
  "wordIndex wordlist = index_words 0 wordlist Map.empty"

section \<open>Key to words and back\<close>

definition WordCount :: nat where "WordCount = 24"

datatype words_error = WrongWordCount nat | NotInList nat string | WordChecksum

text \<open>\<^verbatim>\<open>SetBytes\<close> and \<^verbatim>\<open>FillBytes\<close> of \<^verbatim>\<open>big.Int\<close>.\<close>

definition set_bytes :: "byte list \<Rightarrow> nat" where
  "set_bytes b = value_of 256 (map unat b)"

definition fill_bytes :: "nat \<Rightarrow> nat \<Rightarrow> byte list" where
  "fill_bytes n v = map of_nat (digits 256 n v)"

fun words_loop :: "string list \<Rightarrow> nat \<Rightarrow> nat \<Rightarrow> string list" where
  "words_loop wordlist 0 bits = []"
| "words_loop wordlist (Suc i) bits = words_loop wordlist i (drop_bit 11 bits) @ [wordlist ! (bits AND 2047)]"

definition ToWords :: "(byte list \<Rightarrow> byte list) \<Rightarrow> string list \<Rightarrow> byte list \<Rightarrow> string list" where
  "ToWords sha256 wordlist r =
     (let sum = sha256 r; bits = push_bit 8 (set_bytes r) OR unat (sum ! 0)
      in words_loop wordlist WordCount bits)"

fun bits_of_words ::
    "(string \<Rightarrow> string) \<Rightarrow> string list \<Rightarrow> nat \<Rightarrow> nat \<Rightarrow> string list \<Rightarrow> words_error + nat" where
  "bits_of_words uni wordlist i bits [] = Inr bits"
| "bits_of_words uni wordlist i bits (w # ws) =
     (case wordIndex wordlist (to_lower uni (trim_space w)) of
        None \<Rightarrow> Inl (NotInList (i + 1) w)
      | Some idx \<Rightarrow> bits_of_words uni wordlist (i + 1) (push_bit 11 bits OR idx) ws)"

definition FromWords ::
    "(string \<Rightarrow> string) \<Rightarrow> (byte list \<Rightarrow> byte list) \<Rightarrow> string list \<Rightarrow> string list \<Rightarrow> words_error + byte list" where
  "FromWords uni sha256 wordlist words =
     (if length words \<noteq> WordCount then Inl (WrongWordCount (length words))
      else and_then (bits_of_words uni wordlist 0 0 words) (\<lambda>bits.
        let check = of_nat (bits AND 255) :: byte;
            r = fill_bytes KeyLen (drop_bit 8 bits);
            sum = sha256 r
        in if sum ! 0 \<noteq> check then Inl WordChecksum else Inr r))"

definition is_word_sep :: "char \<Rightarrow> bool" where
  "is_word_sep c \<longleftrightarrow> c \<in> set [CHR '' '', CHR 0x0A, CHR 0x09, CHR '','', CHR 0x0D]"

definition ParseWords :: "string \<Rightarrow> string list" where
  "ParseWords s = fields_func is_word_sep [] s"

section \<open>Properties\<close>

text \<open>What the code needs of the list: 2048 different words of small ASCII letters.\<close>

definition is_small :: "char \<Rightarrow> bool" where
  "is_small c \<longleftrightarrow> 97 \<le> (of_char c :: nat) \<and> (of_char c :: nat) \<le> 122"

definition wordlist_ok :: "string list \<Rightarrow> bool" where
  "wordlist_ok wl \<longleftrightarrow> length wl = 2048 \<and> distinct wl \<and> list_all (\<lambda>w. w \<noteq> [] \<and> list_all is_small w) wl"

lemma index_words_None: "w \<notin> set ws \<Longrightarrow> index_words i ws m w = m w"
  by (induction ws arbitrary: i m) auto

lemma index_words_nth: "distinct ws \<Longrightarrow> k < length ws \<Longrightarrow> index_words i ws m (ws ! k) = Some (i + k)"
proof (induction ws arbitrary: i m k)
  case (Cons w ws)
  then show ?case by (cases k) (auto simp: index_words_None)
qed simp

lemma index_words_Some: "index_words i ws m w = Some j \<Longrightarrow> m w = Some j \<or> (\<exists>k < length ws. j = i + k \<and> ws ! k = w)"
proof (induction ws arbitrary: i m)
  case (Cons v ws)
  from Cons.IH [of "i + 1" "m(v \<mapsto> i)"] Cons.prems
  consider "(m(v \<mapsto> i)) w = Some j" | k where "k < length ws" "j = i + 1 + k" "ws ! k = w"
    by (simp del: fun_upd_apply) blast
  then show ?case
  proof cases
    case 1
    then show ?thesis by (cases "w = v") (auto intro: exI [of _ 0])
  next
    case 2
    then show ?thesis by (auto intro: exI [of _ "Suc k"])
  qed
qed simp

lemma wordIndex_iff:
  "wordlist_ok wl \<Longrightarrow> wordIndex wl w = Some j \<longleftrightarrow> j < 2048 \<and> wl ! j = w"
  using index_words_nth [of wl j 0 Map.empty] index_words_Some [of 0 wl Map.empty w j]
  by (auto simp: wordIndex_def wordlist_ok_def)

lemma push_or: "v < 2 ^ n \<Longrightarrow> push_bit n a OR v = a * 2 ^ n + (v :: nat)"
proof -
  assume v: "v < 2 ^ n"
  have "\<not> bit v k" if "n \<le> k" for k
    using that v by (metis bit_iff_odd div_less less_le_trans even_zero power_increasing one_le_numeral)
  then have "push_bit n a + v = push_bit n a OR v"
    by (intro disjunctive_add) (auto simp: bit_push_bit_iff)
  then show ?thesis by (simp add: push_bit_eq_mult)
qed

lemma and_low: "bits AND 2047 = bits mod (2048 :: nat)" "bits AND 255 = bits mod (256 :: nat)"
  using take_bit_eq_mask [of 11 bits] take_bit_eq_mask [of 8 bits] by (simp_all add: take_bit_eq_mod mask_eq_exp_minus_1)

lemma words_loop_digits: "words_loop wl n bits = map (nth wl) (digits 2048 n bits)"
  by (induction n arbitrary: bits) (simp_all add: and_low drop_bit_eq_div)

lemma bits_of_words_value:
  assumes "wordlist_ok wl"
  shows "bits_of_words uni wl i (value_of 2048 acc) ws = Inr bits \<longleftrightarrow>
    (\<exists>ds. map (nth wl) ds = map (\<lambda>w. to_lower uni (trim_space w)) ws \<and> list_all (\<lambda>d. d < 2048) ds
       \<and> bits = value_of 2048 (acc @ ds))"
proof (induction ws arbitrary: i acc)
  case (Cons w ws)
  let ?w = "to_lower uni (trim_space w)"
  show ?case
  proof (cases "wordIndex wl ?w")
    case None
    then have "\<forall>d < 2048. wl ! d \<noteq> ?w" using wordIndex_iff [OF assms, of ?w] by simp
    then show ?thesis using None by (auto simp: map_eq_Cons_conv)
  next
    case (Some d)
    then have d: "e < 2048 \<and> wl ! e = ?w \<longleftrightarrow> e = d" for e using wordIndex_iff [OF assms, of ?w e] by auto
    have "push_bit 11 (value_of 2048 acc) OR d = value_of 2048 (acc @ [d])" using d [of d] by (simp add: push_or)
    then show ?thesis using Some Cons.IH [of "i + 1" "acc @ [d]"] by (simp add: ex_digit_Cons [OF d] del: value_of_simps)
  qed
qed auto

lemma fill_set_bytes [simp]: "length b = n \<Longrightarrow> fill_bytes n (set_bytes b) = b"
proof -
  assume "length b = n"
  moreover have "list_all (\<lambda>d. d < 256) (map unat b)"
    by (auto simp: list_all_iff intro: order_less_le_trans [OF unsigned_less])
  ultimately show ?thesis by (simp add: fill_bytes_def set_bytes_def digits_value_of comp_def)
qed

lemma set_fill_bytes: "set_bytes (fill_bytes n v) = v mod 256 ^ n"
proof -
  have "map (unat \<circ> (of_nat :: nat \<Rightarrow> byte)) (digits 256 n v) = digits 256 n v"
    by (rule map_idI) (auto dest: digits_less [rotated] simp: unat_of_nat)
  then show ?thesis by (simp add: set_bytes_def fill_bytes_def value_of_digits)
qed

lemma length_fill_bytes [simp]: "length (fill_bytes n v) = n"
  by (simp add: fill_bytes_def)

lemma set_bytes_less: "set_bytes b < 256 ^ length b"
  using set_fill_bytes [of "length b" "set_bytes b"] by (metis fill_set_bytes mod_less_divisor zero_less_numeral zero_less_power)

lemma ToWords_digits:
  "ToWords sha256 wl r = map (nth wl) (digits 2048 24 (set_bytes r * 256 + unat (sha256 r ! 0)))"
proof -
  have "unat (sha256 r ! 0) < 2 ^ 8" by (rule order_less_le_trans [OF unsigned_less]) simp
  from push_or [OF this, of "set_bytes r"] show ?thesis by (simp add: ToWords_def words_loop_digits WordCount_def)
qed

text \<open>The bits of a key and its check byte fit the 24 words exactly.\<close>

lemma key_bits_mod: "length r = KeyLen \<Longrightarrow> (set_bytes r * 256 + unat (c :: byte)) mod 2048 ^ 24 = set_bytes r * 256 + unat c"
proof (rule mod_less)
  assume "length r = KeyLen"
  then have "Suc (set_bytes r) \<le> 256 ^ 32" using set_bytes_less [of r] by (simp add: KeyLen_def)
  moreover have "unat c < 256" by (rule order_less_le_trans [OF unsigned_less]) simp
  ultimately show "set_bytes r * 256 + unat c < 2048 ^ 24" by simp
qed

lemma from_words_iff:
  assumes wl: "wordlist_ok wl"
  shows "FromWords uni sha256 wl words = Inr r \<longleftrightarrow>
    length r = KeyLen \<and> map (\<lambda>w. to_lower uni (trim_space w)) words = ToWords sha256 wl r"
    (is "?from \<longleftrightarrow> _ \<and> map ?norm words = _")
proof
  assume ?from
  then obtain ds where len: "length words = 24" and ds: "list_all (\<lambda>d. d < 2048) ds" "map (nth wl) ds = map ?norm words"
    and r: "r = fill_bytes 32 (value_of 2048 ds div 256)" "sha256 r ! 0 = of_nat (value_of 2048 ds mod 256)"
    using bits_of_words_value [OF wl, of uni 0 "[]" words]
    by (auto simp: FromWords_def and_then_Inr WordCount_def KeyLen_def Let_def and_low drop_bit_eq_div split: if_splits)
  have l: "length ds = 24" using len ds(2) by (metis length_map)
  have "value_of 2048 ds < 2048 ^ 24" using value_of_less [OF ds(1)] l by simp
  then have "set_bytes r = value_of 2048 ds div 256" unfolding r(1) set_fill_bytes by (intro mod_less) (simp add: div_less_iff_less_mult)
  moreover have "unat (sha256 r ! 0) = value_of 2048 ds mod 256" unfolding r(2) by (simp add: unat_of_nat)
  ultimately have "set_bytes r * 256 + unat (sha256 r ! 0) = value_of 2048 ds" by simp
  then show "length r = KeyLen \<and> map ?norm words = ToWords sha256 wl r"
    using ds(2) digits_value_of [OF ds(1) l] r(1) by (simp add: ToWords_digits KeyLen_def)
next
  assume r: "length r = KeyLen \<and> map ?norm words = ToWords sha256 wl r"
  let ?v = "set_bytes r * 256 + unat (sha256 r ! 0)"
  have len: "length words = 24" using r unfolding ToWords_digits by (metis length_map length_digits)
  have c: "unat (sha256 r ! 0) < 256" by (rule order_less_le_trans [OF unsigned_less]) simp
  have "bits_of_words uni wl 0 (value_of 2048 []) words = Inr ?v"
    unfolding bits_of_words_value [OF wl]
    using r len digits_less [of 2048 _ 24 ?v] key_bits_mod [of r]
    by (intro exI [of _ "digits 2048 24 ?v"]) (auto simp: ToWords_digits value_of_digits list_all_iff)
  then show ?from using r len c
    by (simp add: FromWords_def WordCount_def KeyLen_def Let_def and_low drop_bit_eq_div)
qed

section \<open>Typed words\<close>

lemma is_small_char:
  assumes "is_small c"
  shows "is_graph c" "is_ascii c" "ascii_lower c = c" "\<not> is_word_sep c"
  using assms by (auto simp: is_small_def is_graph_def is_ascii_def ascii_lower_def is_word_sep_def)

lemma small_word_norm: "w \<noteq> [] \<Longrightarrow> list_all is_small w \<Longrightarrow> to_lower uni (trim_space w) = w"
proof -
  assume w: "w \<noteq> []" "list_all is_small w"
  then have "is_small (hd w)" "is_small (last w)" by (auto simp: list_all_iff)
  then have "trim_space w = w" using w(1) by (intro trim_space_graph is_small_char(1))
  moreover have "list_all is_ascii w" "map ascii_lower w = w"
    using w(2) by (auto simp: list_all_iff is_small_char intro!: map_idI)
  ultimately show ?thesis by (simp add: to_lower_def)
qed

lemma fields_word: "list_all is_small w \<Longrightarrow> fields_func is_word_sep acc (w @ s) = fields_func is_word_sep (rev w @ acc) s"
  by (induction w arbitrary: acc) (simp_all add: is_small_char)

lemma parse_joined:
  "list_all (\<lambda>w. w \<noteq> [] \<and> list_all is_small w) ws \<Longrightarrow> ParseWords (join '' '' ws) = ws"
proof (induction ws)
  case (Cons w ws)
  then show ?case
  proof (cases "ws = []")
    case True
    then show ?thesis using Cons.prems fields_word [of w "[]" "[]"] by (simp add: ParseWords_def)
  next
    case False
    then show ?thesis using Cons fields_word [of w "[]" "CHR '' '' # join '' '' ws"]
      by (simp add: join_Cons ParseWords_def is_word_sep_def)
  qed
qed (simp add: ParseWords_def)

lemma ToWords_small: "wordlist_ok wl \<Longrightarrow> list_all (\<lambda>w. w \<noteq> [] \<and> list_all is_small w) (ToWords sha256 wl r)"
  using digits_less [of 2048] by (auto simp: ToWords_digits list_all_iff wordlist_ok_def)

lemma printed_words_recover:
  assumes "wordlist_ok wl" "length k = KeyLen"
  shows "FromWords uni sha256 wl (ParseWords (join '' '' (ToWords sha256 wl k))) = Inr k"
proof -
  note small = ToWords_small [OF assms(1), of sha256 k]
  have "map (\<lambda>w. to_lower uni (trim_space w)) (ToWords sha256 wl k) = ToWords sha256 wl k"
    using small by (intro map_idI small_word_norm) (auto simp: list_all_iff)
  then show ?thesis unfolding parse_joined [OF small] from_words_iff [OF assms(1)] using assms(2) by simp
qed

text \<open>
  C38.  The words are an exact coding of the key: a list of words reads as a key exactly when, trimmed and
  in small letters, it is the list of words of that key, so a mistaken word is refused or spells another
  key's whole list; and the printed words, typed back with separators, give the key.
\<close>

theorem recovery_words_exact:
  assumes "wordlist_ok wl"
  shows "(FromWords uni sha256 wl words = Inr r \<longleftrightarrow>
       length r = KeyLen \<and> map (\<lambda>w. to_lower uni (trim_space w)) words = ToWords sha256 wl r)
    \<and> (length k = KeyLen \<longrightarrow> FromWords uni sha256 wl (ParseWords (join '' '' (ToWords sha256 wl k))) = Inr k)"
  using from_words_iff [OF assms] printed_words_recover [OF assms] by blast

text \<open>A list of 2048 words of three letters, for the witness.\<close>

definition sample_words :: "string list" where
  "sample_words = map (\<lambda>i. map (\<lambda>d. char_of (97 + d)) (digits 16 3 i)) [0..<2048]"

lemma sample_words_ok: "wordlist_ok sample_words"
proof -
  have small: "is_small (char_of (97 + d))" if "d \<in> set (digits 16 3 i)" for d i
    using digits_less [OF _ that] by (simp add: is_small_def)
  have "inj_on (\<lambda>i. map (\<lambda>d. char_of (97 + d)) (digits 16 3 i)) {0..<2048}"
  proof (rule inj_onI)
    fix i j :: nat assume ij: "i \<in> {0..<2048}" "j \<in> {0..<2048}"
      and eq: "map (\<lambda>d. char_of (97 + d)) (digits 16 3 i) = (map (\<lambda>d. char_of (97 + d)) (digits 16 3 j) :: string)"
    have "map (\<lambda>c. of_char c - 97) (map (\<lambda>d. char_of (97 + d)) (digits 16 3 k)) = digits 16 3 k" for k :: nat
      unfolding map_map comp_def by (rule map_idI) (auto dest: digits_less [rotated])
    then have "digits 16 3 i = digits 16 3 j" using eq by metis
    then show "i = j" using ij by (simp add: digits_inject)
  qed
  then have "distinct sample_words" by (simp add: sample_words_def distinct_map)
  moreover have "map (\<lambda>d. char_of (97 + d)) (digits 16 3 i) \<noteq> ([] :: string)" for i
    by (metis length_digits length_map list.size(3) zero_neq_numeral)
  ultimately show ?thesis using small by (auto simp: wordlist_ok_def sample_words_def list_all_iff simp del: digits.simps)
qed

lemma recovery_words_exact_witness:
  "FromWords id id sample_words (ParseWords (join '' '' (ToWords id sample_words (replicate 32 7)))) = Inr (replicate 32 7)"
  using recovery_words_exact [OF sample_words_ok, of id id "[]" "[]" "replicate 32 7"] by (simp add: KeyLen_def)

end
