(* ===== verification/Cmd.thy ===== *)
theory Cmd
  imports Submit Rpc Shares Words
begin

text \<open>
  \<^verbatim>\<open>cmd/xrplbak/main.go\<close>: what the commands share.  A command is an action on the host: the files by name, the unread
  standard input and the outside world.  Symbolic links are seen through, so a name stands for what it resolves to.
  Flags come parsed, in a record per command; what is printed is left out unless a decision rests on it.
\<close>

section \<open>The host\<close>

datatype node = File "byte list" | Other

record 'w host =
  ho_Files :: "string \<rightharpoonup> node"
  ho_Input :: string
  ho_Net :: 'w

text \<open>
  What does not change during a run.  \<open>sy_Fault op name\<close> says that the operation fails on that name for a reason of
  its own (permissions, a full disk); a failed write leaves \<open>sy_Cut name\<close> bytes.  \<open>sy_Parse\<close> and \<open>sy_Print\<close> are the text
  form of JSON, \<open>sy_Post url\<close> is one HTTP exchange, and the fields after it are the random bytes of the run.
\<close>

record 'w system =
  sy_Prims :: prims
  sy_Sha512 :: "byte list \<Rightarrow> byte list"
  sy_Ed25519 :: ed25519
  sy_Pbkdf2 :: pbkdf2_fn
  sy_Lower :: "string \<Rightarrow> string"
  sy_Fold :: "string \<Rightarrow> string \<Rightarrow> bool"
  sy_Wordlist :: "string list"
  sy_Fault :: "string \<Rightarrow> string \<Rightarrow> bool"
  sy_Cut :: "string \<Rightarrow> nat"
  sy_Abs :: "string \<Rightarrow> string option"
  sy_Attr :: "string \<Rightarrow> file_stat"
  sy_TempDir :: "string option"
  sy_Parse :: "byte list \<Rightarrow> json option"
  sy_Print :: "json \<Rightarrow> byte list"
  sy_Post :: "string \<Rightarrow> json \<Rightarrow> 'w \<Rightarrow> http_answer \<times> 'w"
  sy_Sleep :: "nat \<Rightarrow> 'w \<Rightarrow> 'w"
  sy_Nonce :: "'w \<Rightarrow> byte list option \<times> 'w"
  sy_MapOrder :: "nat \<Rightarrow> nat list"
  sy_Root :: "byte list option"
  sy_Seed :: "byte list option"
  sy_Salt :: "byte list option"
  sy_AttestSeed :: "byte list option"
  sy_Perm :: "nat list"
  sy_Coefficients :: "nat \<Rightarrow> nat \<Rightarrow> byte list option"
  sy_SplitID :: "byte list option"
  sy_Picks :: "nat \<Rightarrow> nat list"
  sy_Created :: string
  sy_Tool :: string

abbreviation sy_sha256 :: "'w system \<Rightarrow> byte list \<Rightarrow> byte list" where
  "sy_sha256 y \<equiv> pm_sha256 (sy_Prims y)"

section \<open>Exit codes\<close>

definition exitOK :: nat where "exitOK = 0"
definition exitUsage :: nat where "exitUsage = 1"
definition exitNetwork :: nat where "exitNetwork = 2"
definition exitRefused :: nat where "exitRefused = 3"
definition exitAuth :: nat where "exitAuth = 4"
definition exitIncomplete :: nat where "exitIncomplete = 5"
definition exitWrite :: nat where "exitWrite = 6"

text \<open>\<open>Exit\<close> is an \<^verbatim>\<open>exitError\<close> with a short form of its message; the others are errors of the packages, passed on.\<close>

datatype cmd_error =
    Exit nat string | OSErr string string | BackupErr backup_error | DumpErr dump_error | CryptoErr crypto_error
  | SharesErr shares_error | SignErr sign_error

definition exitCode :: "cmd_error \<Rightarrow> nat" where
  "exitCode e =
     (case e of
        Exit c _ \<Rightarrow> c
      | BackupErr (RedactRefused _ _) \<Rightarrow> exitRefused
      | CryptoErr ErrAuth \<Rightarrow> exitAuth
      | _ \<Rightarrow> exitUsage)"

type_synonym ('w, 'a) command = "('w host, cmd_error, 'a) action"

definition fail :: "nat \<Rightarrow> string \<Rightarrow> ('w, 'a) command" where
  "fail c msg = act_fail (Exit c msg)"

section \<open>Files\<close>

definition os_Stat :: "'w system \<Rightarrow> string \<Rightarrow> 'w host \<Rightarrow> node option" where
  "os_Stat y p h = (if sy_Fault y ''stat'' p then None else ho_Files h p)"

definition os_Read :: "'w system \<Rightarrow> string \<Rightarrow> 'w host \<Rightarrow> byte list option" where
  "os_Read y p h =
     (if sy_Fault y ''read'' p then None
      else case ho_Files h p of Some (File b) \<Rightarrow> Some b | _ \<Rightarrow> None)"

definition os_ReadFile :: "'w system \<Rightarrow> string \<Rightarrow> ('w, byte list) command" where
  "os_ReadFile y p h = (case os_Read y p h of None \<Rightarrow> Inl (OSErr ''read'' p) | Some b \<Rightarrow> Inr b, h)"

definition set_file :: "string \<Rightarrow> byte list \<Rightarrow> 'w host \<Rightarrow> 'w host" where
  "set_file p b h = h\<lparr>ho_Files := (ho_Files h)(p \<mapsto> File b)\<rparr>"

definition os_WriteFile :: "'w system \<Rightarrow> string \<Rightarrow> byte list \<Rightarrow> ('w, unit) command" where
  "os_WriteFile y p b h =
     (if sy_Fault y ''create'' p \<or> ho_Files h p = Some Other then (Inl (OSErr ''create'' p), h)
      else if sy_Fault y ''write'' p then (Inl (OSErr ''write'' p), set_file p (take (sy_Cut y p) b) h)
      else (Inr (), set_file p b h))"

text \<open>Of the directories it makes, only the last is looked at again.\<close>

definition os_MkdirAll :: "'w system \<Rightarrow> string \<Rightarrow> ('w, unit) command" where
  "os_MkdirAll y p h =
     (if sy_Fault y ''mkdir'' p then (Inl (OSErr ''mkdir'' p), h)
      else case ho_Files h p of
             Some (File _) \<Rightarrow> (Inl (OSErr ''mkdir'' p), h)
           | Some Other \<Rightarrow> (Inr (), h)
           | None \<Rightarrow> (Inr (), h\<lparr>ho_Files := (ho_Files h)(p \<mapsto> Other)\<rparr>))"

text \<open>A hard link; \<open>Inl True\<close> is \<^verbatim>\<open>fs.ErrExist\<close>.\<close>

definition os_Link :: "'w system \<Rightarrow> string \<Rightarrow> string \<Rightarrow> ('w host, bool, unit) action" where
  "os_Link y src dst h =
     (if ho_Files h dst \<noteq> None then (Inl True, h)
      else if sy_Fault y ''link'' dst then (Inl False, h)
      else case ho_Files h src of
             Some (File b) \<Rightarrow> (Inr (), set_file dst b h)
           | _ \<Rightarrow> (Inl False, h))"

definition os_Remove :: "'w system \<Rightarrow> string \<Rightarrow> ('w, unit) command" where
  "os_Remove y p h =
     (if sy_Fault y ''remove'' p \<or> ho_Files h p = None then (Inl (OSErr ''remove'' p), h)
      else (Inr (), h\<lparr>ho_Files := (ho_Files h)(p := None)\<rparr>))"

text \<open>The file system as \<^verbatim>\<open>backup.Build\<close> reads it.\<close>

definition host_fs :: "'w system \<Rightarrow> 'w host \<Rightarrow> file_system" where
  "host_fs y h =
     \<lparr>fs_Abs = sy_Abs y, fs_Lstat = (\<lambda>p. map_option (\<lambda>_. sy_Attr y p) (os_Stat y p h)), fs_Read = (\<lambda>p. os_Read y p h)\<rparr>"

section \<open>Standard input\<close>

text \<open>The next line without its terminator, and the input after it.\<close>

definition read_line :: "string \<Rightarrow> (string \<times> string) option" where
  "read_line s =
     (if s = [] then None
      else Some (rev (dropWhile (\<lambda>c. c = CHR 0x0D \<or> c = CHR 0x0A) (rev (takeWhile (\<lambda>c. c \<noteq> CHR 0x0A) s))),
                 drop 1 (dropWhile (\<lambda>c. c \<noteq> CHR 0x0A) s)))"

definition readLine :: "'w host \<Rightarrow> string option \<times> 'w host" where
  "readLine h = (case read_line (ho_Input h) of None \<Rightarrow> (None, h) | Some (l, rest) \<Rightarrow> (Some l, h\<lparr>ho_Input := rest\<rparr>))"

definition prompt :: "('w, string) command" where
  "prompt h = (let (l, h') = readLine h in (Inr (trim_space (case l of None \<Rightarrow> [] | Some s \<Rightarrow> s)), h'))"

definition confirm :: "'w system \<Rightarrow> ('w, bool) command" where
  "confirm y = act_then prompt (\<lambda>s. act_ok (equal_fold (sy_Fold y) s ''yes''))"

section \<open>Finding files\<close>

definition Dir :: "string \<Rightarrow> string" where
  "Dir p = Clean (rev (dropWhile (\<lambda>c. c \<noteq> slash) (rev p)))"

definition IsAbs :: "string \<Rightarrow> bool" where
  "IsAbs p = has_prefix p ''/''"

definition configCandidates :: "string list" where
  "configCandidates =
     [''/etc/xrpld/xrpld.cfg'', ''/etc/opt/ripple/rippled.cfg'', ''/opt/ripple/etc/rippled.cfg'', ''xrpld.cfg'', ''rippled.cfg'']"

definition is_file :: "node option \<Rightarrow> bool" where
  "is_file n = (case n of Some (File _) \<Rightarrow> True | _ \<Rightarrow> False)"

definition findConfig :: "'w system \<Rightarrow> string \<Rightarrow> ('w, string) command" where
  "findConfig y explicit h =
     (if explicit \<noteq> [] then act_ok explicit h
      else case find (\<lambda>c. is_file (os_Stat y c h)) configCandidates of
             Some c \<Rightarrow> act_ok c h
           | None \<Rightarrow> fail exitUsage ''no config found'' h)"

definition named_validators :: "'w system \<Rightarrow> string \<Rightarrow> 'w host \<Rightarrow> string option" where
  "named_validators y configPath h =
     (case os_Read y configPath h of
        None \<Rightarrow> None
      | Some raw \<Rightarrow>
          (case Get (Parse (str raw)) ''validators_file'' of
             Some s \<Rightarrow> (case s_lines s of [] \<Rightarrow> None | p # _ \<Rightarrow> Some (if IsAbs p then p else Join (Dir configPath) p))
           | None \<Rightarrow> None))"

definition findValidators :: "'w system \<Rightarrow> string \<Rightarrow> string \<Rightarrow> ('w, string) command" where
  "findValidators y explicit configPath h =
     (if explicit \<noteq> [] then act_ok explicit h
      else case named_validators y configPath h of
             Some p \<Rightarrow> (if os_Stat y p h = None then fail exitUsage (''config names [validators_file] '' @ p) h else act_ok p h)
           | None \<Rightarrow>
               let p = Join (Dir configPath) ''validators.txt''
               in act_ok (if os_Stat y p h = None then [] else p) h)"

definition findKeyFile :: "'w system \<Rightarrow> string \<Rightarrow> string \<Rightarrow> ('w, string) command" where
  "findKeyFile y explicit configPath h =
     (if explicit \<noteq> [] then act_ok explicit h
      else let candidates = (if configPath \<noteq> [] then [Join (Dir configPath) ''xrplbak.key''] else []) @ [''xrplbak.key'']
           in case find (\<lambda>c. os_Stat y c h \<noteq> None) candidates of
                Some c \<Rightarrow> act_ok c h
              | None \<Rightarrow> fail exitUsage ''no xrplbak.key found'' h)"

definition decode_key :: "'w system \<Rightarrow> byte list \<Rightarrow> byte list option \<Rightarrow> crypto_error + keyfile" where
  "decode_key y = DecodeKeyFile (pm_gcm (sy_Prims y)) (sy_Pbkdf2 y) (sy_sha256 y)"

definition loadKeyFile :: "'w system \<Rightarrow> string \<Rightarrow> bool \<Rightarrow> ('w, keyfile) command" where
  "loadKeyFile y path passphrase =
     act_then (os_ReadFile y path) (\<lambda>b.
     act_then (if IsWrapped b \<or> passphrase then act_then prompt (\<lambda>s. act_ok (Some (bytes s))) else act_ok None) (\<lambda>pw.
       act_of (\<lambda>_. Exit exitAuth path) (decode_key y b pw)))"

section \<open>Clients\<close>

definition rpcAliases :: "(string \<times> string) list" where
  "rpcAliases =
     [(''mainnet'', ''https://xrplcluster.com''), (''testnet'', ''https://s.altnet.rippletest.net:51234''),
      (''devnet'', ''https://s.devnet.rippletest.net:51234'')]"

definition on_net :: "('w \<Rightarrow> 'a \<times> 'w) \<Rightarrow> 'w host \<Rightarrow> 'a \<times> 'w host" where
  "on_net m h = (let (r, w) = m (ho_Net h) in (r, h\<lparr>ho_Net := w\<rparr>))"

definition net_client :: "'w client \<Rightarrow> 'w host client" where
  "net_client c =
     \<lparr>cl_Submit = (\<lambda>b. on_net (cl_Submit c b)), cl_Tx = (\<lambda>x. on_net (cl_Tx c x)), cl_AccountTx = (\<lambda>a. on_net (cl_AccountTx c a)),
      cl_LedgerEntryDID = (\<lambda>a. on_net (cl_LedgerEntryDID c a)), cl_AccountInfo = (\<lambda>a. on_net (cl_AccountInfo c a)),
      cl_ServerInfo = on_net (cl_ServerInfo c), cl_AmendmentEnabled = (\<lambda>i. on_net (cl_AmendmentEnabled c i))\<rparr>"

text \<open>A client that answers from a dump that was read before leaves the host alone.\<close>

definition loaded_client :: "(string \<Rightarrow> string \<Rightarrow> bool) \<Rightarrow> dump \<Rightarrow> 'w host client" where
  "loaded_client uni d =
     (let c = dump_client uni in
      \<lparr>cl_Submit = (\<lambda>b h. (fst (cl_Submit c b d), h)), cl_Tx = (\<lambda>x h. (fst (cl_Tx c x d), h)),
       cl_AccountTx = (\<lambda>a h. (fst (cl_AccountTx c a d), h)), cl_LedgerEntryDID = (\<lambda>a h. (fst (cl_LedgerEntryDID c a d), h)),
       cl_AccountInfo = (\<lambda>a h. (fst (cl_AccountInfo c a d), h)), cl_ServerInfo = (\<lambda>h. (fst (cl_ServerInfo c d), h)),
       cl_AmendmentEnabled = (\<lambda>i h. (fst (cl_AmendmentEnabled c i d), h))\<rparr>)"

text \<open>What a client answers to the readers of the ledger at one moment.\<close>

definition reader_of :: "'w host client \<Rightarrow> 'w host \<Rightarrow> chain_reader" where
  "reader_of c h =
     \<lparr>rd_Tx = (\<lambda>x. fst (cl_Tx c x h)), rd_AccountTx = (\<lambda>a. fst (cl_AccountTx c a h)), rd_LedgerEntryDID = (\<lambda>a. fst (cl_LedgerEntryDID c a h))\<rparr>"

definition rpc_New :: "'w system \<Rightarrow> string \<Rightarrow> 'w client" where
  "rpc_New y url = rpc_client \<lparr>rp_Post = sy_Post y url, rp_Fold = sy_Fold y, rp_Upper = pm_upper (sy_Prims y)\<rparr>"

definition json_files :: "'w system \<Rightarrow> 'w host \<Rightarrow> string \<Rightarrow> json_file" where
  "json_files y h p =
     (case os_Read y p h of
        None \<Rightarrow> Unreadable
      | Some b \<Rightarrow> (case sy_Parse y b of None \<Rightarrow> NotJSONText | Some j \<Rightarrow> JSONText j))"

definition load_dump :: "'w system \<Rightarrow> string \<Rightarrow> 'w host \<Rightarrow> dump_error + dump" where
  "load_dump y p h = dump_Load (sy_Fold y) (pm_upper (sy_Prims y)) (json_files y h) p"

definition rpc_url :: "'w system \<Rightarrow> string \<Rightarrow> string" where
  "rpc_url y s = (case map_of rpcAliases (to_lower (sy_Lower y) s) of Some u \<Rightarrow> u | None \<Rightarrow> s)"

definition openClient :: "'w system \<Rightarrow> string \<Rightarrow> string \<Rightarrow> ('w, 'w host client \<times> string) command" where
  "openClient y rpcURL dumpPath h =
     (if rpcURL \<noteq> [] \<and> dumpPath \<noteq> [] then fail exitUsage ''pass either --rpc or --dump, not both'' h
      else if dumpPath \<noteq> [] then
        act_then (act_of DumpErr (load_dump y dumpPath h)) (\<lambda>d. act_ok (loaded_client (sy_Fold y) d, ''dump file '' @ dumpPath)) h
      else if rpcURL \<noteq> [] then
        (let u = rpc_url y rpcURL in
         if \<not> has_prefix u ''http://'' \<and> \<not> has_prefix u ''https://'' then fail exitUsage ''--rpc must be an http(s) URL'' h
         else act_ok (net_client (rpc_New y u), u) h)
      else fail exitUsage ''pass --rpc or --dump'' h)"

section \<open>The recovery key\<close>

definition nonEmptyLines :: "string \<Rightarrow> string list" where
  "nonEmptyLines s = filter (\<lambda>t. t \<noteq> []) (map trim_space (split_on (CHR 0x0A) s))"

definition root_of_words :: "'w system \<Rightarrow> string \<Rightarrow> cmd_error + byte list" where
  "root_of_words y s = (case FromWords (sy_Lower y) (sy_sha256 y) (sy_Wordlist y) (ParseWords s) of Inl _ \<Rightarrow> Inl (Exit exitAuth ''recovery key'') | Inr r \<Rightarrow> Inr r)"

definition root_of_shares :: "'w system \<Rightarrow> string list \<Rightarrow> cmd_error + byte list" where
  "root_of_shares y ls = (case RootKey_Combine (pm_upper (sy_Prims y)) (sy_sha256 y) ls of Inl _ \<Rightarrow> Inl (Exit exitAuth ''recovery key'') | Inr r \<Rightarrow> Inr r)"

lemma read_line_shorter:
  assumes "read_line s = Some (l, rest)"
  shows "length rest < length s"
proof -
  have "s \<noteq> []" "rest = drop 1 (dropWhile (\<lambda>c. c \<noteq> CHR 0x0A) s)" using assms by (auto simp: read_line_def split: if_splits)
  then have "0 < length s" "length rest \<le> length s - 1" using length_dropWhile_le [of "\<lambda>c. c \<noteq> CHR 0x0A" s] by (simp_all add: diff_le_mono)
  then show ?thesis by linarith
qed

text \<open>The lines typed in, until an empty one, the end of the input, or 24 words on the first line.\<close>

function recovery_lines :: "string list \<Rightarrow> string \<Rightarrow> string list \<times> string" where
  "recovery_lines ls input =
     (case read_line input of
        None \<Rightarrow> (ls, input)
      | Some (raw, rest) \<Rightarrow>
          let l = trim_space raw in
          if l = [] then (ls, rest)
          else if ls = [] \<and> length (ParseWords l) = WordCount then ([l], rest)
          else recovery_lines (ls @ [l]) rest)"
  by pat_completeness auto
termination by (relation "measure (length \<circ> snd)") (auto dest: read_line_shorter)

declare recovery_lines.simps [simp del]

definition typed_root :: "'w system \<Rightarrow> ('w, byte list) command" where
  "typed_root y h =
     (let (ls, rest) = recovery_lines [] (ho_Input h); h = h\<lparr>ho_Input := rest\<rparr> in
      if ls = [] then fail exitUsage ''no recovery key entered'' h
      else if length ls = 1 \<and> length (ParseWords (ls ! 0)) = WordCount then act_of (\<lambda>e. e) (root_of_words y (ls ! 0)) h
      else act_of (\<lambda>e. e) (root_of_shares y ls) h)"

definition recoveryKeys :: "'w system \<Rightarrow> string \<Rightarrow> string \<Rightarrow> ('w, byte list) command" where
  "recoveryKeys y wordsFile sharesFile =
     (if wordsFile \<noteq> [] \<and> sharesFile \<noteq> [] then fail exitUsage ''pass either --words-file or --shares-file, not both''
      else if wordsFile \<noteq> [] then act_then (os_ReadFile y wordsFile) (\<lambda>b. act_of (\<lambda>e. e) (root_of_words y (str b)))
      else if sharesFile \<noteq> [] then act_then (os_ReadFile y sharesFile) (\<lambda>b. act_of (\<lambda>e. e) (root_of_shares y (nonEmptyLines (str b))))
      else typed_root y)"

section \<open>Frames\<close>

text \<open>
  What a run leaves alone, as a relation between the host before and after.  The rules for the combinators hold for
  every relation that is reflexive and transitive.
\<close>

definition stays :: "('s \<Rightarrow> 's \<Rightarrow> bool) \<Rightarrow> ('s, 'e, 'a) action \<Rightarrow> bool" where
  "stays R m \<longleftrightarrow> (\<forall>s r s'. m s = (r, s') \<longrightarrow> R s s')"

lemma staysD: "stays R m \<Longrightarrow> m s = (r, s') \<Longrightarrow> R s s'"
  by (auto simp: stays_def)

lemma act_then_cases:
  assumes "act_then m f h = (r, h')"
  obtains (stop) e where "m h = (Inl e, h')" "r = Inl e" | (go) x h1 where "m h = (Inr x, h1)" "f x h1 = (r, h')"
  using assms by (auto simp: act_then_def split: prod.splits sum.splits)

locale frame =
  fixes R :: "'s \<Rightarrow> 's \<Rightarrow> bool"
  assumes refl: "R s s"
    and trans: "R s t \<Longrightarrow> R t u \<Longrightarrow> R s u"
begin

lemma stays_then:
  assumes "stays R m" "\<And>x. stays R (f x)"
  shows "stays R (act_then m f)"
  unfolding stays_def
proof (intro allI impI)
  fix s r s'
  assume "act_then m f s = (r, s')"
  then show "R s s'"
  proof (cases rule: act_then_cases)
    case (stop e)
    then show ?thesis using staysD [OF assms(1)] by blast
  next
    case (go x t)
    then show ?thesis using trans [OF staysD [OF assms(1) go(1)] staysD [OF assms(2) go(2)]] by blast
  qed
qed

lemma stays_basic: "stays R (act_ok x)" "stays R (act_of g r)" "stays R (act_fail e)"
  using refl by (auto simp: stays_def act_ok_def act_of_def act_fail_def split: sum.splits)

lemma stays_if: "(b \<Longrightarrow> stays R m) \<Longrightarrow> (\<not> b \<Longrightarrow> stays R n) \<Longrightarrow> stays R (if b then m else n)"
  by simp

lemma stays_option: "stays R m \<Longrightarrow> (\<And>x. stays R (f x)) \<Longrightarrow> stays R (case z of None \<Rightarrow> m | Some x \<Rightarrow> f x)"
  by (simp split: option.splits)

lemma stays_sum: "(\<And>x. stays R (f x)) \<Longrightarrow> (\<And>x. stays R (g x)) \<Longrightarrow> stays R (case z of Inl x \<Rightarrow> f x | Inr x \<Rightarrow> g x)"
  by (simp split: sum.splits)

lemma stays_prod: "(\<And>a b. stays R (f a b)) \<Longrightarrow> stays R (case x of (a, b) \<Rightarrow> f a b)"
  by (simp split: prod.splits)

lemma stays_map_error: "stays R m \<Longrightarrow> stays R (act_map_error g m)"
  by (auto simp: stays_def act_map_error_def split: prod.splits sum.splits)

lemma stays_each: "(\<And>x. stays R (f x)) \<Longrightarrow> stays R (act_each f xs)"
proof (induction xs)
  case Nil
  then show ?case using refl by (simp add: stays_def)
next
  case (Cons x xs)
  then have "stays R (f x)" "stays R (act_each f xs)" by auto
  then show ?case using trans by (fastforce simp: stays_def split: prod.splits sum.splits)
qed

end

text \<open>Two such relations: all files stay, and files, input and a property of the outside world stay.\<close>

definition same_files :: "'w host \<Rightarrow> 'w host \<Rightarrow> bool" where
  "same_files h h' \<longleftrightarrow> ho_Files h' = ho_Files h"

definition only_reads :: "('w \<Rightarrow> bool) \<Rightarrow> 'w host \<Rightarrow> 'w host \<Rightarrow> bool" where
  "only_reads P h h' \<longleftrightarrow> ho_Files h' = ho_Files h \<and> ho_Input h' = ho_Input h \<and> (P (ho_Net h) \<longrightarrow> P (ho_Net h'))"

interpretation files: frame same_files
  by unfold_locales (auto simp: same_files_def)

interpretation reads: frame "only_reads P" for P
  by unfold_locales (auto simp: only_reads_def)

abbreviation keeps_files :: "('w host, 'e, 'a) action \<Rightarrow> bool" where
  "keeps_files \<equiv> stays same_files"

named_theorems keeps

lemmas [keeps] = files.stays_then files.stays_basic files.stays_if files.stays_option files.stays_sum files.stays_prod files.stays_map_error files.stays_each

lemma keeps_filesI: "(\<And>h r h'. m h = (r, h') \<Longrightarrow> ho_Files h' = ho_Files h) \<Longrightarrow> keeps_files m"
  by (auto simp: stays_def same_files_def)

lemma keeps_filesD: "keeps_files m \<Longrightarrow> m h = (r, h') \<Longrightarrow> ho_Files h' = ho_Files h"
  by (auto simp: stays_def same_files_def)

lemma keeps_fail [keeps]: "keeps_files (fail c msg)"
  unfolding fail_def by (intro keeps)

lemma keeps_read [keeps]: "keeps_files (os_ReadFile y p)"
  by (auto intro!: keeps_filesI simp: os_ReadFile_def)

lemma readLine_files: "readLine h = (l, h') \<Longrightarrow> ho_Files h' = ho_Files h"
  by (auto simp: readLine_def split: option.splits)

lemma keeps_prompt [keeps]: "keeps_files prompt"
  by (auto intro!: keeps_filesI simp: prompt_def Let_def readLine_files split: prod.splits)

lemma keeps_confirm [keeps]: "keeps_files (confirm y)"
  unfolding confirm_def by (intro keeps)

lemma keeps_typed [keeps]: "keeps_files (typed_root y)"
  by (auto intro!: keeps_filesI simp: typed_root_def Let_def fail_def act_fail_def act_of_def split: prod.splits if_splits sum.splits)

lemma keeps_recovery [keeps]: "keeps_files (recoveryKeys y words shs)"
  unfolding recoveryKeys_def by (intro keeps)

section \<open>The sequence number of a plan\<close>

text \<open>The options with the number found, the warnings, and the error that kept it from being found.\<close>

datatype plan_warning = SeqWarning seq_warning | SeqUnknown seq_error

definition bindPlan :: "prims \<Rightarrow> chain_reader \<Rightarrow> keyfile \<Rightarrow> string \<Rightarrow> backup_options \<Rightarrow> backup_options \<times> plan_warning list \<times> seq_error option" where
  "bindPlan pm rd kf account opts =
     (case NextSeq pm rd kf account of
        Inl e \<Rightarrow> (opts, [SeqUnknown e], Some e)
      | Inr (sq, old, warns) \<Rightarrow> (opts\<lparr>bo_Seq := sq, bo_Supersedes := old\<rparr>, map SeqWarning warns, None))"

section \<open>The report of a split\<close>

definition moveLine :: "move \<Rightarrow> string" where
  "moveLine m =
     (let place = (if m_stanza m = [] then ''the lines before the first stanza'' else ''['' @ m_stanza m @ '']'') in
      if m_comments m \<ge> m_lines m \<and> m_lines m > 0
      then place @ '': '' @ dec_nat (m_lines m) @ '' comment line(s) -> bundle, comment only, every setting stays on-chain ('' @ m_reason m @ '')''
      else if m_comments m > 0
      then place @ '': '' @ dec_nat (m_lines m) @ '' line(s) -> bundle, '' @ dec_nat (m_comments m) @ '' of them comments ('' @ m_reason m @ '')''
      else place @ '': '' @ dec_nat (m_lines m) @ '' line(s) -> bundle ('' @ m_reason m @ '')'')"

fun move_lines :: "bool \<Rightarrow> string \<Rightarrow> move list \<Rightarrow> string list" where
  "move_lines headings prev [] = []"
| "move_lines headings prev (m # ms) =
     (if headings \<and> m_file m \<noteq> prev then (''  '' @ m_file m) # (''  '' @ moveLine m) # move_lines headings (m_file m) ms
      else (''  '' @ moveLine m) # move_lines headings prev ms)"

definition summarizeMoves :: "move list \<Rightarrow> string list" where
  "summarizeMoves moves =
     (if moves = [] then [''  nothing moved: every stanza is allowed on-chain'']
      else move_lines (length (remdups (filter (\<lambda>f. f \<noteq> []) (map m_file moves))) > 1) [] moves)"

end
