(* ===== verification/Cmd_Init.thy ===== *)
theory Cmd_Init
  imports Cmd
begin

text \<open>
  \<^verbatim>\<open>cmd/xrplbak/cmd_init.go\<close>: a new recovery key with its key file, the check that it was copied, and the rotation of
  a key file to its next epoch.  What \<^verbatim>\<open>init\<close> prints, the words or shares and the writer's address, is its result.
\<close>

section \<open>Operations\<close>

record init_flags =
  in_Out :: string
  in_Shares :: int
  in_Threshold :: int
  in_Passphrase :: bool
  in_Yes :: bool
  in_Rotate :: bool
  in_WordsFile :: string
  in_SharesFile :: string

record init_report =
  ir_Lines :: "string list"
  ir_Address :: string

definition EncodeKey :: "'w system \<Rightarrow> keyfile \<Rightarrow> byte list" where
  "EncodeKey y = EncodeKeyFile (sy_sha256 y)"

definition WrapKey :: "'w system \<Rightarrow> keyfile \<Rightarrow> byte list \<Rightarrow> cmd_error + byte list" where
  "WrapKey y kf pw =
     (case sy_Salt y of
        None \<Rightarrow> Inl (OSErr ''random'' [])
      | Some salt \<Rightarrow>
          (case EncodeWrapped (pm_gcm (sy_Prims y)) (sy_Pbkdf2 y) (sy_sha256 y) salt kf pw of
             Inl e \<Rightarrow> Inl (CryptoErr e)
           | Inr b \<Rightarrow> Inr b))"

definition NewRootKey :: "'w system \<Rightarrow> cmd_error + byte list" where
  "NewRootKey y = (case sy_Root y of None \<Rightarrow> Inl (OSErr ''random'' []) | Some r \<Rightarrow> Inr (to_array KeyLen r))"

definition sign_NewKey :: "'w system \<Rightarrow> cmd_error + sign_key" where
  "sign_NewKey y =
     (case sy_Seed y of
        None \<Rightarrow> Inl (OSErr ''random'' [])
      | Some s \<Rightarrow> (case KeyFromSeed (sy_Sha512 y) (to_array SeedLen s) of Inl e \<Rightarrow> Inl (SignErr e) | Inr k \<Rightarrow> Inr k))"

definition key_AccountID :: "'w system \<Rightarrow> sign_key \<Rightarrow> byte list" where
  "key_AccountID y k = AccountIDFromPublicKey (sy_sha256 y) ripemd160 (PublicKey (sy_Ed25519 y) k)"

definition key_Address :: "'w system \<Rightarrow> sign_key \<Rightarrow> string" where
  "key_Address y k = EncodeAddress (sy_sha256 y) (key_AccountID y k)"

text \<open>Two prompts that have to agree.\<close>

definition new_passphrase :: "('w, byte list) command" where
  "new_passphrase =
     act_then prompt (\<lambda>p. act_then prompt (\<lambda>q.
       if p \<noteq> q then fail exitUsage ''passphrases differ'' else act_ok (bytes p)))"

subsection \<open>The re-entry check\<close>

definition reentryAttempts :: nat where "reentryAttempts = 3"

definition sameShare :: "'w system \<Rightarrow> string \<Rightarrow> string \<Rightarrow> bool" where
  "sameShare y got want \<longleftrightarrow> NormalizeShare (pm_upper (sy_Prims y)) got = NormalizeShare (pm_upper (sy_Prims y)) want"

definition reentry_match :: "'w system \<Rightarrow> bool \<Rightarrow> string \<Rightarrow> string \<Rightarrow> bool" where
  "reentry_match y isShares want got = (if isShares then sameShare y got want else equal_fold (sy_Fold y) (trim_space got) want)"

text \<open>The tries that are left for one line.\<close>

fun reenter :: "nat \<Rightarrow> (string \<Rightarrow> bool) \<Rightarrow> 'w host \<Rightarrow> bool \<times> 'w host" where
  "reenter 0 good h = (False, h)"
| "reenter (Suc n) good h =
     (case readLine h of
        (None, h') \<Rightarrow> (False, h')
      | (Some got, h') \<Rightarrow> if good got then (True, h') else reenter n good h')"

fun reenter_all :: "(nat \<Rightarrow> string \<Rightarrow> bool) \<Rightarrow> nat list \<Rightarrow> 'w host \<Rightarrow> bool \<times> 'w host" where
  "reenter_all good [] h = (True, h)"
| "reenter_all good (i # is) h =
     (case reenter reentryAttempts (good i) h of (False, h') \<Rightarrow> (False, h') | (True, h') \<Rightarrow> reenter_all good is h')"

definition checkReentry :: "'w system \<Rightarrow> string list \<Rightarrow> bool \<Rightarrow> 'w host \<Rightarrow> bool \<times> 'w host" where
  "checkReentry y ls isShares =
     reenter_all (\<lambda>i. reentry_match y isShares (ls ! i)) (take (if isShares then 1 else 3) (sy_Picks y (length ls)))"

subsection \<open>The guard against an interrupt\<close>

text \<open>The two selects of \<^verbatim>\<open>interruptGuard\<close>: an interrupt or the release of the guard, whichever comes first.\<close>

datatype guard = Armed | Warned | Released | Quit
datatype guard_event = Interrupt | Done

fun interruptGuard :: "guard \<Rightarrow> guard_event \<Rightarrow> guard" where
  "interruptGuard Armed Interrupt = Warned"
| "interruptGuard Warned Interrupt = Quit"
| "interruptGuard Armed Done = Released"
| "interruptGuard Warned Done = Released"
| "interruptGuard Released e = Released"
| "interruptGuard Quit e = Quit"

subsection \<open>Init\<close>

definition printed_lines :: "'w system \<Rightarrow> int \<Rightarrow> int \<Rightarrow> byte list \<Rightarrow> cmd_error + string list" where
  "printed_lines y shares threshold root =
     (if shares > 0
      then (case RootKey_Split (sy_sha256 y) (sy_Perm y) (sy_Coefficients y) (sy_SplitID y) root shares threshold of
              Inl e \<Rightarrow> Inl (SharesErr e)
            | Inr ls \<Rightarrow> Inr ls)
      else Inr (ToWords (sy_sha256 y) (sy_Wordlist y) root))"

definition encode_new :: "'w system \<Rightarrow> bool \<Rightarrow> keyfile \<Rightarrow> ('w, byte list) command" where
  "encode_new y passphrase kf =
     (if passphrase then act_then new_passphrase (\<lambda>pw. act_of (\<lambda>e. e) (WrapKey y kf pw)) else act_ok (EncodeKey y kf))"

definition first_key :: "'w system \<Rightarrow> byte list \<Rightarrow> sign_key \<Rightarrow> keyfile" where
  "first_key y root k =
     \<lparr>kf_Epoch = 0, kf_Key = DeriveEpochKey (pm_hkdf (sy_Prims y)) root 0, kf_AccountID = to_array 20 (key_AccountID y k), kf_WriterSeed = to_array 16 (k_seed k)\<rparr>"

definition key_path :: "init_flags \<Rightarrow> string" where
  "key_path f = Join (in_Out f) ''xrplbak.key''"

definition reentry :: "'w system \<Rightarrow> init_flags \<Rightarrow> string list \<Rightarrow> ('w, unit) command" where
  "reentry y f ls =
     (if in_Yes f then act_ok ()
      else (\<lambda>h. case checkReentry y ls (in_Shares f > 0) h of (ok, h') \<Rightarrow> (if ok then Inr () else Inl (Exit exitUsage ''re-entry check failed''), h')))"

definition init_new :: "'w system \<Rightarrow> init_flags \<Rightarrow> ('w, init_report) command" where
  "init_new y f =
     (let threshold = (if in_Shares f > 0 \<and> in_Threshold f = 0 then 2 else in_Threshold f) in
      act_then (act_of (\<lambda>e. e) (NewRootKey y)) (\<lambda>root.
      act_then (act_of (\<lambda>e. e) (sign_NewKey y)) (\<lambda>writer.
      act_then (act_of (\<lambda>e. e) (printed_lines y (in_Shares f) threshold root)) (\<lambda>ls.
      act_then (reentry y f ls) (\<lambda>_.
      act_then (encode_new y (in_Passphrase f) (first_key y root writer)) (\<lambda>b.
      act_then (os_MkdirAll y (in_Out f)) (\<lambda>_.
      act_then (os_WriteFile y (key_path f) b) (\<lambda>_.
      act_then (if in_Yes f then act_ok False else confirm y) (\<lambda>_.
        act_ok \<lparr>ir_Lines = ls, ir_Address = key_Address y writer\<rparr>)))))))))"

subsection \<open>Rotation\<close>

text \<open>Candidates \<open>base\<close>, \<open>base.2\<close>, \dots, \<open>base.100\<close>; the first name that is free is linked, then the old name removed.\<close>

definition aside_name :: "string \<Rightarrow> nat \<Rightarrow> string" where
  "aside_name base i = (if i > 1 then base @ ''.'' @ dec_nat i else base)"

fun move_to :: "'w system \<Rightarrow> string \<Rightarrow> string list \<Rightarrow> ('w, string) command" where
  "move_to y path [] h = fail exitRefused ''numbered copies already exist'' h"
| "move_to y path (dst # dsts) h =
     (case os_Link y path dst h of
        (Inl True, h') \<Rightarrow> move_to y path dsts h'
      | (Inl False, h') \<Rightarrow> (Inl (OSErr ''link'' dst), h')
      | (Inr _, h') \<Rightarrow> act_then (os_Remove y path) (\<lambda>_. act_ok dst) h')"

definition moveAside :: "'w system \<Rightarrow> string \<Rightarrow> string \<Rightarrow> ('w, string) command" where
  "moveAside y path base = move_to y path (map (aside_name base) [1..<101])"

definition next_key :: "'w system \<Rightarrow> byte list \<Rightarrow> keyfile \<Rightarrow> keyfile" where
  "next_key y root kf = kf\<lparr>kf_Epoch := kf_Epoch kf + 1, kf_Key := DeriveEpochKey (pm_hkdf (sy_Prims y)) root (kf_Epoch kf + 1)\<rparr>"

definition encode_rotated :: "'w system \<Rightarrow> bool \<Rightarrow> byte list option \<Rightarrow> keyfile \<Rightarrow> ('w, byte list) command" where
  "encode_rotated y passphrase pw kf =
     (if passphrase then act_then new_passphrase (\<lambda>p. act_of (\<lambda>e. e) (WrapKey y kf p))
      else case pw of
             Some p \<Rightarrow> act_of (\<lambda>e. e) (WrapKey y kf p)
           | None \<Rightarrow> act_ok (EncodeKey y kf))"

text \<open>The old key file gets another name before the new one is written.\<close>

definition replace_key :: "'w system \<Rightarrow> string \<Rightarrow> u32 \<Rightarrow> byte list \<Rightarrow> ('w, string) command" where
  "replace_key y keyPath e out =
     act_then (moveAside y keyPath (keyPath @ ''.epoch'' @ dec_nat (unat e))) (\<lambda>old.
     act_then (os_WriteFile y keyPath out) (\<lambda>_. act_ok old))"

definition rotated_key :: "'w system \<Rightarrow> string \<Rightarrow> string \<Rightarrow> string \<Rightarrow> bool \<Rightarrow> ('w, u32 \<times> byte list) command" where
  "rotated_key y keyPath wordsFile sharesFile passphrase =
     act_then (act_map_error (\<lambda>_. Exit exitUsage ''no key file to rotate'') (os_ReadFile y keyPath)) (\<lambda>b.
     act_then (if IsWrapped b then act_then prompt (\<lambda>s. act_ok (Some (bytes s))) else act_ok None) (\<lambda>pw.
     act_then (act_of (\<lambda>_. Exit exitAuth ''key file'') (decode_key y b pw)) (\<lambda>kf.
     act_then (recoveryKeys y wordsFile sharesFile) (\<lambda>root.
       if DeriveEpochKey (pm_hkdf (sy_Prims y)) root (kf_Epoch kf) \<noteq> kf_Key kf then fail exitAuth ''the recovery key does not match this key file''
       else if kf_Epoch kf = 0xFFFFFFFF then fail exitRefused ''the key file is at the last epoch''
       else act_then (encode_rotated y passphrase pw (next_key y root kf)) (\<lambda>out. act_ok (kf_Epoch kf, out))))))"

definition doRotate :: "'w system \<Rightarrow> string \<Rightarrow> string \<Rightarrow> string \<Rightarrow> bool \<Rightarrow> ('w, string) command" where
  "doRotate y keyPath wordsFile sharesFile passphrase =
     act_then (rotated_key y keyPath wordsFile sharesFile passphrase) (\<lambda>(e, out). replace_key y keyPath e out)"

definition cmdInit :: "'w system \<Rightarrow> init_flags \<Rightarrow> ('w, init_report) command" where
  "cmdInit y f h =
     (if in_Rotate f
      then act_then (doRotate y (key_path f) (in_WordsFile f) (in_SharesFile f) (in_Passphrase f)) (\<lambda>old. act_ok \<lparr>ir_Lines = [], ir_Address = []\<rparr>) h
      else if os_Stat y (key_path f) h \<noteq> None then fail exitWrite ''already exists'' h
      else if in_Threshold f \<noteq> 0 \<and> in_Shares f = 0 then fail exitUsage ''--threshold only means something with --shares'' h
      else init_new y f h)"

section \<open>Rotation\<close>

lemma keeps_encode [keeps]: "keeps_files new_passphrase" "keeps_files (encode_new y p kf)" "keeps_files (encode_rotated y p pw kf)"
  unfolding encode_new_def encode_rotated_def new_passphrase_def by (intro keeps)+

lemma move_to_result:
  "move_to y path dsts h = (r, h') \<Longrightarrow>
    isl r \<and> h' = h \<or>
    (\<exists>dst b. ho_Files h path = Some (File b) \<and> ho_Files h dst = None \<and>
      (isl r \<and> h' = set_file dst b h \<or> r = Inr dst \<and> ho_Files h' = (ho_Files h)(dst \<mapsto> File b, path := None)))"
proof (induction dsts)
  case (Cons dst dsts)
  show ?case
  proof (cases "ho_Files h dst = None \<and> (\<exists>b. ho_Files h path = Some (File b)) \<and> \<not> sy_Fault y ''link'' dst")
    case True
    then obtain b where b: "ho_Files h dst = None" "ho_Files h path = Some (File b)" "os_Link y path dst h = (Inr (), set_file dst b h)"
      by (auto simp: os_Link_def)
    have "act_then (os_Remove y path) (\<lambda>_. act_ok dst) (set_file dst b h) = (r, h')" using Cons.prems b(3) by simp
    then have "isl r \<and> h' = set_file dst b h \<or> r = Inr dst \<and> ho_Files h' = (ho_Files h)(dst \<mapsto> File b, path := None)"
      by (cases rule: act_then_cases) (auto simp: os_Remove_def set_file_def split: if_splits)
    then show ?thesis using b(1,2) by blast
  next
    case False
    then have "os_Link y path dst h = (Inl (ho_Files h dst \<noteq> None), h)" by (auto simp: os_Link_def split: option.splits node.splits)
    then show ?thesis using Cons by (cases "ho_Files h dst = None") auto
  qed
qed (simp add: fail_def)

lemma write_file_cases:
  assumes "os_WriteFile y p b h = (r, h')"
  shows "(\<forall>q. q \<noteq> p \<longrightarrow> ho_Files h' q = ho_Files h q) \<and> (isl r \<or> ho_Files h' p = Some (File b))"
  using assms by (auto simp: os_WriteFile_def set_file_def split: if_splits)

text \<open>Every file keeps its bytes under its name, the key file at least under some name.\<close>

definition nothing_lost :: "string \<Rightarrow> 'w host \<Rightarrow> 'w host \<Rightarrow> bool" where
  "nothing_lost keyPath h h' \<longleftrightarrow>
     (\<forall>p b. ho_Files h p = Some (File b) \<longrightarrow> (p = keyPath \<or> ho_Files h' p = Some (File b)) \<and> (\<exists>q. ho_Files h' q = Some (File b)))"

lemma nothing_lost_same: "ho_Files h' = ho_Files h \<Longrightarrow> nothing_lost kp h h'"
  by (auto simp: nothing_lost_def)

lemma nothing_lost_cong: "ho_Files h1 = ho_Files h \<Longrightarrow> nothing_lost kp h1 h' \<Longrightarrow> nothing_lost kp h h'"
  by (auto simp: nothing_lost_def)

lemma nothing_lost_linked:
  assumes "ho_Files h kp = Some (File b)" "ho_Files h dst = None" "\<forall>q. q \<noteq> kp \<longrightarrow> ho_Files h' q = ((ho_Files h)(dst \<mapsto> File b)) q"
  shows "nothing_lost kp h h'"
proof -
  have "dst \<noteq> kp" using assms(1,2) by auto
  then have "ho_Files h' dst = Some (File b)" "\<forall>q. q \<noteq> kp \<and> q \<noteq> dst \<longrightarrow> ho_Files h' q = ho_Files h q" using assms(3) by simp_all
  note h' = this
  show ?thesis unfolding nothing_lost_def
  proof (intro allI impI)
    fix p c
    assume p: "ho_Files h p = Some (File c)"
    show "(p = kp \<or> ho_Files h' p = Some (File c)) \<and> (\<exists>q. ho_Files h' q = Some (File c))"
    proof (cases "p = kp")
      case False
      moreover have "p \<noteq> dst" using p assms(2) by auto
      ultimately have "ho_Files h' p = Some (File c)" using h' p by simp
      then show ?thesis by blast
    qed (use h' p assms(1) in auto)
  qed
qed

lemma replace_key_keeps:
  assumes "replace_key y kp e out h = (r, h')"
  shows "nothing_lost kp h h' \<and> (\<forall>old. r = Inr old \<longrightarrow>
    (\<exists>b. ho_Files h kp = Some (File b) \<and> ho_Files h old = None \<and> ho_Files h' old = Some (File b) \<and> ho_Files h' kp = Some (File out)))"
  using assms unfolding replace_key_def
proof (cases rule: act_then_cases)
  case (stop e)
  show ?thesis using move_to_result [OF stop(1) [unfolded moveAside_def]] stop(2)
    by (auto intro: nothing_lost_same nothing_lost_linked simp: set_file_def)
next
  case (go old h1)
  from go(1) obtain b where m: "ho_Files h kp = Some (File b)" "ho_Files h old = None" "ho_Files h1 = (ho_Files h)(old \<mapsto> File b, kp := None)"
    unfolding moveAside_def using move_to_result [of y kp _ h "Inr old" h1] by auto
  obtain z where w: "os_WriteFile y kp out h1 = (z, h')" "r = (case z of Inl e \<Rightarrow> Inl e | Inr _ \<Rightarrow> Inr old)"
    using go(2) by (cases rule: act_then_cases) auto
  have f: "\<forall>q. q \<noteq> kp \<longrightarrow> ho_Files h' q = ho_Files h1 q" "isl z \<or> ho_Files h' kp = Some (File out)" using write_file_cases [OF w(1)] by auto
  have "old \<noteq> kp" using m(1,2) by auto
  moreover have "nothing_lost kp h h'" using f(1) m(3) by (intro nothing_lost_linked [OF m(1,2)]) simp
  ultimately show ?thesis using m f w(2) by (auto split: sum.splits)
qed

lemma keeps_rotated [keeps]: "keeps_files (rotated_key y kp words shs pass)"
  unfolding rotated_key_def by (intro keeps)

text \<open>
  C23.  A rotation loses nothing, whether it succeeds or stops at any point: every other file keeps its bytes under its
  name, and the bytes of the key file are still there under its name or another.
\<close>
theorem rotate_loses_nothing: "nothing_lost kp h (snd (doRotate y kp words shs pass h))"
proof -
  obtain r h' where d: "doRotate y kp words shs pass h = (r, h')" by (rule prod.exhaust)
  from d [unfolded doRotate_def] show ?thesis
  proof (cases rule: act_then_cases)
    case (stop e)
    then show ?thesis using nothing_lost_same [OF keeps_filesD [OF keeps_rotated stop(1)]] d by simp
  next
    case (go x h1)
    then have "nothing_lost kp h1 h'" using replace_key_keeps by (cases x) (simp, blast)
    then show ?thesis using nothing_lost_cong [OF keeps_filesD [OF keeps_rotated go(1)]] d by simp
  qed
qed

lemma unat_next: "(a :: u32) \<noteq> 0xFFFFFFFF \<Longrightarrow> unat (a + 1) = Suc (unat a)"
proof -
  assume a: "a \<noteq> 0xFFFFFFFF"
  have "unat a < 2 ^ 32" by (rule order_less_le_trans [OF unsigned_less]) simp
  moreover have "unat a \<noteq> 0xFFFFFFFF" using a by (auto simp: word_unat_eq_iff)
  ultimately show ?thesis by (simp add: unat_word_ariths)
qed

lemma rotated_key_ok:
  assumes "rotated_key y kp words shs pass h = (Inr (e, out), h')"
  obtains b pw kf root h1 h2 where "ho_Files h kp = Some (File b)" "decode_key y b pw = Inr kf" "pw = None \<longleftrightarrow> \<not> IsWrapped b"
      "DeriveEpochKey (pm_hkdf (sy_Prims y)) root (kf_Epoch kf) = kf_Key kf" "kf_Epoch kf \<noteq> 0xFFFFFFFF" "e = kf_Epoch kf"
      "encode_rotated y pass pw (next_key y root kf) h1 = (Inr out, h2)"
proof -
  obtain b where b: "ho_Files h kp = Some (File b)" 
    and r: "act_then (if IsWrapped b then act_then prompt (\<lambda>s. act_ok (Some (bytes s))) else act_ok None) (\<lambda>pw.
     act_then (act_of (\<lambda>_. Exit exitAuth ''key file'') (decode_key y b pw)) (\<lambda>kf.
     act_then (recoveryKeys y words shs) (\<lambda>root.
       if DeriveEpochKey (pm_hkdf (sy_Prims y)) root (kf_Epoch kf) \<noteq> kf_Key kf then fail exitAuth ''the recovery key does not match this key file''
       else if kf_Epoch kf = 0xFFFFFFFF then fail exitRefused ''the key file is at the last epoch''
       else act_then (encode_rotated y pass pw (next_key y root kf)) (\<lambda>out. act_ok (kf_Epoch kf, out))))) h = (Inr (e, out), h')"
    using assms unfolding rotated_key_def act_then_eq [of "act_map_error _ _"]
    by (auto simp: os_ReadFile_def os_Read_def split: option.splits node.splits if_splits)
  obtain pw h1 kf root h2 where s: "(if IsWrapped b then act_then prompt (\<lambda>s. act_ok (Some (bytes s))) else act_ok None) h = (Inr pw, h1)"
      "decode_key y b pw = Inr kf" "recoveryKeys y words shs h1 = (Inr root, h2)"
      "(if DeriveEpochKey (pm_hkdf (sy_Prims y)) root (kf_Epoch kf) \<noteq> kf_Key kf then fail exitAuth ''the recovery key does not match this key file''
       else if kf_Epoch kf = 0xFFFFFFFF then fail exitRefused ''the key file is at the last epoch''
       else act_then (encode_rotated y pass pw (next_key y root kf)) (\<lambda>out. act_ok (kf_Epoch kf, out))) h2 = (Inr (e, out), h')"
    using r unfolding act_then_eq by auto
  have "pw = None \<longleftrightarrow> \<not> IsWrapped b" using s(1) by (auto simp: act_then_eq split: if_splits)
  moreover have "DeriveEpochKey (pm_hkdf (sy_Prims y)) root (kf_Epoch kf) = kf_Key kf" "kf_Epoch kf \<noteq> 0xFFFFFFFF"
    "act_then (encode_rotated y pass pw (next_key y root kf)) (\<lambda>out. act_ok (kf_Epoch kf, out)) h2 = (Inr (e, out), h')"
    using s(4) by (auto simp: fail_def split: if_splits)
  ultimately show ?thesis using that [OF b s(2)] by (auto simp: act_then_eq)
qed

lemma decode_key_ok: "decode_key y b pw = Inr kf \<Longrightarrow> keyfile_ok kf"
  using decode_plain_exact by (auto simp: decode_key_def DecodeKeyFile_def and_then_Inr)

text \<open>What the file formats rely on: an authenticated cipher, digests of 32 bytes and a salt of 16.\<close>

definition host_ok :: "'w system \<Rightarrow> bool" where
  "host_ok y \<longleftrightarrow> gcm_ok (pm_gcm (sy_Prims y)) \<and> (\<forall>d. length (sy_sha256 y d) = 32) \<and> (\<forall>s. sy_Salt y = Some s \<longrightarrow> length s = 16)"

lemma WrapKey_ok:
  assumes "host_ok y" "keyfile_ok kf" "WrapKey y kf pw = Inr b"
  shows "IsWrapped b \<and> decode_key y b (Some pw) = Inr kf"
proof -
  obtain salt where "sy_Salt y = Some salt" "EncodeWrapped (pm_gcm (sy_Prims y)) (sy_Pbkdf2 y) (sy_sha256 y) salt kf pw = Inr b"
    using assms(3) by (auto simp: WrapKey_def split: option.splits sum.splits)
  then show ?thesis unfolding decode_key_def using assms(1,2) wrapped_key_file_decodes by (fastforce simp: host_ok_def)
qed

lemma EncodeKey_ok: "host_ok y \<Longrightarrow> keyfile_ok kf \<Longrightarrow> decode_key y (EncodeKey y kf) pw = Inr kf"
  unfolding decode_key_def EncodeKey_def host_ok_def by (intro key_file_decodes) auto

lemma encode_new_ok:
  assumes "host_ok y" "keyfile_ok kf" "encode_new y pass kf h = (Inr b, h')"
  shows "\<exists>pw. decode_key y b pw = Inr kf \<and> (pass \<longrightarrow> IsWrapped b)"
  using assms WrapKey_ok [OF assms(1,2)] EncodeKey_ok [OF assms(1,2)] by (fastforce simp: encode_new_def act_then_eq split: if_splits)

lemma encode_rotated_ok:
  assumes "host_ok y" "keyfile_ok kf" "encode_rotated y pass pw kf h = (Inr b, h')"
  shows "\<exists>pw'. decode_key y b pw' = Inr kf \<and> (pw \<noteq> None \<longrightarrow> IsWrapped b)"
  using assms WrapKey_ok [OF assms(1,2)] EncodeKey_ok [OF assms(1,2)]
  by (fastforce simp: encode_rotated_def act_then_eq split: if_splits option.splits)

lemma next_key_ok: "keyfile_ok kf \<Longrightarrow> keyfile_ok (next_key y root kf)"
  by (simp add: keyfile_ok_def next_key_def DeriveEpochKey_def derive_def KeyLen_def)

text \<open>
  C22.  A rotation that reports success leaves a key file of the next epoch, one above the old and never 0, with the key the recovery
  key has for it and the same account and seed; it is wrapped if the old one was, and the old file is kept,
  byte for byte, under a name that was free.
\<close>
theorem rotate_advances:
  assumes "host_ok y" "doRotate y kp words shs pass h = (Inr old, h')"
  shows "\<exists>b pw kf root b' pw'.
    ho_Files h kp = Some (File b) \<and> decode_key y b pw = Inr kf \<and> kf_Key kf = DeriveEpochKey (pm_hkdf (sy_Prims y)) root (kf_Epoch kf) \<and>
    ho_Files h' kp = Some (File b') \<and>
    decode_key y b' pw' = Inr (kf\<lparr>kf_Epoch := kf_Epoch kf + 1, kf_Key := DeriveEpochKey (pm_hkdf (sy_Prims y)) root (kf_Epoch kf + 1)\<rparr>) \<and>
    unat (kf_Epoch kf + 1) = Suc (unat (kf_Epoch kf)) \<and> (IsWrapped b \<longrightarrow> IsWrapped b') \<and>
    ho_Files h old = None \<and> ho_Files h' old = Some (File b)"
proof -
  obtain e out h1 where r: "rotated_key y kp words shs pass h = (Inr (e, out), h1)" "replace_key y kp e out h1 = (Inr old, h')"
    using assms(2) unfolding doRotate_def act_then_eq by auto
  obtain b pw kf root g1 g2 where k: "ho_Files h kp = Some (File b)" "decode_key y b pw = Inr kf" "pw = None \<longleftrightarrow> \<not> IsWrapped b"
      "DeriveEpochKey (pm_hkdf (sy_Prims y)) root (kf_Epoch kf) = kf_Key kf" "kf_Epoch kf \<noteq> 0xFFFFFFFF" "e = kf_Epoch kf"
      "encode_rotated y pass pw (next_key y root kf) g1 = (Inr out, g2)"
    by (rule rotated_key_ok [OF r(1)])
  have "unat (kf_Epoch kf + 1) = Suc (unat (kf_Epoch kf))"
    by (rule unat_next [OF k(5)])
  moreover obtain pw' where "decode_key y out pw' = Inr (next_key y root kf)" "IsWrapped b \<longrightarrow> IsWrapped out"
    using encode_rotated_ok [OF assms(1) next_key_ok [OF decode_key_ok [OF k(2)]] k(7)] k(3) by blast
  moreover have "ho_Files h1 = ho_Files h" by (rule keeps_filesD [OF keeps_rotated r(1)])
  moreover have "\<exists>b. ho_Files h1 kp = Some (File b) \<and> ho_Files h1 old = None \<and> ho_Files h' old = Some (File b) \<and> ho_Files h' kp = Some (File out)"
    using replace_key_keeps [OF r(2)] by blast
  ultimately have "decode_key y b pw = Inr kf \<and> ho_Files h kp = Some (File b) \<and> ho_Files h old = None \<and> ho_Files h' old = Some (File b) \<and> ho_Files h' kp = Some (File out)
      \<and> decode_key y out pw' = Inr (next_key y root kf) \<and> (IsWrapped b \<longrightarrow> IsWrapped out) \<and> unat (kf_Epoch kf + 1) = Suc (unat (kf_Epoch kf))" using k(1,2) by auto
  then show ?thesis using k(4) unfolding next_key_def by metis
qed

section \<open>A new key\<close>

definition draws_ok :: "'w system \<Rightarrow> bool" where
  "draws_ok y \<longleftrightarrow> wordlist_ok (sy_Wordlist y) \<and> perm_ok (sy_Perm y) \<and> rand_ok (sy_Coefficients y) \<and> (\<forall>s. sy_SplitID y = Some s \<longrightarrow> length s = 2)"

text \<open>The printed lines give the root key back: the words typed on one line, or any selection of enough shares.\<close>

definition recovers :: "'w system \<Rightarrow> int \<Rightarrow> int \<Rightarrow> string list \<Rightarrow> byte list \<Rightarrow> bool" where
  "recovers y shares threshold ls root \<longleftrightarrow>
     (if shares > 0
      then (\<forall>sel. set sel \<subseteq> set ls \<and> distinct sel \<and> int (length sel) \<ge> max 2 threshold \<longrightarrow> root_of_shares y sel = Inr root)
      else root_of_words y (join '' '' ls) = Inr root)"

lemma printed_recover:
  assumes "draws_ok y" "length root = KeyLen" "printed_lines y shares (if shares > 0 \<and> threshold = 0 then 2 else threshold) root = Inr ls"
  shows "recovers y shares threshold ls root"
proof (cases "shares > 0")
  case True
  let ?t = "if threshold = 0 then 2 else threshold"
  obtain sid where s: "sy_SplitID y = Some sid" "RootKey_Split (sy_sha256 y) (sy_Perm y) (sy_Coefficients y) (Some sid) root shares ?t = Inr ls"
    using assms(3) True by (auto simp: printed_lines_def RootKey_Split_def split: sum.splits option.splits if_splits)
  then have t: "2 \<le> ?t" by (auto simp: RootKey_Split_def split: if_splits)
  have "root_of_shares y sel = Inr root" if "set sel \<subseteq> set ls" "distinct sel" "int (length sel) \<ge> max 2 threshold" for sel
    using shares_recover [OF _ _ assms(2) _ s(2) that(1,2)] assms(1) s(1) t that(3) by (simp add: draws_ok_def root_of_shares_def)
  then show ?thesis using True by (simp add: recovers_def)
next
  case False
  then show ?thesis using assms printed_words_recover [of "sy_Wordlist y" root]
    by (auto simp: recovers_def printed_lines_def root_of_words_def draws_ok_def)
qed

lemma length_ripemd160: "length (ripemd160 m) = 20"
  by (simp add: ripemd160_def state_bytes_def split: prod.splits)

lemma first_key_ok: "keyfile_ok (first_key y root k)"
  by (simp add: keyfile_ok_def first_key_def DeriveEpochKey_def derive_def KeyLen_def)

lemma mkdir_files: "os_MkdirAll y d h = (r, h') \<Longrightarrow> p \<noteq> d \<Longrightarrow> ho_Files h' p = ho_Files h p"
  by (auto simp: os_MkdirAll_def split: if_splits option.splits node.splits)

lemma reenter_files: "reenter n good h = (ok, h') \<Longrightarrow> ho_Files h' = ho_Files h"
proof (induction n arbitrary: h)
  case (Suc n)
  then show ?case by (auto simp: readLine_files split: prod.splits option.splits if_splits dest!: readLine_files)
qed simp

lemma reenter_all_files: "reenter_all good is h = (ok, h') \<Longrightarrow> ho_Files h' = ho_Files h"
  by (induction "is" arbitrary: h) (auto dest!: reenter_files split: prod.splits bool.splits)

lemma keeps_reentry [keeps]: "keeps_files (reentry y f ls)"
  unfolding reentry_def by (intro keeps) (auto intro!: keeps_filesI simp: checkReentry_def reenter_all_files split: prod.splits)

lemma init_new_ok:
  assumes "init_new y f h = (Inr rep, h')"
  obtains root writer b h1 h2 h3 h4 g where "length root = KeyLen"
    "printed_lines y (in_Shares f) (if in_Shares f > 0 \<and> in_Threshold f = 0 then 2 else in_Threshold f) root = Inr (ir_Lines rep)"
    "reentry y f (ir_Lines rep) h = (Inr (), h1)" "encode_new y (in_Passphrase f) (first_key y root writer) h1 = (Inr b, h2)"
    "os_MkdirAll y (in_Out f) h2 = (Inr (), h3)" "os_WriteFile y (key_path f) b h3 = (Inr (), h4)"
    "(if in_Yes f then act_ok False else confirm y) h4 = (Inr g, h')" "ir_Address rep = key_Address y writer"
proof -
  have "length root = KeyLen" if "NewRootKey y = Inr root" for root using that by (auto simp: NewRootKey_def split: option.splits)
  then show ?thesis using assms that unfolding init_new_def Let_def act_then_eq act_of_eq act_ok_eq by fastforce
qed


section \<open>A host to run on\<close>

definition sample :: "'w system" where
  "sample = \<lparr>sy_Prims = sample_prims\<lparr>pm_sha256 := (\<lambda>_. replicate 32 1)\<rparr>, sy_Sha512 = (\<lambda>_. replicate 64 2),
     sy_Ed25519 = \<lparr>ed_public = (\<lambda>_. replicate 32 3), ed_sign = (\<lambda>_ _. replicate 64 4), ed_verify = (\<lambda>_ _ _. True)\<rparr>,
     sy_Pbkdf2 = (\<lambda>_ _ _ _. None), sy_Lower = id, sy_Fold = (\<lambda>_ _. False), sy_Wordlist = sample_words, sy_Fault = (\<lambda>_ _. False),
     sy_Cut = (\<lambda>_. 0), sy_Abs = Some, sy_Attr = (\<lambda>_. \<lparr>st_Symlink = False, st_Regular = True, st_Perm = 0x180\<rparr>), sy_TempDir = None,
     sy_Parse = (\<lambda>_. None), sy_Print = (\<lambda>_. []), sy_Post = (\<lambda>_ _ w. (NoAnswer, w)), sy_Sleep = (\<lambda>_ w. w), sy_Nonce = (\<lambda>w. (None, w)),
     sy_MapOrder = (\<lambda>n. [0..<n]), sy_Root = Some (replicate 32 5), sy_Seed = Some (replicate 16 6), sy_Salt = None, sy_AttestSeed = None,
     sy_Perm = sample_perm, sy_Coefficients = sample_rand, sy_SplitID = None, sy_Picks = (\<lambda>n. [0..<n]), sy_Created = [], sy_Tool = []\<rparr>"

abbreviation sample_system :: "unit system" where
  "sample_system \<equiv> sample"

lemma sample_system_ok: "host_ok sample_system" "draws_ok sample_system"
  using sample_shares(1,2) sample_words_ok toy_gcm_ok
  by (simp_all add: host_ok_def draws_ok_def sample_def sample_prims_def)

definition init_yes :: init_flags where
  "init_yes = \<lparr>in_Out = ''o'', in_Shares = 0, in_Threshold = 0, in_Passphrase = False, in_Yes = True, in_Rotate = False, in_WordsFile = ''w'', in_SharesFile = []\<rparr>"

definition sample_writer :: sign_key where
  "sample_writer = \<lparr>k_seed = replicate 16 6, k_priv = replicate 32 2\<rparr>"

lemma sample_init:
  assumes "ho_Files h (key_path init_yes) = None" "ho_Files h ''o'' = Some Other"
  shows "cmdInit sample_system init_yes h =
    (Inr \<lparr>ir_Lines = ToWords (\<lambda>_. replicate 32 1) sample_words (replicate 32 5), ir_Address = key_Address sample_system sample_writer\<rparr>,
     set_file (key_path init_yes) (EncodeKey sample_system (first_key sample_system (replicate 32 5) sample_writer)) h)"
proof -
  have "NewRootKey sample_system = Inr (replicate 32 5)" "sign_NewKey sample_system = Inr sample_writer"
    by (simp_all add: NewRootKey_def sign_NewKey_def sample_def KeyLen_def SeedLen_def KeyFromSeed_def sample_writer_def)
  moreover have "printed_lines sample_system 0 0 (replicate 32 5) = Inr (ToWords (\<lambda>_. replicate 32 1) sample_words (replicate 32 5))"
    by (simp add: printed_lines_def sample_def)
  moreover have "sy_Fault sample_system = (\<lambda>_ _. False)" by (simp add: sample_def)
  ultimately show ?thesis using assms
    by (simp add: cmdInit_def init_new_def init_yes_def os_Stat_def act_then_def reentry_def encode_new_def os_MkdirAll_def os_WriteFile_def act_of_def act_ok_def)
qed

definition empty_host :: "unit host" where
  "empty_host = \<lparr>ho_Files = [''o'' \<mapsto> Other], ho_Input = [], ho_Net = ()\<rparr>"

lemma sample_path: "key_path init_yes = ''o/xrplbak.key''"
  by code_simp


text \<open>The host after that run, with the words in a file.\<close>

definition sample_keys :: keyfile where
  "sample_keys = first_key sample_system (replicate 32 5) sample_writer"

definition rotate_host :: "unit host" where
  "rotate_host = \<lparr>ho_Files = [''k'' \<mapsto> File (EncodeKey sample_system sample_keys),
     ''w'' \<mapsto> File (bytes (join '' '' (ToWords (\<lambda>_. replicate 32 1) sample_words (replicate 32 5))))], ho_Input = [], ho_Net = ()\<rparr>"

lemma sample_rotate: "\<exists>h'. doRotate sample_system ''k'' ''w'' [] False rotate_host = (Inr ''k.epoch0'', h')"
proof -
  have n: "\<not> sy_Fault sample_system op p" for op p by (simp add: sample_def)
  have ok: "keyfile_ok sample_keys" unfolding sample_keys_def by (rule first_key_ok)
  have "\<not> IsWrapped (EncodeKey sample_system sample_keys)" unfolding EncodeKey_def by (rule not_wrapped [OF ok])
  moreover have "decode_key sample_system (EncodeKey sample_system sample_keys) None = Inr sample_keys" by (rule EncodeKey_ok [OF sample_system_ok(1) ok])
  moreover have "root_of_words sample_system (join '' '' (ToWords (\<lambda>_. replicate 32 1) sample_words (replicate 32 5))) = Inr (replicate 32 5)"
    using printed_words_recover [OF sample_words_ok, of "replicate 32 5"] by (simp add: root_of_words_def sample_def KeyLen_def)
  moreover have "kf_Epoch sample_keys = 0" "kf_Key sample_keys = DeriveEpochKey (pm_hkdf (sy_Prims sample_system)) (replicate 32 5) 0"
    by (simp_all add: sample_keys_def first_key_def)
  moreover have "aside_name ''k.epoch0'' 1 = ''k.epoch0''" "dec_nat 0 = ''0''" by code_simp+
  moreover have "[Suc 0..<101] = Suc 0 # [2..<101]" by (simp add: upt_conv_Cons numeral_2_eq_2)
  ultimately show ?thesis
    by (simp add: doRotate_def rotated_key_def replace_key_def moveAside_def act_then_def os_ReadFile_def os_Read_def n rotate_host_def recoveryKeys_def
        encode_rotated_def act_of_def act_ok_def act_map_error_def os_Link_def os_Remove_def os_WriteFile_def set_file_def)
qed

theorem rotate_advances_witness:
  "\<exists>h' b pw kf. doRotate sample_system ''k'' ''w'' [] False rotate_host = (Inr ''k.epoch0'', h') \<and>
     ho_Files h' ''k'' = Some (File b) \<and> decode_key sample_system b pw = Inr kf"
  using sample_rotate rotate_advances [OF sample_system_ok(1)] by blast

end
