(* ===== verification/Cmd_Attest.thy ===== *)
theory Cmd_Attest
  imports Cmd_Init
begin

text \<open>
  \<^verbatim>\<open>cmd/xrplbak/cmd_attestkey.go\<close> and \<^verbatim>\<open>cmd_attest.go\<close>: the file of the delegated attestation key, the command that makes
  it, and the check of a public attestation.  An Ed25519 private key is modelled by its seed, from which it is made.
\<close>

section \<open>The attestation key file\<close>

definition attestKeyName :: string where "attestKeyName = ''xrplbak-attest.key''"

record attest_key =
  ak_VPK :: string
  ak_DSeq :: u32
  ak_Seed :: "byte list"

definition attestKeyLen :: nat where "attestKeyLen = 1 + 33 + 4 + 32 + 32"

definition attest_key_body :: "byte list \<Rightarrow> attest_key \<Rightarrow> byte list" where
  "attest_key_body vpk k = [1] @ vpk @ be32 (ak_DSeq k) @ ak_Seed k"

definition encodeAttestKey :: "(byte list \<Rightarrow> byte list) \<Rightarrow> attest_key \<Rightarrow> sign_error + byte list" where
  "encodeAttestKey sha256 k =
     and_then (DecodeNodePublic sha256 (ak_VPK k)) (\<lambda>vpk.
       let b = attest_key_body vpk k in Inr (b @ sha256 b))"

datatype attest_key_error = NotAnAttestKey | AttestKeyDamaged

definition decodeAttestKey :: "(byte list \<Rightarrow> byte list) \<Rightarrow> byte list \<Rightarrow> attest_key_error + attest_key" where
  "decodeAttestKey sha256 b =
     (if length b \<noteq> attestKeyLen \<or> b ! 0 \<noteq> 1 then Inl NotAnAttestKey
      else let body = take (length b - 32) b; sum = drop (length b - 32) b in
        if sha256 body \<noteq> sum then Inl AttestKeyDamaged
        else Inr \<lparr>ak_VPK = EncodeNodePublic sha256 (take 33 (drop 1 body)), ak_DSeq = uint32_be (take 4 (drop 34 body)), ak_Seed = drop 38 body\<rparr>)"

definition attest_pub :: "'w system \<Rightarrow> attest_key \<Rightarrow> byte list" where
  "attest_pub y k = ed_public (sy_Ed25519 y) (ak_Seed k)"

definition loadAttestKey :: "'w system \<Rightarrow> string \<Rightarrow> ('w, attest_key) command" where
  "loadAttestKey y path =
     act_then (act_map_error (\<lambda>_. Exit exitUsage ''no attestation key'') (os_ReadFile y path)) (\<lambda>b.
       act_of (\<lambda>_. Exit exitAuth path) (decodeAttestKey (sy_sha256 y) b))"

section \<open>Making one\<close>

record attest_flags =
  af_VPK :: string
  af_DSeq :: nat
  af_Key :: string
  af_Out :: string

definition GenerateKey :: "'w system \<Rightarrow> cmd_error + byte list" where
  "GenerateKey y = (case sy_AttestSeed y of None \<Rightarrow> Inl (OSErr ''random'' []) | Some s \<Rightarrow> Inr (to_array 32 s))"

text \<open>The guards on the flags of \<^verbatim>\<open>attest-key\<close>.\<close>

definition attest_flags_ok :: "'w system \<Rightarrow> attest_flags \<Rightarrow> cmd_error + unit" where
  "attest_flags_ok y f =
     (if af_VPK f = [] then Inl (Exit exitUsage ''attest-key needs --validator-key'')
      else case DecodeNodePublic (sy_sha256 y) (af_VPK f) of
             Inl _ \<Rightarrow> Inl (Exit exitUsage ''--validator-key'')
           | Inr pub \<Rightarrow>
               if length pub \<noteq> 33 \<or> pub ! 0 \<noteq> 0xED then Inl (Exit exitUsage ''--validator-key must be an ed25519 validator key'')
               else if af_DSeq f = 0 \<or> af_DSeq f > 0xFFFFFFFF then Inl (Exit exitUsage ''--dseq must be between 1 and 4294967295'')
               else Inr ())"

definition config_or_none :: "'w system \<Rightarrow> ('w, string) command" where
  "config_or_none y h = (case findConfig y [] h of (Inl _, h') \<Rightarrow> (Inr [], h') | (Inr c, h') \<Rightarrow> (Inr c, h'))"

definition fresh_path :: "'w system \<Rightarrow> string \<Rightarrow> ('w, unit) command" where
  "fresh_path y p h = (if os_Stat y p h \<noteq> None then fail exitWrite ''already exists'' h else act_ok () h)"

text \<open>The result is the string the master key has to sign.\<close>

definition cmdAttestKey :: "'w system \<Rightarrow> attest_flags \<Rightarrow> ('w, string) command" where
  "cmdAttestKey y f =
     act_then (act_of (\<lambda>e. e) (attest_flags_ok y f)) (\<lambda>_.
     act_then (config_or_none y) (\<lambda>cfgPath.
     act_then (findKeyFile y (af_Key f) cfgPath) (\<lambda>keyPath.
     act_then (loadKeyFile y keyPath False) (\<lambda>kf.
       let account = EncodeAddress (sy_sha256 y) (kf_AccountID kf);
           path = Join (if af_Out f = [] then Dir keyPath else af_Out f) attestKeyName in
       act_then (fresh_path y path) (\<lambda>_.
       act_then (act_of (\<lambda>e. e) (GenerateKey y)) (\<lambda>seed.
         let k = \<lparr>ak_VPK = af_VPK f, ak_DSeq = of_nat (af_DSeq f), ak_Seed = seed\<rparr> in
         act_then (act_of SignErr (encodeAttestKey (sy_sha256 y) k)) (\<lambda>b.
         act_then (act_map_error (\<lambda>_. Exit exitWrite path) (os_WriteFile y path b)) (\<lambda>_.
           act_ok (DelegationString (ak_VPK k) account (attest_pub y k) (ak_DSeq k))))))))))"

section \<open>Checking an attestation\<close>

record verify_flags =
  vf_RPC :: string
  vf_Dump :: string
  vf_Account :: string
  vf_VPK :: string

definition verify_flags_ok :: "'w system \<Rightarrow> verify_flags \<Rightarrow> cmd_error + unit" where
  "verify_flags_ok y f =
     (if vf_Account f = [] then Inl (Exit exitUsage ''attest-verify needs --account'')
      else case DecodeAddress (sy_sha256 y) (vf_Account f) of
             Inl _ \<Rightarrow> Inl (Exit exitUsage ''--account is not a valid address'')
           | Inr _ \<Rightarrow>
               if vf_VPK f \<noteq> [] \<and> isl (DecodeNodePublic (sy_sha256 y) (vf_VPK f)) then Inl (Exit exitUsage ''--validator-key is not a valid node public key'')
               else Inr ())"

text \<open>The answer to a finding; a valid one gives the finding back.\<close>

definition attest_verdict :: "'w system \<Rightarrow> string \<Rightarrow> finding \<Rightarrow> cmd_error + finding" where
  "attest_verdict y wantVPK f =
     (case fi_Status f of
        NoAttestation \<Rightarrow> Inl (Exit exitRefused ''no public attestation found'')
      | InvalidAttestation why \<Rightarrow> Inl (Exit exitAuth ''the attestation does not verify'')
      | ValidAttestation \<Rightarrow>
          (case fi_Record f of
             None \<Rightarrow> Inl (OSErr ''panic'' [])
           | Some r \<Rightarrow>
               if wantVPK \<noteq> [] \<and> \<not> equal_fold (sy_Fold y) wantVPK (NodePublic (sy_sha256 y) r)
               then Inl (Exit exitAuth ''attestation is by another key'') else Inr f))"

definition cmdAttestVerify :: "'w system \<Rightarrow> verify_flags \<Rightarrow> ('w, finding) command" where
  "cmdAttestVerify y f =
     act_then (act_of (\<lambda>e. e) (verify_flags_ok y f)) (\<lambda>_.
     act_then (openClient y (vf_RPC f) (vf_Dump f)) (\<lambda>(c, source).
     act_then (act_map_error (\<lambda>_. Exit exitNetwork ''account_tx'') (cl_AccountTx c (vf_Account f))) (\<lambda>(txs, rng).
       act_of (\<lambda>e. e) (attest_verdict y (vf_VPK f) (Evaluate (sy_Ed25519 y) (sy_sha256 y) (sy_Lower y) txs (vf_Account f))))))"

section \<open>The file is an exact coding of the key\<close>

lemma decode_node_iff:
  "(\<And>x. length (sha256 x) = 32) \<Longrightarrow> DecodeNodePublic sha256 s = Inr p \<longleftrightarrow> length p = 33 \<and> s = EncodeNodePublic sha256 p"
  using decode_check_iff [of sha256 s prefixNodePublic 33 p] by (auto simp: DecodeNodePublic_def EncodeNodePublic_def split: sum.splits)

lemma attest_body_parts:
  assumes "length vpk = 33" "length seed = 32" "b = [1] @ vpk @ be32 d @ seed @ ck" "length ck = 32"
  shows "length b = attestKeyLen" "b ! 0 = 1" "take (length b - 32) b = [1] @ vpk @ be32 d @ seed" "drop (length b - 32) b = ck"
  using assms by (simp_all add: attestKeyLen_def)

lemma attest_body_split:
  assumes "length b = attestKeyLen" "b ! 0 = 1"
  shows "take (length b - 32) b = [1] @ take 33 (drop 1 (take (length b - 32) b)) @ take 4 (drop 34 (take (length b - 32) b)) @ drop 38 (take (length b - 32) b)"
proof -
  define c where "c = take (length b - 32) b"
  have l: "length c = 70" "c ! 0 = 1" using assms by (simp_all add: c_def attestKeyLen_def)
  have d: "drop m c = take n (drop m c) @ drop (n + m) c" for m n by (metis append_take_drop_id drop_drop)
  have "c = [1] @ drop 1 c" using l Cons_nth_drop_Suc [of 0 c] by simp
  then show ?thesis using d [of 1 33] d [of 34 4] unfolding c_def [symmetric] by simp
qed

text \<open>
  C28.  The attestation key file is an exact coding: a file reads as a key exactly when it is the file written for that key,
  so a damaged or foreign file is refused and no two files hold the same key.
\<close>
theorem attest_key_exact:
  assumes "\<And>x. length (sha256 x) = 32"
  shows "decodeAttestKey sha256 b = Inr k \<longleftrightarrow> encodeAttestKey sha256 k = Inr b \<and> length (ak_Seed k) = 32"
proof
  assume d: "decodeAttestKey sha256 b = Inr k"
  define c where "c = take (length b - 32) b"
  have l: "length b = attestKeyLen" "b ! 0 = 1" "sha256 c = drop (length b - 32) b"
      "k = \<lparr>ak_VPK = EncodeNodePublic sha256 (take 33 (drop 1 c)), ak_DSeq = uint32_be (take 4 (drop 34 c)), ak_Seed = drop 38 c\<rparr>"
    using d by (auto simp: decodeAttestKey_def Let_def c_def split: if_splits)
  have n: "length c = 70" using l(1) by (simp add: c_def attestKeyLen_def)
  have "DecodeNodePublic sha256 (ak_VPK k) = Inr (take 33 (drop 1 c))" using decode_node_iff [OF assms] l(4) n by simp
  moreover have "attest_key_body (take 33 (drop 1 c)) k = c"
    using attest_body_split [OF l(1,2)] l(4) n unfolding c_def [symmetric] by (simp add: attest_key_body_def be32_be_acc)
  moreover have "c @ sha256 c = b" using l(3) by (simp add: c_def)
  ultimately show "encodeAttestKey sha256 k = Inr b \<and> length (ak_Seed k) = 32" using l(4) n by (simp add: encodeAttestKey_def)
next
  assume e: "encodeAttestKey sha256 k = Inr b \<and> length (ak_Seed k) = 32"
  then obtain vpk where v: "DecodeNodePublic sha256 (ak_VPK k) = Inr vpk" "b = attest_key_body vpk k @ sha256 (attest_key_body vpk k)"
    by (auto simp: encodeAttestKey_def and_then_Inr Let_def)
  then have vpk: "length vpk = 33" "ak_VPK k = EncodeNodePublic sha256 vpk" using decode_node_iff [OF assms] by auto
  note p = attest_body_parts [OF vpk(1) conjunct2 [OF e] _ assms, of b "ak_DSeq k" "attest_key_body vpk k"]
  have "b = [1] @ vpk @ be32 (ak_DSeq k) @ ak_Seed k @ sha256 (attest_key_body vpk k)" using v(2) by (simp add: attest_key_body_def)
  note p = p [OF this]
  then show "decodeAttestKey sha256 b = Inr k" using vpk unfolding decodeAttestKey_def Let_def
    by (simp add: attest_key_body_def)
qed

theorem attest_key_exact_witness:
  "decodeAttestKey (\<lambda>_. replicate 32 1) ([1] @ (0xED # replicate 32 2) @ be32 7 @ replicate 32 3 @ replicate 32 1) =
     Inr \<lparr>ak_VPK = EncodeNodePublic (\<lambda>_. replicate 32 1) (0xED # replicate 32 2), ak_DSeq = 7, ak_Seed = replicate 32 3\<rparr>"
proof -
  have "DecodeNodePublic (\<lambda>_. replicate 32 1) (EncodeNodePublic (\<lambda>_. replicate 32 1) (0xED # replicate 32 2)) = Inr (0xED # replicate 32 2)"
    by (simp add: decode_node_iff)
  then show ?thesis by (subst attest_key_exact) (simp_all add: encodeAttestKey_def attest_key_body_def)
qed

end
