(* ===== verification/Cmd_Restore.thy ===== *)
theory Cmd_Restore
  imports Cmd_Attest
begin

text \<open>
  \<^verbatim>\<open>cmd/xrplbak/cmd_restore.go\<close>: \<^verbatim>\<open>verify\<close> and \<^verbatim>\<open>restore\<close>.  The flags become a client, an account and keys; discovery, the
  choice of a backup, its content and its bundle follow, and \<^verbatim>\<open>restore\<close> writes the files.  The ledger is read at
  the moment the run reaches it.
\<close>

section \<open>Choosing a backup\<close>

record source_flags =
  sf_RPC :: string
  sf_Dump :: string
  sf_Account :: string
  sf_Key :: string
  sf_KeyPass :: bool
  sf_WordsFile :: string
  sf_SharesFile :: string
  sf_Epoch :: int
  sf_BackupID :: string

datatype stale_warning = StaleEpoch string u32 u32 | LandedAfterRotation string u32 u32 u32

definition newest_epoch :: "discovery \<Rightarrow> candidate \<Rightarrow> u32" where
  "newest_epoch res hit = fold (\<lambda>c e. if cd_Epoch c > e then cd_Epoch c else e) (rs_Candidates res) (cd_Epoch hit)"

definition first_landed :: "u32 \<Rightarrow> candidate list \<Rightarrow> candidate option" where
  "first_landed e cs =
     fold (\<lambda>c first. if cd_Epoch c = e \<and> (case first of None \<Rightarrow> True | Some f \<Rightarrow> cd_Ledger c < cd_Ledger f) then Some c else first) cs None"

definition warnStaleEpoch :: "discovery \<Rightarrow> candidate \<Rightarrow> stale_warning list" where
  "warnStaleEpoch res hit =
     (let newest = newest_epoch res hit; i = take 16 (mn_BackupID (cd_Manifest hit)) in
      if newest = cd_Epoch hit then []
      else StaleEpoch i (cd_Epoch hit) newest
        # (case first_landed newest (rs_Candidates res) of
             Some first \<Rightarrow>
               if cd_Ledger hit > 0 \<and> cd_Ledger first > 0 \<and> cd_Ledger hit > cd_Ledger first
               then [LandedAfterRotation i newest (cd_Ledger hit) (cd_Ledger first)] else []
           | None \<Rightarrow> []))"

definition choose_backup :: "'w system \<Rightarrow> string \<Rightarrow> discovery \<Rightarrow> cmd_error + (candidate \<times> stale_warning list)" where
  "choose_backup y backupID res =
     (let want = to_lower (sy_Lower y) backupID in
      if want \<noteq> [] then
        (case filter (\<lambda>c. has_prefix (mn_BackupID (cd_Manifest c)) want) (rs_Candidates res) of
           [] \<Rightarrow> Inl (Exit exitAuth ''no authenticated backup has this id'')
         | [hit] \<Rightarrow> Inr (hit, warnStaleEpoch res hit)
         | _ \<Rightarrow> Inl (Exit exitUsage ''--backup-id matches more than one backup''))
      else if rs_Conflict res \<noteq> None then Inl (Exit exitAuth ''conflict'')
      else if rs_AnchorMissing res \<noteq> None then Inl (Exit exitIncomplete ''the anchored backup is missing'')
      else case rs_Latest res of
             None \<Rightarrow> Inl (Exit exitAuth ''no backup authenticates'')
           | Some c \<Rightarrow> Inr (c, []))"

section \<open>Where to read and with which keys\<close>

record 'w origin =
  og_Client :: "'w host client"
  og_Name :: string
  og_Account :: string
  og_Keys :: keys
  og_Hint :: u32

text \<open>The key file, when the recovery key is not named and there is one.\<close>

definition source_key :: "'w system \<Rightarrow> source_flags \<Rightarrow> ('w, keyfile option) command" where
  "source_key y f h =
     (if sf_WordsFile f = [] \<and> sf_SharesFile f = [] then
        (case findKeyFile y (sf_Key f) [] h of
           (Inr kp, h') \<Rightarrow> act_then (loadKeyFile y kp (sf_KeyPass f)) (\<lambda>kf. act_ok (Some kf)) h'
         | (Inl e, h') \<Rightarrow> if sf_Key f \<noteq> [] then (Inl e, h') else (Inr None, h'))
      else (Inr None, h))"

definition source_keys :: "'w system \<Rightarrow> source_flags \<Rightarrow> keyfile option \<Rightarrow> ('w, keys \<times> u32 \<times> string) command" where
  "source_keys y f k =
     (case k of
        Some kf \<Rightarrow> act_ok (FileKeys (kf_Epoch kf) (kf_Key kf), kf_Epoch kf, if sf_Account f = [] then EncodeAddress (sy_sha256 y) (kf_AccountID kf) else sf_Account f)
      | None \<Rightarrow> act_then (recoveryKeys y (sf_WordsFile f) (sf_SharesFile f)) (\<lambda>root. act_ok (RootKeys (sy_Prims y) root, 0, sf_Account f)))"

definition epoch_hint :: "int \<Rightarrow> u32 \<Rightarrow> cmd_error + u32" where
  "epoch_hint e hint =
     (if e > 0xFFFFFFFF then Inl (Exit exitUsage ''--epoch must be at most 4294967295'')
      else if e \<ge> 0 then Inr (of_int e)
      else if e \<noteq> -1 then Inl (Exit exitUsage ''--epoch must be zero or greater'')
      else Inr hint)"

definition resolve :: "'w system \<Rightarrow> source_flags \<Rightarrow> ('w, 'w origin) command" where
  "resolve y f =
     act_then (openClient y (sf_RPC f) (sf_Dump f)) (\<lambda>(c, name).
     act_then (source_key y f) (\<lambda>k.
     act_then (source_keys y f k) (\<lambda>(ks, hint, account).
     act_then (if account = [] then prompt else act_ok account) (\<lambda>account.
       if account = [] then fail exitUsage ''no writer account''
       else if isl (DecodeAddress (sy_sha256 y) account) then fail exitUsage ''bad address''
       else act_then (act_of (\<lambda>e. e) (epoch_hint (sf_Epoch f) hint)) (\<lambda>hint.
         act_ok \<lparr>og_Client = c, og_Name = name, og_Account = account, og_Keys = ks, og_Hint = hint\<rparr>)))))"

section \<open>Verify\<close>

text \<open>The line about the attestation inside the manifest.\<close>

datatype attest_line = AttestAbsent | AttestMalformed | AttestUnverifiable | AttestGood string | AttestBad string

definition reportAttestation :: "'w system \<Rightarrow> manifest \<Rightarrow> attest_line" where
  "reportAttestation y m =
     (case mn_Attestation m of
        None \<Rightarrow> AttestAbsent
      | Some a \<Rightarrow>
          (case DecodeNodePublic (sy_sha256 y) (at_VPK a) of
             Inl _ \<Rightarrow> AttestMalformed
           | Inr pub \<Rightarrow>
               if pub ! 0 \<noteq> 0xED then AttestUnverifiable
               else if VerifyEd25519 (sy_Ed25519 y) pub (bytes (AttestString (mn_BackupID m) (mn_PlainSHA256 m) (mn_BundlePlainSHA256 m))) (hex_prefix (at_Sig a))
               then AttestGood (at_VPK a) else AttestBad (at_VPK a)))"

definition fetch_exit :: "discover_error \<Rightarrow> cmd_error" where
  "fetch_exit e =
     (case e of
        MissingChunk _ _ _ _ \<Rightarrow> Exit exitIncomplete ''missing chunk''
      | NetworkError _ _ \<Rightarrow> Exit exitNetwork ''server''
      | _ \<Rightarrow> Exit exitAuth ''content'')"

definition discovered :: "'w system \<Rightarrow> 'w origin \<Rightarrow> ('w, discovery) command" where
  "discovered y s h =
     act_of (\<lambda>_. Exit exitNetwork ''discovery'') (discover_Run (sy_Prims y) (reader_of (og_Client s) h) (og_Keys s) (og_Account s) (og_Hint s)) h"

definition fetched :: "'w system \<Rightarrow> 'w origin \<Rightarrow> discovery \<Rightarrow> candidate \<Rightarrow> ('w, entry list) command" where
  "fetched y s res c h = act_of fetch_exit (Fetch (sy_Prims y) (reader_of (og_Client s) h) (og_Keys s) res c) h"

definition named_bundle :: "'w system \<Rightarrow> 'w origin \<Rightarrow> candidate \<Rightarrow> string \<Rightarrow> ('w, entry list) command" where
  "named_bundle y s c path =
     (if path = [] then act_ok []
      else act_then (os_ReadFile y path) (\<lambda>b. act_of (\<lambda>_. Exit exitAuth ''bundle'') (discover_OpenBundle (sy_Prims y) (og_Keys s) c b)))"

definition cmdVerify :: "'w system \<Rightarrow> source_flags \<Rightarrow> string \<Rightarrow> ('w, candidate \<times> attest_line) command" where
  "cmdVerify y f bundlePath =
     act_then (resolve y f) (\<lambda>s.
     act_then (discovered y s) (\<lambda>res.
     act_then (act_of (\<lambda>e. e) (choose_backup y (sf_BackupID f) res)) (\<lambda>(latest, stale).
       if mn_Tombstone (cd_Manifest latest) then fail exitIncomplete ''the newest backup is a tombstone''
       else
         act_then (fetched y s res latest) (\<lambda>entries.
         act_then (named_bundle y s latest bundlePath) (\<lambda>_.
           act_ok (latest, reportAttestation y (cd_Manifest latest)))))))"

section \<open>Restore\<close>

record restore_flags =
  rx_Source :: source_flags
  rx_Bundle :: string
  rx_Write :: bool
  rx_Yes :: bool
  rx_Target :: string
  rx_Force :: bool
  rx_AllowTomb :: bool

text \<open>The newest real backup behind a tombstone, in the order of the candidates.\<close>

definition behind :: "candidate \<Rightarrow> candidate list \<Rightarrow> candidate option" where
  "behind tomb cs =
     find (\<lambda>c. \<not> mn_Tombstone (cd_Manifest c)) (filter (\<lambda>c. c \<noteq> tomb) (dropWhile (\<lambda>c. c \<noteq> tomb) cs))"

definition past_tombstone :: "restore_flags \<Rightarrow> discovery \<Rightarrow> candidate \<times> stale_warning list \<Rightarrow> cmd_error + (candidate \<times> stale_warning list)" where
  "past_tombstone f res pick =
     (let (cand, stale) = pick in
      if \<not> mn_Tombstone (cd_Manifest cand) then Inr (cand, stale)
      else if \<not> rx_AllowTomb f then Inl (Exit exitIncomplete ''the newest backup is a tombstone'')
      else case behind cand (rs_Candidates res) of
             None \<Rightarrow> Inl (Exit exitIncomplete ''no backup older than the tombstone'')
           | Some c \<Rightarrow> Inr (c, stale @ warnStaleEpoch res c))"

definition apply_writes :: "fwrite list \<Rightarrow> 'w host \<Rightarrow> 'w host" where
  "apply_writes ws h = fold (\<lambda>w. set_file (w_dst w) (w_data w)) ws h"

definition can_write :: "'w system \<Rightarrow> 'w host \<Rightarrow> string \<Rightarrow> bool" where
  "can_write y h p \<longleftrightarrow> \<not> sy_Fault y ''create'' p \<and> \<not> sy_Fault y ''write'' p \<and> ho_Files h p \<noteq> Some Other"

definition write_temp :: "'w system \<Rightarrow> rplan \<Rightarrow> ('w, unit) command" where
  "write_temp y p h =
     (let (ws, r) = WriteTemp (sy_TempDir y) (can_write y h) p
      in (case r of Inl _ \<Rightarrow> Inl (Exit exitWrite ''temporary files'') | Inr _ \<Rightarrow> Inr (), apply_writes ws h))"

definition write_target :: "'w system \<Rightarrow> rplan \<Rightarrow> string \<Rightarrow> bool \<Rightarrow> ('w, unit) command" where
  "write_target y p target force h =
     (let (ws, e) = WriteTarget (sy_Abs y) (\<lambda>q. os_Stat y q h \<noteq> None) (can_write y h) p target force
      in (case e of Some _ \<Rightarrow> Inl (Exit exitWrite ''target'') | None \<Rightarrow> Inr (), apply_writes ws h))"

definition restore_plan :: "'w system \<Rightarrow> restore_flags \<Rightarrow> ('w, rplan) command" where
  "restore_plan y f =
     act_then (resolve y (rx_Source f)) (\<lambda>s.
     act_then (discovered y s) (\<lambda>res.
     act_then (act_of (\<lambda>e. e) (choose_backup y (sf_BackupID (rx_Source f)) res)) (\<lambda>pick.
     act_then (act_of (\<lambda>e. e) (past_tombstone f res pick)) (\<lambda>(cand, stale).
     act_then (fetched y s res cand) (\<lambda>entries.
     act_then (named_bundle y s cand (rx_Bundle f)) (\<lambda>bundle.
       act_of (\<lambda>_. Exit exitRefused ''restore'') (restore_Build (sy_sha256 y) (cd_Manifest cand) entries bundle)))))))"

definition cmdRestore :: "'w system \<Rightarrow> restore_flags \<Rightarrow> ('w, rplan) command" where
  "cmdRestore y f =
     (if rx_Write f \<and> rx_Target f = [] then fail exitUsage ''--write needs --target DIR''
      else
        act_then (restore_plan y f) (\<lambda>plan.
          if \<not> rx_Write f then act_then (write_temp y plan) (\<lambda>_. act_ok plan)
          else
            act_then (if rx_Yes f then act_ok True else confirm y) (\<lambda>ok.
              if \<not> ok then fail exitUsage ''cancelled; nothing was written''
              else act_then (write_target y plan (rx_Target f) (rx_Force f)) (\<lambda>_. act_ok plan))))"

section \<open>What a restore writes\<close>

lemma keeps_reads [keeps]:
  "keeps_files (findConfig y e)" "keeps_files (findKeyFile y e c)" "keeps_files (openClient y u d)" "keeps_files (discovered y s)" "keeps_files (fetched y s res cand)"
  by (auto intro!: keeps_filesI simp: findConfig_def findKeyFile_def openClient_def discovered_def fetched_def Let_def act_ok_def fail_def act_of_def act_then_def
      split: if_splits option.splits sum.splits)

lemma keeps_load [keeps]: "keeps_files (loadKeyFile y p b)" "keeps_files (named_bundle y s c path)"
  unfolding loadKeyFile_def named_bundle_def by (intro keeps)+

lemma keeps_source_key [keeps]: "keeps_files (source_key y f)"
proof -
  have "keeps_files (act_then (loadKeyFile y kp b) (\<lambda>kf. act_ok (Some kf)))" for kp b by (intro keeps)
  then show ?thesis using keeps_reads(2) [of y "sf_Key f" "[]"]
    by (auto simp: stays_def same_files_def source_key_def split: if_splits prod.splits sum.splits)
qed

lemma keeps_resolve [keeps]: "keeps_files (source_keys y f k)" "keeps_files (resolve y f)"
  unfolding source_keys_def resolve_def by (intro keeps)+

lemma keeps_restore_plan [keeps]: "keeps_files (restore_plan y f)"
  unfolding restore_plan_def by (intro keeps)

lemma apply_writes_files: "ho_Files (apply_writes ws h) p = ho_Files h p \<or> (\<exists>w \<in> set ws. w_dst w = p \<and> ho_Files (apply_writes ws h) p = Some (File (w_data w)))"
proof (induction ws arbitrary: h)
  case (Cons w ws)
  have e: "apply_writes (w # ws) h = apply_writes ws (set_file (w_dst w) (w_data w) h)" by (simp add: apply_writes_def)
  show ?case using Cons [of "set_file (w_dst w) (w_data w) h"] unfolding e by (auto simp: set_file_def split: if_splits)
qed (simp add: apply_writes_def)

text \<open>A run with \<^verbatim>\<open>--write\<close> either leaves the files alone or reaches the writing.\<close>

lemma cmdRestore_writes:
  assumes "cmdRestore y f h = (r, h')" "rx_Write f"
  shows "isl r \<and> ho_Files h' = ho_Files h \<or>
    (\<exists>plan h1 h2 z. restore_plan y f h = (Inr plan, h1) \<and> (rx_Yes f \<or> confirm y h1 = (Inr True, h2)) \<and> ho_Files h2 = ho_Files h \<and>
      write_target y plan (rx_Target f) (rx_Force f) h2 = (z, h'))"
proof (cases "rx_Target f = []")
  case True
  then show ?thesis using assms by (auto simp: cmdRestore_def fail_def)
next
  case False
  then have "act_then (restore_plan y f) (\<lambda>plan.
      act_then (if rx_Yes f then act_ok True else confirm y) (\<lambda>ok.
        if \<not> ok then fail exitUsage ''cancelled; nothing was written''
        else act_then (write_target y plan (rx_Target f) (rx_Force f)) (\<lambda>_. act_ok plan))) h = (r, h')"
    using assms by (simp add: cmdRestore_def)
  then show ?thesis
  proof (cases rule: act_then_cases)
    case (stop e)
    then show ?thesis using keeps_filesD [OF keeps_restore_plan] by auto
  next
    case (go plan h1)
    have k: "keeps_files (if rx_Yes f then act_ok True else confirm y)" by (intro keeps)
    note f1 = keeps_filesD [OF keeps_restore_plan go(1)]
    from go(2) show ?thesis
    proof (cases rule: act_then_cases)
      case (stop e)
      then show ?thesis using keeps_filesD [OF k stop(1)] f1 by auto
    next
      case c: (go ok h2)
      have f2: "ho_Files h2 = ho_Files h" using keeps_filesD [OF k c(1)] f1 by simp
      show ?thesis
      proof (cases ok)
        case True
        then have "act_then (write_target y plan (rx_Target f) (rx_Force f)) (\<lambda>_. act_ok plan) h2 = (r, h')" using c(2) by simp
        then obtain z where "write_target y plan (rx_Target f) (rx_Force f) h2 = (z, h')" by (cases rule: act_then_cases) auto
        moreover have "rx_Yes f \<or> confirm y h1 = (Inr True, h2)" using c(1) True by (auto split: if_splits)
        ultimately show ?thesis using go(1) f2 by blast
      next
        case False
        then show ?thesis using c(2) f2 by (auto simp: fail_def)
      qed
    qed
  qed
qed



end
