(* ===== verification/Cmd_Backup.thy ===== *)
theory Cmd_Backup
  imports Cmd_Restore
begin

text \<open>
  \<^verbatim>\<open>cmd/xrplbak/cmd_backup.go\<close>: \<^verbatim>\<open>redact\<close> and \<^verbatim>\<open>backup\<close>, with the dry run and the submission.
\<close>

section \<open>Choices of the operator\<close>

definition ackPhrase :: string where "ackPhrase = ''PUBLISH COMMENTS''"
definition peersAckPhrase :: string where "peersAckPhrase = ''PUBLISH PEERS''"

definition acknowledged :: "string \<Rightarrow> string \<Rightarrow> 'a \<Rightarrow> ('w, 'a) command" where
  "acknowledged phrase msg x = act_then prompt (\<lambda>got. if got \<noteq> phrase then fail exitUsage msg else act_ok x)"

definition commentsMode :: "string \<Rightarrow> bool \<Rightarrow> ('w, mode) command" where
  "commentsMode v ask_first =
     (if v = ''bundle'' then act_ok CommentsToBundle
      else if v = ''onchain'' then
        (if \<not> ask_first then act_ok CommentsOnChain
         else acknowledged ackPhrase ''--comments=onchain was not confirmed'' CommentsOnChain)
      else fail exitUsage ''--comments must be bundle or onchain'')"

definition peersMode :: "string \<Rightarrow> bool \<Rightarrow> ('w, bool) command" where
  "peersMode v ask_first =
     (if v = ''bundle'' then act_ok False
      else if v = ''onchain'' then
        (if \<not> ask_first then act_ok True
         else acknowledged peersAckPhrase ''--peers=onchain was not confirmed'' True)
      else fail exitUsage ''--peers must be bundle or onchain'')"

text \<open>Whether to batch; an answer the tool cannot get reads as no, unless batches were asked for.\<close>

definition decideBatch :: "'w host client \<Rightarrow> string \<Rightarrow> ('w, bool) command" where
  "decideBatch c flag h =
     (if flag = ''off'' then (Inr False, h)
      else case cl_AmendmentEnabled c AmendmentBatchV1_1 h of
             (Inl _, h') \<Rightarrow> (if flag = ''on'' then Inl (Exit exitNetwork ''amendment list could not be read'') else Inr False, h')
           | (Inr enabled, h') \<Rightarrow>
               (if \<not> enabled \<and> flag = ''on'' then Inl (Exit exitNetwork ''the Batch amendment is not enabled'') else Inr enabled, h'))"

section \<open>Redact\<close>

record redact_flags =
  rd_Config :: string
  rd_Validators :: string
  rd_Out :: string
  rd_Comments :: string
  rd_Peers :: string

definition copy_name :: "string \<Rightarrow> string \<Rightarrow> string \<Rightarrow> string" where
  "copy_name out sub p = Join out (sub @ ''/'' @ Base p)"

definition write_copy :: "'w system \<Rightarrow> string \<Rightarrow> string \<times> cfgfile \<Rightarrow> ('w, unit) command" where
  "write_copy y dst c = act_then (os_MkdirAll y (Dir dst)) (\<lambda>_. os_WriteFile y dst (bytes (Render (snd c))))"

definition redact_file :: "'w system \<Rightarrow> options \<Rightarrow> string \<Rightarrow> string \<Rightarrow> ('w, string list) command" where
  "redact_file y opt out p =
     act_then (os_ReadFile y p) (\<lambda>raw.
       case Split (sy_Lower y) (Parse (str raw)) opt of
         Inl e \<Rightarrow> act_fail (BackupErr (RedactRefused p e))
       | Inr res \<Rightarrow>
           let copies = [(''onchain'', r_onchain res), (''bundle'', r_bundle res)]
           in act_then (if out = [] then act_ok []
                        else act_each (\<lambda>i. write_copy y (copy_name out (fst (copies ! i)) p) (copies ! i)) (sy_MapOrder y 2))
                (\<lambda>_. act_ok (summarizeMoves (r_moves res))))"

definition cmdRedact :: "'w system \<Rightarrow> redact_flags \<Rightarrow> ('w, string list list) command" where
  "cmdRedact y f =
     act_then (commentsMode (rd_Comments f) False) (\<lambda>mode.
     act_then (peersMode (rd_Peers f) False) (\<lambda>peers.
     act_then (findConfig y (rd_Config f)) (\<lambda>cfgPath.
     act_then (findValidators y (rd_Validators f) cfgPath) (\<lambda>valPath.
       act_each (redact_file y \<lparr>o_comments = mode, o_peers = peers\<rparr> (rd_Out f)) (cfgPath # (if valPath \<noteq> [] then [valPath] else []))))))"

section \<open>Backup\<close>

record backup_flags =
  bf_Config :: string
  bf_Validators :: string
  bf_Includes :: "string list"
  bf_Key :: string
  bf_KeyPass :: bool
  bf_Out :: string
  bf_RPC :: string
  bf_Submit :: bool
  bf_Yes :: bool
  bf_MaxFee :: u64
  bf_Tombstone :: bool
  bf_DeleteAnchor :: bool
  bf_ForceSeq :: bool
  bf_VPK :: string
  bf_Attestation :: string
  bf_AttestationKey :: string
  bf_Comments :: string
  bf_Peers :: string
  bf_Batch :: string
  bf_AttestPubKey :: string
  bf_AttestPubSig :: string
  bf_AttestDelegated :: bool
  bf_AttestKeyPath :: string
  bf_DelegSig :: string

definition attest_pub_ok :: "'w system \<Rightarrow> string \<Rightarrow> string \<Rightarrow> cmd_error + unit" where
  "attest_pub_ok y pubKey sig =
     (if pubKey = [] then Inr ()
      else case DecodeNodePublic (sy_sha256 y) pubKey of
             Inl e \<Rightarrow> Inl (SignErr e)
           | Inr pub \<Rightarrow>
               if length pub \<noteq> 33 \<or> pub ! 0 \<noteq> 0xED then Inl (Exit exitUsage ''--attest-public-key must be an ed25519 validator key'')
               else if sig \<noteq> [] \<and> hex_exactly 64 sig = None then Inl (Exit exitUsage ''--attest-public-sig must be 64 bytes of hex'')
               else Inr ())"

text \<open>The guards on the flags, in their order.\<close>

definition backup_flags_ok :: "'w system \<Rightarrow> backup_flags \<Rightarrow> cmd_error + unit" where
  "backup_flags_ok y f =
     (if bf_Batch f \<notin> {''auto'', ''on'', ''off''} then Inl (Exit exitUsage ''--batch must be auto, on or off'')
      else if bf_DeleteAnchor f \<and> \<not> bf_Tombstone f then Inl (Exit exitUsage ''--delete-anchor needs --tombstone'')
      else if bf_Tombstone f \<and> bf_Includes f \<noteq> [] then Inl (Exit exitUsage ''--tombstone stores no files'')
      else if bf_Tombstone f \<and> (bf_AttestDelegated f \<or> bf_AttestPubKey f \<noteq> [] \<or> bf_AttestPubSig f \<noteq> [] \<or> bf_Attestation f \<noteq> [] \<or> bf_AttestationKey f \<noteq> [] \<or> bf_DelegSig f \<noteq> [])
      then Inl (Exit exitUsage ''a tombstone carries no attestation'')
      else if bf_DelegSig f \<noteq> [] \<and> \<not> bf_AttestDelegated f then Inl (Exit exitUsage ''--attest-delegation-sig needs --attest'')
      else if bf_AttestDelegated f \<and> bf_AttestPubKey f \<noteq> [] then Inl (Exit exitUsage ''choose one: --attest or --attest-public-key'')
      else if bf_AttestPubSig f \<noteq> [] \<and> bf_AttestPubKey f = [] then Inl (Exit exitUsage ''--attest-public-sig needs --attest-public-key'')
      else attest_pub_ok y (bf_AttestPubKey f) (bf_AttestPubSig f))"

definition key_and_writer :: "'w system \<Rightarrow> string \<Rightarrow> bool \<Rightarrow> ('w, keyfile \<times> sign_key) command" where
  "key_and_writer y keyPath pass =
     act_then (loadKeyFile y keyPath pass) (\<lambda>kf.
     act_then (act_of SignErr (KeyFromSeed (sy_Sha512 y) (kf_WriterSeed kf))) (\<lambda>writer.
       if EncodeAddress (sy_sha256 y) (kf_AccountID kf) \<noteq> key_Address y writer then fail exitAuth ''key file is inconsistent''
       else act_ok (kf, writer)))"

definition delegated_key :: "'w system \<Rightarrow> backup_flags \<Rightarrow> string \<Rightarrow> ('w, attest_key option) command" where
  "delegated_key y f keyPath =
     (if bf_AttestDelegated f
      then act_then (loadAttestKey y (if bf_AttestKeyPath f = [] then Join (Dir keyPath) attestKeyName else bf_AttestKeyPath f)) (\<lambda>k. act_ok (Some k))
      else act_ok None)"

definition vpk_label :: "'w system \<Rightarrow> string \<Rightarrow> cmd_error + string" where
  "vpk_label y vpk =
     (if vpk = [] then Inr []
      else case DecodeNodePublic (sy_sha256 y) vpk of Inl e \<Rightarrow> Inl (SignErr e) | Inr pub \<Rightarrow> Inr (hex_encode (sy_sha256 y pub)))"

definition plan_options :: "'w system \<Rightarrow> backup_flags \<Rightarrow> mode \<Rightarrow> bool \<Rightarrow> string \<Rightarrow> string \<Rightarrow> keyfile \<Rightarrow> string \<Rightarrow> backup_options" where
  "plan_options y f mode peers cfgPath valPath kf vpkHash =
     \<lparr>bo_ConfigPath = cfgPath, bo_ValidatorsPath = valPath, bo_Includes = bf_Includes f, bo_Key = Some kf, bo_Created = sy_Created y, bo_Tool = sy_Tool y,
      bo_Tombstone = bf_Tombstone f, bo_Redact = \<lparr>o_comments = mode, o_peers = peers\<rparr>, bo_Seq = 1, bo_Supersedes = [], bo_VPKSHA256 = vpkHash,
      bo_AttestPublicVPK = bf_AttestPubKey f\<rparr>"

text \<open>The figures of the plan report: transactions, and base fees without and with batches.\<close>

definition plan_fees :: "plan \<Rightarrow> nat \<times> nat \<times> nat" where
  "plan_fees p =
     (let c = length (bp_Chunks p); k = bp_ManifestParts p in (c + k + 1, BaseFees c k False * 10, BaseFees c k True * 10))"

definition build_plan :: "'w system \<Rightarrow> backup_options \<Rightarrow> ('w, plan) command" where
  "build_plan y opts h = act_of BackupErr (backup_Build (sy_Prims y) (sy_Lower y) (host_fs y h) opts) h"

definition writeBundle :: "'w system \<Rightarrow> plan \<Rightarrow> string \<Rightarrow> ('w, unit) command" where
  "writeBundle y p out =
     (if mn_Tombstone (bp_Manifest p) then act_ok ()
      else act_then (os_MkdirAll y out) (\<lambda>_. os_WriteFile y (Join out (mn_BackupID (bp_Manifest p) @ ''.bundle'')) (bp_Bundle p)))"

definition doDryRun :: "'w system \<Rightarrow> backup_options \<Rightarrow> string \<Rightarrow> ('w, plan) command" where
  "doDryRun y opts out = act_then (build_plan y opts) (\<lambda>p. act_then (writeBundle y p out) (\<lambda>_. act_ok p))"

subsection \<open>Attestations\<close>

definition top_ledger :: "tx_record list \<Rightarrow> u32" where
  "top_ledger txs = fold (\<lambda>t l. if tr_LedgerIndex t > l then tr_LedgerIndex t else l) txs 0"

text \<open>The anchor transaction about to be sent, as the evaluation will see it.\<close>

definition next_record :: "string \<Rightarrow> tx_record list \<Rightarrow> memo list \<Rightarrow> tx_record" where
  "next_record account txs memos =
     \<lparr>tr_Hash = [], tr_LedgerIndex = top_ledger txs + 1, tr_Validated = False, tr_Result = ''tesSUCCESS'', tr_Account = account, tr_TxType = [],
      tr_Sequence = 0, tr_Memos = memos, tr_Raw = JNull\<rparr>"

definition delegation_memo :: "'w system \<Rightarrow> string \<Rightarrow> attest_key \<Rightarrow> string \<Rightarrow> cmd_error + memo option" where
  "delegation_memo y account att sig =
     (if sig = [] then Inr None
      else if \<not> CheckDelegation (sy_Ed25519 y) (sy_sha256 y) (ak_VPK att) account (attest_pub y att) (ak_DSeq att) sig
      then Inl (Exit exitUsage ''--attest-delegation-sig does not verify'')
      else case DelegationMemo (sy_sha256 y) (ak_VPK att) (attest_pub y att) (ak_DSeq att) sig of
             Inl _ \<Rightarrow> Inl (Exit exitUsage ''delegation'') | Inr m \<Rightarrow> Inr (Some m))"

definition judge_next :: "'w system \<Rightarrow> string \<Rightarrow> tx_record list \<Rightarrow> memo option \<Rightarrow> memo \<Rightarrow> cmd_error + (memo option \<times> memo)" where
  "judge_next y account txs deleg am =
     (case fi_Status (Evaluate (sy_Ed25519 y) (sy_sha256 y) (sy_Lower y)
              (txs @ [next_record account txs ((case deleg of None \<Rightarrow> [] | Some m \<Rightarrow> [m]) @ [am])]) account) of
        ValidAttestation \<Rightarrow> Inr (deleg, am)
      | InvalidAttestation NoDelegationBefore \<Rightarrow>
          if deleg = None then Inl (Exit exitUsage ''no delegation for the attestation key is on the ledger yet'') else Inl (Exit exitAuth ''this attestation would not verify'')
      | _ \<Rightarrow> Inl (Exit exitAuth ''this attestation would not verify''))"

definition delegatedMemos :: "'w system \<Rightarrow> 'w host client \<Rightarrow> string \<Rightarrow> attest_key \<Rightarrow> string \<Rightarrow> plan \<Rightarrow> ('w, memo option \<times> memo) command" where
  "delegatedMemos y c account att delegSig p =
     act_then (act_of (\<lambda>e. e) (delegation_memo y account att delegSig)) (\<lambda>deleg.
     act_then (act_of (\<lambda>_. Exit exitUsage ''attestation'')
         (DelegatedMemo (sy_Ed25519 y) (sy_sha256 y) (sy_Lower y) (ak_VPK att) account (ak_Seed att) (ak_DSeq att) (mn_Epoch (bp_Manifest p)) (mn_Seq (bp_Manifest p)) (mn_BackupID (bp_Manifest p)))) (\<lambda>am.
     act_then (act_map_error (\<lambda>_. Exit exitNetwork ''account_tx'') (cl_AccountTx c account)) (\<lambda>(txs, rng).
       act_of (\<lambda>e. e) (judge_next y account txs deleg am))))"

definition master_memo :: "'w system \<Rightarrow> string \<Rightarrow> string \<Rightarrow> string \<Rightarrow> plan \<Rightarrow> cmd_error + memo option" where
  "master_memo y account pubKey sig p =
     (if sig = [] then Inr None
      else case attest_Memo (sy_sha256 y) pubKey (mn_Epoch (bp_Manifest p)) (mn_Seq (bp_Manifest p)) (mn_BackupID (bp_Manifest p)) sig of
             Inl _ \<Rightarrow> Inl (Exit exitUsage ''attestation'')
           | Inr m \<Rightarrow>
               if \<not> attest_Check (sy_Ed25519 y) (sy_sha256 y) (sy_Lower y) pubKey account (mn_Epoch (bp_Manifest p)) (mn_Seq (bp_Manifest p)) (mn_BackupID (bp_Manifest p)) sig
               then Inl (Exit exitUsage ''--attest-public-sig does not verify'')
               else Inr (Some m))"

text \<open>The delegation and the attestation that go with the anchor; a signature of the master key replaces a delegated attestation.\<close>

definition anchor_attestation :: "'w system \<Rightarrow> backup_flags \<Rightarrow> 'w host client \<Rightarrow> string \<Rightarrow> attest_key option \<Rightarrow> plan \<Rightarrow> ('w, memo option \<times> memo option) command" where
  "anchor_attestation y f c account att p =
     act_then (case att of
                 None \<Rightarrow> act_ok (None, None)
               | Some k \<Rightarrow> act_then (delegatedMemos y c account k (bf_DelegSig f) p) (\<lambda>(dm, am). act_ok (dm, Some am))) (\<lambda>(dm, am).
     act_then (act_of (\<lambda>e. e) (master_memo y account (bf_AttestPubKey f) (bf_AttestPubSig f) p)) (\<lambda>mm.
       act_ok (dm, case mm of Some m \<Rightarrow> Some m | None \<Rightarrow> am)))"

subsection \<open>Submission\<close>

definition host_submitter :: "'w system \<Rightarrow> backup_flags \<Rightarrow> 'w host client \<Rightarrow> sign_key \<Rightarrow> keyfile \<Rightarrow> string \<Rightarrow> bool \<Rightarrow> memo option \<times> memo option \<Rightarrow> 'w host submitter" where
  "host_submitter y f c writer kf dumpPath batch memos =
     \<lparr>sb_Client = c, sb_Writer = writer, sb_Key = kf, sb_Sleep = (\<lambda>n h. h\<lparr>ho_Net := sy_Sleep y n (ho_Net h)\<rparr>), sb_MaxFee = bf_MaxFee f, sb_DumpOut = dumpPath,
      sb_Batch = batch, sb_AttestMemo = snd memos, sb_DelegationMemo = fst memos,
      sb_WriteFile = (\<lambda>p j h. let (r, h') = os_WriteFile y p (sy_Print y j) h in (\<not> isl r, h')),
      sb_Nonce = on_net (sy_Nonce y), sb_MapOrder = sy_MapOrder y, sb_Prims = sy_Prims y, sb_Sha512 = sy_Sha512 y, sb_Ed25519 = sy_Ed25519 y, sb_Fold = sy_Fold y\<rparr>"

definition dump_path :: "string \<Rightarrow> plan \<Rightarrow> string" where
  "dump_path out p = Join out (mn_BackupID (bp_Manifest p) @ ''.dump.json'')"

text \<open>The dump of an interrupted run of the same backup.\<close>

definition earlier_dump :: "'w system \<Rightarrow> string \<Rightarrow> plan \<Rightarrow> 'w host \<Rightarrow> dump option" where
  "earlier_dump y path p h =
     (case load_dump y path h of
        Inl _ \<Rightarrow> None
      | Inr d \<Rightarrow> if du_BackupID d = mn_BackupID (bp_Manifest p) then Some d else None)"

definition submit_plan :: "'w host submitter \<Rightarrow> plan \<Rightarrow> dump option \<Rightarrow> bool \<Rightarrow> ('w, unit) command" where
  "submit_plan s p d delete_anchor h =
     (case backup_Submit s p d h of
        (Inl _, st) \<Rightarrow> (Inl (Exit exitNetwork ''submit''), us_World st)
      | (Inr _, st) \<Rightarrow>
          if delete_anchor
          then (case DeleteAnchor s st of (Inl _, st') \<Rightarrow> (Inl (Exit exitNetwork ''delete anchor''), us_World st') | (Inr _, st') \<Rightarrow> (Inr (), us_World st'))
          else (Inr (), us_World st))"

text \<open>Everything up to the confirmation: the plan, whether to batch, and the memos of the anchor.\<close>

definition prepare_submit :: "'w system \<Rightarrow> backup_flags \<Rightarrow> 'w host client \<Rightarrow> sign_key \<Rightarrow> attest_key option \<Rightarrow> backup_options \<Rightarrow> ('w, plan \<times> bool \<times> memo option \<times> memo option) command" where
  "prepare_submit y f c writer att opts =
     (if bo_Tombstone opts \<and> (bf_AttestPubKey f \<noteq> [] \<or> bf_AttestPubSig f \<noteq> [] \<or> att \<noteq> None \<or> bo_AttestPublicVPK opts \<noteq> []) then fail exitUsage ''a tombstone carries no attestation''
      else if bf_DeleteAnchor f \<and> \<not> bo_Tombstone opts then fail exitUsage ''--delete-anchor needs --tombstone''
      else
        act_then (build_plan y opts) (\<lambda>p.
        act_then (anchor_attestation y f c (key_Address y writer) att p) (\<lambda>memos.
        act_then (decideBatch c (bf_Batch f)) (\<lambda>batch.
          act_ok (p, batch, memos)))))"

definition doSubmit :: "'w system \<Rightarrow> backup_flags \<Rightarrow> 'w host client \<Rightarrow> sign_key \<Rightarrow> keyfile \<Rightarrow> attest_key option \<Rightarrow> backup_options \<Rightarrow> ('w, plan) command" where
  "doSubmit y f c writer kf att opts =
     act_then (prepare_submit y f c writer att opts) (\<lambda>(p, batch, memos).
     act_then (if bf_Yes f then act_ok True else confirm y) (\<lambda>ok.
       if \<not> ok then fail exitUsage ''cancelled; nothing was submitted''
       else
         act_then (os_MkdirAll y (bf_Out f)) (\<lambda>_.
         act_then (\<lambda>h. submit_plan (host_submitter y f c writer kf (dump_path (bf_Out f) p) batch memos) p
                     (earlier_dump y (dump_path (bf_Out f) p) p h) (bo_Tombstone opts \<and> bf_DeleteAnchor f) h) (\<lambda>_.
         act_then (writeBundle y p (bf_Out f)) (\<lambda>_. act_ok p)))))"

text \<open>The options, the keys and the attestation key, from the flags.\<close>

definition backup_setup :: "'w system \<Rightarrow> backup_flags \<Rightarrow> ('w, backup_options \<times> keyfile \<times> sign_key \<times> attest_key option) command" where
  "backup_setup y f =
     act_then (commentsMode (bf_Comments f) True) (\<lambda>mode.
     act_then (peersMode (bf_Peers f) True) (\<lambda>peers.
     act_then (act_of (\<lambda>e. e) (backup_flags_ok y f)) (\<lambda>_.
     act_then (findConfig y (bf_Config f)) (\<lambda>cfgPath.
     act_then (findKeyFile y (bf_Key f) cfgPath) (\<lambda>keyPath.
     act_then (key_and_writer y keyPath (bf_KeyPass f)) (\<lambda>(kf, writer).
     act_then (findValidators y (bf_Validators f) cfgPath) (\<lambda>valPath.
     act_then (delegated_key y f keyPath) (\<lambda>att.
     act_then (act_of (\<lambda>e. e) (vpk_label y (bf_VPK f))) (\<lambda>vpkHash.
       if bf_Attestation f \<noteq> [] \<or> bf_AttestationKey f \<noteq> [] then fail exitUsage ''--attestation and --attestation-key were removed''
       else act_ok (plan_options y f mode peers cfgPath valPath kf vpkHash, kf, writer, att))))))))))"

definition seq_gate :: "backup_flags \<Rightarrow> seq_error option \<Rightarrow> cmd_error + unit" where
  "seq_gate f e =
     (case e of
        None \<Rightarrow> Inr ()
      | Some LastSeq \<Rightarrow> Inl (Exit exitRefused ''last sequence number'')
      | Some _ \<Rightarrow> if bf_ForceSeq f then Inr () else Inl (Exit exitNetwork ''could not read existing backups''))"

definition cmdBackup :: "'w system \<Rightarrow> backup_flags \<Rightarrow> ('w, plan) command" where
  "cmdBackup y f =
     act_then (backup_setup y f) (\<lambda>(opts, kf, writer, att).
       if bf_Submit f \<or> bf_RPC f \<noteq> [] then
         act_then (openClient y (bf_RPC f) []) (\<lambda>(c, name) h.
           let (opts, warns, e) = bindPlan (sy_Prims y) (reader_of c h) kf (key_Address y writer) opts in
           if bf_Submit f then act_then (act_of (\<lambda>e. e) (seq_gate f e)) (\<lambda>_. doSubmit y f c writer kf att opts) h
           else doDryRun y opts (bf_Out f) h)
       else doDryRun y opts (bf_Out f))"

definition verifyRPC :: "string \<Rightarrow> string \<Rightarrow> string" where
  "verifyRPC rpcArg source = (if rpcArg \<noteq> [] then rpcArg else until_space (trim_space source))"

section \<open>Nothing is submitted without consent\<close>

named_theorems reading

lemmas [reading] = reads.stays_then reads.stays_basic reads.stays_if reads.stays_option reads.stays_sum reads.stays_prod reads.stays_map_error

lemma reading_fail [reading]: "stays (only_reads P) (fail c msg)"
  unfolding fail_def by (intro reading)

lemma reading_build [reading]: "stays (only_reads P) (build_plan y opts)"
  by (auto simp: stays_def build_plan_def act_of_def only_reads_def split: sum.splits)

text \<open>A property of the outside world that the two reading calls before a submission keep.\<close>

definition kept_by_reads :: "('w \<Rightarrow> bool) \<Rightarrow> 'w client \<Rightarrow> bool" where
  "kept_by_reads P c \<longleftrightarrow>
     (\<forall>i w. P w \<longrightarrow> P (snd (cl_AmendmentEnabled c i w))) \<and> (\<forall>a w. P w \<longrightarrow> P (snd (cl_AccountTx c a w)))"

lemma reading_calls:
  assumes "kept_by_reads P c"
  shows "stays (only_reads P) (cl_AccountTx (net_client c) a)" "stays (only_reads P) (cl_AmendmentEnabled (net_client c) i)"
  using assms by (auto simp: stays_def net_client_def on_net_def only_reads_def kept_by_reads_def Let_def case_prod_unfold)

lemma reading_decide:
  assumes "kept_by_reads P c"
  shows "stays (only_reads P) (decideBatch (net_client c) flag)"
  using reading_calls(2) [OF assms] reads.refl unfolding decideBatch_def stays_def by (fastforce split: prod.splits sum.splits if_splits)

lemma reading_prepare:
  assumes "kept_by_reads P c"
  shows "stays (only_reads P) (prepare_submit y f (net_client c) writer att opts)"
  unfolding prepare_submit_def anchor_attestation_def delegatedMemos_def
  by (intro reading reading_calls [OF assms] reading_decide [OF assms])

lemma confirm_answer: "ho_Input h1 = ho_Input h \<Longrightarrow> fst (confirm y h1) = fst (confirm y h)"
  by (simp add: confirm_def prompt_def readLine_def act_then_def act_ok_def Let_def split: option.splits prod.splits)

lemma confirm_net: "confirm y h = (r, h') \<Longrightarrow> ho_Net h' = ho_Net h \<and> ho_Files h' = ho_Files h"
  by (auto simp: confirm_def prompt_def readLine_def act_then_def act_ok_def Let_def split: option.splits prod.splits)

text \<open>
  C24.  Nothing is submitted without consent: when the operator does not answer yes, \<^verbatim>\<open>backup --submit\<close> ends with an error, writes no
  file, and makes only the two reading calls, so every property of the outside world that those calls keep is kept.
\<close>
theorem submit_needs_consent:
  assumes "\<not> bf_Yes f" "fst (confirm y h) = Inr False" "kept_by_reads P c" "P (ho_Net h)"
    and "doSubmit y f (net_client c) writer kf att opts h = (r, h')"
  shows "isl r \<and> ho_Files h' = ho_Files h \<and> P (ho_Net h')"
  using assms(5) unfolding doSubmit_def
proof (cases rule: act_then_cases)
  case (stop e)
  then show ?thesis using staysD [OF reading_prepare [OF assms(3)] stop(1)] assms(4) by (auto simp: only_reads_def)
next
  case (go x h1)
  have o: "only_reads P h h1" by (rule staysD [OF reading_prepare [OF assms(3)] go(1)])
  obtain p batch memos where x: "x = (p, batch, memos)" by (rule prod_cases3)
  obtain h2 where c: "confirm y h1 = (Inr False, h2)"
    using confirm_answer [of h1 h y] o assms(2) by (metis only_reads_def prod.collapse)
  then have "r = Inl (Exit exitUsage ''cancelled; nothing was submitted'') \<and> h' = h2" using go(2) assms(1) by (simp add: x act_then_def fail_def act_fail_def)
  then show ?thesis using confirm_net [OF c] o assms(4) by (auto simp: only_reads_def)
qed

text \<open>A client that counts the transactions it is given, and an operator who answers no.\<close>

definition counting :: "nat client" where
  "counting =
     \<lparr>cl_Submit = (\<lambda>_ n. (Inl ErrNotFound, Suc n)), cl_Tx = (\<lambda>_ n. (Inl ErrNotFound, n)), cl_AccountTx = (\<lambda>_ n. (Inl ErrNotFound, n)),
      cl_LedgerEntryDID = (\<lambda>_ n. (Inl ErrNotFound, n)), cl_AccountInfo = (\<lambda>_ n. (Inl ErrNotFound, n)),
      cl_ServerInfo = (\<lambda>n. (Inl ErrNotFound, n)), cl_AmendmentEnabled = (\<lambda>_ n. (Inr True, n))\<rparr>"

definition sample_backup :: backup_flags where
  "sample_backup =
     \<lparr>bf_Config = ''c'', bf_Validators = [], bf_Includes = [], bf_Key = ''k'', bf_KeyPass = False, bf_Out = ''o'', bf_RPC = [], bf_Submit = False, bf_Yes = False,
      bf_MaxFee = 0, bf_Tombstone = True, bf_DeleteAnchor = False, bf_ForceSeq = False, bf_VPK = [], bf_Attestation = [], bf_AttestationKey = [],
      bf_Comments = ''bundle'', bf_Peers = ''bundle'', bf_Batch = ''auto'', bf_AttestPubKey = [], bf_AttestPubSig = [], bf_AttestDelegated = False,
      bf_AttestKeyPath = [], bf_DelegSig = []\<rparr>"

definition answer_no :: "nat host" where
  "answer_no = \<lparr>ho_Files = [''o'' \<mapsto> Other], ho_Input = ''no'', ho_Net = 0\<rparr>"

theorem submit_needs_consent_witness:
  "\<exists>r h'. doSubmit sample (sample_backup\<lparr>bf_Submit := True\<rparr>) (net_client counting) sample_writer sample_keys None
      (plan_options (sample :: nat system) sample_backup CommentsToBundle False ''c'' [] sample_keys []) answer_no = (r, h') \<and> isl r \<and> ho_Files h' = ho_Files answer_no \<and> ho_Net h' = 0"
proof -
  let ?f = "sample_backup\<lparr>bf_Submit := True\<rparr>"
  let ?o = "plan_options (sample :: nat system) sample_backup CommentsToBundle False ''c'' [] sample_keys []"
  obtain r h' where d: "doSubmit sample ?f (net_client counting) sample_writer sample_keys None ?o answer_no = (r, h')" by (rule prod.exhaust)
  have "\<not> bf_Yes ?f" "kept_by_reads (\<lambda>n. n = 0) counting" "ho_Net answer_no = 0"
    by (simp_all add: sample_backup_def kept_by_reads_def counting_def answer_no_def)
  moreover have "trim_space ''no'' = ''no''" by code_simp
  then have "fst (confirm sample answer_no) = Inr False"
    by (simp add: confirm_def prompt_def readLine_def read_line_def act_then_def act_ok_def answer_no_def equal_fold_def sample_def)
  ultimately show ?thesis using submit_needs_consent [OF _ _ _ _ d, of "\<lambda>n. n = 0"] d by blast
qed

section \<open>A dry run\<close>

text \<open>Nothing outside changes, and no file but the output directory and the bundle in it.\<close>

definition dry :: "string \<Rightarrow> 'w host \<Rightarrow> 'w host \<Rightarrow> bool" where
  "dry out h h' \<longleftrightarrow> ho_Net h' = ho_Net h \<and> (\<forall>p. ho_Files h' p = ho_Files h p \<or> p = out \<or> (\<exists>i. p = Join out (i @ ''.bundle'')))"

interpretation dry: frame "dry out" for out
  by unfold_locales (auto simp: dry_def, metis+)

named_theorems drying

lemmas [drying] = dry.stays_then dry.stays_basic dry.stays_if dry.stays_option dry.stays_sum dry.stays_prod dry.stays_map_error

lemma dry_fail [drying]: "stays (dry out) (fail c msg)"
  unfolding fail_def by (intro drying)

lemma dry_reads [drying]:
  "stays (dry out) prompt" "stays (dry out) (os_ReadFile y p)" "stays (dry out) (findConfig y e)" "stays (dry out) (findKeyFile y e c)"
  "stays (dry out) (findValidators y e c)" "stays (dry out) (openClient y u d)" "stays (dry out) (build_plan y opts)"
  by (auto simp: stays_def dry_def prompt_def readLine_def os_ReadFile_def findConfig_def findKeyFile_def findValidators_def openClient_def build_plan_def
      fail_def act_fail_def act_ok_def act_of_def act_then_def Let_def split: option.splits prod.splits sum.splits if_splits)

lemma dry_setup [drying]: "stays (dry out) (backup_setup y f)"
  unfolding backup_setup_def commentsMode_def peersMode_def acknowledged_def key_and_writer_def loadKeyFile_def delegated_key_def loadAttestKey_def
  by (intro drying)

lemma dry_bundle [drying]: "stays (dry out) (writeBundle y p out)"
proof -
  have "stays (dry out) (os_MkdirAll y out)" "stays (dry out) (os_WriteFile y (Join out (i @ ''.bundle'')) b)" for i b
    by (auto simp: stays_def dry_def os_MkdirAll_def os_WriteFile_def set_file_def split: if_splits option.splits node.splits)
  then show ?thesis unfolding writeBundle_def by (intro drying)
qed

text \<open>
  C26.  Without \<^verbatim>\<open>--submit\<close> nothing is sent: whatever the other flags, files and answers are, the outside world stays as it was (the plan is at most
  compared with the ledger, which the model reads at one moment of it), and no file is touched but the output directory and the bundle in it.
\<close>
theorem dry_run_sends_nothing:
  assumes "\<not> bf_Submit f"
  shows "dry (bf_Out f) h (snd (cmdBackup y f h))"
proof -
  have d: "stays (dry (bf_Out f)) (doDryRun y opts (bf_Out f))" for opts unfolding doDryRun_def by (intro drying)
  have "stays (dry (bf_Out f)) (\<lambda>h. let (opts, warns, e) = bindPlan (sy_Prims y) (reader_of c h) kf a opts in doDryRun y opts (bf_Out f) h)" for c kf a opts
    using d unfolding stays_def by (auto split: prod.splits)
  then have "stays (dry (bf_Out f)) (cmdBackup y f)"
    unfolding cmdBackup_def using assms d by (auto intro!: drying)
  then show ?thesis by (rule staysD) (rule prod.collapse [symmetric])
qed

theorem dry_run_sends_nothing_witness: "dry ''o'' answer_no (snd (cmdBackup sample sample_backup answer_no))"
  using dry_run_sends_nothing [of sample_backup answer_no sample] by (simp add: sample_backup_def)

end
