(* ===== verification/Cmd_Run.thy ===== *)
theory Cmd_Run
  imports Cmd_Backup
begin

text \<open>
  The dispatch of \<^verbatim>\<open>run\<close> in \<^verbatim>\<open>cmd/xrplbak/main.go\<close>, and the exit code of the program.
\<close>

section \<open>Run\<close>

text \<open>The result of \<^verbatim>\<open>flag.FlagSet.Parse\<close>.\<close>

datatype 'f parsed = Help | BadFlags | Flags 'f

record flag_sets =
  fs_Init :: "string list \<Rightarrow> init_flags parsed"
  fs_Redact :: "string list \<Rightarrow> redact_flags parsed"
  fs_Backup :: "string list \<Rightarrow> backup_flags parsed"
  fs_Verify :: "string list \<Rightarrow> (source_flags \<times> string) parsed"
  fs_Restore :: "string list \<Rightarrow> restore_flags parsed"
  fs_AttestKey :: "string list \<Rightarrow> attest_flags parsed"
  fs_AttestVerify :: "string list \<Rightarrow> verify_flags parsed"

definition with_flags :: "'f parsed \<Rightarrow> ('f \<Rightarrow> ('w, 'a) command) \<Rightarrow> ('w, unit) command" where
  "with_flags p cmd =
     (case p of
        Help \<Rightarrow> act_ok ()
      | BadFlags \<Rightarrow> fail exitUsage ''flags''
      | Flags f \<Rightarrow> act_then (cmd f) (\<lambda>_. act_ok ()))"

definition dispatch :: "'w system \<Rightarrow> flag_sets \<Rightarrow> string \<Rightarrow> string list \<Rightarrow> ('w, unit) command option" where
  "dispatch y fs name args =
     (if name = ''init'' then Some (with_flags (fs_Init fs args) (cmdInit y))
      else if name = ''redact'' then Some (with_flags (fs_Redact fs args) (cmdRedact y))
      else if name = ''backup'' then Some (with_flags (fs_Backup fs args) (cmdBackup y))
      else if name = ''verify'' then Some (with_flags (fs_Verify fs args) (\<lambda>(f, b). cmdVerify y f b))
      else if name = ''restore'' then Some (with_flags (fs_Restore fs args) (cmdRestore y))
      else if name = ''attest-key'' then Some (with_flags (fs_AttestKey fs args) (cmdAttestKey y))
      else if name = ''attest-verify'' then Some (with_flags (fs_AttestVerify fs args) (cmdAttestVerify y))
      else if name \<in> {''version'', ''--version'', ''-v'', ''-h'', ''--help'', ''help''} then Some (act_ok ())
      else None)"

definition run :: "'w system \<Rightarrow> flag_sets \<Rightarrow> string list \<Rightarrow> 'w host \<Rightarrow> nat \<times> 'w host" where
  "run y fs args h =
     (case args of
        [] \<Rightarrow> (exitUsage, h)
      | name # rest \<Rightarrow>
          (case dispatch y fs name rest of
             None \<Rightarrow> (exitUsage, h)
           | Some cmd \<Rightarrow> (case cmd h of (Inl e, h') \<Rightarrow> (exitCode e, h') | (Inr _, h') \<Rightarrow> (exitOK, h'))))"

section \<open>Exit codes\<close>

text \<open>Every error of a command has a code of its own between 1 and 6.\<close>

definition coded :: "cmd_error \<Rightarrow> bool" where
  "coded e \<longleftrightarrow> exitOK < exitCode e \<and> exitCode e \<le> exitWrite"

definition exits :: "('s, cmd_error, 'a) action \<Rightarrow> bool" where
  "exits m \<longleftrightarrow> (\<forall>h e h'. m h = (Inl e, h') \<longrightarrow> coded e)"

lemmas exit_codes = exitOK_def exitUsage_def exitNetwork_def exitRefused_def exitAuth_def exitIncomplete_def exitWrite_def

lemma coded_Exit [simp]: "coded (Exit c msg) \<longleftrightarrow> c \<in> {1..6}"
  by (auto simp: coded_def exitCode_def exit_codes)

lemma coded_simps [simp]:
  "coded (OSErr x p)" "coded (BackupErr b)" "coded (DumpErr d)" "coded (CryptoErr c)" "coded (SharesErr s)" "coded (SignErr g)"
  by (auto simp: coded_def exitCode_def exit_codes split: backup_error.splits crypto_error.splits)

lemma exitsD: "exits m \<Longrightarrow> m h = (Inl e, h') \<Longrightarrow> coded e"
  by (auto simp: exits_def)

named_theorems exiting

lemma exits_fail [exiting]: "c \<in> {1..6} \<Longrightarrow> exits (fail c msg)"
  by (simp add: exits_def fail_def)

lemma exits_basic [exiting]: "exits (act_ok x)"
  by (simp add: exits_def)

lemma exits_of: "(\<And>d. r = Inl d \<Longrightarrow> coded (g d)) \<Longrightarrow> exits (act_of g r)"
  by (auto simp: exits_def act_of_def split: sum.splits)

lemma exits_then [exiting]:
  assumes "exits m" "\<And>x. exits (f x)"
  shows "exits (act_then m f)"
  unfolding exits_def using assms by (auto elim!: act_then_cases dest: exitsD)

lemma exits_cases [exiting]:
  "(b \<Longrightarrow> exits m) \<Longrightarrow> (\<not> b \<Longrightarrow> exits n) \<Longrightarrow> exits (if b then m else n)"
  "exits m \<Longrightarrow> (\<And>x. exits (f x)) \<Longrightarrow> exits (case z of None \<Rightarrow> m | Some x \<Rightarrow> f x)"
  "(\<And>a b. exits (g a b)) \<Longrightarrow> exits (case q of (a, b) \<Rightarrow> g a b)"
  by (auto split: option.splits prod.splits)

lemma exits_map_error [exiting]: "(\<And>e. coded (g e)) \<Longrightarrow> exits (act_map_error g m)"
  by (auto simp: exits_def act_map_error_def split: prod.splits sum.splits)

lemma exits_each [exiting]:
  assumes "\<And>x. exits (f x)"
  shows "exits (act_each f xs)"
proof (induction xs)
  case (Cons x xs)
  show ?case unfolding exits_def by (auto split: prod.splits sum.splits dest: exitsD [OF assms] exitsD [OF Cons.IH])
qed (simp add: exits_def)

text \<open>The operations that are not built from these.\<close>

lemmas errors = fail_def act_fail_def act_ok_def act_of_def act_then_def exit_codes Let_def

lemma exits_host [exiting]:
  "exits (os_ReadFile y p)" "exits (os_WriteFile y p b)" "exits (os_MkdirAll y p)" "exits prompt" "exits (findConfig y e)" "exits (findValidators y e c)"
  "exits (findKeyFile y e c)" "exits (openClient y u d)" "exits (config_or_none y)" "exits (fresh_path y p)"
  by (auto simp: exits_def os_ReadFile_def os_WriteFile_def os_MkdirAll_def prompt_def findConfig_def findValidators_def findKeyFile_def openClient_def
      config_or_none_def fresh_path_def errors split: option.splits prod.splits sum.splits node.splits if_splits)

lemma coded_root: "root_of_words y s = Inl e \<Longrightarrow> coded e" "root_of_shares y ls = Inl e \<Longrightarrow> coded e"
  by (auto simp: root_of_words_def root_of_shares_def exit_codes split: sum.splits)

lemma exits_recovery [exiting]: "exits (recoveryKeys y w t)"
proof -
  have "exits (typed_root y)"
    by (auto simp: exits_def typed_root_def errors dest: coded_root split: prod.splits sum.splits if_splits)
  then show ?thesis unfolding recoveryKeys_def by (intro exiting exits_of coded_root) (simp_all add: exit_codes)
qed

lemma exits_load [exiting]: "exits (loadKeyFile y p b)" "exits (loadAttestKey y p)" "exits (confirm y)"
  unfolding loadKeyFile_def loadAttestKey_def confirm_def by (intro exiting exits_of; simp add: exit_codes)+

text \<open>The pure steps.\<close>

lemmas pure_errors = exit_codes Let_def

lemma coded_steps:
  "WrapKey y kf pw = Inl e \<Longrightarrow> coded e" "NewRootKey y = Inl e \<Longrightarrow> coded e" "sign_NewKey y = Inl e \<Longrightarrow> coded e"
  "printed_lines y n t root = Inl e \<Longrightarrow> coded e" "attest_flags_ok y af = Inl e \<Longrightarrow> coded e" "GenerateKey y = Inl e \<Longrightarrow> coded e"
  "verify_flags_ok y vf = Inl e \<Longrightarrow> coded e" "epoch_hint i w = Inl e \<Longrightarrow> coded e" "choose_backup y bid res = Inl e \<Longrightarrow> coded e"
  "past_tombstone rf res pick = Inl e \<Longrightarrow> coded e" "attest_pub_ok y k g = Inl e \<Longrightarrow> coded e" "vpk_label y k = Inl e \<Longrightarrow> coded e"
  "seq_gate bf se = Inl e \<Longrightarrow> coded e" "master_memo y a k g p = Inl e \<Longrightarrow> coded e" "delegation_memo y a ak g = Inl e \<Longrightarrow> coded e"
  by (auto simp: WrapKey_def NewRootKey_def sign_NewKey_def printed_lines_def attest_flags_ok_def GenerateKey_def verify_flags_ok_def epoch_hint_def choose_backup_def
      past_tombstone_def attest_pub_ok_def vpk_label_def seq_gate_def master_memo_def delegation_memo_def pure_errors
      split: option.splits sum.splits if_splits prod.splits list.splits seq_error.splits)

lemma coded_verdict: "attest_verdict y k fi = Inl e \<Longrightarrow> coded e" "judge_next y a txs deleg am = Inl e \<Longrightarrow> coded e"
  by (auto simp: attest_verdict_def judge_next_def pure_errors split: status.splits reason.splits option.splits if_splits)

lemma coded_fetch [simp]: "coded (fetch_exit e)"
  by (simp add: fetch_exit_def exit_codes split: discover_error.splits)

lemma coded_backup_flags: "backup_flags_ok y bf = Inl e \<Longrightarrow> coded e"
  by (auto simp: backup_flags_ok_def pure_errors coded_steps split: if_splits)

text \<open>The commands.\<close>

lemma exits_sum [exiting]: "(\<And>x. exits (f x)) \<Longrightarrow> (\<And>x. exits (g x)) \<Longrightarrow> exits (case z of Inl x \<Rightarrow> f x | Inr x \<Rightarrow> g x)"
  by (simp split: sum.splits)

lemma exits_act_fail [exiting]: "coded e \<Longrightarrow> exits (act_fail e)"
  by (simp add: exits_def)

lemma exits_move: "move_to y path dsts h = (Inl e, h') \<Longrightarrow> coded e"
  by (induction y path dsts h rule: move_to.induct)
    (auto simp: os_Link_def os_Remove_def errors split: option.splits node.splits if_splits)

lemma exits_rotate [exiting]: "exits (doRotate y kp w t p)"
proof -
  have "exits (moveAside y a b)" for a b by (auto simp: exits_def moveAside_def dest: exits_move)
  then show ?thesis
    unfolding doRotate_def rotated_key_def replace_key_def encode_rotated_def new_passphrase_def
    by (intro exiting exits_of) (auto simp: exit_codes dest: coded_steps)
qed

lemma exits_init [exiting]: "exits (cmdInit y f)"
proof -
  have "exits (reentry y f ls)" for ls by (auto simp: exits_def reentry_def exit_codes split: if_splits prod.splits)
  then have "exits (init_new y f)"
    unfolding init_new_def Let_def encode_new_def new_passphrase_def by (intro exiting exits_of) (auto simp: exit_codes dest: coded_steps)
  then show ?thesis unfolding exits_def [of "cmdInit y f"] cmdInit_def
    by (auto simp: errors split: if_splits sum.splits prod.splits dest: exitsD exitsD [OF exits_rotate])
qed

lemma exits_attest [exiting]: "exits (cmdAttestKey y af)" "exits (cmdAttestVerify y vf)"
  unfolding cmdAttestKey_def cmdAttestVerify_def Let_def
  by (intro exiting exits_of; auto simp: exit_codes dest: coded_steps coded_verdict)+

lemma exits_resolve [exiting]: "exits (resolve y f)"
proof -
  have "exits (act_then (loadKeyFile y kp b) (\<lambda>kf. act_ok (Some kf)))" for kp b by (intro exiting)
  then have "exits (source_key y f)" unfolding exits_def [of "source_key y f"] source_key_def
    by (auto split: if_splits prod.splits sum.splits dest: exitsD exitsD [OF exits_host(7)])
  then show ?thesis unfolding resolve_def source_keys_def by (intro exiting exits_of; auto simp: exit_codes dest: coded_steps)
qed

lemma exits_reads [exiting]: "exits (discovered y s)" "exits (fetched y s res c)" "exits (named_bundle y s c path)" "exits (build_plan y opts)"
proof -
  show "exits (named_bundle y s c path)" unfolding named_bundle_def by (intro exiting exits_of) (simp add: exit_codes)
qed (auto simp: exits_def discovered_def fetched_def build_plan_def act_of_def exit_codes split: sum.splits)

lemma exits_verify [exiting]: "exits (cmdVerify y f b)"
  unfolding cmdVerify_def by (intro exiting exits_of; auto simp: exit_codes dest: coded_steps)

lemma exits_restore [exiting]: "exits (cmdRestore y f)"
proof -
  have "exits (write_temp y p)" "exits (write_target y p t force)" for p t force
    by (auto simp: exits_def write_temp_def write_target_def exit_codes Let_def split: prod.splits sum.splits option.splits)
  moreover have "exits (restore_plan y f)" unfolding restore_plan_def by (intro exiting exits_of; auto simp: exit_codes dest: coded_steps)
  ultimately show ?thesis unfolding cmdRestore_def by (intro exiting) (auto simp: exit_codes)
qed

lemma exits_modes [exiting]: "exits (commentsMode v b)" "exits (peersMode v b)"
  unfolding commentsMode_def peersMode_def acknowledged_def by (intro exiting; simp add: exit_codes)+

lemma exits_redact [exiting]: "exits (cmdRedact y f)"
  unfolding cmdRedact_def redact_file_def write_copy_def Let_def by (intro exiting; simp add: exit_codes)

lemma exits_bundle [exiting]: "exits (writeBundle y p out)" "exits (doDryRun y opts out)"
  unfolding doDryRun_def writeBundle_def by (intro exiting)+

lemma exits_submit [exiting]: "exits (doSubmit y f c writer kf att opts)"
proof -
  have s: "exits (\<lambda>h. submit_plan s p (d h) b h)" for s p d b
    by (auto simp: exits_def submit_plan_def exit_codes split: prod.splits sum.splits if_splits)
  have d: "exits (decideBatch c flag)" for flag by (auto simp: exits_def decideBatch_def exit_codes split: prod.splits sum.splits if_splits)
  have m: "exits (delegatedMemos y c a k g p)" for a k g p unfolding delegatedMemos_def
    by (intro exiting exits_of; auto simp: exit_codes dest: coded_steps coded_verdict)
  show ?thesis unfolding doSubmit_def prepare_submit_def anchor_attestation_def
    by (intro exiting exits_of s d m; auto simp: exit_codes dest: coded_steps)
qed

lemma exits_setup [exiting]: "exits (backup_setup y f)"
  unfolding backup_setup_def key_and_writer_def delegated_key_def
  by (intro exiting exits_of; auto simp: exit_codes dest: coded_steps coded_backup_flags)

lemma exits_backup [exiting]: "exits (cmdBackup y f)"
proof -
  have "exits (act_then (act_of (\<lambda>e. e) (seq_gate f e)) (\<lambda>_. doSubmit y f c writer kf att opts))" for e c writer kf att opts
    by (intro exiting exits_of) (auto dest: coded_steps)
  then have "exits (\<lambda>h. let (opts, warns, e) = bindPlan (sy_Prims y) (reader_of c h) kf (key_Address y writer) opts in
           if bf_Submit f then act_then (act_of (\<lambda>e. e) (seq_gate f e)) (\<lambda>_. doSubmit y f c writer kf att opts) h
           else doDryRun y opts (bf_Out f) h)" for c kf writer att opts
    using exits_bundle(2) by (fastforce simp: exits_def split: prod.splits)
  then show ?thesis unfolding cmdBackup_def by (intro exiting)
qed

lemma exits_flags [exiting]:
  assumes "\<And>f. exits (c f)"
  shows "exits (with_flags p c)"
proof -
  have "exits (act_then (c f) (\<lambda>_. act_ok ()))" for f by (intro exiting assms)
  then show ?thesis unfolding with_flags_def by (simp add: exits_basic exits_fail exit_codes split: parsed.splits)
qed

lemma pred_option_if: "pred_option P a \<Longrightarrow> pred_option P b \<Longrightarrow> pred_option P (if c then a else b)"
  by simp

lemma dispatch_exits:
  assumes "dispatch y fs name args = Some cmd"
  shows "exits cmd"
proof -
  have "exits (with_flags (fs_Init fs args) (cmdInit y))" "exits (with_flags (fs_Redact fs args) (cmdRedact y))"
    "exits (with_flags (fs_Backup fs args) (cmdBackup y))" "exits (with_flags (fs_Verify fs args) (\<lambda>(f, b). cmdVerify y f b))"
    "exits (with_flags (fs_Restore fs args) (cmdRestore y))" "exits (with_flags (fs_AttestKey fs args) (cmdAttestKey y))"
    "exits (with_flags (fs_AttestVerify fs args) (cmdAttestVerify y))"
    "exits (act_ok ())"
    by (intro exiting)+
  note c = this
  have "pred_option exits (dispatch y fs name args)"
    unfolding dispatch_def by (intro pred_option_if; simp only: option.pred_inject c)
  then show ?thesis using assms by simp
qed

text \<open>
  C27.  The exit code tells the outcome: it is at most 6, and it is 0 exactly when a known command was named and it ended without an
  error; no error path of any command exits with 0.
\<close>
theorem run_exit_code:
  "fst (run y fs args h) \<le> exitWrite \<and>
   (fst (run y fs args h) = exitOK \<longleftrightarrow> (\<exists>name rest cmd h'. args = name # rest \<and> dispatch y fs name rest = Some cmd \<and> cmd h = (Inr (), h')))"
proof (cases args)
  case (Cons name rest)
  show ?thesis
  proof (cases "dispatch y fs name rest")
    case (Some cmd)
    obtain r h' where c: "cmd h = (r, h')" by (rule prod.exhaust)
    have "coded e" if "r = Inl e" for e using exitsD [OF dispatch_exits [OF Some]] c that by blast
    then show ?thesis using Cons Some c by (cases r) (auto simp: run_def coded_def exitOK_def exitWrite_def)
  qed (use Cons in \<open>simp add: run_def exit_codes\<close>)
qed (simp add: run_def exit_codes)

end
