(* ===== verification/Offline.thy ===== *)
theory Offline
  imports Submit
begin

text \<open>
  A finished run restores from its dump file alone.  The contract of the ledger a run talks to is the locale
  \<open>honest_ledger\<close>, that of the host it runs on the locale \<open>submission\<close>: \<open>sent w\<close> is the set of transactions, by
  hash, that were ever submitted in the world \<open>w\<close>.
\<close>

section \<open>Attempts and names\<close>

lemma attempts_Some:
  assumes "attempts n once st = (Inr x, st')" "\<And>u v. once u = (Inr None, v) \<Longrightarrow> Q u v" "\<And>u. Q u u" "\<And>u v w. Q u v \<Longrightarrow> Q v w \<Longrightarrow> Q u w"
  shows "\<exists>u. Q st u \<and> once u = (Inr (Some x), st')"
  using assms(1)
proof (induction n arbitrary: st)
  case (Suc n)
  from Suc.prems obtain r u where u: "once st = (Inr r, u)" "(case r of Some x \<Rightarrow> act_ok x | None \<Rightarrow> attempts n once) u = (Inr x, st')"
    by (auto elim!: act_thenE)
  show ?case
  proof (cases r)
    case None
    then show ?thesis using Suc.IH [of u] u assms(2) [of st u] assms(4) by auto
  next
    case (Some y)
    then show ?thesis using u assms(3) by (intro exI [of _ st]) simp
  qed
qed simp

lemma sub_defaults_idem [simp]: "sub_defaults (sub_defaults s) = sub_defaults s"
  by (simp add: sub_defaults_def)

text \<open>What the notes of landed chunks do to the manifest: names and ledgers, nothing else.\<close>

definition noted :: "nat \<Rightarrow> dump_tx list \<Rightarrow> manifest \<Rightarrow> manifest" where
  "noted n ts m = fold (\<lambda>(i, t). set_chunk i (dt_Hash t) (dt_LedgerIndex t)) (enumerate n ts) m"

lemma noted_Cons: "noted n (t # ts) m = noted (Suc n) ts (set_chunk n (dt_Hash t) (dt_LedgerIndex t) m)"
  by (simp add: noted_def)

lemma noted_frame: "noted n ts m = m\<lparr>mn_Chunks := mn_Chunks (noted n ts m)\<rparr>"
proof (induction ts arbitrary: n m)
  case (Cons t ts)
  show ?case using Cons [of "Suc n" "set_chunk n (dt_Hash t) (dt_LedgerIndex t) m"] by (simp add: noted_Cons set_chunk_def)
qed (simp add: noted_def)

lemma noted_length [simp]: "length (mn_Chunks (noted n ts m)) = length (mn_Chunks m)"
  by (induction ts arbitrary: n m) (simp_all add: noted_Cons, simp_all add: noted_def set_chunk_def)

lemma noted_chunk:
  "i < length (mn_Chunks m) \<Longrightarrow>
     ch_Index (mn_Chunks (noted n ts m) ! i) = ch_Index (mn_Chunks m ! i)
     \<and> ch_SHA256 (mn_Chunks (noted n ts m) ! i) = ch_SHA256 (mn_Chunks m ! i)
     \<and> ch_TxHash (mn_Chunks (noted n ts m) ! i) = (if n \<le> i \<and> i < n + length ts then dt_Hash (ts ! (i - n)) else ch_TxHash (mn_Chunks m ! i))"
proof (induction ts arbitrary: n m)
  case (Cons t ts)
  let ?m = "set_chunk n (dt_Hash t) (dt_LedgerIndex t) m"
  have "i < length (mn_Chunks ?m)" using Cons.prems by (simp add: set_chunk_def)
  from Cons.IH [OF this, of "Suc n"] Cons.prems show ?case
    by (cases "i = n") (auto simp: noted_Cons set_chunk_def nth_list_update nth_Cons' Suc_diff_le)
qed (auto simp: noted_def)

section \<open>Hashes and memos\<close>

lemma nibbles: "unat (x :: byte) div 16 < 16" "unat (x :: byte) mod 16 < 16"
proof -
  have "unat x < 256" by (rule order_less_le_trans [OF unsigned_less]) simp
  then show "unat x div 16 < 16" "unat x mod 16 < 16" by auto
qed

lemma hex_digit_upper:
  assumes "n < 16"
  shows "is_ascii (hex_upper (hex_char n))" "ascii_upper (hex_upper (hex_char n)) = hex_upper (hex_char n)"
proof -
  have "list_all (\<lambda>n. is_ascii (hex_upper (hex_char n)) \<and> ascii_upper (hex_upper (hex_char n)) = hex_upper (hex_char n)) [0..<16]"
    by (simp add: upt_rec hex_char_def hexdigits_def hex_upper_def ascii_upper_def is_ascii_def)
  then show "is_ascii (hex_upper (hex_char n))" "ascii_upper (hex_upper (hex_char n)) = hex_upper (hex_char n)"
    using assms by (auto simp: list_all_iff)
qed

lemma Hash_upper: "list_all is_ascii (Hash sha b)" "map ascii_upper (Hash sha b) = Hash sha b"
proof -
  have "list_all is_ascii (map hex_upper (hex_encode bs)) \<and> map ascii_upper (map hex_upper (hex_encode bs)) = map hex_upper (hex_encode bs)" for bs
    by (induction bs) (simp_all add: hex_encode_def hex_digit_upper nibbles)
  then show "list_all is_ascii (Hash sha b)" "map ascii_upper (Hash sha b) = Hash sha b" by (simp_all add: Hash_def)
qed

lemma hex_decode_upper [simp]: "hex_decode (upper_hex b) = Some b"
proof (induction b)
  case (Cons x b)
  have "16 * (unat x div 16) + unat x mod 16 = unat x" by simp
  then show ?case using Cons by (simp add: upper_hex_def hex_encode_def from_hex_upper nibbles del: of_nat_add of_nat_mult)
qed (simp add: upper_hex_def hex_encode_def)

lemma decoded_type: "chunk_Encode typ bid i n nonce ct = Inr m \<Longrightarrow> chunk_Decode m = Some pl \<Longrightarrow> pl_Type pl = typ"
  by (auto simp: chunk_Encode_def chunk_Decode_def Let_def split: if_splits sum.splits)

lemma chunk_memo_encoded:
  assumes "has_parts pm lo fs opts p q" "m \<in> set (bp_ChunkMemos p)"
  shows "\<exists>i n ct. chunk_Encode TypeChunk (pp_bid pm opts q) i n [] ct = Inr m"
proof -
  let ?f = "seal_piece pm (BackupKey (pm_hkdf pm) (kf_Key (pp_key q)) (pp_bid pm opts q)) (pp_bid pm opts q) (length (pp_pieces q))"
  have e: "each_ok ?f (enumerate 0 (pp_pieces q)) = Inr (pp_sealed q)" "bp_ChunkMemos p = map snd (pp_sealed q)"
    using assms(1) by (simp_all add: has_parts_def)
  obtain j where j: "j < length (pp_sealed q)" "m = snd (pp_sealed q ! j)" using assms(2) by (auto simp: e(2) in_set_conv_nth)
  then have "?f (enumerate 0 (pp_pieces q) ! j) = Inr (pp_sealed q ! j)" using each_ok_nth [OF e(1)] by simp
  then show ?thesis using j(2) by (auto simp: seal_piece_def Let_def split: prod.splits sum.splits) (metis snd_conv)
qed

lemma chunk_memo_type: "has_parts pm lo fs opts p q \<Longrightarrow> m \<in> set (bp_ChunkMemos p) \<Longrightarrow> chunk_Decode m = Some pl \<Longrightarrow> pl_Type pl = TypeChunk"
  using chunk_memo_encoded decoded_type by blast

section \<open>The only manifest of a history\<close>

text \<open>The payload of part \<open>i\<close>.\<close>

lemma memo_payload:
  assumes "gcm_ok (pm_gcm pm)" "ManifestMemos pm nonce key bid m = Inr (memos, body)" "i < length memos"
  shows "\<exists>ct. chunk_Decode (memos ! i) = Some \<lparr>pl_Type = TypeManifest, pl_BackupID = bid, pl_Index = of_nat i, pl_Total = of_nat (length memos),
      pl_Nonce = nonce, pl_Ciphertext = ct\<rparr>
    \<and> SealManifest (pm_gcm pm) (BackupKey (pm_hkdf pm) key bid) bid nonce (of_nat i) (of_nat (length memos)) (manifest_pieces body ! i) = Some ct"
proof -
  note mm = ManifestMemos_Inr [OF assms(2)]
  obtain ct where ct: "SealManifest (pm_gcm pm) (BackupKey (pm_hkdf pm) key bid) bid nonce (of_nat i) (of_nat (length memos)) (manifest_pieces body ! i) = Some ct"
    "chunk_Encode TypeManifest bid (of_nat i) (of_nat (length memos)) nonce ct = Inr (memos ! i)"
    using mm(4) [OF assms(3)] by blast
  have "length memos \<le> MaxManifestParts" using mm(2,3) by simp
  then have lt: "(of_nat i :: u16) < of_nat (length memos)" using assms(3) by (simp add: word_less_nat_alt unat_of_nat_len MaxManifestParts_def)
  have tag: "TagLen \<le> length ct" using ct(1) assms(1) by (auto simp: SealManifest_def gcm_length TagLen_def split: if_splits)
  show ?thesis using decode_encoded_memo [OF ct(2) _ lt tag] ct(1) by auto
qed

lemma sole_manifest_found:
  assumes g: "gcm_ok (pm_gcm pm)" and mm: "ManifestMemos pm nonce key bid m = Inr (memos, body)"
    and txs: "rd_AccountTx rd account = Inr (txs, rng)" and anc: "read_anchor pm rd (FileKeys e key) account = Inr (anc, ok, w)"
    and ours: "\<forall>(t, p) \<in> set (manifest_payloads account txs). \<exists>i < length memos. chunk_Decode (memos ! i) = Some p"
    and on: "on_chain account txs memos" and e: "mn_Epoch m = e" "length bid = 16" "mn_BackupID m = hex_encode bid"
    and js: "pm_of_json pm body = Some (m\<lparr>mn_V := manifest_Version\<rparr>)" "pm_of_json pm [] = None"
  shows "\<exists>res c. discover_Run pm rd (FileKeys e key) account e = Inr res \<and> rs_Latest res = Some c
    \<and> cd_Manifest c = m\<lparr>mn_V := manifest_Version\<rparr> \<and> cd_BackupID c = bid \<and> cd_Epoch c = e"
proof -
  let ?kb = "BackupKey (pm_hkdf pm) key bid" and ?hist = "manifest_payloads account txs" and ?n = "length memos" and ?ps = "manifest_pieces body"
  note M = ManifestMemos_Inr [OF mm]
  have n: "length ?ps = ?n" "?n \<le> MaxManifestParts" "?n < 2 ^ 16" using M(2,3) by (simp_all add: MaxManifestParts_def)
  have body: "concat ?ps = body" by (rule concat_manifest_pieces)
  have "body \<noteq> []" using js by auto
  then have n0: "0 < ?n" using body n(1) by (metis concat.simps(1) length_greater_0_conv)
  have car: "carried pm ?kb ?hist bid nonce ?ps" by (rule manifest_memos_carried [OF g mm on])
  have pay: "\<exists>i ct. i < ?n \<and> key_of p = (bid, nonce) \<and> pl_Index p = of_nat i \<and> pl_Total p = of_nat ?n \<and> pl_Ciphertext p = ct
      \<and> SealManifest (pm_gcm pm) ?kb bid nonce (of_nat i) (of_nat ?n) (?ps ! i) = Some ct" if tp: "(t, p) \<in> set ?hist" for t p
  proof -
    obtain i where i: "i < ?n" "chunk_Decode (memos ! i) = Some p" using bspec [OF ours tp] by auto
    then show ?thesis using memo_payload [OF g mm i(1)] by (intro exI [of _ i]) auto
  qed
  have first: "first_total (bid, nonce) ?hist = Some (of_nat (length ?ps))"
  proof -
    obtain t p where "(t, p) \<in> set ?hist" using car n0 n(1) unfolding carried_def by (metis (mono_tags, lifting) case_prodE)
    then have "?hist \<noteq> []" by auto
    then obtain t p r where h: "?hist = (t, p) # r" by (metis list.exhaust surj_pair)
    then show ?thesis using pay [of t p] by (auto simp: first_total_def n(1))
  qed
  have u: "unat (of_nat i :: u16) = i" if "i < ?n" for i using that n(3) by (simp add: unat_of_nat_len)
  have only: "only_sealed pm ?kb ?hist bid nonce ?ps"
    unfolding only_sealed_def
  proof (intro ballI)
    fix x assume x: "x \<in> set ?hist"
    obtain t p where tp: "x = (t, p)" by fastforce
    obtain i where i: "i < ?n" "pl_Index p = of_nat i" "SealManifest (pm_gcm pm) ?kb bid nonce (of_nat i) (of_nat ?n) (?ps ! i) = Some (pl_Ciphertext p)"
      using pay x tp by blast
    then have "OpenManifest (pm_gcm pm) ?kb bid nonce (pl_Index p) (of_nat (length ?ps)) (pl_Ciphertext p) = Inr (?ps ! i)"
      by (simp add: OpenManifest_Inr [OF g] n(1))
    then show "case x of (t, p) \<Rightarrow> key_of p = (bid, nonce) \<longrightarrow> (\<forall>y. OpenManifest (pm_gcm pm) ?kb bid nonce (pl_Index p) (of_nat (length ?ps)) (pl_Ciphertext p) = Inr y
        \<longrightarrow> y = ?ps ! unat (pl_Index p))"
      using i(1,2) u by (simp add: tp)
  qed
  have k: "FileKeys e key e = Some key" by (simp add: FileKeys_def)
  have un: "Unmarshal (pm_of_json pm) (concat ?ps) = Inr (m\<lparr>mn_V := manifest_Version\<rparr>)"
    using js(1) e(2,3) by (simp add: body Unmarshal_def)
  obtain res where res: "discover_Run pm rd (FileKeys e key) account e = Inr res" "bid \<in> cd_BackupID ` set (rs_Candidates res)"
    using published_found [where hint = e, OF g anc txs k _ _ car _ first only un] n e by (auto simp: maxEpochProbe_def)
  have auth: "list_all (authentic pm (FileKeys e key) ?hist) (rs_Candidates res)" using run_authentic [OF g res(1)] txs by auto
  have c: "cd_Manifest c = m\<lparr>mn_V := manifest_Version\<rparr> \<and> cd_BackupID c = bid \<and> cd_Epoch c = e" if cin: "c \<in> set (rs_Candidates res)" for c
  proof -
    obtain k' nonce' qs where q: "FileKeys e key (cd_Epoch c) = Some k'" "carried pm (BackupKey (pm_hkdf pm) k' (cd_BackupID c)) ?hist (cd_BackupID c) nonce' qs"
      "0 < length qs" "length qs \<le> MaxManifestParts" "cd_Plain c = concat qs" "Unmarshal (pm_of_json pm) (cd_Plain c) = Inr (cd_Manifest c)"
      using auth cin by (auto simp: list_all_iff authentic_def)
    have ck: "cd_Epoch c = e" "k' = key" using q(1) by (auto simp: FileKeys_def split: if_splits)
    have part: "\<exists>t p. (t, p) \<in> set ?hist \<and> key_of p = (cd_BackupID c, nonce') \<and> pl_Index p = of_nat j \<and> pl_Total p = of_nat (length qs)
        \<and> SealManifest (pm_gcm pm) (BackupKey (pm_hkdf pm) key (cd_BackupID c)) (cd_BackupID c) nonce' (of_nat j) (of_nat (length qs)) (qs ! j) = Some (pl_Ciphertext p)"
      if "j < length qs" for j using q(2) that ck(2) by (fastforce simp: carried_def)
    obtain t0 p0 where p0: "(t0, p0) \<in> set ?hist" "key_of p0 = (cd_BackupID c, nonce')" "pl_Total p0 = of_nat (length qs)" using part [OF q(3)] by blast
    then have b: "cd_BackupID c = bid" "nonce' = nonce" "(of_nat (length qs) :: u16) = of_nat ?n" using pay [OF p0(1)] by auto
    have "unat (of_nat (length qs) :: u16) = length qs" "unat (of_nat ?n :: u16) = ?n"
      using q(4) n(2) by (simp_all add: unat_of_nat_len MaxManifestParts_def)
    then have l: "length qs = ?n" using b(3) by metis
    have "qs ! j = ?ps ! j" if j: "j < length qs" for j
    proof -
      obtain t p where p: "(t, p) \<in> set ?hist" "pl_Index p = of_nat j"
        "SealManifest (pm_gcm pm) ?kb bid nonce (of_nat j) (of_nat ?n) (qs ! j) = Some (pl_Ciphertext p)"
        using part [OF j] b l by auto
      obtain i where i: "i < ?n" "pl_Index p = of_nat i" "SealManifest (pm_gcm pm) ?kb bid nonce (of_nat i) (of_nat ?n) (?ps ! i) = Some (pl_Ciphertext p)"
        using pay [OF p(1)] by blast
      have "i = j" using u [OF i(1)] u [of j] i(2) p(2) j l by simp
      then show ?thesis using p(3) i(3) OpenManifest_Inr [OF g] by (metis sum.inject(2))
    qed
    then have "qs = ?ps" using l n(1) by (intro nth_equalityI) simp_all
    then show ?thesis using q(5,6) un b(1) ck(1) by simp
  qed
  have "distinct (map cd_BackupID (rs_Candidates res))" using run_newest [OF res(1)] by simp
  then have one: "x = y" if "x \<in> set (rs_Candidates res)" "y \<in> set (rs_Candidates res)" for x y
    using that c by (metis distinct_map inj_onD)
  obtain c0 where "rs_Latest res = Some c0 \<and> c0 \<in> set (rs_Candidates res)"
    using run_newest [OF res(1)] res(2) one by (cases "rs_Latest res") auto
  then show ?thesis using res(1) c by blast
qed

section \<open>The contract\<close>

text \<open>A record tells of a transaction: its JSON, parsed again, has the memos and the account.\<close>

definition tells :: "'w submitter \<Rightarrow> json \<Rightarrow> txfields \<Rightarrow> bool" where
  "tells s raw f \<longleftrightarrow>
     (case ParseTxJSON (sb_Fold s) raw None of
        None \<Rightarrow> False
      | Some r \<Rightarrow> tr_Memos r = tx_Memos f \<and> tr_Account r = EncodeAddress (pm_sha256 (sb_Prims s)) (tx_Account f))"

text \<open>No two transactions that were ever sent share a hash.\<close>

definition no_collision :: "(string \<times> txfields) set \<Rightarrow> bool" where
  "no_collision S \<longleftrightarrow> (\<forall>h f g. (h, f) \<in> S \<longrightarrow> (h, g) \<in> S \<longrightarrow> f = g)"

text \<open>The fields the tool sets: no URI, no document, and data only in a \<^verbatim>\<open>DIDSet\<close>.\<close>

definition plain_fields :: "txfields \<Rightarrow> bool" where
  "plain_fields f \<longleftrightarrow> tx_URI f = [] \<and> tx_DIDDocument f = [] \<and> (tx_Type f \<noteq> TxDIDSet \<longrightarrow> tx_Data f = [])"

locale honest_ledger =
  fixes s :: "'w submitter"
    and invar :: "'w \<Rightarrow> bool"
    and sent :: "'w \<Rightarrow> (string \<times> txfields) set"
  assumes submit_step: "invar w \<Longrightarrow> cl_Submit (sb_Client s) b w = (r, w') \<Longrightarrow> invar w' \<and> sent w \<subseteq> sent w'"
    and tx_step: "invar w \<Longrightarrow> cl_Tx (sb_Client s) h w = (rt, w') \<Longrightarrow> invar w' \<and> sent w \<subseteq> sent w'"
    and account_step: "invar w \<Longrightarrow> cl_AccountInfo (sb_Client s) a w = (ra, w') \<Longrightarrow> invar w' \<and> sent w \<subseteq> sent w'"
    and server_step: "invar w \<Longrightarrow> cl_ServerInfo (sb_Client s) w = (rs, w') \<Longrightarrow> invar w' \<and> sent w \<subseteq> sent w'"
    and submitted: "invar w \<Longrightarrow> Serialize t True = Inr b \<Longrightarrow> tx_ok t \<Longrightarrow> cl_Submit (sb_Client s) b w = (Inr ec, w') \<Longrightarrow>
        (Hash (sb_Sha512 s) b, tx_fields t) \<in> sent w'"
    and reported: "invar w \<Longrightarrow> cl_Tx (sb_Client s) (Hash (sb_Sha512 s) b) w = (Inr rec, w') \<Longrightarrow> tr_Validated rec \<Longrightarrow>
        tr_Result rec = ''tesSUCCESS'' \<Longrightarrow> \<exists>f. (Hash (sb_Sha512 s) b, f) \<in> sent w' \<and> tells s (tr_Raw rec) f"

locale submission = honest_ledger s invar sent
  for s :: "'w submitter" and invar :: "'w \<Rightarrow> bool" and sent :: "'w \<Rightarrow> (string \<times> txfields) set" +
  assumes sleep_step: "invar w \<Longrightarrow> invar (sb_Sleep s n w) \<and> sent w \<subseteq> sent (sb_Sleep s n w)"
    and write_step: "invar w \<Longrightarrow> sb_WriteFile s path j w = (ok, w') \<Longrightarrow> invar w' \<and> sent w \<subseteq> sent w'"
    and nonce_step: "invar w \<Longrightarrow> sb_Nonce s w = (nc, w') \<Longrightarrow> invar w' \<and> sent w \<subseteq> sent w'"
    and nonce_length: "sb_Nonce s w = (Some nonce, w') \<Longrightarrow> length nonce = ManifestNonceLen"
    and map_order: "mset (sb_MapOrder s n) = mset [0..<n]"
    and signature_length: "length (ed_sign (sb_Ed25519 s) k m) = 64"
begin

text \<open>Every step of a run keeps the invariant and forgets nothing that was sent; it never touches the manifest on its own.\<close>

definition evolves :: "'w \<Rightarrow> 'w \<Rightarrow> bool" where
  "evolves w w' \<longleftrightarrow> (invar w \<longrightarrow> invar w' \<and> sent w \<subseteq> sent w')"

lemma evolves_refl [simp]: "evolves w w"
  by (simp add: evolves_def)

lemma evolves_trans: "evolves u v \<Longrightarrow> evolves v w \<Longrightarrow> evolves u w"
  by (auto simp: evolves_def)

lemma evolves_calls:
  "cl_Submit (sb_Client s) b w = (r, w') \<Longrightarrow> evolves w w'"
  "cl_Tx (sb_Client s) h w = (rt, w') \<Longrightarrow> evolves w w'"
  "cl_AccountInfo (sb_Client s) a w = (ra, w') \<Longrightarrow> evolves w w'"
  "cl_ServerInfo (sb_Client s) w = (rs, w') \<Longrightarrow> evolves w w'"
  "evolves w (sb_Sleep s n w)"
  "sb_WriteFile s path j w = (ok, w') \<Longrightarrow> evolves w w'"
  "sb_Nonce s w = (nc, w') \<Longrightarrow> evolves w w'"
  unfolding evolves_def
  by (intro impI, erule (1) submit_step, intro impI, erule (1) tx_step, intro impI, erule (1) account_step, intro impI, erule (1) server_step,
      intro impI, erule sleep_step, intro impI, erule (1) write_step, intro impI, erule (1) nonce_step)

text \<open>The dump grows by what is added to it; a save only marks the version.\<close>

definition same_log :: "'w sub_state \<Rightarrow> 'w sub_state \<Rightarrow> bool" where
  "same_log st st' \<longleftrightarrow> du_Txs (us_Dump st') = du_Txs (us_Dump st) \<and> du_DID (us_Dump st') = du_DID (us_Dump st)
     \<and> us_Manifest st' = us_Manifest st \<and> evolves (us_World st) (us_World st')"

lemma same_log_refl [simp]: "same_log st st"
  by (simp add: same_log_def)

lemma same_log_trans: "same_log st u \<Longrightarrow> same_log u v \<Longrightarrow> same_log st v"
  by (auto simp: same_log_def intro: evolves_trans)

lemma on_world_same:
  assumes "on_world m st = (r, st')" "m (us_World st) = (r, us_World st') \<Longrightarrow> evolves (us_World st) (us_World st')"
  shows "same_log st st'" "m (us_World st) = (r, us_World st')"
  using assms by (auto simp: on_world_def Let_def same_log_def split: prod.splits)

lemma ask_same:
  assumes "ask m st = (Inr x, st')" "m (us_World st) = (Inr x, us_World st') \<Longrightarrow> evolves (us_World st) (us_World st')"
  shows "same_log st st'" "m (us_World st) = (Inr x, us_World st')"
  using on_world_same [of m st "Inr x" st'] assms by (simp_all add: ask_def)

lemma ask_account_same: "ask_account s st = (Inr x, st') \<Longrightarrow> same_log st st'"
  unfolding ask_account_def by (auto dest!: on_world_same(1) intro: evolves_calls)

lemma saveDump_same: "saveDump s st = (r, st') \<Longrightarrow> same_log st st'"
  by (auto simp: saveDump_def dump_Save_def Let_def same_log_def split: if_splits prod.splits intro: evolves_calls)

lemma wait_evolves: "wait_validated s h final n w = (r, w') \<Longrightarrow> evolves w w'"
proof (induction n arbitrary: w)
  case (Suc n)
  obtain rt u where u: "cl_Tx (sb_Client s) h (sb_Sleep s 2 w) = (rt, u)" by fastforce
  obtain i v where v: "cl_ServerInfo (sb_Client s) u = (i, v)" by fastforce
  have wu: "evolves w u" using evolves_trans [OF evolves_calls(5) evolves_calls(2) [OF u]] .
  have wv: "evolves w v" using evolves_trans [OF wu evolves_calls(4) [OF v]] .
  show ?case
    using Suc.prems wu wv evolves_trans [OF wv Suc.IH [of v]]
    by (auto simp: u v Let_def split: sum.splits if_splits)
qed simp

lemma wait_found:
  assumes "wait_validated s h final n w = (Some rec, w')" "invar w"
  shows "\<exists>u. invar u \<and> cl_Tx (sb_Client s) h u = (Inr rec, w') \<and> tr_Validated rec \<and> sent w \<subseteq> sent u"
  using assms
proof (induction n arbitrary: w)
  case (Suc n)
  let ?v = "sb_Sleep s 2 w"
  have v: "invar ?v" "sent w \<subseteq> sent ?v" using sleep_step [OF Suc.prems(2)] by auto
  obtain rt u where u: "cl_Tx (sb_Client s) h ?v = (rt, u)" by fastforce
  obtain i x where x: "cl_ServerInfo (sb_Client s) u = (i, x)" by fastforce
  have ix: "invar x" "sent w \<subseteq> sent x" using tx_step [OF v(1) u] server_step [OF _ x] v(2) by auto
  show ?case
  proof (cases "\<exists>q. rt = Inr q \<and> tr_Validated q")
    case True
    then show ?thesis using Suc.prems(1) u v by (auto simp: Let_def intro!: exI [of _ ?v])
  next
    case False
    then have "wait_validated s h final n x = (Some rec, w')"
      using Suc.prems(1) by (auto simp: u x Let_def split: sum.splits if_splits)
    then show ?thesis using Suc.IH [OF _ ix(1)] ix(2) by blast
  qed
qed simp

section \<open>One transaction\<close>

lemma await_eq: "await s h final st = (r, st') \<Longrightarrow>
    same_log st st' \<and> (\<exists>x. r = Inr x \<and> wait_validated s h final 45 (us_World st) = (x, us_World st'))"
  by (auto simp: await_def Let_def same_log_def dest: wait_evolves split: prod.splits)

lemma pause_same: "pause s n st = (r, st') \<Longrightarrow> same_log st st'"
  by (auto simp: pause_def same_log_def intro: evolves_calls)

lemma check_funds_same: "check_funds s acct rate fee st = (Inr x, st') \<Longrightarrow> st' = st"
  by (auto simp: check_funds_def split: if_splits)

lemma submit_blob_None:
  assumes "submit_blob s blob final finish st = (Inr None, st')"
  shows "same_log st st'"
proof -
  obtain ec u where u: "ask (cl_Submit (sb_Client s) blob) st = (Inr ec, u)"
    and r: "(case engine_answer ec of
        Wait \<Rightarrow> act_then (await s (Hash (sb_Sha512 s) blob) final) (\<lambda>r. case r of None \<Rightarrow> act_ok None
            | Some rec \<Rightarrow> act_then (finish (Hash (sb_Sha512 s) blob) rec) (\<lambda>x. act_ok (Some x)))
      | TryAgain \<Rightarrow> act_then (pause s 4) (\<lambda>_. act_ok None)
      | GiveUp \<Rightarrow> act_fail (EngineCode ec (Hash (sb_Sha512 s) blob))) u = (Inr None, st')"
    using assms by (auto simp: submit_blob_def Let_def elim!: act_thenE)
  have su: "same_log st u" by (rule ask_same(1) [OF u]) (erule evolves_calls)
  have "same_log u st'"
    using r by (auto split: engine_answer.splits option.splits elim!: act_thenE dest!: await_eq pause_same)
  then show ?thesis by (rule same_log_trans [OF su])
qed

lemma submit_blob_Some:
  assumes "submit_blob s blob final finish st = (Inr (Some x), st')" "invar (us_World st)" "Serialize t True = Inr blob" "tx_ok t"
  shows "\<exists>rec u. same_log st u \<and> invar (us_World u) \<and> finish (Hash (sb_Sha512 s) blob) rec u = (Inr x, st')
    \<and> (Hash (sb_Sha512 s) blob, tx_fields t) \<in> sent (us_World u)
    \<and> (tr_Result rec = ''tesSUCCESS'' \<longrightarrow> (\<exists>g. (Hash (sb_Sha512 s) blob, g) \<in> sent (us_World u) \<and> tells s (tr_Raw rec) g))"
proof -
  let ?h = "Hash (sb_Sha512 s) blob"
  obtain ec u where u: "ask (cl_Submit (sb_Client s) blob) st = (Inr ec, u)"
    and r: "(case engine_answer ec of
        Wait \<Rightarrow> act_then (await s ?h final) (\<lambda>r. case r of None \<Rightarrow> act_ok None | Some rec \<Rightarrow> act_then (finish ?h rec) (\<lambda>x. act_ok (Some x)))
      | TryAgain \<Rightarrow> act_then (pause s 4) (\<lambda>_. act_ok None)
      | GiveUp \<Rightarrow> act_fail (EngineCode ec ?h)) u = (Inr (Some x), st')"
    using assms(1) by (auto simp: submit_blob_def Let_def elim!: act_thenE)
  have su: "same_log st u" and cu: "cl_Submit (sb_Client s) blob (us_World st) = (Inr ec, us_World u)"
    by (rule ask_same [OF u]; erule evolves_calls)+
  have iu: "invar (us_World u)" "(?h, tx_fields t) \<in> sent (us_World u)"
    using submit_step [OF assms(2) cu] submitted [OF assms(2-4) cu] by auto
  obtain v rec where v: "await s ?h final u = (Inr (Some rec), v)" "finish ?h rec v = (Inr x, st')"
    using r by (auto split: engine_answer.splits option.splits elim!: act_thenE)
  have sv: "same_log u v" "wait_validated s ?h final 45 (us_World u) = (Some rec, us_World v)" using await_eq [OF v(1)] by auto
  obtain y where y: "invar y" "cl_Tx (sb_Client s) ?h y = (Inr rec, us_World v)" "tr_Validated rec"
    using wait_found [OF sv(2) iu(1)] by blast
  have ev: "evolves (us_World u) (us_World v)" using sv(1) by (simp add: same_log_def)
  then have "invar (us_World v)" "(?h, tx_fields t) \<in> sent (us_World v)" using iu by (auto simp: evolves_def)
  then show ?thesis using reported [OF y] v(2) same_log_trans [OF su sv(1)] by blast
qed

definition logged :: "(string \<times> txfields) set \<Rightarrow> memo list \<Rightarrow> dump_tx \<Rightarrow> bool" where
  "logged S ms t \<longleftrightarrow> (\<exists>b. dt_Hash t = Hash (sb_Sha512 s) b) \<and> dt_Result t = ''tesSUCCESS''
     \<and> (\<exists>f. (dt_Hash t, f) \<in> S \<and> tx_Memos f = ms \<and> tx_Account f = writer_id s) \<and> (\<exists>g. (dt_Hash t, g) \<in> S \<and> tells s (dt_TxJSON t) g)"

text \<open>What one successful send leaves: exactly one new entry, for a transaction with the memos of \<open>f\<close>.\<close>

definition adds :: "memo list list \<Rightarrow> dump_tx list \<Rightarrow> 'w sub_state \<Rightarrow> 'w sub_state \<Rightarrow> bool" where
  "adds mss ts st st' \<longleftrightarrow> du_Txs (us_Dump st') = du_Txs (us_Dump st) @ ts \<and> list_all2 (logged (sent (us_World st'))) mss ts
     \<and> invar (us_World st') \<and> sent (us_World st) \<subseteq> sent (us_World st')"

lemma logged_mono: "logged S ms t \<Longrightarrow> S \<subseteq> S' \<Longrightarrow> logged S' ms t"
  by (auto simp: logged_def)

lemma adds_trans:
  assumes "adds mss ts st u" "adds mss' ts' u v"
  shows "adds (mss @ mss') (ts @ ts') st v"
proof -
  have "list_all2 (logged (sent (us_World v))) mss ts"
    using assms by (auto simp: adds_def intro: list.rel_mono_strong logged_mono)
  then show ?thesis using assms by (auto simp: adds_def intro: list_all2_appendI)
qed

lemma adds_same: "same_log st u \<Longrightarrow> invar (us_World st) \<Longrightarrow> adds [] [] st u"
  by (auto simp: adds_def same_log_def evolves_def)

lemma sign_tx_ok:
  assumes "sign_tx s (Tx f []) = Inr blob" "plain_fields f"
  shows "\<exists>t. Serialize t True = Inr blob \<and> tx_ok t \<and> tx_Memos (tx_fields t) = tx_Memos f \<and> tx_Account (tx_fields t) = tx_Account f"
proof -
  obtain payload where p: "Serialize (Tx (f\<lparr>tx_TxnSignature := ed_sign (sb_Ed25519 s) (k_priv (sb_Writer s)) payload\<rparr>) []) True = Inr blob"
    using assms(1) by (auto simp: sign_tx_def and_then_Inr)
  show ?thesis
    by (rule exI, rule conjI [OF p])
       (use assms(2) in \<open>auto simp: tx_ok_def fields_ok_def plain_fields_def vl_ok_short signature_length\<close>)
qed

lemma send_once_None:
  assumes "send_once s f st = (Inr None, st')"
  shows "same_log st st'"
proof -
  obtain srv u acct v blob x where a: "ask (cl_ServerInfo (sb_Client s)) st = (Inr srv, u)" "ask_account s u = (Inr acct, v)"
    "check_funds s acct (fee_rate srv) (fee_rate srv) v = (Inr (), x)"
    "submit_blob s blob (ss_ValidatedLedger srv + 20) (finish_send s) x = (Inr None, st')"
    using assms unfolding send_once_def by (auto elim!: act_thenE)
  have "same_log st u" by (rule ask_same(1) [OF a(1)]) (erule evolves_calls)
  then show ?thesis
    using ask_account_same [OF a(2)] check_funds_same [OF a(3)] submit_blob_None [OF a(4)] by (blast intro: same_log_trans)
qed

lemma send_once_Some:
  assumes "send_once s f st = (Inr (Some (h, l)), st')" "invar (us_World st)" "plain_fields f"
  shows "\<exists>t. dt_Hash t = h \<and> dt_LedgerIndex t = l \<and> adds [tx_Memos f] [t] st st' \<and> us_Manifest st' = us_Manifest st
    \<and> du_DID (us_Dump st') = du_DID (us_Dump st)"
proof -
  obtain srv u acct v blob where a: "ask (cl_ServerInfo (sb_Client s)) st = (Inr srv, u)" "ask_account s u = (Inr acct, v)"
    "sign_tx s (Tx (prepared s f srv acct) []) = Inr blob"
    "submit_blob s blob (ss_ValidatedLedger srv + 20) (finish_send s) v = (Inr (Some (h, l)), st')"
    using assms(1) unfolding send_once_def by (auto elim!: act_thenE dest!: check_funds_same)
  have "same_log st u" by (rule ask_same(1) [OF a(1)]) (erule evolves_calls)
  then have sv: "same_log st v" using ask_account_same [OF a(2)] same_log_trans by blast
  then have iv: "invar (us_World v)" using assms(2) by (simp add: same_log_def evolves_def)
  have "plain_fields (prepared s f srv acct)" using assms(3) by (simp add: plain_fields_def prepared_def)
  then obtain t where t: "Serialize t True = Inr blob" "tx_ok t" "tx_Memos (tx_fields t) = tx_Memos f" "tx_Account (tx_fields t) = writer_id s"
    using sign_tx_ok [OF a(3)] by (auto simp: prepared_def)
  let ?h = "Hash (sb_Sha512 s) blob"
  obtain rec x where x: "same_log v x" "invar (us_World x)" "finish_send s ?h rec x = (Inr (h, l), st')"
    "(?h, tx_fields t) \<in> sent (us_World x)"
    "tr_Result rec = ''tesSUCCESS'' \<longrightarrow> (\<exists>g. (?h, g) \<in> sent (us_World x) \<and> tells s (tr_Raw rec) g)"
    using submit_blob_Some [OF a(4) iv t(1,2)] by blast
  have f: "tr_Result rec = ''tesSUCCESS''" "h = ?h" "l = tr_LedgerIndex rec" "saveDump s (record_tx ?h rec x) = (Inr (), st')"
    using x(3) by (auto simp: finish_send_def split: if_splits elim!: act_thenE)
  let ?t = "\<lparr>dt_Hash = h, dt_LedgerIndex = l, dt_Result = tr_Result rec, dt_TxJSON = tr_Raw rec\<rparr>"
  have r: "same_log (record_tx ?h rec x) st'" by (rule saveDump_same [OF f(4)])
  then have ev: "evolves (us_World x) (us_World st')" by (simp add: same_log_def record_tx_def)
  then have e: "invar (us_World st')" "sent (us_World x) \<subseteq> sent (us_World st')" using x(2) by (auto simp: evolves_def)
  have "logged (sent (us_World x)) (tx_Memos f) ?t" using f x(4,5) t(3,4) by (auto simp: logged_def)
  then have "logged (sent (us_World st')) (tx_Memos f) ?t" using e(2) by (rule logged_mono)
  moreover have sx: "same_log st x" by (rule same_log_trans [OF sv x(1)])
  ultimately have "adds [tx_Memos f] [?t] st st'"
    using r e assms(2) f by (auto simp: adds_def same_log_def record_tx_def evolves_def)
  moreover have "us_Manifest st' = us_Manifest st" "du_DID (us_Dump st') = du_DID (us_Dump st)"
    using r sx by (auto simp: same_log_def record_tx_def)
  ultimately show ?thesis by (intro exI [of _ ?t]) simp
qed

section \<open>A whole run\<close>

lemma send_adds:
  assumes "sub_defaults s = s" "send s f st = (Inr (h, l), st')" "invar (us_World st)" "plain_fields f"
  shows "\<exists>t. dt_Hash t = h \<and> dt_LedgerIndex t = l \<and> adds [tx_Memos f] [t] st st' \<and> us_Manifest st' = us_Manifest st
    \<and> du_DID (us_Dump st') = du_DID (us_Dump st)"
proof -
  obtain u where u: "same_log st u" "send_once s f u = (Inr (Some (h, l)), st')"
    using attempts_Some [where Q = same_log, OF assms(2) [unfolded send_def assms(1)]] send_once_None same_log_trans same_log_refl by blast
  then have "invar (us_World u)" using assms(3) by (simp add: same_log_def evolves_def)
  from send_once_Some [OF u(2) this assms(4)] obtain t where t: "dt_Hash t = h" "dt_LedgerIndex t = l" "adds [tx_Memos f] [t] u st'"
    "us_Manifest st' = us_Manifest u" "du_DID (us_Dump st') = du_DID (us_Dump u)" by blast
  have "adds [tx_Memos f] [t] st st'" using adds_trans [OF adds_same [OF u(1) assms(3)] t(3)] by simp
  then show ?thesis using t u(1) by (auto simp: same_log_def)
qed

lemma plain_carrier [simp]: "plain_fields (carrier m)" "tx_Memos (carrier m) = [m]"
  by (simp_all add: plain_fields_def carrier_def no_fields_def)

lemma submit_chunks_adds:
  assumes "sub_defaults s = s" "rz_recorded z = []"
    and "act_each (submit_chunk s z) (enumerate n memos) st = (Inr x, st')" "invar (us_World st)"
  shows "\<exists>ts. adds (map (\<lambda>m. [m]) memos) ts st st' \<and> us_Manifest st' = noted n ts (us_Manifest st)"
  using assms(3,4)
proof (induction memos arbitrary: n st x)
  case Nil
  then show ?case by (intro exI [of _ "[]"]) (simp add: adds_def noted_def)
next
  case (Cons m memos)
  obtain y u x' where u: "submit_chunk s z (n, m) st = (Inr y, u)" "act_each (submit_chunk s z) (enumerate (Suc n) memos) u = (Inr x', st')"
    using Cons.prems(1) unfolding enumerate_simps act_each_eq by blast
  have "recorded_chunk z (us_Manifest st) n = None" by (simp add: recorded_chunk_def assms(2))
  then obtain h l v where v: "send s (carrier m) st = (Inr (h, l), v)" "u = v\<lparr>us_Manifest := set_chunk n h l (us_Manifest v)\<rparr>"
    using u(1) by (auto simp: submit_chunk_def note_chunk_def elim!: act_thenE)
  from send_adds [OF assms(1) v(1) Cons.prems(2) plain_carrier(1)] obtain t where t: "dt_Hash t = h" "dt_LedgerIndex t = l"
    "adds [[m]] [t] st v" "us_Manifest v = us_Manifest st" by auto
  have au: "adds [[m]] [t] st u" using t(3) by (simp add: adds_def v(2))
  then have "invar (us_World u)" by (simp add: adds_def)
  from Cons.IH [OF u(2) this] obtain ts where ts: "adds (map (\<lambda>m. [m]) memos) ts u st'" "us_Manifest st' = noted (Suc n) ts (us_Manifest u)" by blast
  have "us_Manifest u = set_chunk n (dt_Hash t) (dt_LedgerIndex t) (us_Manifest st)" by (simp add: v(2) t)
  then show ?case using adds_trans [OF au ts(1)] ts(2) by (intro exI [of _ "t # ts"]) (simp add: noted_Cons)
qed

lemma send_parts_adds:
  assumes "sub_defaults s = s" "act_each (send_part s) (enumerate n memos) st = (Inr x, st')" "invar (us_World st)"
  shows "\<exists>ts. adds (map (\<lambda>m. [m]) memos) ts st st' \<and> us_Manifest st' = us_Manifest st"
  using assms(2,3)
proof (induction memos arbitrary: n st x)
  case Nil
  then show ?case by (intro exI [of _ "[]"]) (simp add: adds_def)
next
  case (Cons m memos)
  obtain h l u x' where u: "send s (carrier m) st = (Inr (h, l), u)" "act_each (send_part s) (enumerate (Suc n) memos) u = (Inr x', st')"
    using Cons.prems(1) unfolding enumerate_simps act_each_eq by (auto simp: send_part_def)
  from send_adds [OF assms(1) u(1) Cons.prems(2) plain_carrier(1)] obtain t where t: "adds [[m]] [t] st u" "us_Manifest u = us_Manifest st" by auto
  have "invar (us_World u)" using t(1) by (simp add: adds_def)
  from Cons.IH [OF u(2) this] obtain ts where ts: "adds (map (\<lambda>m. [m]) memos) ts u st'" "us_Manifest st' = us_Manifest u" by blast
  then show ?case using adds_trans [OF t(1) ts(1)] t(2) by (intro exI [of _ "t # ts"]) simp
qed

lemma submit_manifest_adds:
  assumes "sub_defaults s = s" "rz_parts z = []" "submit_manifest s p z st = (Inr x, st')" "invar (us_World st)"
  shows "\<exists>nonce memos body ts. length nonce = ManifestNonceLen
    \<and> ManifestMemos (sb_Prims s) nonce (kf_Key (sb_Key s)) (bp_BackupID p) (us_Manifest st) = Inr (memos, body)
    \<and> adds (map (\<lambda>m. [m]) memos) ts st st' \<and> us_Manifest st' = us_Manifest st"
proof -
  have "sb_MapOrder s 0 = []" using map_order [of 0] by simp
  then have "landed_manifest s z = None" by (simp add: landed_manifest_def assms(2) List.map_filter_simps)
  then obtain memos u y where u: "seal_memos s p (us_Manifest st) st = (Inr memos, u)" "act_each (send_part s) (enumerate 0 memos) u = (Inr y, st')"
    using assms(3) by (auto simp: submit_manifest_def elim!: act_thenE)
  obtain nonce body where n: "on_world (sb_Nonce s) st = (Some nonce, u)"
    "ManifestMemos (sb_Prims s) nonce (kf_Key (sb_Key s)) (bp_BackupID p) (us_Manifest st) = Inr (memos, body)"
    using u(1) by (auto simp: seal_memos_def split: option.splits sum.splits prod.splits)
  have su: "same_log st u" and nu: "sb_Nonce s (us_World st) = (Some nonce, us_World u)" by (rule on_world_same [OF n(1)]; erule evolves_calls)+
  then have iu: "invar (us_World u)" "us_Manifest u = us_Manifest st" using assms(4) by (auto simp: same_log_def evolves_def)
  obtain ts where ts: "adds (map (\<lambda>m. [m]) memos) ts u st'" "us_Manifest st' = us_Manifest u" using send_parts_adds [OF assms(1) u(2) iu(1)] by blast
  have "adds (map (\<lambda>m. [m]) memos) ts st st'" using adds_trans [OF adds_same [OF su assms(4)] ts(1)] by simp
  then show ?thesis using nonce_length [OF nu] n(2) ts(2) iu(2) by auto
qed

lemma sendAnchor_adds:
  assumes "sub_defaults s = s" "sendAnchor s p h l st = (Inr x, st')" "invar (us_World st)"
  shows "\<exists>t data. adds [anchorMemos s] [t] st st' \<and> us_Manifest st' = us_Manifest st \<and> map_option dd_Data (du_DID (us_Dump st')) = Some (upper_hex data)"
proof -
  define data where "data = anchor_data s (anchor_record p (us_Manifest st) (hex_prefix h) l)"
  let ?f = "no_fields\<lparr>tx_Type := TxDIDSet, tx_Data := data, tx_Memos := anchorMemos s\<rparr>"
  obtain h' l' u where u: "send s ?f st = (Inr (h', l'), u)" "saveDump s (set_did (Some \<lparr>dd_LedgerIndex = l', dd_Data = upper_hex data\<rparr>) u) = (Inr x, st')"
    using assms(2) by (auto simp: sendAnchor_def data_def Let_def elim!: act_thenE)
  have "plain_fields ?f" by (simp add: plain_fields_def no_fields_def)
  from send_adds [OF assms(1) u(1) assms(3) this] obtain t where t: "adds [anchorMemos s] [t] st u" "us_Manifest u = us_Manifest st" by auto
  let ?v = "set_did (Some \<lparr>dd_LedgerIndex = l', dd_Data = upper_hex data\<rparr>) u"
  have v: "adds [anchorMemos s] [t] st ?v" "us_Manifest ?v = us_Manifest st" using t by (simp_all add: adds_def set_did_def)
  have sv: "same_log ?v st'" by (rule saveDump_same [OF u(2)])
  have "adds [anchorMemos s] [t] st st'" using adds_trans [OF v(1) adds_same [OF sv]] v(1) by (simp add: adds_def)
  then show ?thesis using v(2) sv by (auto simp: same_log_def set_did_def)
qed

lemma sequential_run:
  assumes "sub_defaults s = s" "\<not> sb_Batch s" "backup_Submit s p None w = (Inr (), st)" "invar w"
  shows "\<exists>nonce memos body ts rest data. length nonce = ManifestNonceLen
    \<and> ManifestMemos (sb_Prims s) nonce (kf_Key (sb_Key s)) (bp_BackupID p) (us_Manifest st) = Inr (memos, body)
    \<and> us_Manifest st = noted 0 ts (bp_Manifest p) \<and> length ts = length (bp_ChunkMemos p) \<and> du_Txs (us_Dump st) = ts @ rest
    \<and> list_all2 (logged (sent (us_World st))) (map (\<lambda>m. [m]) (bp_ChunkMemos p @ memos) @ [anchorMemos s]) (ts @ rest)
    \<and> map_option dd_Data (du_DID (us_Dump st)) = Some (upper_hex data)"
proof -
  let ?st = "submit_start s p None w" and ?z = "\<lparr>rz_recorded = [], rz_parts = []\<rparr>"
  have s0: "du_Txs (us_Dump ?st) = []" "us_World ?st = w" "us_Manifest ?st = bp_Manifest p"
    by (simp_all add: submit_start_def default_dump_def no_dump_def Let_def)
  have sq: "submit_sequential s p ?z ?st = (Inr (), st)"
    using assms(1-3) by (auto simp: backup_Submit_def Let_def s0 elim!: act_thenE)
  obtain us u h l v where u: "act_each (submit_chunk s ?z) (enumerate 0 (bp_ChunkMemos p)) ?st = (Inr us, u)"
    and v: "submit_manifest s p ?z u = (Inr (h, l), v)" and a: "sendAnchor s p h l v = (Inr (), st)"
    using sq by (auto simp: submit_sequential_def elim!: act_thenE)
  obtain ts where ts: "adds (map (\<lambda>m. [m]) (bp_ChunkMemos p)) ts ?st u" "us_Manifest u = noted 0 ts (bp_Manifest p)"
    using submit_chunks_adds [OF assms(1) _ u] assms(4) by (auto simp: s0)
  have iu: "invar (us_World u)" using ts(1) by (simp add: adds_def)
  obtain nonce memos body ts' where m: "length nonce = ManifestNonceLen"
    "ManifestMemos (sb_Prims s) nonce (kf_Key (sb_Key s)) (bp_BackupID p) (us_Manifest u) = Inr (memos, body)"
    "adds (map (\<lambda>m. [m]) memos) ts' u v" "us_Manifest v = us_Manifest u"
    using submit_manifest_adds [OF assms(1) _ v iu] by auto
  have iv: "invar (us_World v)" using m(3) by (simp add: adds_def)
  obtain t data where t: "adds [anchorMemos s] [t] v st" "us_Manifest st = us_Manifest v" "map_option dd_Data (du_DID (us_Dump st)) = Some (upper_hex data)"
    using sendAnchor_adds [OF assms(1) a iv] by blast
  have "adds (map (\<lambda>m. [m]) (bp_ChunkMemos p) @ map (\<lambda>m. [m]) memos @ [anchorMemos s]) (ts @ ts' @ [t]) ?st st"
    by (intro adds_trans [OF ts(1)] adds_trans [OF m(3) t(1)])
  moreover have "length ts = length (bp_ChunkMemos p)" using ts(1) by (auto simp: adds_def dest: list_all2_lengthD)
  ultimately show ?thesis using m t ts(2) by (intro exI) (auto simp: adds_def s0)
qed

section \<open>Reading the dump\<close>

definition rec_of :: "dump_tx \<Rightarrow> tx_record" where
  "rec_of t = the (dump_record (sb_Fold s) t)"

lemma logged_record:
  assumes "no_collision S" "logged S ms t"
  shows "dump_record (sb_Fold s) t = Some (rec_of t)" "tr_Memos (rec_of t) = ms" "tr_Account (rec_of t) = Address s"
    "tr_Result (rec_of t) = ''tesSUCCESS''" "tr_Hash (rec_of t) = dt_Hash t"
proof -
  obtain f g where f: "(dt_Hash t, f) \<in> S" "tx_Memos f = ms" "tx_Account f = writer_id s" "(dt_Hash t, g) \<in> S" "tells s (dt_TxJSON t) g"
    using assms(2) by (auto simp: logged_def)
  then have "g = f" using assms(1) by (auto simp: no_collision_def)
  then obtain r where r: "ParseTxJSON (sb_Fold s) (dt_TxJSON t) None = Some r" "tr_Memos r = ms" "tr_Account r = Address s"
    using f by (auto simp: tells_def Address_def split: option.splits)
  show "dump_record (sb_Fold s) t = Some (rec_of t)" "tr_Memos (rec_of t) = ms" "tr_Account (rec_of t) = Address s"
    "tr_Result (rec_of t) = ''tesSUCCESS''" "tr_Hash (rec_of t) = dt_Hash t"
    using r assms(2) by (auto simp: rec_of_def dump_record_def logged_def)
qed

lemma listed_records:
  assumes "no_collision S" "list_all2 (logged S) mss (du_Txs d)"
  shows "\<exists>rng. rd_AccountTx (dump_reader (sb_Fold s) d) (Address s) = Inr (map rec_of (du_Txs d), rng)"
    "map tr_Memos (map rec_of (du_Txs d)) = mss"
proof -
  have l: "logged S (mss ! i) (du_Txs d ! i)" if "i < length (du_Txs d)" for i using assms(2) that by (simp add: list_all2_conv_all_nth)
  have r: "dump_record (sb_Fold s) t = Some (rec_of t) \<and> tr_Account (rec_of t) = Address s" if "t \<in> set (du_Txs d)" for t
    using that l logged_record [OF assms(1)] by (metis in_set_conv_nth)
  then have "List.map_filter (dump_record (sb_Fold s)) (du_Txs d) = map rec_of (du_Txs d)"
    by (induction "du_Txs d" arbitrary: d) (simp_all add: List.map_filter_def)
  then have "filter (\<lambda>r. tr_Account r = Address s) (List.map_filter (dump_record (sb_Fold s)) (du_Txs d)) = map rec_of (du_Txs d)"
    using r by (simp add: filter_id_conv)
  then show "\<exists>rng. rd_AccountTx (dump_reader (sb_Fold s) d) (Address s) = Inr (map rec_of (du_Txs d), rng)"
    using dump_listing_append [of "sb_Fold s" "Address s" "du_Txs d" "[]" "\<lparr>rg_Min = -1, rg_Max = -1\<rparr>"]
    by (simp add: dump_reader_def) (metis prod.collapse)
  show "map tr_Memos (map rec_of (du_Txs d)) = mss"
  proof (rule nth_equalityI)
    show "length (map tr_Memos (map rec_of (du_Txs d))) = length mss" using list_all2_lengthD [OF assms(2)] by simp
    show "map tr_Memos (map rec_of (du_Txs d)) ! i = mss ! i" if "i < length (map tr_Memos (map rec_of (du_Txs d)))" for i
      using that logged_record(2) [OF assms(1) l [of i]] by simp
  qed
qed

lemma found_record:
  assumes "no_collision S" "list_all2 (logged S) mss (du_Txs d)" "i < length mss"
  shows "\<exists>r. rd_Tx (dump_reader (sb_Fold s) d) (dt_Hash (du_Txs d ! i)) = Inr r \<and> tr_Memos r = mss ! i"
proof -
  let ?t = "du_Txs d ! i"
  have l: "logged S (mss ! j) (du_Txs d ! j)" if "j < length (du_Txs d)" for j using assms(2) that by (simp add: list_all2_conv_all_nth)
  have i: "i < length (du_Txs d)" using assms(3) list_all2_lengthD [OF assms(2)] by simp
  obtain b where b: "dt_Hash ?t = Hash (sb_Sha512 s) b" using l [OF i] by (auto simp: logged_def)
  have "equal_fold (sb_Fold s) (dt_Hash ?t) (dt_Hash ?t)" using equal_fold_ascii [OF Hash_upper(1) Hash_upper(1)] by (simp add: b)
  then obtain t where t: "find (\<lambda>t. equal_fold (sb_Fold s) (dt_Hash t) (dt_Hash ?t)) (du_Txs d) = Some t"
    using i by (cases "find (\<lambda>t. equal_fold (sb_Fold s) (dt_Hash t) (dt_Hash ?t)) (du_Txs d)") (auto simp: find_None_iff)
  then obtain j where j: "j < length (du_Txs d)" "t = du_Txs d ! j" "equal_fold (sb_Fold s) (dt_Hash t) (dt_Hash ?t)"
    by (auto simp: find_Some_iff)
  obtain c where c: "dt_Hash t = Hash (sb_Sha512 s) c" using l [OF j(1)] j(2) by (auto simp: logged_def)
  have "dt_Hash t = dt_Hash ?t"
    using j(3) equal_fold_ascii [OF Hash_upper(1) Hash_upper(1)] by (simp add: b c Hash_upper(2))
  then have "mss ! j = mss ! i" using l [OF j(1)] l [OF i] j(2) assms(1) unfolding logged_def no_collision_def by metis
  then show ?thesis
    using logged_record(1,2) [OF assms(1) l [OF j(1)]] t j(2) by (auto simp: dump_reader_def dump_lookup_def)
qed

lemma offline_history:
  fixes d :: dump
  assumes q: "has_parts (sb_Prims s) lo fs opts p q" and nc: "no_collision S"
    and l: "list_all2 (logged S) (map (\<lambda>m. [m]) (bp_ChunkMemos p @ memos) @ [anchorMemos s]) (du_Txs d)"
    and am: "list_all (\<lambda>m. chunk_Decode m = None) (anchorMemos s)"
  shows "\<forall>(t, pl) \<in> set (manifest_payloads (Address s) (map rec_of (du_Txs d))). \<exists>i < length memos. chunk_Decode (memos ! i) = Some pl"
    and "on_chain (Address s) (map rec_of (du_Txs d)) memos"
proof -
  let ?mss = "map (\<lambda>m. [m]) (bp_ChunkMemos p @ memos) @ [anchorMemos s]"
  have mm: "map tr_Memos (map rec_of (du_Txs d)) = ?mss" by (rule listed_records(2) [OF nc l])
  show "\<forall>(t, pl) \<in> set (manifest_payloads (Address s) (map rec_of (du_Txs d))). \<exists>i < length memos. chunk_Decode (memos ! i) = Some pl"
  proof (intro ballI)
    fix x assume x: "x \<in> set (manifest_payloads (Address s) (map rec_of (du_Txs d)))"
    obtain t pl where tp: "x = (t, pl)" by fastforce
    obtain m where m: "t \<in> set (map rec_of (du_Txs d))" "pl_Type pl = TypeManifest" "m \<in> set (tr_Memos t)" "chunk_Decode m = Some pl"
      using x by (auto simp: tp manifest_payloads_ok)
    have "tr_Memos t \<in> set ?mss" using m(1) unfolding mm [symmetric] by (metis imageI image_set)
    then consider "m \<in> set (bp_ChunkMemos p)" | "m \<in> set memos" | "m \<in> set (anchorMemos s)" using m(3) by auto
    then have "m \<in> set memos"
      using chunk_memo_type [OF q _ m(4)] m(2,4) am chunk_types by cases (auto simp: list_all_iff)
    then show "case x of (t, pl) \<Rightarrow> \<exists>i < length memos. chunk_Decode (memos ! i) = Some pl" using m(4) by (auto simp: tp in_set_conv_nth)
  qed
  have rec: "tr_Account r = Address s \<and> tr_Result r = ''tesSUCCESS''" if r: "r \<in> set (map rec_of (du_Txs d))" for r
  proof -
    obtain i where i: "i < length (du_Txs d)" "r = rec_of (du_Txs d ! i)" using r by (auto simp: in_set_conv_nth)
    then have "logged S (?mss ! i) (du_Txs d ! i)" using l by (simp add: list_all2_conv_all_nth)
    then show ?thesis using logged_record(3,4) [OF nc] i(2) by simp
  qed
  have "\<exists>r \<in> set (map rec_of (du_Txs d)). m \<in> set (tr_Memos r)" if "m \<in> set memos" for m
  proof -
    have "[m] \<in> set (map tr_Memos (map rec_of (du_Txs d)))" using that unfolding mm by simp
    then obtain x where "x \<in> set (du_Txs d)" "[m] = tr_Memos (rec_of x)" by auto
    then have "rec_of x \<in> set (map rec_of (du_Txs d))" "m \<in> set (tr_Memos (rec_of x))" by simp_all (metis list.set_intros(1))
    then show ?thesis by blast
  qed
  then show "on_chain (Address s) (map rec_of (du_Txs d)) memos" using rec unfolding on_chain_def list_all_iff list_ex_iff by blast
qed

lemma run_restores_offline:
  assumes "sub_defaults s = s" "invar w" "prims_ok (sb_Prims s)" "backup_Build (sb_Prims s) lo fs opts = Inr p" "\<not> bo_Tombstone opts"
    and "bo_Key opts = Some (sb_Key s)" "files_fit (sb_Prims s) lo fs opts" "\<forall>(q, raw) \<in> set (originals fs opts). checkPath q = None"
    and "\<not> sb_Batch s" "backup_Submit s p None w = (Inr (), st)" "no_collision (sent (us_World st))"
    and "list_all (\<lambda>m. chunk_Decode m = None) (anchorMemos s)"
    and "pm_of_json (sb_Prims s) (Marshal (pm_to_json (sb_Prims s)) (us_Manifest st)) = Some ((us_Manifest st)\<lparr>mn_V := manifest_Version\<rparr>)"
    and "pm_of_json (sb_Prims s) [] = None"
  shows "\<exists>res c on bu rp.
    discover_Run (sb_Prims s) (dump_reader (sb_Fold s) (us_Dump st)) (FileKeys (kf_Epoch (sb_Key s)) (kf_Key (sb_Key s))) (Address s) (kf_Epoch (sb_Key s)) = Inr res
    \<and> rs_Latest res = Some c
    \<and> Fetch (sb_Prims s) (dump_reader (sb_Fold s) (us_Dump st)) (FileKeys (kf_Epoch (sb_Key s)) (kf_Key (sb_Key s))) res c = Inr on
    \<and> discover_OpenBundle (sb_Prims s) (FileKeys (kf_Epoch (sb_Key s)) (kf_Key (sb_Key s))) c (bp_Bundle p) = Inr bu
    \<and> restore_Build (pm_sha256 (sb_Prims s)) (cd_Manifest c) on bu = Inr rp
    \<and> map (\<lambda>f. (rf_Path f, rf_Data f)) (rp_Files rp) = sort_key fst (originals fs opts) \<and> list_all (Complete (pm_sha256 (sb_Prims s))) (rp_Files rp)
    \<and> cd_BackupID c = bp_BackupID p \<and> cd_Manifest c = (us_Manifest st)\<lparr>mn_V := manifest_Version\<rparr>"
proof -
  let ?pm = "sb_Prims s" and ?key = "sb_Key s" and ?d = "us_Dump st" and ?m = "us_Manifest st"
  let ?keys = "FileKeys (kf_Epoch ?key) (kf_Key ?key)" and ?rd = "dump_reader (sb_Fold s) (us_Dump st)"
  obtain q where q: "has_parts ?pm lo fs opts p q" using backup_Build_parts [OF assms(4,5)] by blast
  have key: "pp_key q = ?key" using q assms(6) by (simp add: has_parts_def)
  obtain nonce memos body ts rest data where mm: "ManifestMemos ?pm nonce (kf_Key ?key) (bp_BackupID p) ?m = Inr (memos, body)"
    and m: "?m = noted 0 ts (bp_Manifest p)" "length ts = length (bp_ChunkMemos p)" and d: "du_Txs ?d = ts @ rest"
    and l: "list_all2 (logged (sent (us_World st))) (map (\<lambda>m. [m]) (bp_ChunkMemos p @ memos) @ [anchorMemos s]) (ts @ rest)"
    and did: "map_option dd_Data (du_DID ?d) = Some (upper_hex data)"
    using sequential_run [OF assms(1,9,10,2)] by blast
  note l' = l [folded d]
  obtain rng where txs: "rd_AccountTx ?rd (Address s) = Inr (map rec_of (du_Txs ?d), rng)" using listed_records(1) [OF assms(11) l'] by blast
  note hist = offline_history [OF q assms(11) l' assms(12)]
  have "rd_LedgerEntryDID ?rd (Address s) = Inr data" using did by (auto simp: dump_reader_def dump_DID_data_def split: option.splits)
  then have "\<exists>anc ok w'. read_anchor ?pm ?rd ?keys (Address s) = Inr (anc, ok, w')"
    by (cases "anchor_Parse data") (auto simp: read_anchor_def split: option.splits)
  then obtain anc ok w' where anc: "read_anchor ?pm ?rd ?keys (Address s) = Inr (anc, ok, w')" by blast
  have fr: "?m = (bp_Manifest p)\<lparr>mn_Chunks := mn_Chunks ?m\<rparr>" using noted_frame [of 0 ts "bp_Manifest p"] m(1) by simp
  have bid: "bp_BackupID p = pp_bid ?pm opts q" "mn_BackupID (bp_Manifest p) = hex_encode (bp_BackupID p)" "mn_Epoch (bp_Manifest p) = kf_Epoch ?key"
    using q by (simp_all add: has_parts_def key)
  have bl: "length (bp_BackupID p) = 16" using assms(3) by (simp add: bid(1) pp_bid_def length_BackupID prims_ok_def)
  have fm: "mn_BackupID ?m = hex_encode (bp_BackupID p)" "mn_Epoch ?m = kf_Epoch ?key"
    using arg_cong [OF fr, of mn_BackupID] arg_cong [OF fr, of mn_Epoch] bid(2,3) by simp_all
  have gcm: "gcm_ok (pm_gcm ?pm)" using assms(3) by (simp add: prims_ok_def)
  have js: "pm_of_json ?pm body = Some (?m\<lparr>mn_V := manifest_Version\<rparr>)" using assms(13) ManifestMemos_Inr(1) [OF mm] by simp
  obtain res c where c: "discover_Run ?pm ?rd ?keys (Address s) (kf_Epoch ?key) = Inr res" "rs_Latest res = Some c"
    "cd_Manifest c = ?m\<lparr>mn_V := manifest_Version\<rparr>" "cd_BackupID c = bp_BackupID p" "cd_Epoch c = kf_Epoch ?key"
    using sole_manifest_found [OF gcm mm txs anc hist fm(2) bl fm(1) js assms(14)] by blast
  have pub: "chunks_published ?pm ?rd res p (mn_Chunks ?m)"
    unfolding chunks_published_def
  proof (intro conjI allI impI)
    have lc: "length (mn_Chunks (bp_Manifest p)) = length (bp_ChunkMemos p)" using q by (simp add: has_parts_def)
    then show "length (mn_Chunks ?m) = length (bp_ChunkMemos p)" by (simp add: m(1))
    fix i assume i: "i < length (mn_Chunks ?m)"
    then have i': "i < length (mn_Chunks (bp_Manifest p))" "i < length ts" by (simp_all add: m lc)
    have "ch_Index (mn_Chunks (bp_Manifest p) ! i) = int i" using q i'(1) by (simp add: has_parts_def nth_enumerate_eq chunk_entry_def)
    then show "ch_Index (mn_Chunks ?m ! i) = int i" "ch_SHA256 (mn_Chunks ?m ! i) = ch_SHA256 (mn_Chunks (bp_Manifest p) ! i)"
      using noted_chunk [OF i'(1), of 0 ts] by (simp_all add: m(1))
    have h: "ch_TxHash (mn_Chunks ?m ! i) = dt_Hash (du_Txs ?d ! i)" using noted_chunk [OF i'(1), of 0 ts] i'(2) by (simp add: m(1) d nth_append)
    obtain r where "rd_Tx ?rd (dt_Hash (du_Txs ?d ! i)) = Inr r" "tr_Memos r = [bp_ChunkMemos p ! i]"
      using found_record [OF assms(11) l', of i] i'(2) m(2) by (auto simp: nth_append)
    then show "\<exists>t. fetch_record ?pm ?rd res (length (mn_Chunks ?m)) (mn_Chunks ?m ! i) = Inr t \<and> tr_Memos t = [bp_ChunkMemos p ! i]"
      by (simp add: fetch_record_def h)
  qed
  have cm: "cd_Manifest c = (bp_Manifest p)\<lparr>mn_V := manifest_Version, mn_Chunks := mn_Chunks ?m\<rparr>"
    unfolding c(3) by (subst fr) simp
  have k: "?keys (kf_Epoch ?key) = Some (kf_Key ?key)" by (simp add: FileKeys_def)
  obtain on bu rp where "Fetch ?pm ?rd ?keys res c = Inr on" "discover_OpenBundle ?pm ?keys c (bp_Bundle p) = Inr bu"
    "restore_Build (pm_sha256 ?pm) (cd_Manifest c) on bu = Inr rp" "map (\<lambda>f. (rf_Path f, rf_Data f)) (rp_Files rp) = sort_key fst (originals fs opts)"
    "list_all (Complete (pm_sha256 ?pm)) (rp_Files rp)"
    using plan_restores [where keys = ?keys and key = ?key, OF assms(3,4,5,7,8,6) k cm c(4,5) pub] by blast
  then show ?thesis using c(1-4) by (intro exI [of _ res] exI [of _ c] exI [of _ on] exI [of _ bu] exI [of _ rp] conjI) assumption+
qed

end

lemma submission_defaults:
  assumes "submission s invar sent"
  shows "submission (sub_defaults s) invar sent"
proof -
  have eq: "sb_Prims (sub_defaults s) = sb_Prims s" "sb_Client (sub_defaults s) = sb_Client s" "sb_Fold (sub_defaults s) = sb_Fold s"
    "sb_Sha512 (sub_defaults s) = sb_Sha512 s" "sb_Sleep (sub_defaults s) = sb_Sleep s" "sb_WriteFile (sub_defaults s) = sb_WriteFile s"
    "sb_Nonce (sub_defaults s) = sb_Nonce s" "sb_MapOrder (sub_defaults s) = sb_MapOrder s" "sb_Ed25519 (sub_defaults s) = sb_Ed25519 s"
    by (simp_all add: sub_defaults_def)
  show ?thesis using assms unfolding submission_def submission_axioms_def honest_ledger_def tells_def eq .
qed

lemma submit_defaults: "backup_Submit (sub_defaults s) p d w = backup_Submit s p d w"
  by (simp add: backup_Submit_def)


end
