(* ===== verification/Fake.thy ===== *)
theory Fake
  imports Offline
begin

text \<open>
  \<^verbatim>\<open>internal/xrpl/fake/fake.go\<close>, the ledger in memory that the tool is tested against: it validates a well-signed
  transaction at once and keeps the DID entry of every account.  It is an instance of both contracts of a client, the
  lookup contract \<open>tx_index\<close> and the contract \<open>submission\<close> of a run, and a funded account can always send on it.
\<close>

section \<open>The ledger\<close>

record fake_ledger =
  fl_Seq :: u32
  fl_Accounts :: "string \<rightharpoonup> account_state"
  fl_Txs :: "tx_record list"
  fl_DID :: "string \<rightharpoonup> byte list"
  fl_Fee :: u64
  fl_Submitted :: int
  fl_Prune :: u32
  fl_FailSubmit :: string
  fl_DropDID :: bool
  fl_Batch :: bool
  fl_FailInner :: int
  fl_Batches :: int

definition fake_New :: fake_ledger where
  "fake_New = \<lparr>fl_Seq = 1000, fl_Accounts = Map.empty, fl_Txs = [], fl_DID = Map.empty, fl_Fee = 10, fl_Submitted = 0, fl_Prune = 0,
     fl_FailSubmit = [], fl_DropDID = False, fl_Batch = False, fl_FailInner = 0, fl_Batches = 0\<rparr>"

definition Fund :: "string \<Rightarrow> u64 \<Rightarrow> fake_ledger \<Rightarrow> fake_ledger" where
  "Fund addr drops l = l\<lparr>fl_Accounts := (fl_Accounts l)(addr \<mapsto> \<lparr>as_Sequence = 1, as_BalanceDrops = drops\<rparr>)\<rparr>"

text \<open>What the package takes from others: SHA-256 for addresses, SHA-512 for hashes, and the signature scheme.\<close>

record fake_env =
  fe_sha256 :: "byte list \<Rightarrow> byte list"
  fe_sha512 :: "byte list \<Rightarrow> byte list"
  fe_ed :: ed25519
  fe_fold :: "string \<Rightarrow> string \<Rightarrow> bool"

section \<open>Applying a transaction\<close>

definition type_name :: "u16 \<Rightarrow> string" where
  "type_name t =
     (if t = TxAccountSet then ''AccountSet'' else if t = TxDIDSet then ''DIDSet'' else if t = TxDIDDelete then ''DIDDelete'' else [])"

text \<open>The JSON of the record; \<^verbatim>\<open>json.Marshal\<close> writes the keys of a map in order.\<close>

definition applied_json :: "tx \<Rightarrow> string \<Rightarrow> string \<Rightarrow> u32 \<Rightarrow> json" where
  "applied_json t addr hash lgr =
     (let f = tx_fields t in JObj
       ([(''Account'', JStr addr)]
        @ (if tx_Data f \<noteq> [] then [(''Data'', JStr (upper_hex (tx_Data f)))] else [])
        @ [(''Fee'', JNum (uint (tx_FeeDrops f)))]
        @ (if IsInner t then [(''Flags'', JNum (uint (tx_Flags f)))] else [])
        @ (if tx_Memos f \<noteq> [] then [(''Memos'', MemosToJSON (tx_Memos f))] else [])
        @ [(''Sequence'', JNum (uint (tx_Sequence f))), (''TransactionType'', JStr (type_name (tx_Type f))),
           (''hash'', JStr hash), (''ledger_index'', JNum (uint lgr)), (''validated'', JBool True)]))"

definition applied_record :: "tx \<Rightarrow> string \<Rightarrow> string \<Rightarrow> u32 \<Rightarrow> tx_record" where
  "applied_record t addr hash lgr =
     \<lparr>tr_Hash = hash, tr_LedgerIndex = lgr, tr_Validated = True, tr_Result = ''tesSUCCESS'', tr_Account = addr,
      tr_TxType = type_name (tx_Type (tx_fields t)), tr_Sequence = tx_Sequence (tx_fields t), tr_Memos = tx_Memos (tx_fields t),
      tr_Raw = applied_json t addr hash lgr\<rparr>"

definition apply_tx :: "tx \<Rightarrow> string \<Rightarrow> string \<Rightarrow> fake_ledger \<Rightarrow> fake_ledger" where
  "apply_tx t addr hash l =
     (let f = tx_fields t;
          l = (if tx_Type f = TxDIDSet then l\<lparr>fl_DID := (fl_DID l)(addr \<mapsto> tx_Data f)\<rparr>
               else if tx_Type f = TxDIDDelete then l\<lparr>fl_DID := (fl_DID l)(addr := None)\<rparr>
               else l)
      in l\<lparr>fl_Txs := fl_Txs l @ [applied_record t addr hash (fl_Seq l)]\<rparr>)"

text \<open>\<^verbatim>\<open>acct\<close> is a pointer into the map: a change of it is a change of the ledger.\<close>

definition set_account :: "string \<Rightarrow> account_state \<Rightarrow> fake_ledger \<Rightarrow> fake_ledger" where
  "set_account addr a l = l\<lparr>fl_Accounts := (fl_Accounts l)(addr \<mapsto> a)\<rparr>"

definition pay_fee :: "string \<Rightarrow> account_state \<Rightarrow> u64 \<Rightarrow> fake_ledger \<Rightarrow> fake_ledger" where
  "pay_fee addr a fee l =
     (set_account addr \<lparr>as_Sequence = as_Sequence a + 1, as_BalanceDrops = as_BalanceDrops a - fee\<rparr> l)\<lparr>fl_Seq := fl_Seq l + 1\<rparr>"

section \<open>Batches\<close>

definition inner_fault :: "fake_env \<Rightarrow> string \<Rightarrow> u32 \<Rightarrow> nat \<times> tx \<Rightarrow> string option" where
  "inner_fault e addr sq = (\<lambda>(i, t).
     let f = tx_fields t in
     if \<not> IsInner t \<or> tx_Type f = TxBatch then Some ''temINVALID_INNER_BATCH''
     else if tx_FeeDrops f \<noteq> 0 \<or> tx_SigningPubKey f \<noteq> [] \<or> tx_TxnSignature f \<noteq> [] then Some ''temBAD_FEE''
     else if EncodeAddress (fe_sha256 e) (tx_Account f) \<noteq> addr then Some ''temBAD_SIGNER''
     else if tx_Sequence f \<noteq> sq + 1 + of_nat i then Some ''temREDUNDANT''
     else None)"

definition batch_record :: "tx \<Rightarrow> string \<Rightarrow> string \<Rightarrow> u32 \<Rightarrow> tx_record" where
  "batch_record t addr hash lgr =
     (let f = tx_fields t in
      \<lparr>tr_Hash = hash, tr_LedgerIndex = lgr, tr_Validated = True, tr_Result = ''tesSUCCESS'', tr_Account = addr, tr_TxType = ''Batch'',
       tr_Sequence = tx_Sequence f, tr_Memos = [],
       tr_Raw = JObj [(''Account'', JStr addr), (''Fee'', JNum (uint (tx_FeeDrops f))), (''Sequence'', JNum (uint (tx_Sequence f))),
          (''TransactionType'', JStr ''Batch''), (''hash'', JStr hash), (''ledger_index'', JNum (uint lgr)), (''validated'', JBool True)]\<rparr>)"

text \<open>The inner transactions apply one after the other; an error leaves what was applied before it.\<close>

fun apply_inner :: "fake_env \<Rightarrow> string \<Rightarrow> account_state \<Rightarrow> tx list \<Rightarrow> fake_ledger \<Rightarrow> (client_error + string) \<times> fake_ledger" where
  "apply_inner e addr a [] l = (Inr ''tesSUCCESS'', l)"
| "apply_inner e addr a (t # ts) l =
     (case InnerHash (fe_sha512 e) t of
        Inl _ \<Rightarrow> (Inl (ClientFailed ''codec''), l)
      | Inr h \<Rightarrow> let a = a\<lparr>as_Sequence := as_Sequence a + 1\<rparr> in apply_inner e addr a ts (apply_tx t addr h (set_account addr a l)))"

definition submitBatch :: "fake_env \<Rightarrow> tx \<Rightarrow> string \<Rightarrow> account_state \<Rightarrow> string \<Rightarrow> fake_ledger \<Rightarrow> (client_error + string) \<times> fake_ledger" where
  "submitBatch e t addr a hash l =
     (let f = tx_fields t; n = length (tx_Inner t) in
      if \<not> fl_Batch l then (Inr ''temDISABLED'', l)
      else if tx_Flags f \<noteq> FlagAllOrNothing then (Inr ''temINVALID_FLAG'', l)
      else if n < 2 \<or> n > MaxBatchInner then (Inr ''temARRAY_EMPTY'', l)
      else case List.map_filter (inner_fault e addr (tx_Sequence f)) (enumerate 0 (tx_Inner t)) of
             ec # _ \<Rightarrow> (Inr ec, l)
           | [] \<Rightarrow>
               if tx_FeeDrops f < 10 * of_nat (n + 2) then (Inr ''telINSUF_FEE_P'', l)
               else
                 let l = pay_fee addr a (tx_FeeDrops f) l;
                     l = l\<lparr>fl_Batches := fl_Batches l + 1, fl_Txs := fl_Txs l @ [batch_record t addr hash (fl_Seq l)]\<rparr>
                 in if fl_FailInner l > 0 then (Inr ''tesSUCCESS'', l\<lparr>fl_FailInner := 0\<rparr>)
                    else apply_inner e addr (a\<lparr>as_Sequence := as_Sequence a + 1, as_BalanceDrops := as_BalanceDrops a - tx_FeeDrops f\<rparr>) (tx_Inner t) l)"

section \<open>The methods\<close>

definition fake_Submit :: "fake_env \<Rightarrow> byte list \<Rightarrow> fake_ledger \<Rightarrow> (client_error + string) \<times> fake_ledger" where
  "fake_Submit e blob l =
     (let l = l\<lparr>fl_Submitted := fl_Submitted l + 1\<rparr> in
      if fl_FailSubmit l \<noteq> [] then (Inr (fl_FailSubmit l), l\<lparr>fl_FailSubmit := []\<rparr>)
      else case Deserialize blob of
             Inl _ \<Rightarrow> (Inl (ClientFailed ''codec''), l)
           | Inr t \<Rightarrow>
               let f = tx_fields t; addr = EncodeAddress (fe_sha256 e) (tx_Account f) in
               case fl_Accounts l addr of
                 None \<Rightarrow> (Inr ''terNO_ACCOUNT'', l)
               | Some a \<Rightarrow>
                   if tx_Sequence f \<noteq> as_Sequence a then (Inr ''tefPAST_SEQ'', l)
                   else if \<not> VerifyEd25519 (fe_ed e) (tx_SigningPubKey f) (case SigningPayload t of Inl _ \<Rightarrow> [] | Inr p \<Rightarrow> p) (tx_TxnSignature f)
                        then (Inr ''temBAD_SIGNATURE'', l)
                   else if tx_Type f = TxBatch then submitBatch e t addr a (Hash (fe_sha512 e) blob) l
                   else (Inr ''tesSUCCESS'', apply_tx t addr (Hash (fe_sha512 e) blob) (pay_fee addr a (tx_FeeDrops f) l)))"

definition fake_Tx :: "fake_env \<Rightarrow> fake_ledger \<Rightarrow> string \<Rightarrow> client_error + tx_record" where
  "fake_Tx e l hash =
     (case find (\<lambda>t. equal_fold (fe_fold e) (tr_Hash t) hash \<and> tr_LedgerIndex t \<ge> fl_Prune l) (fl_Txs l) of
        None \<Rightarrow> Inl ErrNotFound
      | Some t \<Rightarrow> Inr t)"

definition fake_AccountTx :: "fake_ledger \<Rightarrow> string \<Rightarrow> client_error + (tx_record list \<times> range)" where
  "fake_AccountTx l account =
     Inr (filter (\<lambda>t. tr_Account t = account \<and> tr_LedgerIndex t \<ge> fl_Prune l) (fl_Txs l),
          \<lparr>rg_Min = (if uint (fl_Prune l) < 1000 then 1000 else uint (fl_Prune l)), rg_Max = uint (fl_Seq l)\<rparr>)"

definition fake_LedgerEntryDID :: "fake_ledger \<Rightarrow> string \<Rightarrow> client_error + byte list" where
  "fake_LedgerEntryDID l account =
     (case fl_DID l account of None \<Rightarrow> Inl ErrNotFound | Some d \<Rightarrow> if fl_DropDID l then Inl ErrNotFound else Inr d)"

definition fake_AccountInfo :: "fake_ledger \<Rightarrow> string \<Rightarrow> client_error + account_state" where
  "fake_AccountInfo l account = (case fl_Accounts l account of None \<Rightarrow> Inl ErrNotFound | Some a \<Rightarrow> Inr a)"

definition fake_AmendmentEnabled :: "fake_ledger \<Rightarrow> string \<Rightarrow> client_error + bool" where
  "fake_AmendmentEnabled l i = Inr (i = AmendmentBatchV1_1 \<and> fl_Batch l)"

definition fake_ServerInfo :: "fake_ledger \<Rightarrow> client_error + server_state" where
  "fake_ServerInfo l =
     (if fl_Fee l = 0 then Inl (ClientFailed ''fake: no fee'')
      else Inr \<lparr>ss_ValidatedLedger = fl_Seq l, ss_CompleteLedgers = ''1000-9999'', ss_BaseFeeDrops = 10, ss_OpenLedgerFee = fl_Fee l\<rparr>)"

definition fake_reader :: "fake_env \<Rightarrow> fake_ledger \<Rightarrow> chain_reader" where
  "fake_reader e l = \<lparr>rd_Tx = fake_Tx e l, rd_AccountTx = fake_AccountTx l, rd_LedgerEntryDID = fake_LedgerEntryDID l\<rparr>"

definition fake_client :: "fake_env \<Rightarrow> fake_ledger client" where
  "fake_client e =
     \<lparr>cl_Submit = fake_Submit e, cl_Tx = (\<lambda>h l. (fake_Tx e l h, l)), cl_AccountTx = (\<lambda>a l. (fake_AccountTx l a, l)),
      cl_LedgerEntryDID = (\<lambda>a l. (fake_LedgerEntryDID l a, l)), cl_AccountInfo = (\<lambda>a l. (fake_AccountInfo l a, l)),
      cl_ServerInfo = (\<lambda>l. (fake_ServerInfo l, l)), cl_AmendmentEnabled = (\<lambda>i l. (fake_AmendmentEnabled l i, l))\<rparr>"

section \<open>The lookup contract\<close>

text \<open>
  The records are those of ledgers 1000 up to the current one, under hashes of transactions and no hash twice.  The
  part about hashes holds as long as SHA-512 gives no hash twice.
\<close>

definition fake_ok :: "fake_env \<Rightarrow> fake_ledger \<Rightarrow> bool" where
  "fake_ok e l \<longleftrightarrow> distinct (map tr_Hash (fl_Txs l))
     \<and> (\<forall>r \<in> set (fl_Txs l). (\<exists>b. tr_Hash r = Hash (fe_sha512 e) b) \<and> 1000 \<le> tr_LedgerIndex r \<and> tr_LedgerIndex r \<le> fl_Seq l)"

lemma fake_Tx_hash:
  assumes "fake_ok e l" "r \<in> set (fl_Txs l)" "list_all is_ascii h"
  shows "equal_fold (fe_fold e) (tr_Hash r) h \<longleftrightarrow> tr_Hash r = map ascii_upper h"
proof -
  obtain b where "tr_Hash r = Hash (fe_sha512 e) b" using assms by (auto simp: fake_ok_def)
  then show ?thesis using equal_fold_ascii [OF Hash_upper(1) assms(3), of "fe_fold e"] by (simp add: Hash_upper(2))
qed

text \<open>What a submission does to the history: it only adds to it, in the ledger it closes, and closes at most one.\<close>

definition extends :: "fake_env \<Rightarrow> fake_ledger \<Rightarrow> fake_ledger \<Rightarrow> tx_record list \<Rightarrow> bool" where
  "extends e l l' new \<longleftrightarrow> fl_Txs l' = fl_Txs l @ new
     \<and> (\<forall>r \<in> set new. (\<exists>b. tr_Hash r = Hash (fe_sha512 e) b) \<and> tr_LedgerIndex r = fl_Seq l' \<and> tr_Validated r \<and> tr_Result r = ''tesSUCCESS'')"

lemma InnerHash_Inr: "InnerHash sha t = Inr h \<Longrightarrow> \<exists>b. h = Hash sha b"
  by (auto simp: InnerHash_def and_then_Inr)

lemma apply_inner_extends:
  assumes "apply_inner e addr a ts l = (r, l')"
  shows "\<exists>new. extends e l l' new \<and> fl_Seq l' = fl_Seq l \<and> (r = Inr ''tesSUCCESS'' \<longrightarrow> map tr_Memos new = map (\<lambda>t. tx_Memos (tx_fields t)) ts)"
  using assms
proof (induction ts arbitrary: a l)
  case (Cons t ts)
  show ?case
  proof (cases "InnerHash (fe_sha512 e) t")
    case (Inl x)
    then show ?thesis using Cons.prems by (intro exI [of _ "[]"]) (auto simp: extends_def)
  next
    case (Inr h)
    let ?a = "a\<lparr>as_Sequence := as_Sequence a + 1\<rparr>"
    let ?l = "apply_tx t addr h (set_account addr ?a l)"
    obtain new where n: "extends e ?l l' new" "fl_Seq l' = fl_Seq ?l"
      "r = Inr ''tesSUCCESS'' \<longrightarrow> map tr_Memos new = map (\<lambda>t. tx_Memos (tx_fields t)) ts"
      using Cons.IH [of ?a ?l] Cons.prems Inr by (auto simp: Let_def)
    have l: "fl_Seq ?l = fl_Seq l" "fl_Txs ?l = fl_Txs l @ [applied_record t addr h (fl_Seq l)]" by (simp_all add: apply_tx_def set_account_def Let_def)
    have "extends e l l' (applied_record t addr h (fl_Seq l) # new)"
      using n(1,2) l InnerHash_Inr [OF Inr] by (auto simp: extends_def applied_record_def)
    then show ?thesis using n(2,3) l(1) by (intro exI [of _ "applied_record t addr h (fl_Seq l) # new"]) (auto simp: applied_record_def)
  qed
qed (auto simp: extends_def)

lemma submit_extends:
  assumes "fake_Submit e b l = (r, l')"
  shows "\<exists>new. extends e l l' new \<and> (fl_Seq l' = fl_Seq l \<and> new = [] \<or> fl_Seq l' = fl_Seq l + 1)"
proof -
  let ?l = "l\<lparr>fl_Submitted := fl_Submitted l + 1\<rparr>"
  have quiet: "\<exists>new. extends e l q new \<and> (fl_Seq q = fl_Seq l \<and> new = [] \<or> fl_Seq q = fl_Seq l + 1)" if "fl_Seq q = fl_Seq l" "fl_Txs q = fl_Txs l" for q
    using that by (intro exI [of _ "[]"]) (simp add: extends_def)
  show ?thesis
  proof (cases "fl_FailSubmit l = [] \<and> (\<exists>t a. Deserialize b = Inr t \<and> fl_Accounts l (EncodeAddress (fe_sha256 e) (tx_Account (tx_fields t))) = Some a
      \<and> tx_Sequence (tx_fields t) = as_Sequence a
      \<and> VerifyEd25519 (fe_ed e) (tx_SigningPubKey (tx_fields t)) (case SigningPayload t of Inl _ \<Rightarrow> [] | Inr p \<Rightarrow> p) (tx_TxnSignature (tx_fields t)))")
    case False
    then have "fl_Seq l' = fl_Seq l \<and> fl_Txs l' = fl_Txs l"
      using assms by (auto simp: fake_Submit_def Let_def split: if_splits sum.splits option.splits)
    then show ?thesis using quiet by blast
  next
    case True
    then obtain t a where t: "fl_FailSubmit l = []" "Deserialize b = Inr t" "fl_Accounts l (EncodeAddress (fe_sha256 e) (tx_Account (tx_fields t))) = Some a"
      "tx_Sequence (tx_fields t) = as_Sequence a"
      "VerifyEd25519 (fe_ed e) (tx_SigningPubKey (tx_fields t)) (case SigningPayload t of Inl _ \<Rightarrow> [] | Inr p \<Rightarrow> p) (tx_TxnSignature (tx_fields t))" by blast
    let ?addr = "EncodeAddress (fe_sha256 e) (tx_Account (tx_fields t))" and ?h = "Hash (fe_sha512 e) b"
    let ?paid = "pay_fee ?addr a (tx_FeeDrops (tx_fields t)) ?l"
    show ?thesis
    proof (cases "tx_Type (tx_fields t) = TxBatch")
      case False
      then have "l' = apply_tx t ?addr ?h ?paid" using assms t by (simp add: fake_Submit_def Let_def)
      then have "fl_Seq l' = fl_Seq l + 1" "extends e l l' [applied_record t ?addr ?h (fl_Seq l + 1)]"
        by (auto simp: extends_def apply_tx_def applied_record_def pay_fee_def set_account_def Let_def)
      then show ?thesis by blast
    next
      case True
      then have s: "submitBatch e t ?addr a ?h ?l = (r, l')" using assms t by (simp add: fake_Submit_def Let_def)
      let ?rec = "batch_record t ?addr ?h (fl_Seq l + 1)"
      let ?o = "?paid\<lparr>fl_Batches := fl_Batches ?paid + 1, fl_Txs := fl_Txs ?paid @ [?rec]\<rparr>"
      have o: "fl_Seq ?o = fl_Seq l + 1" "fl_Txs ?o = fl_Txs l @ [?rec]" by (simp_all add: pay_fee_def set_account_def)
      consider "l' = ?l" | "l' = ?o\<lparr>fl_FailInner := 0\<rparr>" | a' where "apply_inner e ?addr a' (tx_Inner t) ?o = (r, l')"
        using s by (auto simp: submitBatch_def Let_def pay_fee_def set_account_def split: if_splits list.splits)
      then show ?thesis
      proof cases
        case 1
        then show ?thesis using quiet [of l'] by simp
      next
        case 2
        then have "extends e l l' [?rec]" "fl_Seq l' = fl_Seq l + 1" using o by (auto simp: extends_def batch_record_def Let_def)
        then show ?thesis by blast
      next
        case 3
        obtain new where n: "extends e ?o l' new" "fl_Seq l' = fl_Seq ?o" using apply_inner_extends [OF 3] by blast
        then have "extends e l l' (?rec # new)" using o by (auto simp: extends_def batch_record_def Let_def)
        then show ?thesis using n(2) o(1) by (intro exI [of _ "?rec # new"]) simp
      qed
    qed
  qed
qed


interpretation fake_index: tx_index "fake_ok e" "fake_reader e" for e
proof
  fix l h r
  assume l: "fake_ok e l" and h: "list_all is_ascii h" and r: "rd_Tx (fake_reader e l) h = Inr r"
  then have m: "r \<in> set (fl_Txs l)" "equal_fold (fe_fold e) (tr_Hash r) h"
    by (auto simp: fake_reader_def fake_Tx_def find_Some_iff split: option.splits)
  obtain b where b: "tr_Hash r = Hash (fe_sha512 e) b" using l m(1) by (auto simp: fake_ok_def)
  have "tr_Hash r = map ascii_upper h" using fake_Tx_hash [OF l m(1) h] m(2) by simp
  then show "map ascii_upper (tr_Hash r) = map ascii_upper h" using b Hash_upper(2) by metis
next
  fix l a rs rg r h
  assume l: "fake_ok e l" and rs: "rd_AccountTx (fake_reader e l) a = Inr (rs, rg)" and r: "r \<in> set rs"
  have m: "r \<in> set (fl_Txs l)" "fl_Prune l \<le> tr_LedgerIndex r" and rg: "rg = \<lparr>rg_Min = max 1000 (uint (fl_Prune l)), rg_Max = uint (fl_Seq l)\<rparr>"
    using rs r by (auto simp: fake_reader_def fake_AccountTx_def)
  obtain b where b: "tr_Hash r = Hash (fe_sha512 e) b" using l m(1) by (auto simp: fake_ok_def)
  show "tr_Account r = a" using rs r by (auto simp: fake_reader_def fake_AccountTx_def)
  show "list_all is_ascii (tr_Hash r)" by (simp add: b Hash_upper(1))
  have "1000 \<le> tr_LedgerIndex r" "tr_LedgerIndex r \<le> fl_Seq l" using l m(1) by (auto simp: fake_ok_def)
  then show "rg_Min rg \<le> uint (tr_LedgerIndex r) \<and> uint (tr_LedgerIndex r) \<le> rg_Max rg"
    using m(2) by (simp add: rg word_le_def)
  show "rd_Tx (fake_reader e l) h = Inr r" if h: "list_all is_ascii h" and eq: "map ascii_upper (tr_Hash r) = map ascii_upper h"
  proof -
    have q: "tr_Hash r = map ascii_upper h" using eq by (simp add: b Hash_upper(2))
    have only: "x = r" if "x \<in> set (fl_Txs l)" "equal_fold (fe_fold e) (tr_Hash x) h" for x
      using that l m(1) q fake_Tx_hash [OF l that(1) h] by (auto simp: fake_ok_def distinct_map inj_on_def)
    have "equal_fold (fe_fold e) (tr_Hash r) h" using q fake_Tx_hash [OF l m(1) h] by simp
    then obtain x where "find (\<lambda>t. equal_fold (fe_fold e) (tr_Hash t) h \<and> tr_LedgerIndex t \<ge> fl_Prune l) (fl_Txs l) = Some x"
      using m by (cases "find (\<lambda>t. equal_fold (fe_fold e) (tr_Hash t) h \<and> tr_LedgerIndex t \<ge> fl_Prune l) (fl_Txs l)") (auto simp: find_None_iff)
    moreover from this have "x = r" using only by (auto simp: find_Some_iff)
    ultimately show ?thesis by (simp add: fake_reader_def fake_Tx_def)
  qed
qed

section \<open>A run on the ledger\<close>

text \<open>
  The world of a run in a test: the ledger, the files that were written, the number of nonces drawn, and the blobs that
  were submitted, which no code reads.  \<open>rand\<close> is the random source.
\<close>

record fake_world =
  fw_Ledger :: fake_ledger
  fw_Files :: "string \<rightharpoonup> json"
  fw_Drawn :: nat
  fw_Log :: "byte list list"

definition on_ledger :: "(fake_ledger \<Rightarrow> 'a \<times> fake_ledger) \<Rightarrow> fake_world \<Rightarrow> 'a \<times> fake_world" where
  "on_ledger m w = (let (r, l) = m (fw_Ledger w) in (r, w\<lparr>fw_Ledger := l\<rparr>))"

definition world_client :: "fake_env \<Rightarrow> fake_world client" where
  "world_client e =
     (let c = fake_client e in
      \<lparr>cl_Submit = (\<lambda>b w. on_ledger (cl_Submit c b) (w\<lparr>fw_Log := b # fw_Log w\<rparr>)), cl_Tx = (\<lambda>h. on_ledger (cl_Tx c h)),
       cl_AccountTx = (\<lambda>a. on_ledger (cl_AccountTx c a)), cl_LedgerEntryDID = (\<lambda>a. on_ledger (cl_LedgerEntryDID c a)),
       cl_AccountInfo = (\<lambda>a. on_ledger (cl_AccountInfo c a)), cl_ServerInfo = on_ledger (cl_ServerInfo c),
       cl_AmendmentEnabled = (\<lambda>i. on_ledger (cl_AmendmentEnabled c i))\<rparr>)"

text \<open>An Ed25519 signature is an array of 64 bytes and a manifest nonce one of \<^verbatim>\<open>ManifestNonceLen\<close>.\<close>

definition sized_ed :: "ed25519 \<Rightarrow> ed25519" where
  "sized_ed ed = ed\<lparr>ed_sign := \<lambda>k m. to_array 64 (ed_sign ed k m)\<rparr>"

definition env_of :: "'w submitter \<Rightarrow> fake_env" where
  "env_of s = \<lparr>fe_sha256 = pm_sha256 (sb_Prims s), fe_sha512 = sb_Sha512 s, fe_ed = sized_ed (sb_Ed25519 s), fe_fold = sb_Fold s\<rparr>"

definition on_fake :: "(nat \<Rightarrow> byte list) \<Rightarrow> fake_world submitter \<Rightarrow> fake_world submitter" where
  "on_fake rand s = s\<lparr>sb_Client := world_client (env_of s), sb_Sleep := (\<lambda>_ w. w),
     sb_WriteFile := (\<lambda>path j w. (True, w\<lparr>fw_Files := (fw_Files w)(path \<mapsto> j)\<rparr>)),
     sb_Nonce := (\<lambda>w. (Some (to_array ManifestNonceLen (rand (fw_Drawn w))), w\<lparr>fw_Drawn := fw_Drawn w + 1\<rparr>)),
     sb_MapOrder := (\<lambda>n. [0..<n]), sb_Ed25519 := sized_ed (sb_Ed25519 s)\<rparr>"

lemma on_fake_fields [simp]:
  "sb_Prims (on_fake rand s) = sb_Prims s" "sb_Key (on_fake rand s) = sb_Key s" "sb_Writer (on_fake rand s) = sb_Writer s"
  "sb_Fold (on_fake rand s) = sb_Fold s" "sb_Sha512 (on_fake rand s) = sb_Sha512 s" "sb_Ed25519 (on_fake rand s) = sized_ed (sb_Ed25519 s)"
  "sb_Batch (on_fake rand s) = sb_Batch s" "sb_MaxFee (on_fake rand s) = sb_MaxFee s" "sb_Client (on_fake rand s) = world_client (env_of s)"
  "sb_Sleep (on_fake rand s) n w = w" "sb_DumpOut (on_fake rand s) = sb_DumpOut s"
  by (simp_all add: on_fake_def)

text \<open>What was sent, by hash, and that the ledger records nothing else.\<close>

definition fake_sent :: "'w submitter \<Rightarrow> fake_world \<Rightarrow> (string \<times> txfields) set" where
  "fake_sent s w = {(Hash (sb_Sha512 s) b, tx_fields t) | b t. b \<in> set (fw_Log w) \<and> Deserialize b = Inr t}"

definition fake_invar :: "fake_world submitter \<Rightarrow> fake_world \<Rightarrow> bool" where
  "fake_invar s w \<longleftrightarrow> \<not> fl_Batch (fw_Ledger w)
     \<and> (\<forall>r \<in> set (fl_Txs (fw_Ledger w)). (\<exists>b. tr_Hash r = Hash (sb_Sha512 s) b) \<and> (\<exists>f. (tr_Hash r, f) \<in> fake_sent s w \<and> tells s (tr_Raw r) f))"

lemma applied_tells:
  assumes "addr = EncodeAddress (pm_sha256 (sb_Prims s)) (tx_Account (tx_fields t))"
  shows "tells s (applied_json t addr hash lgr) (tx_fields t)"
proof -
  let ?ms = "tx_Memos (tx_fields t)"
  have "\<exists>kvs. applied_json t addr hash lgr = JObj kvs \<and> jget kvs ''tx_json'' = None \<and> jget kvs ''Account'' = Some (JStr addr)
      \<and> jget kvs ''Memos'' = (if ?ms = [] then None else Some (MemosToJSON ?ms))"
    by (simp add: applied_json_def Let_def jget_def)
  then obtain kvs where k: "applied_json t addr hash lgr = JObj kvs" "jget kvs ''tx_json'' = None" "jget kvs ''Account'' = Some (JStr addr)"
    "jget kvs ''Memos'' = (if ?ms = [] then None else Some (MemosToJSON ?ms))" by blast
  have "parse_memos (sb_Fold s) (if ?ms = [] then None else Some (MemosToJSON ?ms)) = ?ms"
    using parse_memos_json [of "sb_Fold s" ?ms] by (simp add: parse_memos_def)
  then show ?thesis unfolding tells_def k(1) by (simp add: ParseTxJSON_def top_and_body_def k(2,4) k(3) [unfolded assms] Let_def as_str_def)
qed

text \<open>A submission either applies the transaction or leaves the records alone, when batches are off.\<close>

lemma fake_Submit_cases:
  assumes "fake_Submit e b l = (r, l')" "\<not> fl_Batch l"
  shows "\<not> fl_Batch l' \<and> (fl_Txs l' = fl_Txs l \<or> (\<exists>t lgr. Deserialize b = Inr t
     \<and> fl_Txs l' = fl_Txs l @ [applied_record t (EncodeAddress (fe_sha256 e) (tx_Account (tx_fields t))) (Hash (fe_sha512 e) b) lgr]))"
  using assms
  by (auto simp: fake_Submit_def Let_def submitBatch_def apply_tx_def pay_fee_def set_account_def split: if_splits sum.splits option.splits)

lemma fake_invar_submit:
  assumes "fake_invar s w" "cl_Submit (world_client (env_of s)) b w = (r, w')"
  shows "fake_invar s w' \<and> fake_sent s w \<subseteq> fake_sent s w' \<and> fw_Log w' = b # fw_Log w"
proof -
  obtain l' where l: "fake_Submit (env_of s) b (fw_Ledger w) = (r, l')" "w' = w\<lparr>fw_Log := b # fw_Log w, fw_Ledger := l'\<rparr>"
    using assms(2) by (auto simp: world_client_def fake_client_def on_ledger_def Let_def split: prod.splits)
  have mono: "fake_sent s w \<subseteq> fake_sent s w'" by (auto simp: fake_sent_def l(2))
  have c: "\<not> fl_Batch l' \<and> (fl_Txs l' = fl_Txs (fw_Ledger w) \<or> (\<exists>t lgr. Deserialize b = Inr t
     \<and> fl_Txs l' = fl_Txs (fw_Ledger w) @ [applied_record t (EncodeAddress (pm_sha256 (sb_Prims s)) (tx_Account (tx_fields t))) (Hash (sb_Sha512 s) b) lgr]))"
    using fake_Submit_cases [OF l(1)] assms(1) by (simp add: fake_invar_def env_of_def)
  have new: "\<exists>f. (Hash (sb_Sha512 s) b, f) \<in> fake_sent s w' \<and> tells s (applied_json t (EncodeAddress (pm_sha256 (sb_Prims s)) (tx_Account (tx_fields t))) h lgr) f"
    if "Deserialize b = Inr t" for t h lgr
    using that by (intro exI [of _ "tx_fields t"] conjI applied_tells) (auto simp: fake_sent_def l(2))
  let ?ok = "\<lambda>r. (\<exists>b. tr_Hash r = Hash (sb_Sha512 s) b) \<and> (\<exists>f. (tr_Hash r, f) \<in> fake_sent s w' \<and> tells s (tr_Raw r) f)"
  have old: "?ok r" if "r \<in> set (fl_Txs (fw_Ledger w))" for r using assms(1) mono that unfolding fake_invar_def by blast
  have "?ok (applied_record t (EncodeAddress (pm_sha256 (sb_Prims s)) (tx_Account (tx_fields t))) (Hash (sb_Sha512 s) b) lgr)"
    if "Deserialize b = Inr t" for t lgr using new [OF that, of "Hash (sb_Sha512 s) b" lgr] unfolding applied_record_def by auto
  then have "\<forall>r \<in> set (fl_Txs l'). ?ok r" using c old by auto
  then show ?thesis using c mono by (simp add: fake_invar_def l(2))
qed

lemma fake_invar_other:
  "fake_invar s w \<Longrightarrow> fw_Ledger w' = fw_Ledger w \<Longrightarrow> fw_Log w' = fw_Log w \<Longrightarrow> fake_invar s w' \<and> fake_sent s w \<subseteq> fake_sent s w'"
  by (simp add: fake_invar_def fake_sent_def)

lemma tells_on_fake [simp]: "tells (on_fake rand s) = tells s"
  by (intro ext) (simp add: tells_def split: option.split)

lemma world_reads:
  "cl_Tx (world_client e) h w = (fake_Tx e (fw_Ledger w) h, w)"
  "cl_AccountInfo (world_client e) a w = (fake_AccountInfo (fw_Ledger w) a, w)"
  "cl_ServerInfo (world_client e) w = (fake_ServerInfo (fw_Ledger w), w)"
  by (simp_all add: world_client_def fake_client_def on_ledger_def Let_def)

interpretation fake_honest: honest_ledger "on_fake rand s" "fake_invar s" "fake_sent s" for rand s
proof
  fix t b w ec w'
  assume w: "fake_invar s w" and t: "Serialize t True = Inr b" "tx_ok t" and r: "cl_Submit (sb_Client (on_fake rand s)) b w = (Inr ec, w')"
  have "fw_Log w' = b # fw_Log w" using fake_invar_submit [OF w] r by simp
  moreover have "Deserialize b = Inr t" using deserialize_serialized [OF t] by simp
  ultimately show "(Hash (sb_Sha512 (on_fake rand s)) b, tx_fields t) \<in> fake_sent s w'" by (auto simp: fake_sent_def)
next
  fix b w rec w'
  assume w: "fake_invar s w" and r: "cl_Tx (sb_Client (on_fake rand s)) (Hash (sb_Sha512 (on_fake rand s)) b) w = (Inr rec, w')"
  have w': "w' = w" and m: "rec \<in> set (fl_Txs (fw_Ledger w))" "equal_fold (sb_Fold s) (tr_Hash rec) (Hash (sb_Sha512 s) b)"
    using r by (auto simp: world_reads fake_Tx_def env_of_def find_Some_iff split: option.splits)
  obtain c f where c: "tr_Hash rec = Hash (sb_Sha512 s) c" "(tr_Hash rec, f) \<in> fake_sent s w" "tells s (tr_Raw rec) f"
    using w m(1) by (auto simp: fake_invar_def)
  have "tr_Hash rec = Hash (sb_Sha512 s) b" using m(2) equal_fold_ascii [OF Hash_upper(1) Hash_upper(1)] by (simp add: c(1) Hash_upper(2))
  then show "\<exists>f. (Hash (sb_Sha512 (on_fake rand s)) b, f) \<in> fake_sent s w' \<and> tells (on_fake rand s) (tr_Raw rec) f" using c w' by auto
qed (use fake_invar_submit in \<open>fastforce simp: world_reads\<close>)+

interpretation fake_run: submission "on_fake rand s" "fake_invar s" "fake_sent s" for rand s
  by unfold_locales (use fake_invar_other in \<open>auto simp: on_fake_def sized_ed_def\<close>)

section \<open>A funded account can always send\<close>

text \<open>What of the parameters a run relies on: signatures verify, and transactions with different sequence numbers have different hashes.\<close>

definition signs_ok :: "ed25519 \<Rightarrow> bool" where
  "signs_ok ed \<longleftrightarrow> (\<forall>k m. length (ed_public ed k) = 32 \<and> ed_verify ed (ed_public ed k) m (ed_sign ed k m))"

definition hashes_differ :: "(byte list \<Rightarrow> byte list) \<Rightarrow> bool" where
  "hashes_differ sha512 \<longleftrightarrow>
     (\<forall>t b u c. Serialize t True = Inr b \<longrightarrow> Serialize u True = Inr c \<longrightarrow> tx_Flags (tx_fields t) = 0 \<longrightarrow> tx_Flags (tx_fields u) = 0
        \<longrightarrow> tx_Sequence (tx_fields t) \<noteq> tx_Sequence (tx_fields u) \<longrightarrow> Hash sha512 b \<noteq> Hash sha512 c)"

definition fake_rate :: "fake_ledger \<Rightarrow> u64" where
  "fake_rate l = (if fl_Fee l < 10 then 10 else fl_Fee l)"

text \<open>The ledger is quiet, its history is the log, and the account can pay for \<open>n\<close> more transactions.\<close>

definition ready :: "'w submitter \<Rightarrow> nat \<Rightarrow> fake_world \<Rightarrow> bool" where
  "ready s n w \<longleftrightarrow>
     (let l = fw_Ledger w in
      fl_FailSubmit l = [] \<and> fl_Prune l = 0 \<and> fl_Fee l \<noteq> 0 \<and> fake_rate l \<le> sb_MaxFee s
      \<and> list_all (\<lambda>r. tr_Validated r \<and> tr_Result r = ''tesSUCCESS'') (fl_Txs l)
      \<and> (\<exists>a. fl_Accounts l (Address s) = Some a \<and> 1200000 + n * unat (fake_rate l) \<le> unat (as_BalanceDrops a)
           \<and> unat (as_Sequence a) + n < 2 ^ 32
           \<and> list_all (\<lambda>b. \<exists>t. Serialize t True = Inr b \<and> tx_ok t \<and> tx_Flags (tx_fields t) = 0 \<and> tx_Sequence (tx_fields t) < as_Sequence a) (fw_Log w))
      \<and> no_collision (fake_sent s w))"

definition sendable :: "txfields \<Rightarrow> bool" where
  "sendable f \<longleftrightarrow> plain_fields f \<and> tx_Flags f = 0 \<and> tx_Type f \<noteq> TxBatch \<and> length (tx_Data f) \<le> 256 \<and> (\<exists>b. ser_memos (tx_Memos f) = Inr b)"

lemma length_writer_id [simp]: "length (writer_id s) = 20"
  by (simp add: writer_id_def AccountIDFromPublicKey_def ripemd160_def state_bytes_def split: prod.splits)

text \<open>Signing and writing a transaction of the tool never fails, and its hash covers its sequence number.\<close>

lemma sign_sendable:
  fixes rand :: "nat \<Rightarrow> byte list" and s :: "fake_world submitter"
  defines "r \<equiv> on_fake rand s"
  assumes "sendable f" "signs_ok (sized_ed (sb_Ed25519 s))" "fee_rate srv < xrp_bit"
  shows "\<exists>t b. sign_tx r (Tx (prepared r f srv acct) []) = Inr b \<and> Serialize t True = Inr b \<and> tx_ok t \<and> tx_Inner t = []
    \<and> VerifyEd25519 (sized_ed (sb_Ed25519 s)) (tx_SigningPubKey (tx_fields t)) (projr (SigningPayload t)) (tx_TxnSignature (tx_fields t))
    \<and> SigningPayload t = Inr (projr (SigningPayload t))
    \<and> tx_fields t = (prepared r f srv acct)\<lparr>tx_TxnSignature := tx_TxnSignature (tx_fields t)\<rparr>"
proof -
  let ?f = "prepared r f srv acct" and ?sig = "\<lambda>p. ed_sign (sized_ed (sb_Ed25519 s)) (k_priv (sb_Writer s)) p"
  have pub: "length (tx_SigningPubKey ?f) = 33" "hd (tx_SigningPubKey ?f) = 0xED" "tl (tx_SigningPubKey ?f) = ed_public (sized_ed (sb_Ed25519 s)) (k_priv (sb_Writer s))"
    using assms(3) by (simp_all add: prepared_def writer_pub_def PublicKey_def signs_ok_def r_def)
  have rf: "sb_Ed25519 r = sized_ed (sb_Ed25519 s)" "sb_Writer r = sb_Writer s" by (simp_all add: r_def)
  obtain mb where mb: "ser_memos (tx_Memos f) = Inr mb" using assms(2) by (auto simp: sendable_def)
  have c: "check_signer (?f\<lparr>tx_TxnSignature := g\<rparr>) = Inr ()" for g
    using pub(1) assms(2,4) by (simp add: check_signer_def fields_IsInner_def prepared_def sendable_def FlagInnerBatchTxn_def)
  have fl: "\<not> fields_IsInner (?f\<lparr>tx_TxnSignature := g\<rparr>)" for g
    using assms(2) by (simp add: fields_IsInner_def prepared_def sendable_def)
  have did: "\<exists>d. \<forall>g. ser_did (?f\<lparr>tx_TxnSignature := g\<rparr>) = Inr d" using assms(2) by (auto simp: ser_did_def prepared_def sendable_def)
  have ser: "g \<noteq> [] \<or> \<not> v \<Longrightarrow> \<exists>b. Serialize (Tx (?f\<lparr>tx_TxnSignature := g\<rparr>) []) v = Inr b" for g v
    using c [of g] fl [of g] did mb assms(2)
    by (auto simp: ser_fields_def ser_signature_def and_then_def guard_that_def prepared_def r_def sendable_def)
  have same: "Serialize (Tx (?f\<lparr>tx_TxnSignature := g\<rparr>) []) False = Serialize (Tx ?f []) False" for g
    using c [of g] c [of "tx_TxnSignature ?f"] by (simp add: ser_fields_def ser_signature_def ser_did_def)
  obtain pb where pb: "Serialize (Tx ?f []) False = Inr pb" using ser [of "tx_TxnSignature ?f" False] by auto
  let ?p = "[0x53, 0x54, 0x58, 0x00] @ pb"
  have sp: "SigningPayload (Tx ?f []) = Inr ?p" unfolding SigningPayload_def pb by simp
  let ?t = "Tx (?f\<lparr>tx_TxnSignature := ?sig ?p\<rparr>) []"
  have l64: "length (?sig p) = 64" for p by (simp add: sized_ed_def)
  then have "?sig ?p \<noteq> []" by (metis list.size(3) zero_neq_numeral)
  then obtain b where b: "Serialize ?t True = Inr b" using ser [of "?sig ?p" True] by blast
  have sg: "sign_tx r (Tx ?f []) = Inr b" using b by (simp add: sign_tx_def sp rf del: Serialize.simps)
  have st: "SigningPayload ?t = Inr ?p" using same [of "?sig ?p"] sp unfolding SigningPayload_def by argo
  have ver: "VerifyEd25519 (sized_ed (sb_Ed25519 s)) (tx_SigningPubKey ?f) ?p (?sig ?p)"
    using pub assms(3) by (simp add: VerifyEd25519_def signs_ok_def)
  have "tx_ok ?t" using assms(2) l64 [of ?p] by (simp add: tx_ok_def fields_ok_def sendable_def plain_fields_def prepared_def vl_ok_short)
  then show ?thesis using b sg st ver by (intro exI [of _ ?t] exI [of _ b]) (simp del: Serialize.simps)
qed

text \<open>The ledger takes it at once.\<close>

lemma submit_accepted:
  assumes "Deserialize b = Inr t" "fl_FailSubmit l = []" "fl_Accounts l addr = Some a" "addr = EncodeAddress (fe_sha256 e) (tx_Account (tx_fields t))"
    and "tx_Sequence (tx_fields t) = as_Sequence a" "SigningPayload t = Inr p"
    and "VerifyEd25519 (fe_ed e) (tx_SigningPubKey (tx_fields t)) p (tx_TxnSignature (tx_fields t))" "tx_Type (tx_fields t) \<noteq> TxBatch"
  shows "\<exists>l'. fake_Submit e b l = (Inr ''tesSUCCESS'', l') \<and> fl_FailSubmit l' = [] \<and> fl_Prune l' = fl_Prune l \<and> fl_Fee l' = fl_Fee l
    \<and> fl_Txs l' = fl_Txs l @ [applied_record t addr (Hash (fe_sha512 e) b) (fl_Seq l')]
    \<and> fl_Accounts l' = (fl_Accounts l)(addr \<mapsto> \<lparr>as_Sequence = as_Sequence a + 1, as_BalanceDrops = as_BalanceDrops a - tx_FeeDrops (tx_fields t)\<rparr>)"
  using assms by (simp add: fake_Submit_def Let_def apply_tx_def pay_fee_def set_account_def)

lemma saved_on_fake:
  "\<exists>st'. saveDump (on_fake rand s) st = (Inr (), st') \<and> fw_Ledger (us_World st') = fw_Ledger (us_World st) \<and> fw_Log (us_World st') = fw_Log (us_World st)
    \<and> us_Manifest st' = us_Manifest st"
  by (simp add: saveDump_def dump_Save_def on_fake_def Let_def)

lemma found_at_once:
  assumes "fl_Prune l = 0" "list_all (\<lambda>r. tr_Validated r \<and> tr_Result r = ''tesSUCCESS'') (fl_Txs l)" "h = Hash (fe_sha512 e) b" "tr_Hash r = h" "r \<in> set (fl_Txs l)"
  shows "\<exists>q. fake_Tx e l h = Inr q \<and> tr_Validated q \<and> tr_Result q = ''tesSUCCESS''"
proof -
  have "equal_fold (fe_fold e) (tr_Hash r) h" using equal_fold_ascii [OF Hash_upper(1) Hash_upper(1)] assms(3,4) by simp
  then obtain q where "find (\<lambda>t. equal_fold (fe_fold e) (tr_Hash t) h \<and> tr_LedgerIndex t \<ge> fl_Prune l) (fl_Txs l) = Some q"
    using assms(1,5) by (cases "find (\<lambda>t. equal_fold (fe_fold e) (tr_Hash t) h \<and> tr_LedgerIndex t \<ge> fl_Prune l) (fl_Txs l)") (auto simp: find_None_iff)
  moreover from this have "q \<in> set (fl_Txs l)" by (auto simp: find_Some_iff)
  ultimately show ?thesis using assms(2) by (auto simp: fake_Tx_def list_all_iff)
qed

lemma fresh_collision:
  assumes "no_collision S" "\<forall>h' f. (h', f) \<in> S \<longrightarrow> h' \<noteq> h"
  shows "no_collision (insert (h, g) S)"
  unfolding no_collision_def
proof (intro allI impI)
  fix h' f f'
  assume m: "(h', f) \<in> insert (h, g) S" "(h', f') \<in> insert (h, g) S"
  show "f = f'"
  proof (cases "h' = h")
    case True
    then show ?thesis using m assms(2) by blast
  next
    case False
    then have "(h', f) \<in> S" "(h', f') \<in> S" using m by simp_all
    then show ?thesis using assms(1) unfolding no_collision_def by blast
  qed
qed

text \<open>One blob of the next sequence number goes into the log, and its fee is paid.\<close>

lemma ready_after:
  fixes w :: fake_world
  assumes "ready s (Suc n) w" "hashes_differ (sb_Sha512 s)" "fl_Accounts (fw_Ledger w) (Address s) = Some a"
    and "Serialize t True = Inr b" "tx_ok t" "tx_Flags (tx_fields t) = 0" "tx_Sequence (tx_fields t) = as_Sequence a"
    and "fl_FailSubmit l' = []" "fl_Prune l' = fl_Prune (fw_Ledger w)" "fl_Fee l' = fl_Fee (fw_Ledger w)"
    and "fl_Txs l' = fl_Txs (fw_Ledger w) @ [applied_record t addr h lgr]"
    and "fl_Accounts l' (Address s) = Some \<lparr>as_Sequence = as_Sequence a + 1, as_BalanceDrops = as_BalanceDrops a - fake_rate (fw_Ledger w)\<rparr>"
    and "fw_Ledger w' = l'" "fw_Log w' = b # fw_Log w"
  shows "ready s n w'"
proof -
  let ?l = "fw_Ledger w" and ?rate = "fake_rate (fw_Ledger w)"
  have rate: "fake_rate l' = ?rate" using assms(10) by (simp add: fake_rate_def)
  have a: "1200000 + Suc n * unat ?rate \<le> unat (as_BalanceDrops a)" "unat (as_Sequence a) + Suc n < 2 ^ 32"
    and log: "\<And>c. c \<in> set (fw_Log w) \<Longrightarrow> \<exists>u. Serialize u True = Inr c \<and> tx_ok u \<and> tx_Flags (tx_fields u) = 0 \<and> tx_Sequence (tx_fields u) < as_Sequence a"
    and nc: "no_collision (fake_sent s w)"
    using assms(1,3) by (auto simp: ready_def Let_def list_all_iff)
  have sq: "unat (as_Sequence a + 1) = unat (as_Sequence a) + 1" using a(2) by (simp add: unat_add_lem [THEN iffD1])
  have "?rate \<le> as_BalanceDrops a" using a(1) by (simp add: word_le_nat_alt)
  then have bal: "unat (as_BalanceDrops a - ?rate) = unat (as_BalanceDrops a) - unat ?rate" by (rule unat_sub)
  have lt: "x < as_Sequence a + 1" if "x \<le> as_Sequence a" for x using that sq by (simp add: word_less_nat_alt word_le_nat_alt)
  have d: "Deserialize b = Inr t" using deserialize_serialized [OF assms(4,5)] by simp
  have "fake_sent s w' = insert (Hash (sb_Sha512 s) b, tx_fields t) (fake_sent s w)" using d by (auto simp: fake_sent_def assms(14))
  moreover have "h' \<noteq> Hash (sb_Sha512 s) b" if hf: "(h', f) \<in> fake_sent s w" for h' f
  proof -
    obtain c where c: "c \<in> set (fw_Log w)" "h' = Hash (sb_Sha512 s) c" using hf by (auto simp: fake_sent_def)
    then obtain u where u: "Serialize u True = Inr c" "tx_Flags (tx_fields u) = 0" "tx_Sequence (tx_fields u) < as_Sequence a" using log by blast
    then show ?thesis using assms(2,4,6,7) c(2) unfolding hashes_differ_def by (metis order_less_irrefl)
  qed
  ultimately have nc': "no_collision (fake_sent s w')" using fresh_collision [OF nc, of "Hash (sb_Sha512 s) b" "tx_fields t"] by auto
  have log': "\<exists>u. Serialize u True = Inr c \<and> tx_ok u \<and> tx_Flags (tx_fields u) = 0 \<and> tx_Sequence (tx_fields u) < as_Sequence a + 1"
    if "c \<in> set (fw_Log w')" for c
    using that log [of c] assms(4-7) lt [of "as_Sequence a"] lt [OF order_less_imp_le] unfolding assms(14) by (metis order_refl set_ConsD)
  have rec: "list_all (\<lambda>r. tr_Validated r \<and> tr_Result r = ''tesSUCCESS'') (fl_Txs l')" using assms(1) by (simp add: ready_def Let_def assms(11) applied_record_def)
  let ?a = "\<lparr>as_Sequence = as_Sequence a + 1, as_BalanceDrops = as_BalanceDrops a - ?rate\<rparr>"
  have "1200000 + n * unat ?rate \<le> unat (as_BalanceDrops ?a)" "unat (as_Sequence ?a) + n < 2 ^ 32" using a by (simp_all add: sq bal)
  moreover have "fl_Prune l' = 0" "fl_Fee l' \<noteq> 0" "?rate \<le> sb_MaxFee s" using assms(1,9,10) by (simp_all add: ready_def Let_def)
  ultimately show ?thesis
    using assms(8,12) nc' log' rec unfolding ready_def assms(13) rate Let_def list_all_iff by (intro conjI exI [of _ ?a]) simp_all
qed

lemma submit_blob_accepted:
  fixes rand :: "nat \<Rightarrow> byte list" and s :: "fake_world submitter" and st :: "fake_world sub_state"
  defines "r \<equiv> on_fake rand s"
  assumes "cl_Submit (world_client (env_of s)) b (us_World st) = (Inr ''tesSUCCESS'', w')" "fl_Prune (fw_Ledger w') = 0"
    and "list_all (\<lambda>q. tr_Validated q \<and> tr_Result q = ''tesSUCCESS'') (fl_Txs (fw_Ledger w'))"
    and "q \<in> set (fl_Txs (fw_Ledger w'))" "tr_Hash q = Hash (sb_Sha512 s) b"
  shows "\<exists>l st'. submit_blob r b final (finish_send r) st = (Inr (Some (Hash (sb_Sha512 s) b, l)), st') \<and> fw_Ledger (us_World st') = fw_Ledger w'
    \<and> fw_Log (us_World st') = fw_Log w' \<and> us_Manifest st' = us_Manifest st"
proof -
  let ?h = "Hash (sb_Sha512 s) b" and ?st = "st\<lparr>us_World := w'\<rparr>"
  have env: "fe_sha512 (env_of s) = sb_Sha512 s" by (simp add: env_of_def)
  obtain rec where rec: "fake_Tx (env_of s) (fw_Ledger w') ?h = Inr rec" "tr_Validated rec" "tr_Result rec = ''tesSUCCESS''"
    using found_at_once [OF assms(3,4), of ?h "env_of s" b q] assms(5,6) by (auto simp: env)
  have a: "ask (cl_Submit (world_client (env_of s)) b) st = (Inr ''tesSUCCESS'', ?st)"
    using assms(2) by (simp add: ask_def on_world_def)
  have w: "await r ?h final ?st = (Inr (Some rec), ?st)"
    using rec by (simp add: await_def numeral_eq_Suc world_reads r_def)
  obtain st' where st': "saveDump r (record_tx ?h rec ?st) = (Inr (), st')" "fw_Ledger (us_World st') = fw_Ledger w'" "fw_Log (us_World st') = fw_Log w'"
    "us_Manifest st' = us_Manifest st"
    using saved_on_fake [of rand s "record_tx ?h rec ?st"] by (auto simp: record_tx_def r_def)
  have f: "finish_send r ?h rec ?st = (Inr (?h, tr_LedgerIndex rec), st')" using st'(1) rec(3) by (simp add: finish_send_def act_then_def act_ok_def)
  have "submit_blob r b final (finish_send r) st = (Inr (Some (?h, tr_LedgerIndex rec)), st')"
    using a w f by (simp add: submit_blob_def Let_def r_def act_then_def engine_answer_def act_ok_def)
  then show ?thesis using st' by blast
qed

lemma send_ready:
  fixes rand :: "nat \<Rightarrow> byte list" and s :: "fake_world submitter" and st :: "fake_world sub_state"
  defines "r \<equiv> on_fake rand s"
  assumes "ready r (Suc n) (us_World st)" "sendable f" "signs_ok (sized_ed (sb_Ed25519 s))" "hashes_differ (sb_Sha512 s)" "sb_MaxFee s < xrp_bit"
  shows "\<exists>b l st'. send r f st = (Inr (Hash (sb_Sha512 s) b, l), st') \<and> ready r n (us_World st') \<and> us_Manifest st' = us_Manifest st"
proof -
  let ?w = "us_World st" and ?l = "fw_Ledger (us_World st)"
  let ?srv = "\<lparr>ss_ValidatedLedger = fl_Seq ?l, ss_CompleteLedgers = ''1000-9999'', ss_BaseFeeDrops = 10, ss_OpenLedgerFee = fl_Fee ?l\<rparr>"
  obtain a where a: "fl_Accounts ?l (Address r) = Some a" "1200000 + Suc n * unat (fake_rate ?l) \<le> unat (as_BalanceDrops a)"
    and q: "fl_FailSubmit ?l = []" "fl_Prune ?l = 0" "fl_Fee ?l \<noteq> 0" "fake_rate ?l \<le> sb_MaxFee s"
    using assms(2) by (auto simp: ready_def Let_def r_def)
  have rate: "fee_rate ?srv = fake_rate ?l" by (simp add: fee_rate_def fake_rate_def)
  have nz: "sub_defaults r = r" using q(4) by (auto simp: sub_defaults_def r_def fake_rate_def split: if_splits)
  have low: "fee_rate ?srv < xrp_bit" using q(4) assms(6) unfolding rate by (rule order_le_less_trans)
  obtain t b where t: "sign_tx r (Tx (prepared r f ?srv a) []) = Inr b" "Serialize t True = Inr b" "tx_ok t"
    "VerifyEd25519 (sized_ed (sb_Ed25519 s)) (tx_SigningPubKey (tx_fields t)) (projr (SigningPayload t)) (tx_TxnSignature (tx_fields t))"
    "SigningPayload t = Inr (projr (SigningPayload t))" "tx_fields t = (prepared r f ?srv a)\<lparr>tx_TxnSignature := tx_TxnSignature (tx_fields t)\<rparr>"
    using sign_sendable [OF assms(3,4) low, of rand a, folded r_def] by blast
  have tf: "tx_Flags (tx_fields t) = 0" "tx_Sequence (tx_fields t) = as_Sequence a" "tx_FeeDrops (tx_fields t) = fake_rate ?l"
    "tx_Account (tx_fields t) = writer_id r" "tx_Type (tx_fields t) \<noteq> TxBatch"
    using assms(3) by (subst t(6), simp add: prepared_def sendable_def rate)+
  have addr: "Address r = EncodeAddress (fe_sha256 (env_of s)) (tx_Account (tx_fields t))" by (simp add: Address_def tf(4) env_of_def r_def)
  have d: "Deserialize b = Inr t" using deserialize_serialized [OF t(2,3)] by simp
  have ver: "VerifyEd25519 (fe_ed (env_of s)) (tx_SigningPubKey (tx_fields t)) (projr (SigningPayload t)) (tx_TxnSignature (tx_fields t))"
    using t(4) by (simp add: env_of_def)
  obtain l' where l': "fake_Submit (env_of s) b ?l = (Inr ''tesSUCCESS'', l')" "fl_FailSubmit l' = []" "fl_Prune l' = fl_Prune ?l" "fl_Fee l' = fl_Fee ?l"
    "fl_Txs l' = fl_Txs ?l @ [applied_record t (Address r) (Hash (fe_sha512 (env_of s)) b) (fl_Seq l')]"
    "fl_Accounts l' = (fl_Accounts ?l)(Address r \<mapsto> \<lparr>as_Sequence = as_Sequence a + 1, as_BalanceDrops = as_BalanceDrops a - tx_FeeDrops (tx_fields t)\<rparr>)"
    using submit_accepted [OF d q(1) a(1) addr tf(2) t(5) ver tf(5)] by blast
  let ?w' = "?w\<lparr>fw_Log := b # fw_Log ?w, fw_Ledger := l'\<rparr>"
  have sub: "cl_Submit (world_client (env_of s)) b ?w = (Inr ''tesSUCCESS'', ?w')"
    using l'(1) by (simp add: world_client_def fake_client_def on_ledger_def Let_def)
  have after: "ready r n w''" if "fw_Ledger w'' = l'" "fw_Log w'' = b # fw_Log ?w" for w''
    using ready_after [OF assms(2) _ a(1) t(2,3) tf(1,2) l'(2-5) _ that] assms(5) l'(6) tf(3) by (simp add: r_def)
  have "\<exists>l st'. submit_blob r b (ss_ValidatedLedger ?srv + 20) (finish_send r) st = (Inr (Some (Hash (sb_Sha512 s) b, l)), st') \<and> fw_Ledger (us_World st') = fw_Ledger ?w'
    \<and> fw_Log (us_World st') = fw_Log ?w' \<and> us_Manifest st' = us_Manifest st"
    unfolding r_def
    by (rule submit_blob_accepted [OF sub, where q = "applied_record t (Address r) (Hash (fe_sha512 (env_of s)) b) (fl_Seq l')"])
       (use l'(3,5) q(2) assms(2) in \<open>simp_all add: applied_record_def env_of_def ready_def Let_def\<close>)
  then obtain l st' where st': "submit_blob r b (ss_ValidatedLedger ?srv + 20) (finish_send r) st = (Inr (Some (Hash (sb_Sha512 s) b, l)), st')"
    "fw_Ledger (us_World st') = l'" "fw_Log (us_World st') = b # fw_Log ?w" "us_Manifest st' = us_Manifest st" by auto
  have steps: "ask (cl_ServerInfo (sb_Client r)) st = (Inr ?srv, st)" "ask_account r st = (Inr a, st)"
    using q(3) a(1) by (simp_all add: ask_def ask_account_def on_world_def world_reads fake_ServerInfo_def fake_AccountInfo_def r_def)
  have funds: "check_funds r a (fee_rate ?srv) (fee_rate ?srv) st = (Inr (), st)"
  proof -
    have "unat (as_BalanceDrops a) < 2 ^ 64" by (rule order_less_le_trans [OF unsigned_less]) simp
    then have "unat (fake_rate ?l) + 1200000 < 2 ^ 64" using a(2) by simp
    then have "unat (1200000 + fake_rate ?l) = 1200000 + unat (fake_rate ?l)" by (simp add: unat_add_lem [THEN iffD1])
    then have "\<not> as_BalanceDrops a < 1200000 + fake_rate ?l" using a(2) by (simp add: word_less_nat_alt)
    then show ?thesis using q(4) by (simp add: check_funds_def rate r_def)
  qed
  have "send_once r f st = (Inr (Some (Hash (sb_Sha512 s) b, l)), st')"
    using steps funds st'(1) by (simp add: send_once_def act_then_def act_of_def t(1))
  then have "send r f st = (Inr (Hash (sb_Sha512 s) b, l), st')" by (simp add: send_def nz numeral_eq_Suc act_then_def act_ok_def)
  then show ?thesis using after [OF st'(2,3)] st'(4) by blast
qed

section \<open>A whole run\<close>

lemma memo_fits:
  assumes "length (memo_Type m) = 12" "length (memo_Data m) \<le> 1003" "memo_Format m = []"
  shows "\<exists>b. SerializeMemos [m] = Inr b"
  using assms by (auto simp: SerializeMemos_def Let_def MaxMemosSerialized_def memo_bytes_def opt_vl_def appendVL_def vl_prefix_def appendHeader_def)

lemma ManifestMemos_ok:
  assumes "gcm_ok (pm_gcm pm)" "length nonce = ManifestNonceLen" "length bid = 16" "parts_needed (length (Marshal (pm_to_json pm) m)) \<le> MaxManifestParts"
  shows "\<exists>memos body. ManifestMemos pm nonce key bid m = Inr (memos, body)"
proof -
  let ?body = "Marshal (pm_to_json pm) m"
  let ?kb = "BackupKey (pm_hkdf pm) key bid" and ?n = "parts_needed (length ?body)"
  have "\<exists>y. seal_part pm ?kb bid nonce ?n ?body i = Inr y" for i
  proof -
    let ?piece = "take ManifestPartLen (drop (i * ManifestPartLen) ?body)"
    obtain ct where ct: "SealManifest (pm_gcm pm) ?kb bid nonce (of_nat i) (of_nat ?n) ?piece = Some ct" "length ct = length ?piece + 16"
      using assms(1,2) by (auto simp: SealManifest_def gcm_length)
    have "length ct \<le> 960" unfolding ct(2) by (simp add: ManifestPartLen_def BlockLen_def)
    then have "\<exists>b. SerializeMemos [\<lparr>memo_Type = bytes TypeManifest, memo_Data = chunk_data bid (of_nat i) (of_nat ?n) nonce ct, memo_Format = []\<rparr>] = Inr b"
      using assms(2,3) chunk_types(3) chunk_data_parts(5) [OF assms(3), of "of_nat i" "of_nat ?n" nonce ct] by (intro memo_fits) (simp_all add: ManifestNonceLen_def)
    then show ?thesis using assms(2,3) by (auto simp: seal_part_def ct(1) chunk_Encode_def)
  qed
  then obtain memos where "each_ok (seal_part pm ?kb bid nonce ?n ?body) [0..<?n] = Inr memos" using each_ok_all [of "[0..<?n]" "seal_part pm ?kb bid nonce ?n ?body"] by blast
  then show ?thesis using assms(4) by (simp add: ManifestMemos_def Let_def)
qed

text \<open>Memos that have a serialized form on their own.\<close>

definition carried_alone :: "memo \<Rightarrow> bool" where
  "carried_alone m \<longleftrightarrow> (\<exists>b. SerializeMemos [m] = Inr b)"

lemma encoded_alone: "chunk_Encode typ bid i n nonce ct = Inr m \<Longrightarrow> carried_alone m"
  by (auto simp: chunk_Encode_def carried_alone_def Let_def split: if_splits sum.splits)

lemma sendable_carrier: "carried_alone m \<Longrightarrow> sendable (carrier m)"
  by (auto simp: sendable_def carried_alone_def carrier_def no_fields_def plain_fields_def ser_memos_def TxAccountSet_def TxBatch_def)

definition hashed :: "'w submitter \<Rightarrow> dump_tx \<Rightarrow> bool" where
  "hashed s t \<longleftrightarrow> (\<exists>b. dt_Hash t = Hash (sb_Sha512 s) b)"

lemma chunks_ready:
  fixes rand :: "nat \<Rightarrow> byte list" and s :: "fake_world submitter" and st :: "fake_world sub_state"
  defines "r \<equiv> on_fake rand s"
  assumes "signs_ok (sized_ed (sb_Ed25519 s))" "hashes_differ (sb_Sha512 s)" "sb_MaxFee s < xrp_bit" "rz_recorded z = []"
    and "list_all carried_alone memos" "ready r (length memos + n) (us_World st)"
  shows "\<exists>x ts st'. act_each (submit_chunk r z) (enumerate i memos) st = (Inr x, st') \<and> ready r n (us_World st')
    \<and> us_Manifest st' = noted i ts (us_Manifest st) \<and> length ts = length memos \<and> list_all (hashed s) ts"
  using assms(6,7)
proof (induction memos arbitrary: i st)
  case Nil
  then show ?case by (intro exI [of _ "[]"]) (simp add: noted_def)
next
  case (Cons m memos)
  have "sendable (carrier m)" using Cons.prems(1) by (simp add: sendable_carrier)
  from send_ready [OF _ this assms(2-4), of rand "length memos + n" st] Cons.prems(2)
  obtain b l u where u: "send r (carrier m) st = (Inr (Hash (sb_Sha512 s) b, l), u)" "ready r (length memos + n) (us_World u)" "us_Manifest u = us_Manifest st"
    by (auto simp: r_def)
  let ?t = "\<lparr>dt_Hash = Hash (sb_Sha512 s) b, dt_LedgerIndex = l, dt_Result = [], dt_TxJSON = JNull\<rparr>"
  let ?u = "u\<lparr>us_Manifest := set_chunk i (Hash (sb_Sha512 s) b) l (us_Manifest u)\<rparr>"
  have c: "submit_chunk r z (i, m) st = (Inr (), ?u)"
    using u(1) by (simp add: submit_chunk_def recorded_chunk_def assms(5) act_then_def act_map_error_def note_chunk_def)
  obtain x ts st' where st': "act_each (submit_chunk r z) (enumerate (Suc i) memos) ?u = (Inr x, st')" "ready r n (us_World st')"
    "us_Manifest st' = noted (Suc i) ts (us_Manifest ?u)" "length ts = length memos" "list_all (hashed s) ts"
    using Cons.IH [of ?u "Suc i"] Cons.prems(1) u(2) by auto
  have "us_Manifest st' = noted i (?t # ts) (us_Manifest st)" using st'(3) u(3) by (simp add: noted_Cons)
  moreover have "hashed s ?t" by (auto simp: hashed_def)
  ultimately show ?case using c st' by (intro exI [of _ "() # x"] exI [of _ "?t # ts"] exI [of _ st']) auto
qed

lemma parts_ready:
  fixes rand :: "nat \<Rightarrow> byte list" and s :: "fake_world submitter" and st :: "fake_world sub_state"
  defines "r \<equiv> on_fake rand s"
  assumes "signs_ok (sized_ed (sb_Ed25519 s))" "hashes_differ (sb_Sha512 s)" "sb_MaxFee s < xrp_bit"
    and "list_all carried_alone memos" "ready r (length memos + n) (us_World st)"
  shows "\<exists>x st'. act_each (send_part r) (enumerate i memos) st = (Inr x, st') \<and> ready r n (us_World st') \<and> us_Manifest st' = us_Manifest st"
  using assms(5,6)
proof (induction memos arbitrary: i st)
  case (Cons m memos)
  have "sendable (carrier m)" using Cons.prems(1) by (simp add: sendable_carrier)
  from send_ready [OF _ this assms(2-4), of rand "length memos + n" st] Cons.prems(2)
  obtain b l u where u: "send r (carrier m) st = (Inr (Hash (sb_Sha512 s) b, l), u)" "ready r (length memos + n) (us_World u)" "us_Manifest u = us_Manifest st"
    by (auto simp: r_def)
  have c: "send_part r (i, m) st = (Inr (Hash (sb_Sha512 s) b, l), u)" using u(1) by (simp add: send_part_def)
  obtain x st' where "act_each (send_part r) (enumerate (Suc i) memos) u = (Inr x, st')" "ready r n (us_World st')" "us_Manifest st' = us_Manifest u"
    using Cons.IH [of u "Suc i"] Cons.prems(1) u(2) by auto
  then show ?case using c u(3) by simp
qed simp

lemma ready_less: "ready s m w \<Longrightarrow> n \<le> m \<Longrightarrow> ready s n w"
proof -
  assume r: "ready s m w" and n: "n \<le> m"
  have "n * k \<le> m * k" for k :: nat using n by simp
  then have le: "1200000 + n * k \<le> b" if "1200000 + m * k \<le> b" for k b :: nat using that by (meson add_le_cancel_left le_trans)
  show "ready s n w" using r n unfolding ready_def Let_def by (fastforce intro: le)
qed

lemma anchor_sendable:
  assumes "prims_ok (sb_Prims s)" "ser_memos (anchorMemos s) = Inr b"
  shows "sendable (no_fields\<lparr>tx_Type := TxDIDSet, tx_Data := anchor_data s (anchor_record p m hb l), tx_Memos := anchorMemos s\<rparr>)"
proof -
  have "length (anchor_data s (anchor_record p m hb l)) = 77"
    using assms(1) by (simp add: anchor_data_def anchor_Encode_def length_AnchorMAC prims_ok_def length_anchor_body anchor_ok_def anchor_record_def)
  then show ?thesis using assms(2) by (simp add: sendable_def plain_fields_def no_fields_def TxDIDSet_def TxBatch_def)
qed

lemma anchor_ready:
  fixes rand :: "nat \<Rightarrow> byte list" and s :: "fake_world submitter" and st :: "fake_world sub_state"
  defines "r \<equiv> on_fake rand s"
  assumes "signs_ok (sized_ed (sb_Ed25519 s))" "hashes_differ (sb_Sha512 s)" "sb_MaxFee s < xrp_bit" "prims_ok (sb_Prims s)"
    and "ser_memos (anchorMemos s) = Inr b" "ready r (Suc n) (us_World st)"
  shows "\<exists>st'. sendAnchor r p h l st = (Inr (), st') \<and> ready r n (us_World st')"
proof -
  let ?data = "anchor_data r (anchor_record p (us_Manifest st) (hex_prefix h) l)"
  have am: "anchorMemos r = anchorMemos s" by (simp add: anchorMemos_def r_def on_fake_def)
  have "sendable (no_fields\<lparr>tx_Type := TxDIDSet, tx_Data := ?data, tx_Memos := anchorMemos r\<rparr>)"
    by (rule anchor_sendable) (use assms(5,6) in \<open>simp_all add: am, simp add: r_def\<close>)
  from send_ready [OF _ this assms(2-4), of rand n st] assms(7) obtain h' l' u where
    u: "send r (no_fields\<lparr>tx_Type := TxDIDSet, tx_Data := ?data, tx_Memos := anchorMemos r\<rparr>) st = (Inr (h', l'), u)" "ready r n (us_World u)"
    by (auto simp: r_def)
  obtain st' where st': "saveDump r (set_did (Some \<lparr>dd_LedgerIndex = l', dd_Data = upper_hex ?data\<rparr>) u) = (Inr (), st')"
    "fw_Ledger (us_World st') = fw_Ledger (us_World u)" "fw_Log (us_World st') = fw_Log (us_World u)"
    using saved_on_fake [of rand s "set_did (Some \<lparr>dd_LedgerIndex = l', dd_Data = upper_hex ?data\<rparr>) u"] by (auto simp: set_did_def r_def)
  have "ready r n (us_World st')" using u(2) st'(2,3) by (simp add: ready_def fake_sent_def)
  moreover have "sendAnchor r p h l st = (Inr (), st')" using u(1) st'(1) by (simp add: sendAnchor_def Let_def act_then_def act_map_error_def)
  ultimately show ?thesis by blast
qed

text \<open>Every manifest the run may write, whatever hashes the ledger gives, fits the parts it may have.\<close>

definition manifest_fits :: "'w submitter \<Rightarrow> plan \<Rightarrow> bool" where
  "manifest_fits s p \<longleftrightarrow> (\<forall>ts. list_all (hashed s) ts
     \<longrightarrow> parts_needed (length (Marshal (pm_to_json (sb_Prims s)) (noted 0 ts (bp_Manifest p)))) \<le> MaxManifestParts)"

lemma manifest_ready:
  fixes rand :: "nat \<Rightarrow> byte list" and s :: "fake_world submitter" and st :: "fake_world sub_state"
  defines "r \<equiv> on_fake rand s"
  assumes "signs_ok (sized_ed (sb_Ed25519 s))" "hashes_differ (sb_Sha512 s)" "sb_MaxFee s < xrp_bit" "gcm_ok (pm_gcm (sb_Prims s))"
    and "length (bp_BackupID p) = 16" "parts_needed (length (Marshal (pm_to_json (sb_Prims s)) (us_Manifest st))) \<le> MaxManifestParts"
    and "rz_parts z = []" "ready r (MaxManifestParts + n) (us_World st)"
  shows "\<exists>h l st'. submit_manifest r p z st = (Inr (h, l), st') \<and> ready r n (us_World st')"
proof -
  let ?nonce = "to_array ManifestNonceLen (rand (fw_Drawn (us_World st)))"
  let ?u = "st\<lparr>us_World := (us_World st)\<lparr>fw_Drawn := fw_Drawn (us_World st) + 1\<rparr>\<rparr>"
  obtain memos body where mm: "ManifestMemos (sb_Prims s) ?nonce (kf_Key (sb_Key s)) (bp_BackupID p) (us_Manifest st) = Inr (memos, body)"
    using ManifestMemos_ok [OF assms(5) _ assms(6,7), of ?nonce "kf_Key (sb_Key s)"] by auto
  note M = ManifestMemos_Inr [OF mm]
  have "carried_alone (memos ! i)" if "i < length memos" for i using M(4) [OF that] encoded_alone by blast
  then have alone: "list_all carried_alone memos" by (simp add: list_all_length)
  have sl: "seal_memos r p (us_Manifest st) st = (Inr memos, ?u)"
    by (simp add: seal_memos_def on_world_def on_fake_def mm r_def)
  have "ready r (length memos + n) (us_World ?u)"
    using ready_less [OF assms(9)] M(2,3) by (simp add: ready_def fake_sent_def)
  from parts_ready [OF assms(2-4) alone, of rand n ?u 0, folded r_def, OF this] obtain x st' where
    st': "act_each (send_part r) (enumerate 0 memos) ?u = (Inr x, st')" "ready r n (us_World st')" by blast
  have "landed_manifest r z = None" by (simp add: landed_manifest_def assms(8) r_def on_fake_def List.map_filter_simps)
  then have "submit_manifest r p z st = (Inr (if x = [] then ([], 0) else hd x), st')"
    using sl st'(1) by (simp add: submit_manifest_def act_then_def act_ok_def)
  then show ?thesis using st'(2) by (metis prod.collapse)
qed

lemma run_completes:
  fixes rand :: "nat \<Rightarrow> byte list" and s :: "fake_world submitter"
  defines "r \<equiv> on_fake rand s"
  assumes "signs_ok (sized_ed (sb_Ed25519 s))" "hashes_differ (sb_Sha512 s)" "sb_MaxFee s < xrp_bit" "prims_ok (sb_Prims s)" "\<not> sb_Batch s"
    and "length (bp_BackupID p) = 16" "list_all carried_alone (bp_ChunkMemos p)" "ser_memos (anchorMemos s) = Inr b" "manifest_fits s p"
    and "ready r (length (bp_ChunkMemos p) + (MaxManifestParts + 1)) w"
  shows "\<exists>st. backup_Submit r p None w = (Inr (), st) \<and> no_collision (fake_sent s (us_World st))"
proof -
  let ?st = "submit_start r p None w" and ?z = "\<lparr>rz_recorded = [], rz_parts = []\<rparr>"
  have s0: "du_Txs (us_Dump ?st) = []" "us_World ?st = w" "us_Manifest ?st = bp_Manifest p"
    by (simp_all add: submit_start_def default_dump_def no_dump_def Let_def)
  have nb: "\<not> sb_Batch r" using assms(6) by (simp add: r_def)
  have nz: "sub_defaults r = r" using assms(11) by (auto simp: ready_def Let_def sub_defaults_def r_def fake_rate_def split: if_splits)
  from chunks_ready [OF assms(2-4) _ assms(8), where z = ?z and rand = rand and n = "MaxManifestParts + 1" and st = ?st and i = 0, folded r_def] assms(11)
  obtain x ts u where u: "act_each (submit_chunk r ?z) (enumerate 0 (bp_ChunkMemos p)) ?st = (Inr x, u)" "ready r (MaxManifestParts + 1) (us_World u)"
    "us_Manifest u = noted 0 ts (bp_Manifest p)" "list_all (hashed s) ts" by (auto simp: s0)
  have fit: "parts_needed (length (Marshal (pm_to_json (sb_Prims s)) (us_Manifest u))) \<le> MaxManifestParts"
    using assms(10) u(3,4) by (simp add: manifest_fits_def)
  have g: "gcm_ok (pm_gcm (sb_Prims s))" using assms(5) by (simp add: prims_ok_def)
  from manifest_ready [OF assms(2-4) g assms(7) fit, where z = ?z and rand = rand and n = 1, folded r_def] u(2)
  obtain h l v where v: "submit_manifest r p ?z u = (Inr (h, l), v)" "ready r 1 (us_World v)" by auto
  from anchor_ready [OF assms(2-5,9), where rand = rand and n = 0 and st = v and p = p and h = h and l = l, folded r_def] v(2)
  obtain st where st: "sendAnchor r p h l v = (Inr (), st)" "ready r 0 (us_World st)" by auto
  have "backup_Submit r p None w = (Inr (), st)"
    using u(1) v(1) st(1) nb by (simp add: backup_Submit_def Let_def nz s0 submit_sequential_def act_then_def act_ok_def)
  moreover have "no_collision (fake_sent s (us_World st))" using st(2) by (simp add: ready_def Let_def fake_sent_def r_def)
  ultimately show ?thesis by blast
qed

end
