(* ===== verification/Endtoend.thy ===== *)
theory Endtoend
  imports Fake
begin

text \<open>
  A backup from end to end on the test ledger: a run of a funded account completes, and the dump it leaves restores.
  The theory also holds the concrete run that shows the hypotheses of both theorems can hold.
\<close>

lemma plan_memos_alone:
  assumes "prims_ok pm" "backup_Build pm lo fs opts = Inr p" "\<not> bo_Tombstone opts"
  shows "length (bp_BackupID p) = 16" "list_all carried_alone (bp_ChunkMemos p)" "length (bp_ChunkMemos p) \<le> MaxChunks"
proof -
  obtain q where q: "has_parts pm lo fs opts p q" using backup_Build_parts [OF assms(2,3)] by blast
  then have "bp_BackupID p = pp_bid pm opts q" by (simp add: has_parts_def)
  then show "length (bp_BackupID p) = 16" using assms(1) by (simp add: pp_bid_def length_BackupID prims_ok_def)
  show "list_all carried_alone (bp_ChunkMemos p)" unfolding list_all_iff using chunk_memo_encoded [OF q] encoded_alone by blast
  have e: "each_ok (seal_piece pm (BackupKey (pm_hkdf pm) (kf_Key (pp_key q)) (pp_bid pm opts q)) (pp_bid pm opts q) (length (pp_pieces q)))
      (enumerate 0 (pp_pieces q)) = Inr (pp_sealed q)" "length (pp_pieces q) \<le> MaxChunks" "bp_ChunkMemos p = map snd (pp_sealed q)"
    using q by (simp_all add: has_parts_def)
  then have "length (pp_sealed q) = length (pp_pieces q)" using each_ok_nth(1) [OF e(1)] by simp
  then show "length (bp_ChunkMemos p) \<le> MaxChunks" using e(2,3) by simp
qed

lemma funded_completes:
  assumes "prims_ok (sb_Prims s)" "backup_Build (sb_Prims s) lo fs opts = Inr p" "\<not> bo_Tombstone opts" "\<not> sb_Batch s"
    and "signs_ok (sized_ed (sb_Ed25519 s))" "hashes_differ (sb_Sha512 s)" "sb_MaxFee s < xrp_bit" "ser_memos (anchorMemos s) = Inr b"
    and "manifest_fits s p" "ready (on_fake rand s) (length (bp_ChunkMemos p) + (MaxManifestParts + 1)) w"
  shows "\<exists>st. backup_Submit (on_fake rand s) p None w = (Inr (), st) \<and> no_collision (fake_sent s (us_World st))"
  using run_completes [OF assms(5-7,1,4) plan_memos_alone(1,2) [OF assms(1-3)] assms(8-10)] .


section \<open>A concrete run\<close>

text \<open>A signature scheme that accepts every signature, and a hash that reads the sequence number.\<close>

definition sample_ed :: ed25519 where
  "sample_ed = \<lparr>ed_public = (\<lambda>k. to_array 32 k), ed_sign = (\<lambda>k m. replicate 64 1), ed_verify = (\<lambda>k m g. True)\<rparr>"

definition seq_hash :: "byte list \<Rightarrow> byte list" where
  "seq_hash x = take 4 (drop 8 x) @ replicate 60 0"

definition sample_sub :: "fake_world submitter" where
  "sample_sub = \<lparr>sb_Client = undefined, sb_Writer = \<lparr>k_seed = [], k_priv = [1]\<rparr>, sb_Key = sample_keyfile, sb_Sleep = undefined,
     sb_MaxFee = 5000, sb_DumpOut = ''dump.json'', sb_Batch = False, sb_AttestMemo = None, sb_DelegationMemo = None, sb_WriteFile = undefined,
     sb_Nonce = undefined, sb_MapOrder = undefined, sb_Prims = sample_prims, sb_Sha512 = seq_hash, sb_Ed25519 = sample_ed, sb_Fold = (\<lambda>_ _. False)\<rparr>"

definition sample_world :: fake_world where
  "sample_world = \<lparr>fw_Ledger = Fund (Address (on_fake (\<lambda>_. []) sample_sub)) 100000000 fake_New, fw_Files = Map.empty, fw_Drawn = 0, fw_Log = []\<rparr>"

lemma hex_upper_inject: "map hex_upper (hex_encode a) = map hex_upper (hex_encode b) \<Longrightarrow> a = b"
proof -
  have d: "hex_upper (hex_char n) = ascii_upper (hex_char n)" if "n < 16" for n
  proof -
    have "list_all (\<lambda>n. hex_upper (hex_char n) = ascii_upper (hex_char n)) [0..<16]"
      by (simp add: upt_rec hex_char_def hexdigits_def hex_upper_def ascii_upper_def)
    then show ?thesis using that by (simp add: list_all_iff)
  qed
  have "map hex_upper (hex_encode x) = upper_hex x" for x
    by (induction x) (simp_all add: upper_hex_def hex_encode_def d nibbles)
  then show "map hex_upper (hex_encode a) = map hex_upper (hex_encode b) \<Longrightarrow> a = b" using hex_decode_upper by (metis option.inject)
qed

lemma serialized_sequence:
  assumes "Serialize t True = Inr b" "tx_Flags (tx_fields t) = 0"
  shows "take 4 (drop 4 b) = be32 (tx_Sequence (tx_fields t))"
proof -
  obtain h inner where t: "t = Tx h inner" by (cases t)
  obtain b' r where b': "ser_fields h True = Inr b'" "b = b' @ r"
    using assms(1) by (auto simp: t and_then_Inr split: if_splits)
  obtain r' where "b' = appendHeader 1 2 @ be16 (tx_Type h) @ appendHeader 2 4 @ be32 (tx_Sequence h) @ r'"
    using b'(1) assms(2) by (auto simp: ser_fields_def and_then_Inr opt_u32_def t)
  then show ?thesis using b'(2) by (simp add: t appendHeader_def)
qed

lemma seq_hashes_differ: "hashes_differ seq_hash"
proof -
  have "Hash seq_hash b = map hex_upper (hex_encode (take 4 (drop 4 b) @ replicate (32 - length (take 4 (drop 4 b))) 0))" for b
    by (simp add: Hash_def seq_hash_def min_def)
  then have h: "Hash seq_hash b = Hash seq_hash c \<Longrightarrow> length b \<ge> 8 \<Longrightarrow> length c \<ge> 8 \<Longrightarrow> take 4 (drop 4 b) = take 4 (drop 4 c)" for b c
    using hex_upper_inject by fastforce
  show ?thesis unfolding hashes_differ_def
  proof (intro allI impI)
    fix t b u c
    assume a: "Serialize t True = Inr b" "Serialize u True = Inr c" "tx_Flags (tx_fields t) = 0" "tx_Flags (tx_fields u) = 0"
      and ne: "tx_Sequence (tx_fields t) \<noteq> tx_Sequence (tx_fields u)"
    note q = serialized_sequence [OF a(1,3)] serialized_sequence [OF a(2,4)]
    have "length b \<ge> 8" "length c \<ge> 8" using arg_cong [OF q(1), of length] arg_cong [OF q(2), of length] by (auto simp: min_def split: if_splits)
    then show "Hash seq_hash b \<noteq> Hash seq_hash c" using h q ne by (metis be32_inject)
  qed
qed

lemma sample_run_ready:
  assumes "backup_Build sample_prims id sample_fs sample_options = Inr p"
  shows "prims_ok (sb_Prims sample_sub)" "backup_Build (sb_Prims sample_sub) id sample_fs sample_options = Inr p" "\<not> bo_Tombstone sample_options"
    "\<not> sb_Batch sample_sub" "signs_ok (sized_ed (sb_Ed25519 sample_sub))" "hashes_differ (sb_Sha512 sample_sub)" "sb_MaxFee sample_sub < xrp_bit"
    "ser_memos (anchorMemos sample_sub) = Inr []" "manifest_fits sample_sub p"
    "ready (on_fake (\<lambda>_. []) sample_sub) (length (bp_ChunkMemos p) + (MaxManifestParts + 1)) sample_world"
proof -
  let ?r = "on_fake (\<lambda>_. []) sample_sub"
  show nt: "\<not> bo_Tombstone sample_options" by (simp add: sample_options_def)
  show "prims_ok (sb_Prims sample_sub)" "backup_Build (sb_Prims sample_sub) id sample_fs sample_options = Inr p" "hashes_differ (sb_Sha512 sample_sub)"
    using sample_prims_ok assms seq_hashes_differ by (simp_all add: sample_sub_def)
  have n: "length (bp_ChunkMemos p) + (MaxManifestParts + 1) \<le> 1000"
    using plan_memos_alone(3) [OF sample_prims_ok assms nt] by (simp add: MaxChunks_def MaxManifestParts_def)
  have "ready ?r 1000 sample_world"
    by (simp add: ready_def sample_world_def Fund_def fake_New_def fake_rate_def no_collision_def fake_sent_def sample_sub_def)
  then show "ready ?r (length (bp_ChunkMemos p) + (MaxManifestParts + 1)) sample_world" using n by (rule ready_less)
  show "manifest_fits sample_sub p"
    by (simp add: manifest_fits_def sample_sub_def sample_prims_def Marshal_def parts_needed_def ManifestPartLen_def BlockLen_def MaxManifestParts_def)
  show "signs_ok (sized_ed (sb_Ed25519 sample_sub))" by (simp add: signs_ok_def sized_ed_def sample_sub_def sample_ed_def)
  show "ser_memos (anchorMemos sample_sub) = Inr []" by (simp add: anchorMemos_def sample_sub_def ser_memos_def)
  show "\<not> sb_Batch sample_sub" "sb_MaxFee sample_sub < xrp_bit" by (simp_all add: sample_sub_def xrp_bit_def)
qed

text \<open>A run never parses the manifest, so it is the same with another parser.\<close>

definition reread :: "(byte list \<Rightarrow> manifest option) \<Rightarrow> 'w submitter \<Rightarrow> 'w submitter" where
  "reread j s = s\<lparr>sb_Prims := (sb_Prims s)\<lparr>pm_of_json := j\<rparr>\<rparr>"

lemma reread_fields [simp]:
  "sb_Client (reread j s) = sb_Client s" "sb_Writer (reread j s) = sb_Writer s" "sb_Key (reread j s) = sb_Key s" "sb_Sleep (reread j s) = sb_Sleep s"
  "sb_MaxFee (reread j s) = sb_MaxFee s" "sb_DumpOut (reread j s) = sb_DumpOut s" "sb_Batch (reread j s) = sb_Batch s"
  "sb_WriteFile (reread j s) = sb_WriteFile s" "sb_Nonce (reread j s) = sb_Nonce s" "sb_MapOrder (reread j s) = sb_MapOrder s"
  "sb_Sha512 (reread j s) = sb_Sha512 s" "sb_Ed25519 (reread j s) = sb_Ed25519 s" "sb_Fold (reread j s) = sb_Fold s"
  "sb_Prims (reread j s) = (sb_Prims s)\<lparr>pm_of_json := j\<rparr>"
  "writer_pub (reread j s) = writer_pub s" "writer_id (reread j s) = writer_id s" "Address (reread j s) = Address s" "anchorMemos (reread j s) = anchorMemos s"
  by (simp_all add: reread_def writer_pub_def writer_id_def Address_def anchorMemos_def)

lemma reread_wait: "wait_validated (reread j s) h final n w = wait_validated s h final n w"
  by (induction n arbitrary: w) (simp_all add: Let_def split: prod.split option.split)

lemma reread_send:
  fixes s :: "'a submitter"
  shows "send (reread j s) f = send s f"
proof -
  have d: "sub_defaults (reread j s) = reread j (sub_defaults s)" by (simp add: sub_defaults_def reread_def)
  have sv: "saveDump (reread j t) = saveDump t" for t :: "'a submitter" by (intro ext) (simp add: saveDump_def cong: if_cong)
  have f: "finish_send (reread j t) = finish_send t" for t :: "'a submitter" by (intro ext) (simp add: finish_send_def sv cong: if_cong)
  have aw: "await (reread j t) = await t" "pause (reread j t) = pause t" for t :: "'a submitter"
    by (intro ext; simp add: await_def pause_def reread_wait)+
  have "submit_blob (reread j t) b final (finish_send (reread j t)) = submit_blob t b final (finish_send t)" for t :: "'a submitter" and b final
    by (simp add: submit_blob_def f aw Let_def cong: engine_answer.case_cong option.case_cong)
  moreover have "ask_account (reread j t) = ask_account t" "check_funds (reread j t) = check_funds t" "sign_tx (reread j t) = sign_tx t"
    "prepared (reread j t) = prepared t" for t :: "'a submitter"
    by (intro ext, simp add: ask_account_def check_funds_def sign_tx_def prepared_def cong: if_cong)+
  ultimately have "send_once (reread j t) f = send_once t f" for t :: "'a submitter" by (simp add: send_once_def)
  then show ?thesis by (simp add: send_def d)
qed

lemma reread_submit:
  fixes s :: "'a submitter"
  assumes "\<not> sb_Batch s"
  shows "backup_Submit (reread j s) p None w = backup_Submit s p None w"
proof -
  have d: "sub_defaults (reread j s) = reread j (sub_defaults s)" by (simp add: sub_defaults_def reread_def)
  have nb: "\<not> sb_Batch (sub_defaults s)" using assms by (simp add: sub_defaults_def)
  have mm: "ManifestMemos (pm\<lparr>pm_of_json := j\<rparr>) = ManifestMemos pm" for pm
    by (intro ext) (simp add: ManifestMemos_def seal_part_def [abs_def] Let_def)
  have sd: "saveDump (reread j t) = saveDump t" for t :: "'a submitter" by (intro ext) (simp add: saveDump_def cong: if_cong)
  have "submit_chunk (reread j t) z = submit_chunk t z" for t :: "'a submitter" and z by (unfold submit_chunk_def reread_send) (rule refl)
  moreover have "send_part (reread j t) = send_part t" for t :: "'a submitter" by (unfold send_part_def reread_send) (rule refl)
  moreover have "seal_memos (reread j t) p = seal_memos t p" for t :: "'a submitter" by (intro ext, unfold seal_memos_def reread_fields mm) (rule refl)
  moreover have "landed_manifest (reread j t) z = landed_manifest t z" for t :: "'a submitter" and z by (simp add: landed_manifest_def)
  moreover have "sendAnchor (reread j t) p = sendAnchor t p" for t :: "'a submitter"
    by (intro ext) (simp add: sendAnchor_def anchor_data_def reread_send sd)
  ultimately have sq: "submit_sequential (reread j t) p z = submit_sequential t p z" for t :: "'a submitter" and z
    unfolding submit_sequential_def submit_manifest_def [abs_def] by presburger
  have st: "submit_start (reread j t) p None w = submit_start t p None w" for t :: "'a submitter" by (simp add: submit_start_def default_dump_def)
  have e: "du_Txs (us_Dump (submit_start t p None w)) = []" for t :: "'a submitter" by (simp add: submit_start_def default_dump_def no_dump_def Let_def)
  show ?thesis by (simp add: backup_Submit_def d Let_def st e nb sq act_then_def act_ok_def)
qed

lemma reread_gather: "gather (pm\<lparr>pm_of_json := j\<rparr>) lo fs opts = gather pm lo fs opts"
proof -
  have l: "listed_file (pm\<lparr>pm_of_json := j\<rparr>) = listed_file pm" by (intro ext) (simp add: listed_file_def)
  have a: "addSplit (pm\<lparr>pm_of_json := j\<rparr>) = addSplit pm" by (intro ext, unfold addSplit_def l, rule refl)
  have "add_include (pm\<lparr>pm_of_json := j\<rparr>) = add_include pm" by (intro ext, unfold add_include_def l, rule refl)
  then have "add_includes (pm\<lparr>pm_of_json := j\<rparr>) lo fs incs = add_includes pm lo fs incs" for incs
    by (induction incs) (auto intro!: ext)
  then show ?thesis unfolding gather_def a by presburger
qed

lemma reread_build: "backup_Build (pm\<lparr>pm_of_json := j\<rparr>) lo fs opts = backup_Build pm lo fs opts"
proof -
  have "seal_piece (pm\<lparr>pm_of_json := j\<rparr>) = seal_piece pm" "chunk_entry (pm\<lparr>pm_of_json := j\<rparr>) = chunk_entry pm"
    "draft_manifest (pm\<lparr>pm_of_json := j\<rparr>) = draft_manifest pm" "finish_plan (pm\<lparr>pm_of_json := j\<rparr>) = finish_plan pm"
    by (intro ext, simp add: seal_piece_def chunk_entry_def draft_manifest_def finish_plan_def projectedManifestParts_def projectedManifest_def Let_def cong: if_cong)+
  then have "seal_plan (pm\<lparr>pm_of_json := j\<rparr>) = seal_plan pm" by (intro ext) (simp add: seal_plan_def Let_def cong: if_cong sum.case_cong)
  then show ?thesis by (simp add: backup_Build_def reread_gather cong: option.case_cong)
qed

lemma reread_on_fake: "on_fake rand (reread j s) = reread j (on_fake rand s)"
  by (simp add: on_fake_def reread_def env_of_def)

lemma sample_originals: "originals sample_fs sample_options = [(''/e/a'', bytes sample_cfg)]"
  by (simp add: originals_def requested_def sample_options_def readFile_def sample_fs_def)

lemma sample_submission:
  obtains s :: "fake_world submitter" and q p st where "submission s (fake_invar q) (fake_sent q)" "fake_invar q sample_world" "prims_ok (sb_Prims s)"
    "backup_Build (sb_Prims s) id sample_fs sample_options = Inr p" "\<not> bo_Tombstone sample_options" "bo_Key sample_options = Some (sb_Key s)"
    "files_fit (sb_Prims s) id sample_fs sample_options" "\<forall>(q, raw) \<in> set (originals sample_fs sample_options). checkPath q = None"
    "\<not> sb_Batch s" "backup_Submit s p None sample_world = (Inr (), st)" "no_collision (fake_sent q (us_World st))"
    "list_all (\<lambda>m. chunk_Decode m = None) (anchorMemos s)"
    "pm_of_json (sb_Prims s) (Marshal (pm_to_json (sb_Prims s)) (us_Manifest st)) = Some ((us_Manifest st)\<lparr>mn_V := manifest_Version\<rparr>)"
    "pm_of_json (sb_Prims s) [] = None"
    and "sb_Key s = sample_keyfile" "pm_sha256 (sb_Prims s) = sample_sha" "sb_DumpOut s = ''dump.json''" "sb_Sha512 s = seq_hash"
proof -
  let ?rand = "\<lambda>_ :: nat. [] :: byte list"
  obtain p where p: "backup_Build sample_prims id sample_fs sample_options = Inr p" using sample_plan by blast
  obtain st where st: "backup_Submit (on_fake ?rand sample_sub) p None sample_world = (Inr (), st)" "no_collision (fake_sent sample_sub (us_World st))"
    using funded_completes [where s = sample_sub and lo = id and fs = sample_fs and opts = sample_options, OF sample_run_ready [OF p]] by blast
  define j where "j = (\<lambda>b :: byte list. if b = [] then None else Some ((us_Manifest st)\<lparr>mn_V := manifest_Version\<rparr>))"
  define q where "q = reread j sample_sub"
  define s where "s = on_fake ?rand q"
  have b: "sb_Prims s = sample_prims\<lparr>pm_of_json := j\<rparr>" "sb_Key s = sample_keyfile" "\<not> sb_Batch s" "sb_DumpOut s = ''dump.json''" "sb_Sha512 s = seq_hash"
    by (simp_all add: s_def q_def) (simp_all add: sample_sub_def)
  have run: "backup_Submit s p None sample_world = (Inr (), st)"
    using st(1) reread_submit [of "on_fake ?rand sample_sub" j p sample_world] by (simp add: s_def q_def reread_on_fake) (simp add: sample_sub_def)
  have sub: "submission s (fake_invar q) (fake_sent q)" unfolding s_def by (rule fake_run.submission_axioms)
  have inv: "fake_invar q sample_world" by (simp add: fake_invar_def sample_world_def Fund_def fake_New_def)
  have ok: "prims_ok (sb_Prims s)" using sample_prims_ok by (simp add: b prims_ok_def)
  have bld: "backup_Build (sb_Prims s) id sample_fs sample_options = Inr p" using p by (simp add: b reread_build)
  have opt: "\<not> bo_Tombstone sample_options" "bo_Key sample_options = Some (sb_Key s)" by (simp_all add: sample_options_def b)
  have fit: "files_fit (sb_Prims s) id sample_fs sample_options"
    using sample_gather(3-5) by (force simp: files_fit_def b reread_gather sample_gather(1) list_all_iff)
  have paths: "\<forall>(q, raw) \<in> set (originals sample_fs sample_options). checkPath q = None" using sample_paths(3) by (simp add: sample_originals)
  have nc: "no_collision (fake_sent q (us_World st))" using st(2) by (simp add: fake_sent_def q_def)
  have am: "list_all (\<lambda>m. chunk_Decode m = None) (anchorMemos s)" by (simp add: s_def q_def anchorMemos_def on_fake_def reread_def sample_sub_def)
  have js: "pm_of_json (sb_Prims s) (Marshal (pm_to_json (sb_Prims s)) (us_Manifest st)) = Some ((us_Manifest st)\<lparr>mn_V := manifest_Version\<rparr>)"
    "pm_of_json (sb_Prims s) [] = None"
    by (simp_all add: b j_def Marshal_def sample_prims_def)
  have "pm_sha256 (sb_Prims s) = sample_sha" by (simp add: b sample_prims_def)
  then show ?thesis using that [OF sub inv ok bld opt fit paths b(3) run nc am js b(2) _ b(4,5)] by blast
qed




end
