(* ===== verification/Cmd_Offline.thy ===== *)
theory Cmd_Offline
  imports Cmd_Run Endtoend
begin

text \<open>
  From end to end through the commands: what \<^verbatim>\<open>backup --submit\<close> leaves on disk, and that \<^verbatim>\<open>restore --dump\<close> makes the
  operator's files of it.
\<close>

section \<open>The anchored backup is found\<close>

lemma check_anchor_head:
  assumes "check_anchor a cs = (ok, c # cs', w)" "cd_BackupID c = an_BackupID a" "mn_Epoch (cd_Manifest c) = an_Epoch a" "mn_Seq (cd_Manifest c) = an_Seq a"
  shows "cd_FromAnchor c"
  using assms by (cases cs) (auto simp: Let_def split: if_splits prod.splits)

lemma anchor_not_missing:
  assumes "discover_Run pm rd keys account hint = Inr res" "rs_Latest res = Some c" "read_anchor pm rd keys account = Inr (Some a, True, w)"
    and "cd_BackupID c = an_BackupID a" "mn_Epoch (cd_Manifest c) = an_Epoch a" "mn_Seq (cd_Manifest c) = an_Seq a"
  shows "rs_AnchorMissing res = None"
proof -
  obtain txs rng where t: "rd_AccountTx rd account = Inr (txs, rng)"
    using assms(1,3) by (cases "rd_AccountTx rd account") (auto simp: discover_Run_def)
  obtain opened pending where o: "search_history pm keys (start_epoch hint (Some a) True) hint (scan account txs) = (opened, pending)"
    by (rule prod.exhaust)
  obtain ok' cands aw where c: "anchor_step (Some a) True (uniq (sort_stable candidate_before opened)) = (ok', cands, aw)"
    by (rule prod_cases3)
  have r: "rs_Latest res = latest_of cands \<and> rs_AnchorMissing res = anchor_missing (trusted (Some a) ok') rng (latest_of cands)"
    using assms(1) [symmetric] unfolding discover_Run_def assms(3) t and_then_simps prod.case sum.case Let_def o c
    by (simp only: sum.inject discovery.simps)
  then obtain cs where "cands = c # cs" using assms(2) by (auto simp: latest_of_def split: list.splits if_splits)
  then have "cd_FromAnchor c" using check_anchor_head [of a] c assms(4-6) by (simp add: anchor_step_def trusted_def)
  moreover have "latest_of cands = Some c" using r assms(2) by simp
  ultimately show ?thesis using r by (simp add: anchor_missing_def trusted_def)
qed

section \<open>What a run saves\<close>

lemma plan_parts_length: "has_parts pm lo fs opts p q \<Longrightarrow> length (bp_ChunkMemos p) \<le> MaxChunks"
  using each_ok_nth(1) by (fastforce simp: has_parts_def)

lemma address_nonempty:
  assumes "\<And>x. length (sha256 x) = 32" "length i = 20"
  shows "EncodeAddress sha256 i \<noteq> []"
proof
  assume "EncodeAddress sha256 i = []"
  then have "DecodeBase58Check sha256 [] prefixAccountID 20 = Inr i" using decode_check_iff [of sha256, OF assms(1)] assms(2) by (simp add: EncodeAddress_def)
  then show False by (auto simp: DecodeBase58Check_def decodeBase58_def Let_def split: option.splits if_splits)
qed

context submission
begin

lemma last_step:
  assumes "sub_defaults s = s" "\<not> sb_Batch s" "backup_Submit s p None w = (Inr (), st)" "invar w"
  shows "\<exists>h l l' u. us_Manifest u = us_Manifest st \<and>
    saveDump s (set_did (Some \<lparr>dd_LedgerIndex = l', dd_Data = upper_hex (anchor_data s (anchor_record p (us_Manifest st) (hex_prefix h) l))\<rparr>) u) = (Inr (), st)"
proof -
  let ?st = "submit_start s p None w" and ?z = "\<lparr>rz_recorded = [], rz_parts = []\<rparr>"
  have s0: "du_Txs (us_Dump ?st) = []" "us_World ?st = w" by (simp_all add: submit_start_def default_dump_def no_dump_def Let_def)
  have sq: "submit_sequential s p ?z ?st = (Inr (), st)" using assms(1-3) by (auto simp: backup_Submit_def Let_def s0 elim!: act_thenE)
  obtain us u h l v where u: "act_each (submit_chunk s ?z) (enumerate 0 (bp_ChunkMemos p)) ?st = (Inr us, u)"
    and v: "submit_manifest s p ?z u = (Inr (h, l), v)" and a: "sendAnchor s p h l v = (Inr (), st)"
    using sq by (auto simp: submit_sequential_def elim!: act_thenE)
  have iu: "invar (us_World u)" using submit_chunks_adds [OF assms(1) _ u] assms(4) by (auto simp: adds_def s0)
  then have iv: "invar (us_World v)" using submit_manifest_adds [OF assms(1) _ v iu] by (auto simp: adds_def)
  let ?d = "anchor_data s (anchor_record p (us_Manifest v) (hex_prefix h) l)"
  let ?f = "no_fields\<lparr>tx_Type := TxDIDSet, tx_Data := ?d, tx_Memos := anchorMemos s\<rparr>"
  obtain h' l' x where x: "send s ?f v = (Inr (h', l'), x)" "saveDump s (set_did (Some \<lparr>dd_LedgerIndex = l', dd_Data = upper_hex ?d\<rparr>) x) = (Inr (), st)"
    using a by (auto simp: sendAnchor_def Let_def elim!: act_thenE)
  have "plain_fields ?f" by (simp add: plain_fields_def no_fields_def)
  then have mx: "us_Manifest x = us_Manifest v" using send_adds [OF assms(1) x(1) iv] by blast
  moreover have "us_Manifest st = us_Manifest x" using saveDump_same [OF x(2)] by (simp add: same_log_def set_did_def)
  ultimately show ?thesis using x(2) by (intro exI [of _ h] exI [of _ l] exI [of _ l'] exI [of _ x]) simp
qed

lemma saveDump_written:
  assumes "saveDump s v = (Inr (), st)" "sb_DumpOut s \<noteq> []"
  shows "(\<exists>w'. sb_WriteFile s (sb_DumpOut s) (dump_json (us_Dump st)) w' = (True, us_World st)) \<and> du_V (us_Dump st) = dump_Version"
  using assms by (auto simp: saveDump_def dump_Save_def Let_def split: prod.splits if_splits)

lemma run_saved:
  assumes "sub_defaults s = s" "\<not> sb_Batch s" "backup_Submit s p None w = (Inr (), st)" "invar w" "sb_DumpOut s \<noteq> []"
  shows "(\<exists>w'. sb_WriteFile s (sb_DumpOut s) (dump_json (us_Dump st)) w' = (True, us_World st)) \<and> du_V (us_Dump st) = dump_Version"
  using last_step [OF assms(1-4)] saveDump_written [OF _ assms(5)] by blast

lemma run_anchor:
  assumes "sub_defaults s = s" "\<not> sb_Batch s" "backup_Submit s p None w = (Inr (), st)" "invar w"
    and "prims_ok (sb_Prims s)" "length (bp_BackupID p) = 16" "mn_Epoch (us_Manifest st) = kf_Epoch (sb_Key s)"
  shows "\<exists>a. read_anchor (sb_Prims s) (dump_reader (sb_Fold s) (us_Dump st)) (FileKeys (kf_Epoch (sb_Key s)) (kf_Key (sb_Key s))) account = Inr (Some a, True, [])
    \<and> an_BackupID a = bp_BackupID p \<and> an_Epoch a = mn_Epoch (us_Manifest st) \<and> an_Seq a = mn_Seq (us_Manifest st)"
proof -
  obtain h l l' u where u: "saveDump s (set_did (Some \<lparr>dd_LedgerIndex = l', dd_Data = upper_hex (anchor_data s (anchor_record p (us_Manifest st) (hex_prefix h) l))\<rparr>) u) = (Inr (), st)"
    using last_step [OF assms(1-4)] by blast
  let ?a = "anchor_record p (us_Manifest st) (hex_prefix h) l"
  have "map_option dd_Data (du_DID (us_Dump st)) = Some (upper_hex (anchor_data s ?a))" using saveDump_same [OF u] by (simp add: same_log_def set_did_def)
  then have d: "rd_LedgerEntryDID (dump_reader (sb_Fold s) (us_Dump st)) account = Inr (anchor_data s ?a)"
    by (auto simp: dump_reader_def dump_DID_data_def split: option.splits)
  have "anchor_ok ?a" by (simp add: anchor_ok_def anchor_record_def)
  then have p: "anchor_Parse (anchor_data s ?a) = Inr ?a" "anchor_Verify (pm_hkdf (sb_Prims s)) (pm_hmac (sb_Prims s)) (kf_Key (sb_Key s)) (anchor_data s ?a)"
    using anchor_exact [of "pm_hmac (sb_Prims s)" ?a "pm_hkdf (sb_Prims s)"] assms(5) by (simp_all add: prims_ok_def anchor_data_def)
  then show ?thesis using assms(6,7) by (simp add: read_anchor_def d FileKeys_def anchor_record_def)
qed

text \<open>The dump passes the checks of \<^verbatim>\<open>dump.Load\<close>: every entry is a transaction of the account, and no hash is there twice.\<close>

lemma logged_valid:
  assumes "no_collision S" "logged S ms t" "\<And>x. sb_Sha512 s x \<noteq> []" "prims_ok (sb_Prims s)"
  shows "dump_tx_valid (sb_Fold s) t"
proof -
  note r = logged_record [OF assms(1,2)]
  have "length (writer_id s) = 20" by (simp add: writer_id_def AccountIDFromPublicKey_def length_ripemd160)
  then have "tr_Account (rec_of t) \<noteq> []" using address_nonempty assms(4) unfolding r(3) Address_def prims_ok_def by blast
  moreover obtain b where "dt_Hash t = Hash (sb_Sha512 s) b" using assms(2) by (auto simp: logged_def)
  then have "dt_Hash t \<noteq> []" using assms(3) by (simp add: Hash_def hex_encode_def)
  moreover obtain z where "ParseTxJSON (sb_Fold s) (dt_TxJSON t) None = Some z" "rec_of t = z\<lparr>tr_Hash := dt_Hash t, tr_LedgerIndex := dt_LedgerIndex t, tr_Validated := True, tr_Result := dt_Result t\<rparr>"
    using r(1) by (auto simp: dump_record_def)
  ultimately show ?thesis by (simp add: dump_tx_valid_def)
qed

lemma logged_distinct:
  assumes "no_collision S" "list_all2 (logged S) mss ts" "distinct mss"
  shows "distinct (map dt_Hash ts)"
  unfolding distinct_conv_nth
proof (intro allI impI notI)
  fix i j
  assume i: "i < length (map dt_Hash ts)" and j: "j < length (map dt_Hash ts)" and n: "i \<noteq> j" and e: "map dt_Hash ts ! i = map dt_Hash ts ! j"
  have l: "length mss = length ts" by (rule list_all2_lengthD [OF assms(2)])
  have "logged S (mss ! i) (ts ! i)" "logged S (mss ! j) (ts ! j)" using assms(2) i j by (simp_all add: list_all2_conv_all_nth)
  then have "mss ! i = mss ! j" using e i j assms(1) unfolding logged_def no_collision_def by (metis length_map nth_map)
  then show False using assms(3) i j n l by (simp add: nth_eq_iff_index_eq)
qed

lemma chunk_memo_payload:
  assumes "prims_ok (sb_Prims s)" "has_parts (sb_Prims s) lo fs opts p q" "i < length (bp_ChunkMemos p)"
  shows "\<exists>pl. chunk_Decode (bp_ChunkMemos p ! i) = Some pl \<and> pl_Type pl = TypeChunk \<and> pl_Index pl = of_nat i"
proof -
  let ?pm = "sb_Prims s"
  let ?f = "seal_piece ?pm (BackupKey (pm_hkdf ?pm) (kf_Key (pp_key q)) (pp_bid ?pm opts q)) (pp_bid ?pm opts q) (length (pp_pieces q))"
  have e: "each_ok ?f (enumerate 0 (pp_pieces q)) = Inr (pp_sealed q)" "bp_ChunkMemos p = map snd (pp_sealed q)" "length (pp_pieces q) \<le> MaxChunks"
    using assms(2) by (simp_all add: has_parts_def)
  have l: "length (pp_sealed q) = length (pp_pieces q)" using each_ok_nth(1) [OF e(1)] by simp
  then have i: "i < length (pp_pieces q)" using assms(3) e(2) by simp
  obtain ct memo where cm: "pp_sealed q ! i = (ct, memo)" by (rule prod.exhaust)
  have "?f (enumerate 0 (pp_pieces q) ! i) = Inr (ct, memo)" using each_ok_nth(2) [OF e(1), of i] i cm by simp
  then have c: "ct = SealChunk (pm_gcm ?pm) (BackupKey (pm_hkdf ?pm) (kf_Key (pp_key q)) (pp_bid ?pm opts q)) (pp_bid ?pm opts q) (of_nat i) (of_nat (length (pp_pieces q))) (pp_pieces q ! i)"
    "chunk_Encode TypeChunk (pp_bid ?pm opts q) (of_nat i) (of_nat (length (pp_pieces q))) [] ct = Inr memo"
    using i by (auto simp: seal_piece_def nth_enumerate_eq Let_def split: sum.splits)
  have "(of_nat i :: u16) < of_nat (length (pp_pieces q))" using i e(3) by (simp add: word_less_nat_alt unat_of_nat_len MaxChunks_def)
  moreover have "TagLen \<le> length ct" using assms(1) by (simp add: c(1) SealChunk_def gcm_length TagLen_def prims_ok_def)
  ultimately show ?thesis using decode_encoded_memo [OF c(2)] e(2) i l cm by auto
qed

lemma run_memos_distinct:
  assumes "prims_ok (sb_Prims s)" "has_parts (sb_Prims s) lo fs opts p q" "ManifestMemos (sb_Prims s) nonce key bid m = Inr (memos, body)"
    and "list_all (\<lambda>m. chunk_Decode m = None) (anchorMemos s)"
  shows "distinct (map (\<lambda>m. [m]) (bp_ChunkMemos p @ memos) @ [anchorMemos s])"
proof -
  let ?all = "bp_ChunkMemos p @ memos"
  have "length (bp_ChunkMemos p) \<le> MaxChunks" using plan_parts_length [OF assms(2)] .
  moreover have "length memos \<le> MaxManifestParts" using ManifestMemos_Inr(2,3) [OF assms(3)] by simp
  ultimately have u: "unat (of_nat i :: u16) = i" if "i < length (bp_ChunkMemos p) \<or> i < length memos" for i
  proof -
    have "i < 2 ^ 16" using that \<open>length (bp_ChunkMemos p) \<le> MaxChunks\<close> \<open>length memos \<le> MaxManifestParts\<close> by (auto simp: MaxChunks_def MaxManifestParts_def)
    then show ?thesis by (simp add: unat_of_nat_len)
  qed
  have c: "\<exists>pl. chunk_Decode (bp_ChunkMemos p ! i) = Some pl \<and> pl_Type pl = TypeChunk \<and> unat (pl_Index pl) = i" if "i < length (bp_ChunkMemos p)" for i
    using chunk_memo_payload [OF assms(1,2) that] u that by auto
  have m: "\<exists>pl. chunk_Decode (memos ! i) = Some pl \<and> pl_Type pl = TypeManifest \<and> unat (pl_Index pl) = i" if "i < length memos" for i
    using memo_payload [OF _ assms(3) that] assms(1) u that by (auto simp: prims_ok_def)
  have "distinct (bp_ChunkMemos p)" "distinct memos"
    using c m by (auto simp: distinct_conv_nth) (metis option.inject)+
  moreover have "set (bp_ChunkMemos p) \<inter> set memos = {}"
    using c m chunk_types by (fastforce simp: in_set_conv_nth)
  ultimately have d: "distinct ?all" by simp
  have "chunk_Decode x \<noteq> None" if "x \<in> set ?all" for x using that c m by (fastforce simp: in_set_conv_nth)
  moreover have "chunk_Decode x = None" if "anchorMemos s = [x]" for x using assms(4) that by simp
  ultimately have "anchorMemos s \<noteq> [x]" if "x \<in> set ?all" for x using that by blast
  then show ?thesis using d by (auto simp: distinct_map inj_on_def)
qed

lemma run_dump_valid:
  assumes "sub_defaults s = s" "\<not> sb_Batch s" "backup_Submit s p None w = (Inr (), st)" "invar w"
    and "prims_ok (sb_Prims s)" "backup_Build (sb_Prims s) lo fs opts = Inr p" "\<not> bo_Tombstone opts" "no_collision (sent (us_World st))"
    and "list_all (\<lambda>m. chunk_Decode m = None) (anchorMemos s)" "\<And>x. sb_Sha512 s x \<noteq> []"
  shows "dump_valid (sb_Fold s) up (us_Dump st)"
proof -
  obtain q where q: "has_parts (sb_Prims s) lo fs opts p q" using backup_Build_parts [OF assms(6,7)] by blast
  obtain nonce memos body where mm: "ManifestMemos (sb_Prims s) nonce (kf_Key (sb_Key s)) (bp_BackupID p) (us_Manifest st) = Inr (memos, body)"
    and l: "list_all2 (logged (sent (us_World st))) (map (\<lambda>m. [m]) (bp_ChunkMemos p @ memos) @ [anchorMemos s]) (du_Txs (us_Dump st))"
    using sequential_run [OF assms(1-4)] by metis
  have "distinct (map dt_Hash (du_Txs (us_Dump st)))" by (rule logged_distinct [OF assms(8) l run_memos_distinct [OF assms(5) q mm assms(9)]])
  moreover have "to_upper up (dt_Hash t) = dt_Hash t \<and> dump_tx_valid (sb_Fold s) t" if "t \<in> set (du_Txs (us_Dump st))" for t
  proof -
    note t = that
    obtain i where i: "i < length (du_Txs (us_Dump st))" "t = du_Txs (us_Dump st) ! i" using t by (auto simp: in_set_conv_nth)
    obtain ms where lg: "logged (sent (us_World st)) ms t" using list_all2_nthD2 [OF l i(1)] i(2) by blast
    then obtain b where "dt_Hash t = Hash (sb_Sha512 s) b" by (auto simp: logged_def)
    then show ?thesis using logged_valid [OF assms(8) lg assms(10,5)] Hash_upper by (simp add: to_upper_def)
  qed
  then have "dump_keys up (du_Txs (us_Dump st)) = map dt_Hash (du_Txs (us_Dump st))" "list_all (dump_tx_valid (sb_Fold s)) (du_Txs (us_Dump st))"
    by (simp_all add: dump_keys_def list_all_iff)
  ultimately show ?thesis by (simp add: dump_valid_def)
qed

lemma run_selected:
  assumes "sub_defaults s = s" "invar w" "prims_ok (sb_Prims s)" "backup_Build (sb_Prims s) lo fs opts = Inr p" "\<not> bo_Tombstone opts"
    and "bo_Key opts = Some (sb_Key s)" "files_fit (sb_Prims s) lo fs opts" "\<forall>(q, raw) \<in> set (originals fs opts). checkPath q = None"
    and "\<not> sb_Batch s" "backup_Submit s p None w = (Inr (), st)" "no_collision (sent (us_World st))"
    and "list_all (\<lambda>m. chunk_Decode m = None) (anchorMemos s)"
    and "pm_of_json (sb_Prims s) (Marshal (pm_to_json (sb_Prims s)) (us_Manifest st)) = Some ((us_Manifest st)\<lparr>mn_V := manifest_Version\<rparr>)"
    and "pm_of_json (sb_Prims s) [] = None"
  shows "\<exists>res c on bu rp.
    discover_Run (sb_Prims s) (dump_reader (sb_Fold s) (us_Dump st)) (FileKeys (kf_Epoch (sb_Key s)) (kf_Key (sb_Key s))) (Address s) (kf_Epoch (sb_Key s)) = Inr res
    \<and> rs_Latest res = Some c \<and> rs_Conflict res = None \<and> rs_AnchorMissing res = None \<and> \<not> mn_Tombstone (cd_Manifest c)
    \<and> Fetch (sb_Prims s) (dump_reader (sb_Fold s) (us_Dump st)) (FileKeys (kf_Epoch (sb_Key s)) (kf_Key (sb_Key s))) res c = Inr on
    \<and> discover_OpenBundle (sb_Prims s) (FileKeys (kf_Epoch (sb_Key s)) (kf_Key (sb_Key s))) c (bp_Bundle p) = Inr bu
    \<and> restore_Build (pm_sha256 (sb_Prims s)) (cd_Manifest c) on bu = Inr rp
    \<and> map (\<lambda>f. (rf_Path f, rf_Data f)) (rp_Files rp) = sort_key fst (originals fs opts) \<and> list_all (Complete (pm_sha256 (sb_Prims s))) (rp_Files rp)"
proof -
  obtain res c on bu rp where r: "discover_Run (sb_Prims s) (dump_reader (sb_Fold s) (us_Dump st)) (FileKeys (kf_Epoch (sb_Key s)) (kf_Key (sb_Key s))) (Address s) (kf_Epoch (sb_Key s)) = Inr res"
    "rs_Latest res = Some c"
    "Fetch (sb_Prims s) (dump_reader (sb_Fold s) (us_Dump st)) (FileKeys (kf_Epoch (sb_Key s)) (kf_Key (sb_Key s))) res c = Inr on"
    "discover_OpenBundle (sb_Prims s) (FileKeys (kf_Epoch (sb_Key s)) (kf_Key (sb_Key s))) c (bp_Bundle p) = Inr bu"
    "restore_Build (pm_sha256 (sb_Prims s)) (cd_Manifest c) on bu = Inr rp"
    "map (\<lambda>f. (rf_Path f, rf_Data f)) (rp_Files rp) = sort_key fst (originals fs opts)" "list_all (Complete (pm_sha256 (sb_Prims s))) (rp_Files rp)"
    and c: "cd_BackupID c = bp_BackupID p" "cd_Manifest c = (us_Manifest st)\<lparr>mn_V := manifest_Version\<rparr>"
    using run_restores_offline [OF assms] by blast
  obtain q where q: "has_parts (sb_Prims s) lo fs opts p q" using backup_Build_parts [OF assms(4,5)] by blast
  obtain ts where "us_Manifest st = noted 0 ts (bp_Manifest p)" using sequential_run [OF assms(1,9,10,2)] by blast
  then have fr: "us_Manifest st = (bp_Manifest p)\<lparr>mn_Chunks := mn_Chunks (us_Manifest st)\<rparr>" using noted_frame by simp
  have m: "\<not> mn_Tombstone (us_Manifest st)" "mn_Epoch (us_Manifest st) = kf_Epoch (sb_Key s)"
    using arg_cong [OF fr, of mn_Tombstone] arg_cong [OF fr, of mn_Epoch] q assms(6) by (simp_all add: has_parts_def)
  have "length (bp_BackupID p) = 16" using q assms(3) by (simp add: has_parts_def pp_bid_def length_BackupID prims_ok_def)
  from run_anchor [OF assms(1,9,10,2,3) this m(2), of "Address s"] obtain a where
    a: "read_anchor (sb_Prims s) (dump_reader (sb_Fold s) (us_Dump st)) (FileKeys (kf_Epoch (sb_Key s)) (kf_Key (sb_Key s))) (Address s) = Inr (Some a, True, [])"
    "an_BackupID a = bp_BackupID p" "an_Epoch a = mn_Epoch (us_Manifest st)" "an_Seq a = mn_Seq (us_Manifest st)" by blast
  have "rs_AnchorMissing res = None" by (rule anchor_not_missing [OF r(1,2) a(1)]) (simp_all add: c a)
  moreover have "rs_Conflict res = None" using run_newest [OF r(1)] r(2) by simp
  moreover have "\<not> mn_Tombstone (cd_Manifest c)" using m(1) by (simp add: c)
  ultimately show ?thesis using r by (intro exI [of _ res] exI [of _ c] exI [of _ on] exI [of _ bu] exI [of _ rp] conjI) assumption+
qed

end

section \<open>Restore from the dump\<close>

text \<open>The flags of a restore from a dump and a bundle with a key file; the account is in the key file or named.\<close>

definition from_dump :: "restore_flags \<Rightarrow> bool" where
  "from_dump f \<longleftrightarrow>
     (let sf = rx_Source f in
      sf_RPC sf = [] \<and> sf_Dump sf \<noteq> [] \<and> sf_Key sf \<noteq> [] \<and> \<not> sf_KeyPass sf \<and> sf_WordsFile sf = [] \<and> sf_SharesFile sf = []
      \<and> sf_Epoch sf = -1 \<and> sf_BackupID sf = [] \<and> rx_Bundle f \<noteq> [])"

text \<open>The files a restore reads: the dump of the run, the bundle of the plan and a plain key file.\<close>

definition left_on_disk :: "'v system \<Rightarrow> 'w submitter \<Rightarrow> plan \<Rightarrow> dump \<Rightarrow> restore_flags \<Rightarrow> 'v host \<Rightarrow> bool" where
  "left_on_disk y s p d f h \<longleftrightarrow>
     os_Read y (sf_Dump (rx_Source f)) h = Some (sy_Print y (dump_json d)) \<and> sy_Parse y (sy_Print y (dump_json d)) = Some (dump_json d)
     \<and> os_Read y (rx_Bundle f) h = Some (bp_Bundle p)
     \<and> (\<exists>kb. os_Read y (sf_Key (rx_Source f)) h = Some kb \<and> \<not> IsWrapped kb \<and> decode_key y kb None = Inr (sb_Key s))
     \<and> (sf_Account (rx_Source f) = Address s \<or> sf_Account (rx_Source f) = [] \<and> kf_AccountID (sb_Key s) = writer_id s)"

lemma load_left:
  assumes "os_Read y path h = Some (sy_Print y (dump_json d))" "sy_Parse y (sy_Print y (dump_json d)) = Some (dump_json d)"
    and "dump_valid (sy_Fold y) (pm_upper (sy_Prims y)) d" "du_V d = dump_Version"
  shows "load_dump y path h = Inr d"
  unfolding load_dump_def dump_Load_Inr using assms by (simp add: json_files_def dump_of_dump_json)

lemma loaded_reader [simp]: "reader_of (loaded_client uni d) h = dump_reader uni d"
  by (simp add: reader_of_def loaded_client_def dump_client_def dump_reader_def Let_def)

lemma address_decodes:
  assumes "prims_ok pm" "length i = 20"
  shows "\<not> isl (DecodeAddress (pm_sha256 pm) (EncodeAddress (pm_sha256 pm) i))" "EncodeAddress (pm_sha256 pm) i \<noteq> []"
proof -
  have l: "\<And>x. length (pm_sha256 pm x) = 32" using assms(1) by (simp add: prims_ok_def)
  show "EncodeAddress (pm_sha256 pm) i \<noteq> []" by (rule address_nonempty [OF l assms(2)])
  show "\<not> isl (DecodeAddress (pm_sha256 pm) (EncodeAddress (pm_sha256 pm) i))"
    using decode_encode_check [of "pm_sha256 pm", OF l assms(2)] by (simp add: DecodeAddress_def EncodeAddress_def)
qed

lemma resolve_left:
  assumes "from_dump f" "left_on_disk y s p d f h" "sy_Prims y = sb_Prims s" "sy_Fold y = sb_Fold s" "prims_ok (sb_Prims s)"
    and "dump_valid (sb_Fold s) (pm_upper (sb_Prims s)) d" "du_V d = dump_Version"
  shows "\<exists>og. resolve y (rx_Source f) h = (Inr og, h) \<and> og_Client og = loaded_client (sb_Fold s) d \<and> og_Account og = Address s
    \<and> og_Keys og = FileKeys (kf_Epoch (sb_Key s)) (kf_Key (sb_Key s)) \<and> og_Hint og = kf_Epoch (sb_Key s)"
proof -
  have "load_dump y (sf_Dump (rx_Source f)) h = Inr d"
    by (rule load_left) (use assms in \<open>simp_all add: left_on_disk_def\<close>)
  moreover obtain kb where "os_Read y (sf_Key (rx_Source f)) h = Some kb" "\<not> IsWrapped kb" "decode_key y kb None = Inr (sb_Key s)"
    using assms(2) by (auto simp: left_on_disk_def)
  moreover have "length (writer_id s) = 20" by (simp add: writer_id_def AccountIDFromPublicKey_def length_ripemd160)
  note address_decodes [OF assms(5) this, folded Address_def]
  ultimately show ?thesis using assms(1,2,4)
    by (auto simp: left_on_disk_def from_dump_def Let_def resolve_def openClient_def act_then_def act_of_def act_ok_def source_key_def findKeyFile_def loadKeyFile_def
        os_ReadFile_def source_keys_def epoch_hint_def assms(3) Address_def)
qed



section \<open>What a submission leaves\<close>

lemma split_on_snoc: "d \<notin> set w \<Longrightarrow> split_on d (s @ d # w) = split_on d s @ [w]"
  by (induction s) (auto simp: split_on_last split: list.splits)

lemma clean_loop_snoc: "plain b \<Longrightarrow> clean_loop r out (ps @ [b]) = clean_loop r out ps @ [b]"
  by (induction r out ps rule: clean_loop.induct) (auto simp: plain_def)

lemma join_snoc: "\<exists>pre. join d (xs @ [b]) = pre @ b"
  by (induction xs) (auto simp: join_Cons intro: exI [of _ "[]"])

lemma Clean_ends:
  assumes "split_on slash p = xs @ [b]" "plain b"
  shows "\<exists>pre. Clean p = pre @ b"
proof -
  obtain pre where "join ''/'' (clean_loop (has_prefix p ''/'') [] (split_on slash p)) = pre @ b"
    using join_snoc unfolding assms(1) clean_loop_snoc [OF assms(2)] by blast
  then show ?thesis using assms(2) by (auto simp: Clean_def Let_def plain_def)
qed

lemma Join_ends: "plain b \<Longrightarrow> \<exists>pre. Join a b = pre @ b"
  using Clean_ends [of b "[]" b] Clean_ends [of "a @ ''/'' @ b" "split_on slash a" b]
  by (auto simp: Join_def split_on_last split_on_snoc plain_def)

text \<open>The names of the two files of a backup differ.\<close>

lemma output_names:
  assumes "slash \<notin> set (mn_BackupID (bp_Manifest p))"
  shows "dump_path out p \<noteq> Join out (mn_BackupID (bp_Manifest p) @ ''.bundle'')"
proof -
  let ?i = "mn_BackupID (bp_Manifest p)"
  have "plain (?i @ ''.bundle'')" "plain (?i @ ''.dump.json'')" using assms by (auto simp: plain_def append_eq_Cons_conv)
  note e = Join_ends [OF this(1), of out] Join_ends [OF this(2), of out]
  have "last (Join out (?i @ ''.bundle'')) = CHR ''e''" using e(1) by auto
  moreover have "last (Join out (?i @ ''.dump.json'')) = CHR ''n''" using e(2) by auto
  ultimately have "last (Join out (?i @ ''.dump.json'')) \<noteq> last (Join out (?i @ ''.bundle''))" by simp
  then show ?thesis unfolding dump_path_def by (rule contrapos_nn) (rule arg_cong)
qed

lemma prepare_plan:
  assumes "prepare_submit y f c writer att opts h = (Inr (p, batch, memos), h')"
  shows "backup_Build (sy_Prims y) (sy_Lower y) (host_fs y h) opts = Inr p"
  using assms by (auto simp: prepare_submit_def act_then_eq build_plan_def fail_def split: if_splits)

text \<open>
  A submission that reports success went through \<^verbatim>\<open>Submit\<close> with that plan, and left the bundle in the output directory; it
  wrote nothing after the run but that bundle.
\<close>

lemma doSubmit_ran:
  assumes "doSubmit y f c writer kf att opts h = (Inr p, h')" "\<not> bo_Tombstone opts" "\<not> mn_Tombstone (bp_Manifest p)"
  shows "\<exists>batch memos h1 st. backup_Build (sy_Prims y) (sy_Lower y) (host_fs y h) opts = Inr p
    \<and> backup_Submit (host_submitter y f c writer kf (dump_path (bf_Out f) p) batch memos) p (earlier_dump y (dump_path (bf_Out f) p) p h1) h1 = (Inr (), st)
    \<and> ho_Files h' (Join (bf_Out f) (mn_BackupID (bp_Manifest p) @ ''.bundle'')) = Some (File (bp_Bundle p))
    \<and> (\<forall>q. q \<noteq> Join (bf_Out f) (mn_BackupID (bp_Manifest p) @ ''.bundle'') \<and> q \<noteq> bf_Out f \<longrightarrow> ho_Files h' q = ho_Files (us_World st) q)"
proof -
  obtain batch memos h1 h2 h3 where s: "prepare_submit y f c writer att opts h = (Inr (p, batch, memos), h1)"
    "submit_plan (host_submitter y f c writer kf (dump_path (bf_Out f) p) batch memos) p (earlier_dump y (dump_path (bf_Out f) p) p h2) False h2 = (Inr (), h3)"
    "writeBundle y p (bf_Out f) h3 = (Inr (), h')"
    using assms(1,2) unfolding doSubmit_def act_then_eq by (auto simp: fail_def act_then_eq split: if_splits)
  obtain st where st: "backup_Submit (host_submitter y f c writer kf (dump_path (bf_Out f) p) batch memos) p (earlier_dump y (dump_path (bf_Out f) p) p h2) h2 = (Inr (), st)"
    "h3 = us_World st"
    using s(2) by (auto simp: submit_plan_def split: prod.splits sum.splits)
  obtain h4 where w: "os_MkdirAll y (bf_Out f) h3 = (Inr (), h4)"
    "os_WriteFile y (Join (bf_Out f) (mn_BackupID (bp_Manifest p) @ ''.bundle'')) (bp_Bundle p) h4 = (Inr (), h')"
    using s(3) assms(3) by (auto simp: writeBundle_def act_then_eq)
  show ?thesis using prepare_plan [OF s(1)] st(1) write_file_cases [OF w(2)] mkdir_files [OF w(1)] unfolding st(2)
    by (intro exI [of _ batch] exI [of _ memos] exI [of _ h2] exI [of _ st]) auto
qed

text \<open>The dump file of such a run holds the dump at its end, and the bundle is written beside it.\<close>

lemma run_leaves_dump:
  assumes "submission (host_submitter y f c writer kf (dump_path out p) False memos) invar sent" "invar h"
    and "backup_Submit (host_submitter y f c writer kf (dump_path out p) False memos) p None h = (Inr (), st)" "dump_path out p \<noteq> []"
  shows "ho_Files (us_World st) (dump_path out p) = Some (File (sy_Print y (dump_json (us_Dump st))))"
proof -
  let ?s = "host_submitter y f c writer kf (dump_path out p) False memos"
  have eq: "sb_Batch (sub_defaults ?s) = False" "sb_DumpOut (sub_defaults ?s) = dump_path out p" "sb_WriteFile (sub_defaults ?s) = sb_WriteFile ?s"
    by (simp_all add: sub_defaults_def host_submitter_def)
  obtain h' where "sb_WriteFile ?s (dump_path out p) (dump_json (us_Dump st)) h' = (True, us_World st)"
    using submission.run_saved [OF submission_defaults [OF assms(1)] sub_defaults_idem, unfolded eq submit_defaults, OF _ assms(3,2,4)] by blast
  then obtain r where "os_WriteFile y (dump_path out p) (sy_Print y (dump_json (us_Dump st))) h' = (r, us_World st)" "\<not> isl r"
    by (auto simp: host_submitter_def Let_def split: prod.splits)
  then show ?thesis using write_file_cases by blast
qed

end
