(* ===== verification/Spec2Isabelle.thy ===== *)
theory Spec2Isabelle
  imports Anchor Chunk Ripemd160 Cmd_Offline
begin

text \<open>
  A model of \<^verbatim>\<open>xrplbak\<close>, a tool that keeps encrypted backups of a validator's configuration on the XRP ledger, and the
  theorems that make it correct.  \<^verbatim>\<open>backup\<close> splits each config file into a part that is safe on a public ledger and a
  part that goes into a local bundle, seals both, publishes the first in transaction memos with a manifest and a DID
  anchor, and records every transaction in a dump file.  \<^verbatim>\<open>restore\<close> finds the newest manifest the key can open, on a
  server or in the dump, fetches the chunks, opens the bundle and merges the two parts back into the files.

  \<^bold>\<open>Theories and sources\<close> (paths under \<^verbatim>\<open>src/internal\<close>, unless they start with \<^verbatim>\<open>cmd\<close>)

  \<^item> \<^verbatim>\<open>Prelude\<close>, \<^verbatim>\<open>Digits\<close>, \<^verbatim>\<open>Go_Strings\<close>, \<^verbatim>\<open>Go_Path\<close>, \<^verbatim>\<open>Net\<close>, \<^verbatim>\<open>Regex\<close>: shared lemmas, byte order and readers (the
    locale \<open>prefix_codec\<close>), and what the code uses of Go's \<^verbatim>\<open>strings\<close>, \<^verbatim>\<open>path\<close>, \<^verbatim>\<open>net\<close> and \<^verbatim>\<open>regexp\<close>.
  \<^item> \<^verbatim>\<open>Cfg\<close>, \<^verbatim>\<open>Redact\<close>: \<^verbatim>\<open>cfg/cfg.go\<close> and \<^verbatim>\<open>redact/redact.go\<close>.  Rendering what was parsed gives the bytes back; nothing
    the rules call secret stays on chain; merging the two parts restores the file.
  \<^item> \<^verbatim>\<open>Container\<close>, \<^verbatim>\<open>Crypto\<close>, \<^verbatim>\<open>Shamir\<close> (with \<^verbatim>\<open>Galois\<close>, \<^verbatim>\<open>Lagrange\<close>), \<^verbatim>\<open>Shares\<close>, \<^verbatim>\<open>Words\<close>: \<^verbatim>\<open>container/\<close> and
    \<^verbatim>\<open>crypto/\<close>.  Archives, sealed streams and key files open exactly to what was sealed; shares of a secret give it
    back from any quorum and nothing below it; recovery words are exact.
  \<^item> \<^verbatim>\<open>Codec\<close>, \<^verbatim>\<open>Base58\<close>, \<^verbatim>\<open>Ripemd160\<close>, \<^verbatim>\<open>Ledger\<close>, \<^verbatim>\<open>Client\<close>: \<^verbatim>\<open>xrpl/codec\<close>, \<^verbatim>\<open>xrpl/sign\<close> and \<^verbatim>\<open>xrpl/client.go\<close>.  A
    transaction reads back as it was written, and a signing payload names one transaction.  A call of a client is an
    action on the outside world; the locale \<open>tx_index\<close> is the contract of a client that answers from records it holds.
  \<^item> \<^verbatim>\<open>Chunk\<close>, \<^verbatim>\<open>Anchor\<close>, \<^verbatim>\<open>Manifest\<close>, \<^verbatim>\<open>Pubattest\<close>: memo payloads, the anchor record, the manifest and public
    attestations, \<^verbatim>\<open>chunk/\<close>, \<^verbatim>\<open>anchor/\<close>, \<^verbatim>\<open>manifest/\<close>, \<^verbatim>\<open>pubattest/\<close>.
  \<^item> \<^verbatim>\<open>Discover\<close>, \<^verbatim>\<open>Restore\<close>: \<^verbatim>\<open>discover/discover.go\<close> and \<^verbatim>\<open>restore/restore.go\<close>.  Every candidate is authentic, the
    selected one is the newest, what is fetched is what the manifest commits to, and nothing is written outside the
    target directory.
  \<^item> \<^verbatim>\<open>Backup\<close>, \<^verbatim>\<open>Send\<close>, \<^verbatim>\<open>Batch\<close>, \<^verbatim>\<open>Submit\<close>: \<^verbatim>\<open>backup/backup.go\<close> and \<^verbatim>\<open>backup/batch.go\<close>.  A plan restores to the files it
    was made from; the sequential and the batched run, the resume of an interrupted one and the next sequence number.
    A \<^verbatim>\<open>Submitter\<close> is the record \<open>submitter\<close>; the world, the dump and the manifest it changes are the state \<open>sub_state\<close>.
  \<^item> \<^verbatim>\<open>Dump\<close>: \<^verbatim>\<open>dump/dump.go\<close>, an instance of \<open>tx_index\<close>.  A merged dump loads again exactly.
  \<^item> \<^verbatim>\<open>Offline\<close>: the contract a run relies on (locales \<open>honest_ledger\<close> and \<open>submission\<close>), and that a run that reports
    success leaves a dump from which discovery, fetch and restore give the operator's files.
  \<^item> \<^verbatim>\<open>Fake\<close>, \<^verbatim>\<open>Endtoend\<close>: \<^verbatim>\<open>xrpl/fake/fake.go\<close>, an instance of all three contracts, and that a run of a funded account on
    it completes.

  \<^item> \<^verbatim>\<open>Rpc\<close> (with \<^verbatim>\<open>Float64\<close>): \<^verbatim>\<open>xrpl/rpc/rpc.go\<close> over JSON trees.  Paging ends and is complete, an error is never read as
    an answer, and fees come through binary64 arithmetic exactly.
  \<^item> \<^verbatim>\<open>Cmd\<close>: what the commands of \<^verbatim>\<open>cmd/xrplbak\<close> share (\<^verbatim>\<open>main.go\<close>).  The host of a command is the record \<open>host\<close> (files, unread
    input, outside world); what does not change during a run is \<open>system\<close>; a command is an action on the host.  The locale
    \<open>frame\<close> says what a command leaves alone, once for every relation that is reflexive and transitive.
  \<^item> \<^verbatim>\<open>Cmd_Init\<close>, \<^verbatim>\<open>Cmd_Attest\<close>, \<^verbatim>\<open>Cmd_Restore\<close>, \<^verbatim>\<open>Cmd_Backup\<close>, \<^verbatim>\<open>Cmd_Run\<close>: the seven commands and their dispatch, from the files
    \<^verbatim>\<open>cmd_*.go\<close> and \<^verbatim>\<open>main.go\<close>.  A new key is recoverable, a rotation loses no file, nothing is sent without consent, a
    restore stays in its target, and the exit code tells the outcome.
  \<^item> \<^verbatim>\<open>Cmd_Offline\<close>: the commands put together.  What \<^verbatim>\<open>backup --submit\<close> leaves on disk passes the checks of \<^verbatim>\<open>dump.Load\<close>, and
    \<^verbatim>\<open>restore --dump\<close> makes exactly the operator's files of it.

  \<^bold>\<open>Parameters.\<close>  AES-GCM, HKDF, HMAC, PBKDF2, SHA-256, SHA-512, Ed25519, DEFLATE, the text form of JSON, Unicode case tables
  beyond ASCII, random bytes, the clock, one HTTP exchange and the faults of the file system are not under \<^verbatim>\<open>src/\<close>.
  They are arguments, and what a theorem needs of them is a named hypothesis (\<open>gcm_ok\<close>, \<open>prims_ok\<close>, \<open>signs_ok\<close>,
  \<open>hashes_differ\<close>, \<open>no_collision\<close>, \<open>host_ok\<close>, \<open>draws_ok\<close>), shown to be satisfiable by the witness of the theorem.

  \<^bold>\<open>Bounds and fuel.\<close>  Loops are structural recursions or have a termination proof.  The three attempts and the 45 looks
  of \<^verbatim>\<open>send\<close>, the 5000 pages of \<^verbatim>\<open>AccountTx\<close>, the 100 names of \<^verbatim>\<open>moveAside\<close> and the three tries of the re-entry check are the
  source's own bounds; the reader of the codec runs on the length of its input, which is enough because every step
  consumes a byte.

  \<^bold>\<open>Not modelled.\<close>  The text of reports, log lines and error messages, except where a decision rests on it: an error is a
  constructor with the values its message prints.  The standard library's parsing of flags and of JSON text, the
  cut of an HTTP body at 64 MiB, symbolic links, and the modes and owners of written files.
  The wipe of a root key after its last use (\<^verbatim>\<open>Zero\<close>): the model keeps no memory of a finished call.  Discovery reads a
  server at one moment; the calls of a submission are threaded through the changing world one by one.
\<close>

end
